(* ===== verification/Repo_Prelude.thy ===== *)
theory Repo_Prelude
  imports Main "HOL-Library.Multiset"
begin

text \<open>
  Shared vocabulary of the development: the faults a run of the tool can end in, the sequencing
  of fallible steps, C strings, and the generic list lemmas the components use.
\<close>

named_theorems result_simps \<open>evaluation of sequenced fallible steps\<close>

section \<open>Faults and fallible computations\<close>

text \<open>
  The ways a run can go wrong that the source does not handle: reads outside a buffer, a null
  pointer passed to a C function, a heap block used or released twice, signed overflow, an
  uncaught exception of the JSON library, the template library or the standard library, a failed
  \<open>assert\<close>, the use of an object whose value was moved away, storage reused or released while an object
  lives in it, and process exit with a code. \<open>No_Fuel\<close> is no behaviour of the program: a recursion of
  the model ended at its bound.
\<close>

datatype fault =
    Out_Of_Bounds
  | Null_Pointer
  | Use_After_Free
  | Uninitialised
  | Parse_Error
  | Type_Error nat
  | Out_Of_Range nat
  | File_Error
  | Assertion_Failed
  | Std_Terminate
  | Exit int
  | Invalid_Iterator nat
  | Invalid_Argument
  | Std_Out_Of_Range
  | Length_Error
  | Signed_Overflow
  | Parser_Error
  | Render_Error
  | Json_Error
  | Moved_From
  | Object_Alive
  | No_Fuel

type_synonym 'a result = "fault + 'a"

fun and_then :: "'a result \<Rightarrow> ('a \<Rightarrow> 'b result) \<Rightarrow> 'b result" where
  "and_then (Inl e) f = Inl e"
| "and_then (Inr x) f = f x"

lemma and_then_Inr_iff [result_simps]:
  "and_then m f = Inr y \<longleftrightarrow> (\<exists>x. m = Inr x \<and> f x = Inr y)"
  by (cases m) auto

lemma and_then_Inl_iff [result_simps]:
  "and_then m f = Inl e \<longleftrightarrow> m = Inl e \<or> (\<exists>x. m = Inr x \<and> f x = Inl e)"
  by (cases m) auto

lemma and_then_cong [fundef_cong]:
  "m = m' \<Longrightarrow> (\<And>x. m' = Inr x \<Longrightarrow> f x = g x) \<Longrightarrow> and_then m f = and_then m' g"
  by (cases m') auto

lemma and_then_assoc: "and_then (and_then m f) g = and_then m (\<lambda>x. and_then (f x) g)"
  by (cases m) auto

text \<open>Run a fallible function over a list, stopping at the first fault.\<close>

fun map_result :: "('a \<Rightarrow> 'b result) \<Rightarrow> 'a list \<Rightarrow> 'b list result" where
  "map_result f [] = Inr []"
| "map_result f (x # xs) = and_then (f x) (\<lambda>y. and_then (map_result f xs) (\<lambda>ys. Inr (y # ys)))"

lemma map_result_all_ok:
  "(\<And>x. x \<in> set xs \<Longrightarrow> f x = Inr (g x)) \<Longrightarrow> map_result f xs = Inr (map g xs)"
  by (induction xs) auto

lemma map_result_length: "map_result f xs = Inr ys \<Longrightarrow> length ys = length xs"
  by (induction xs arbitrary: ys) (auto simp: result_simps)

text \<open>What is left of a size in 64 bits.\<close>

abbreviation wrap64 :: "nat \<Rightarrow> nat" where "wrap64 n \<equiv> n mod 2 ^ 64"

text \<open>Arrays: a list with checked access.\<close>

definition array_get :: "'a list \<Rightarrow> nat \<Rightarrow> 'a result" where
  "array_get xs i = (if i < length xs then Inr (xs ! i) else Inl Out_Of_Bounds)"

definition array_set :: "'a list \<Rightarrow> nat \<Rightarrow> 'a \<Rightarrow> 'a list result" where
  "array_set xs i x = (if i < length xs then Inr (xs[i := x]) else Inl Out_Of_Bounds)"

lemma array_get_ok [simp]: "i < length xs \<Longrightarrow> array_get xs i = Inr (xs ! i)"
  by (simp add: array_get_def)

lemma array_set_ok [simp]: "i < length xs \<Longrightarrow> array_set xs i x = Inr (xs[i := x])"
  by (simp add: array_set_def)

text \<open>A counted loop that stops at the first index with the property.\<close>

fun search :: "(nat \<Rightarrow> bool result) \<Rightarrow> nat list \<Rightarrow> nat option result" where
  "search p [] = Inr None"
| "search p (i # is) = and_then (p i) (\<lambda>b. if b then Inr (Some i) else search p is)"

lemma search_find: "(\<And>i. i \<in> set is \<Longrightarrow> p i = Inr (q i)) \<Longrightarrow> search p is = Inr (find q is)"
  by (induction "is") auto

section \<open>C strings\<close>

abbreviation byte :: "char \<Rightarrow> nat" where "byte c \<equiv> of_char c"

abbreviation NUL :: char where "NUL \<equiv> CHR 0x00"

text \<open>What a C function reads when it is given a buffer: the bytes before the first zero.\<close>

definition c_str :: "string \<Rightarrow> string" where
  "c_str s = takeWhile (\<lambda>c. c \<noteq> NUL) s"

definition nul_free :: "string \<Rightarrow> bool" where
  "nul_free s \<longleftrightarrow> NUL \<notin> set s"

lemma nul_free_list_all [code]: "nul_free s \<longleftrightarrow> list_all (\<lambda>c. c \<noteq> NUL) s"
  by (auto simp: nul_free_def list_all_iff)

lemma c_str_id [simp]: "nul_free s \<Longrightarrow> c_str s = s"
  unfolding c_str_def nul_free_def by (simp add: takeWhile_eq_all_conv) metis

lemma nul_free_c_str [simp]: "nul_free (c_str s)"
  unfolding c_str_def nul_free_def by (auto dest: set_takeWhileD)

lemma nul_free_append [simp]: "nul_free (s @ t) \<longleftrightarrow> nul_free s \<and> nul_free t"
  by (auto simp: nul_free_def)

lemma nul_free_Nil [simp]: "nul_free []"
  by (simp add: nul_free_def)

lemma nul_free_Cons [simp]: "nul_free (c # s) \<longleftrightarrow> c \<noteq> NUL \<and> nul_free s"
  by (auto simp: nul_free_def)

lemma c_str_append: "nul_free s \<Longrightarrow> c_str (s @ t) = s @ c_str t"
  unfolding c_str_def nul_free_def by (induction s) auto

text \<open>ASCII case folding, as \<open>strcasecmp\<close> does it in the C locale.\<close>

definition to_lower :: "char \<Rightarrow> char" where
  "to_lower c = (let n = of_char c :: nat in if 65 \<le> n \<and> n \<le> 90 then char_of (n + 32) else c)"

definition strcaseeq :: "string \<Rightarrow> string \<Rightarrow> bool" where
  "strcaseeq s t \<longleftrightarrow> map to_lower (c_str s) = map to_lower (c_str t)"

lemma strcaseeq_refl [simp]: "strcaseeq s s"
  by (simp add: strcaseeq_def)

lemma strcaseeq_sym: "strcaseeq s t \<longleftrightarrow> strcaseeq t s"
  by (auto simp: strcaseeq_def)

section \<open>Lists\<close>

lemma dropWhile_all: "list_all P xs \<Longrightarrow> dropWhile P xs = []"
  by (induction xs) auto

lemma take_takeWhile_length: "take (length (takeWhile P xs)) xs = takeWhile P xs"
  by (induction xs) auto

lemma drop_takeWhile_length: "drop (length (takeWhile P xs)) xs = dropWhile P xs"
  by (induction xs) auto

end
