(* ===== verification/Json_Utf8.thy ===== *)
theory Json_Utf8
  imports Repo_Prelude "HOL-Library.Word"
begin

unbundle bit_operations_syntax

text \<open>
  UTF-8 as the JSON library checks it (\<^verbatim>\<open>src/extlibs/json/json.hpp\<close>). The
  specification is the table of well-formed byte sequences: a lead byte announces the ranges of
  the bytes that follow it. The serializer decodes with a table-driven automaton
  (\<^verbatim>\<open>serializer::decode\<close>); the lemmas show that its states are exactly the pending
  ranges of the specification.
\<close>

section \<open>Well-formed byte sequences\<close>

definition lead_ranges :: "nat \<Rightarrow> (nat \<times> nat) list option" where
  "lead_ranges b =
     (if b < 0x80 then Some []
      else if 0xC2 \<le> b \<and> b \<le> 0xDF then Some [(0x80, 0xBF)]
      else if b = 0xE0 then Some [(0xA0, 0xBF), (0x80, 0xBF)]
      else if 0xE1 \<le> b \<and> b \<le> 0xEC \<or> 0xEE \<le> b \<and> b \<le> 0xEF then Some [(0x80, 0xBF), (0x80, 0xBF)]
      else if b = 0xED then Some [(0x80, 0x9F), (0x80, 0xBF)]
      else if b = 0xF0 then Some [(0x90, 0xBF), (0x80, 0xBF), (0x80, 0xBF)]
      else if 0xF1 \<le> b \<and> b \<le> 0xF3 then Some [(0x80, 0xBF), (0x80, 0xBF), (0x80, 0xBF)]
      else if b = 0xF4 then Some [(0x80, 0x8F), (0x80, 0xBF), (0x80, 0xBF)]
      else None)"

text \<open>Well-formed from the middle of a sequence whose remaining bytes have the given ranges.\<close>

fun utf8_from :: "(nat \<times> nat) list \<Rightarrow> string \<Rightarrow> bool" where
  "utf8_from [] [] = True"
| "utf8_from [] (c # s) =
     (case lead_ranges (byte c) of None \<Rightarrow> False | Some rs \<Rightarrow> utf8_from rs s)"
| "utf8_from (r # rs) [] = False"
| "utf8_from ((lo, hi) # rs) (c # s) = (lo \<le> byte c \<and> byte c \<le> hi \<and> utf8_from rs s)"

definition valid_utf8 :: "string \<Rightarrow> bool" where
  "valid_utf8 s \<longleftrightarrow> utf8_from [] s"

lemma lead_ranges_length: "lead_ranges b = Some rs \<Longrightarrow> length rs \<le> 3"
  by (auto simp: lead_ranges_def split: if_splits)

lemma lead_ranges_ascii [simp]: "b < 0x80 \<Longrightarrow> lead_ranges b = Some []"
  by (simp add: lead_ranges_def)

lemma lead_ranges_Nil: "lead_ranges b = Some [] \<longleftrightarrow> b < 0x80"
  by (auto simp: lead_ranges_def)

lemma lead_ranges_high: "lead_ranges b = Some rs \<Longrightarrow> r \<in> set rs \<Longrightarrow> 0x80 \<le> fst r"
  by (auto simp: lead_ranges_def split: if_splits)

lemma utf8_from_append: "utf8_from rs s \<Longrightarrow> utf8_from [] t \<Longrightarrow> utf8_from rs (s @ t)"
  by (induction rs s rule: utf8_from.induct) (auto split: option.splits)

lemma valid_utf8_append: "valid_utf8 s \<Longrightarrow> valid_utf8 t \<Longrightarrow> valid_utf8 (s @ t)"
  by (simp add: valid_utf8_def utf8_from_append)

lemma valid_utf8_Nil [simp]: "valid_utf8 []"
  by (simp add: valid_utf8_def)

lemma valid_utf8_ascii: "list_all (\<lambda>c. byte c < 0x80) s \<Longrightarrow> valid_utf8 s"
  unfolding valid_utf8_def by (induction s) auto

section \<open>The decoding automaton\<close>

abbreviation (input) UTF8_ACCEPT :: nat where "UTF8_ACCEPT \<equiv> 0"
abbreviation (input) UTF8_REJECT :: nat where "UTF8_REJECT \<equiv> 1"

definition utf8d :: "nat list" where
  "utf8d =
    [0, 0, 0, 0, 0, 0, 0, 0, 0, 0, 0, 0, 0, 0, 0, 0, 0, 0, 0, 0, 0, 0, 0, 0, 0, 0, 0, 0, 0, 0, 0, 0,
     0, 0, 0, 0, 0, 0, 0, 0, 0, 0, 0, 0, 0, 0, 0, 0, 0, 0, 0, 0, 0, 0, 0, 0, 0, 0, 0, 0, 0, 0, 0, 0,
     0, 0, 0, 0, 0, 0, 0, 0, 0, 0, 0, 0, 0, 0, 0, 0, 0, 0, 0, 0, 0, 0, 0, 0, 0, 0, 0, 0, 0, 0, 0, 0,
     0, 0, 0, 0, 0, 0, 0, 0, 0, 0, 0, 0, 0, 0, 0, 0, 0, 0, 0, 0, 0, 0, 0, 0, 0, 0, 0, 0, 0, 0, 0, 0,
     1, 1, 1, 1, 1, 1, 1, 1, 1, 1, 1, 1, 1, 1, 1, 1, 9, 9, 9, 9, 9, 9, 9, 9, 9, 9, 9, 9, 9, 9, 9, 9,
     7, 7, 7, 7, 7, 7, 7, 7, 7, 7, 7, 7, 7, 7, 7, 7, 7, 7, 7, 7, 7, 7, 7, 7, 7, 7, 7, 7, 7, 7, 7, 7,
     8, 8, 2, 2, 2, 2, 2, 2, 2, 2, 2, 2, 2, 2, 2, 2, 2, 2, 2, 2, 2, 2, 2, 2, 2, 2, 2, 2, 2, 2, 2, 2,
     0xA, 0x3, 0x3, 0x3, 0x3, 0x3, 0x3, 0x3, 0x3, 0x3, 0x3, 0x3, 0x3, 0x4, 0x3, 0x3,
     0xB, 0x6, 0x6, 0x6, 0x5, 0x8, 0x8, 0x8, 0x8, 0x8, 0x8, 0x8, 0x8, 0x8, 0x8, 0x8,
     0x0, 0x1, 0x2, 0x3, 0x5, 0x8, 0x7, 0x1, 0x1, 0x1, 0x4, 0x6, 0x1, 0x1, 0x1, 0x1,
     1, 1, 1, 1, 1, 1, 1, 1, 1, 1, 1, 1, 1, 1, 1, 1, 1, 0, 1, 1, 1, 1, 1, 0, 1, 0, 1, 1, 1, 1, 1, 1,
     1, 2, 1, 1, 1, 1, 1, 2, 1, 2, 1, 1, 1, 1, 1, 1, 1, 1, 1, 1, 1, 1, 1, 2, 1, 1, 1, 1, 1, 1, 1, 1,
     1, 2, 1, 1, 1, 1, 1, 1, 1, 2, 1, 1, 1, 1, 1, 1, 1, 1, 1, 1, 1, 1, 1, 3, 1, 3, 1, 1, 1, 1, 1, 1,
     1, 3, 1, 1, 1, 1, 1, 3, 1, 3, 1, 1, 1, 1, 1, 1, 1, 3, 1, 1, 1, 1, 1, 1, 1, 1, 1, 1, 1, 1, 1, 1]"

definition decode :: "nat \<Rightarrow> 32 word \<Rightarrow> nat \<Rightarrow> nat \<times> 32 word" where
  "decode state codep b =
     (let type = utf8d ! b;
          codep = (if state \<noteq> UTF8_ACCEPT then (word_of_nat b AND 0x3F) OR push_bit 6 codep
                   else drop_bit type 0xFF AND word_of_nat b)
      in (utf8d ! (256 + state * 16 + type), codep))"

text \<open>The pending ranges each live state stands for.\<close>

definition state_ranges :: "nat \<Rightarrow> (nat \<times> nat) list" where
  "state_ranges st =
     (if st = 2 then [(0x80, 0xBF)]
      else if st = 3 then [(0x80, 0xBF), (0x80, 0xBF)]
      else if st = 4 then [(0xA0, 0xBF), (0x80, 0xBF)]
      else if st = 5 then [(0x80, 0x9F), (0x80, 0xBF)]
      else if st = 6 then [(0x90, 0xBF), (0x80, 0xBF), (0x80, 0xBF)]
      else if st = 7 then [(0x80, 0xBF), (0x80, 0xBF), (0x80, 0xBF)]
      else if st = 8 then [(0x80, 0x8F), (0x80, 0xBF), (0x80, 0xBF)]
      else [])"

definition live_state :: "nat \<Rightarrow> bool" where
  "live_state st \<longleftrightarrow> st = 0 \<or> 2 \<le> st \<and> st \<le> 8"

text \<open>The byte classes of the first 256 entries, in closed form.\<close>

definition utf8_class :: "nat \<Rightarrow> nat" where
  "utf8_class b =
     (if b < 0x80 then 0 else if b < 0x90 then 1 else if b < 0xA0 then 9 else if b < 0xC0 then 7
      else if b < 0xC2 then 8 else if b < 0xE0 then 2 else if b = 0xE0 then 0xA
      else if b = 0xED then 4 else if b < 0xF0 then 3 else if b = 0xF0 then 0xB
      else if b < 0xF4 then 6 else if b = 0xF4 then 5 else 8)"

lemma take_utf8d: "take 256 utf8d = map utf8_class [0..<256]"
  by code_simp

lemma utf8d_class: "b < 256 \<Longrightarrow> utf8d ! b = utf8_class b"
  using take_utf8d nth_take [of b 256 utf8d] by simp

lemma drop_utf8d: "drop 256 utf8d =
    [0x0, 0x1, 0x2, 0x3, 0x5, 0x8, 0x7, 0x1, 0x1, 0x1, 0x4, 0x6, 0x1, 0x1, 0x1, 0x1,
     1, 1, 1, 1, 1, 1, 1, 1, 1, 1, 1, 1, 1, 1, 1, 1, 1, 0, 1, 1, 1, 1, 1, 0, 1, 0, 1, 1, 1, 1, 1, 1,
     1, 2, 1, 1, 1, 1, 1, 2, 1, 2, 1, 1, 1, 1, 1, 1, 1, 1, 1, 1, 1, 1, 1, 2, 1, 1, 1, 1, 1, 1, 1, 1,
     1, 2, 1, 1, 1, 1, 1, 1, 1, 2, 1, 1, 1, 1, 1, 1, 1, 1, 1, 1, 1, 1, 1, 3, 1, 3, 1, 1, 1, 1, 1, 1,
     1, 3, 1, 1, 1, 1, 1, 3, 1, 3, 1, 1, 1, 1, 1, 1, 1, 3, 1, 1, 1, 1, 1, 1, 1, 1, 1, 1, 1, 1, 1, 1]"
  by code_simp

lemma utf8d_transition: "utf8d ! (256 + n) = drop 256 utf8d ! n"
  by (rule nth_drop [symmetric]) (simp add: utf8d_def)

lemma all_less_9: "(\<forall>st<9::nat. P st) \<longleftrightarrow> P 0 \<and> P 1 \<and> P 2 \<and> P 3 \<and> P 4 \<and> P 5 \<and> P 6 \<and> P 7 \<and> P 8"
  by (simp add: numeral_eq_Suc All_less_Suc conj_ac)

definition next_state :: "nat \<Rightarrow> nat \<Rightarrow> nat" where
  "next_state st b = utf8d ! (256 + st * 16 + utf8_class b)"

lemma fst_decode: "b < 256 \<Longrightarrow> fst (decode st c b) = next_state st b"
  by (simp add: decode_def next_state_def utf8d_class Let_def)

text \<open>The second part of the table in closed form: the state after a byte of each class.\<close>

definition transition :: "nat \<Rightarrow> nat \<Rightarrow> nat" where
  "transition st cl =
     (if st = 0 then
        (if cl = 0 then 0 else if cl = 2 then 2 else if cl = 3 then 3 else if cl = 4 then 5
         else if cl = 5 then 8 else if cl = 6 then 7 else if cl = 10 then 4 else if cl = 11 then 6 else 1)
      else if st = 2 then if cl = 1 \<or> cl = 7 \<or> cl = 9 then 0 else 1
      else if st = 3 then if cl = 1 \<or> cl = 7 \<or> cl = 9 then 2 else 1
      else if st = 4 then if cl = 7 then 2 else 1
      else if st = 5 then if cl = 1 \<or> cl = 9 then 2 else 1
      else if st = 6 then if cl = 7 \<or> cl = 9 then 3 else 1
      else if st = 7 then if cl = 1 \<or> cl = 7 \<or> cl = 9 then 3 else 1
      else if st = 8 then if cl = 1 then 3 else 1
      else 1)"

lemma transition_table:
  "concat (map (\<lambda>st. map (transition st) [0..<12] @ [1, 1, 1, 1]) [0..<9]) = drop 256 utf8d"
  by code_simp

lemma nth_concat_rows:
  "(\<And>i. i < n \<Longrightarrow> length (f i) = k) \<Longrightarrow> i < n \<Longrightarrow> j < k \<Longrightarrow>
   concat (map f [0..<n]) ! (i * k + j) = f i ! j"
proof (induction n)
  case (Suc n)
  have len: "length (concat (map f [0..<m])) = m * k" if "m \<le> Suc n" for m
    using that Suc.prems(1) by (induction m) auto
  show ?case
  proof (cases "i < n")
    case True
    then have "i * k + j < n * k"
      using Suc.prems(3) by (metis add.commute add_less_cancel_right less_le_trans mult_Suc mult_le_mono1 Suc_leI)
    with True Suc len [of n] show ?thesis by (simp add: nth_append)
  next
    case False
    with Suc.prems have "i = n" by simp
    with Suc.prems len [of n] show ?thesis by (simp add: nth_append)
  qed
qed simp

lemma next_state_transition:
  assumes "st < 9"
  shows "next_state st b = transition st (utf8_class b)"
proof -
  have cl: "utf8_class b < 12" by (simp add: utf8_class_def)
  have "next_state st b = drop 256 utf8d ! (st * 16 + utf8_class b)"
    unfolding next_state_def add.assoc utf8d_transition ..
  also have "\<dots> = (map (transition st) [0..<12] @ [1, 1, 1, 1]) ! utf8_class b"
    unfolding transition_table [symmetric]
    by (rule nth_concat_rows) (use assms cl in simp_all)
  finally show ?thesis using cl by (simp add: nth_append)
qed

lemma byte_cases:
  assumes "b < (256 :: nat)"
  obtains "b < 0x80" | "0x80 \<le> b" "b < 0x90" | "0x90 \<le> b" "b < 0xA0" | "0xA0 \<le> b" "b < 0xC0"
    | "0xC0 \<le> b" "b < 0xC2" | "0xC2 \<le> b" "b < 0xE0" | "b = 0xE0" | "0xE0 < b" "b < 0xED"
    | "b = 0xED" | "0xED < b" "b < 0xF0" | "b = 0xF0" | "0xF0 < b" "b < 0xF4" | "b = 0xF4"
    | "0xF4 < b" "b < 256"
proof -
  note th = that
  consider "b < 0xC0" | "0xC0 \<le> b" "b < 0xED" | "0xED \<le> b" by linarith
  then show thesis
  proof cases
    case 1
    then consider "b < 0x80" | "0x80 \<le> b" "b < 0x90" | "0x90 \<le> b" "b < 0xA0" | "0xA0 \<le> b" "b < 0xC0"
      by linarith
    then show thesis by cases (fact th(1-4))+
  next
    case 2
    then consider "0xC0 \<le> b" "b < 0xC2" | "0xC2 \<le> b" "b < 0xE0" | "b = 0xE0" | "0xE0 < b" "b < 0xED"
      by linarith
    then show thesis by cases (fact th(5-8))+
  next
    case 3
    with assms consider "b = 0xED" | "0xED < b" "b < 0xF0" | "b = 0xF0" | "0xF0 < b" "b < 0xF4"
      | "b = 0xF4" | "0xF4 < b" "b < 256"
      by linarith
    then show thesis by cases (fact th(9-14))+
  qed
qed

lemma next_state_lead:
  assumes "b < 256"
  shows "case lead_ranges b of
      None \<Rightarrow> next_state 0 b = UTF8_REJECT
    | Some rs \<Rightarrow> live_state (next_state 0 b) \<and> state_ranges (next_state 0 b) = rs"
  using assms
  by (cases rule: byte_cases)
    (simp_all add: next_state_transition transition_def utf8_class_def lead_ranges_def
      state_ranges_def live_state_def)

lemma next_state_continue:
  assumes "b < 256" "live_state st" "state_ranges st = (lo, hi) # rs"
  shows "if lo \<le> b \<and> b \<le> hi then live_state (next_state st b) \<and> state_ranges (next_state st b) = rs
         else next_state st b = UTF8_REJECT"
proof -
  have "st = 2 \<or> st = 3 \<or> st = 4 \<or> st = 5 \<or> st = 6 \<or> st = 7 \<or> st = 8"
    using assms(2,3) by (auto simp: live_state_def state_ranges_def)
  then show ?thesis
    using assms(3)
    by (cases rule: byte_cases [OF assms(1)]; elim disjE)
      (simp_all add: next_state_transition transition_def utf8_class_def state_ranges_def live_state_def)
qed

lemma state_ranges_accept [simp]: "state_ranges 0 = []"
  by (simp add: state_ranges_def)

lemma state_ranges_Nil: "live_state st \<Longrightarrow> state_ranges st = [] \<longleftrightarrow> st = UTF8_ACCEPT"
  by (auto simp: live_state_def state_ranges_def)

section \<open>The decoded code point\<close>

lemma unat_continue:
  assumes "b < 256" "unat c < 2 ^ 25"
  shows "unat (((word_of_nat b :: 32 word) AND 0x3F) OR push_bit 6 c) = b mod 64 + 64 * unat c"
proof -
  have b: "unat ((word_of_nat b :: 32 word) AND 0x3F) = b mod 64"
  proof -
    have "unat ((word_of_nat b :: 32 word) AND mask 6) = b mod 64"
      using assms(1) by (simp only: flip: take_bit_eq_mask)
        (simp add: unsigned_take_bit_eq unsigned_of_nat take_bit_nat_eq_self, simp add: take_bit_eq_mod)
    then show ?thesis by (simp add: mask_eq_exp_minus_1)
  qed
  have c: "unat (push_bit 6 c) = 64 * unat c"
    using assms(2) by (simp only: unsigned_push_bit_eq) (simp add: push_bit_eq_mult take_bit_nat_eq_self)
  have "\<not> bit ((word_of_nat b :: 32 word) AND 0x3F) n \<or> \<not> bit (push_bit 6 c) n" for n
  proof (cases "n < 6")
    case True
    then show ?thesis by (simp add: bit_push_bit_iff)
  next
    case False
    have "\<not> bit (0x3F :: 32 word) n"
      using False by (simp flip: mask_eq_exp_minus_1 [where n=6 and 'a="32 word", simplified] add: bit_mask_iff)
    then show ?thesis by (simp add: bit_and_iff)
  qed
  then have "((word_of_nat b :: 32 word) AND 0x3F) OR push_bit 6 c
      = ((word_of_nat b :: 32 word) AND 0x3F) + push_bit 6 c"
    by (rule disjunctive_add [symmetric])
  moreover have "unat (((word_of_nat b :: 32 word) AND 0x3F) + push_bit 6 c) = b mod 64 + 64 * unat c"
  proof (subst unat_plus_simple [THEN iffD1])
    have "b mod 64 + 64 * unat c < 2 ^ 32" using assms by simp
    then show "(word_of_nat b :: 32 word) AND 0x3F \<le> (word_of_nat b AND 0x3F) + push_bit 6 c"
      using b c by (simp add: word_le_nat_alt unat_word_ariths)
  qed (simp add: b c)
  ultimately show ?thesis by simp
qed

text \<open>
  What the automaton knows of the code point in each state: enough to see that a code point
  decoded from several bytes is never an ASCII character.
\<close>

definition codep_inv :: "nat \<Rightarrow> 32 word \<Rightarrow> bool" where
  "codep_inv st c \<longleftrightarrow>
     (st = 2 \<longrightarrow> 2 \<le> unat c \<and> unat c < 2 ^ 16) \<and> (st = 3 \<longrightarrow> 1 \<le> unat c \<and> unat c < 2 ^ 10)
   \<and> (st = 4 \<or> st = 6 \<longrightarrow> unat c < 16) \<and> (st = 5 \<or> st = 7 \<or> st = 8 \<longrightarrow> 1 \<le> unat c \<and> unat c < 16)"

lemma unat_lead:
  assumes "b < 256"
  shows "unat (drop_bit k (0xFF :: 32 word) AND word_of_nat b) = b mod 2 ^ (8 - k)"
proof -
  have "drop_bit k (0xFF :: 32 word) = drop_bit k (mask 8)"
    by (simp add: mask_eq_exp_minus_1)
  also have "\<dots> = mask (8 - k)"
    by (rule bit_eqI) (auto simp: bit_drop_bit_eq bit_mask_iff)
  finally have "drop_bit k (0xFF :: 32 word) AND word_of_nat b = take_bit (8 - k) (word_of_nat b)"
    by (simp add: take_bit_eq_mask and.commute)
  then show ?thesis
    using assms(1) by (simp only: unsigned_take_bit_eq)
      (simp add: unsigned_of_nat take_bit_nat_eq_self, simp add: take_bit_eq_mod)
qed

lemma mod_in_block: "k * m \<le> b \<Longrightarrow> b < k * m + m \<Longrightarrow> b mod m = b - k * (m::nat)"
  by (metis add_diff_inverse_nat le_add_diff_inverse less_diff_conv2 mod_less mod_mult_self3 not_less
      add.commute nat_add_left_cancel_less)

lemma codep_lead:
  assumes b: "b < 256" and d: "decode 0 c b = (st, c')"
  shows "codep_inv st c'"
proof -
  have st: "st = next_state 0 b"
    using d fst_decode [OF b, of 0 c] by simp
  have "unat c' = b mod 2 ^ (8 - utf8_class b)"
    using d b unat_lead [OF b, of "utf8_class b"] by (auto simp: decode_def utf8d_class Let_def)
  then show ?thesis
    using mod_in_block [of 3 64 b] mod_in_block [of 7 32 b] mod_in_block [of 14 16 b]
      mod_in_block [of 30 8 b] mod_in_block [of 60 4 b]
    by (cases rule: byte_cases [OF b])
      (simp_all add: st next_state_transition transition_def utf8_class_def codep_inv_def, arith+)
qed

lemma class_low_bits:
  assumes "b < 256"
  shows "utf8_class b = 7 \<Longrightarrow> 2 \<le> b mod 64" "utf8_class b = 9 \<Longrightarrow> 1 \<le> b mod 64"
  using mod_in_block [of 2 64 b] by (cases rule: byte_cases [OF assms]; simp add: utf8_class_def)+

lemma codep_continue:
  assumes b: "b < 256" and live: "live_state st" "st \<noteq> 0" and inv: "codep_inv st c"
    and d: "decode st c b = (st', c')"
  shows "codep_inv st' c'" "st' = UTF8_ACCEPT \<Longrightarrow> 0x80 \<le> unat c'"
proof -
  have st': "st' = next_state st b"
    using d fst_decode [OF b, of st c] by simp
  have st: "st = 2 \<or> st = 3 \<or> st = 4 \<or> st = 5 \<or> st = 6 \<or> st = 7 \<or> st = 8"
    using live by (auto simp: live_state_def)
  have "unat c < 2 ^ 25"
    using inv st by (auto simp: codep_inv_def)
  then have c': "unat c' = b mod 64 + 64 * unat c"
    using d live(2) unat_continue [OF b] by (auto simp: decode_def Let_def)
  define m where "m = b mod 64"
  have m: "m < 64" by (simp add: m_def)
  have st9: "st < 9" using st by auto
  show "codep_inv st' c'"
    using st inv m class_low_bits [OF b, folded m_def]
    by (elim disjE)
      (simp_all add: st' next_state_transition transition_def codep_inv_def c' [folded m_def] split: if_splits, auto)
  show "st' = UTF8_ACCEPT \<Longrightarrow> 0x80 \<le> unat c'"
    using st inv m
    by (elim disjE)
      (simp_all add: st' next_state_transition transition_def codep_inv_def c' [folded m_def] split: if_splits)
qed

lemma decode_ascii:
  assumes "b < 0x80"
  shows "decode 0 c b = (0, word_of_nat b)"
proof -
  have cl: "utf8_class b = 0" using assms by (simp add: utf8_class_def)
  have "unat (drop_bit 0 (0xFF :: 32 word) AND word_of_nat b) = unat (word_of_nat b :: 32 word)"
    using unat_lead [of b 0] assms by (simp add: unsigned_of_nat take_bit_nat_eq_self)
  then have "drop_bit 0 (0xFF :: 32 word) AND word_of_nat b = (word_of_nat b :: 32 word)"
    by (simp only: word_unat_eq_iff)
  moreover have "next_state 0 b = 0"
    by (simp add: next_state_transition transition_def cl)
  ultimately show ?thesis
    using assms cl by (simp add: decode_def utf8d_class next_state_def Let_def)
qed

end
