(* ===== verification/Json_Number.thy ===== *)
theory Json_Number
  imports Repo_Prelude "HOL-Library.Word"
begin

text \<open>
  Writing integers: \<^verbatim>\<open>serializer::count_digits\<close> and
  \<^verbatim>\<open>serializer::dump_integer\<close> (\<^verbatim>\<open>src/extlibs/json/json.hpp\<close>), two
  digits at a time, backwards into a 64-byte buffer, from the position the digit count gives.
  The reference definition is the usual decimal text; the lemmas show that the routine writes
  exactly it and stays inside the buffer. Reading a decimal text back is here as well.
\<close>

section \<open>Decimal text\<close>

definition digit_char :: "nat \<Rightarrow> char" where
  "digit_char n = char_of (48 + n)"

fun show_nat :: "nat \<Rightarrow> string" where
  "show_nat n = (if n < 10 then [digit_char n] else show_nat (n div 10) @ [digit_char (n mod 10)])"

declare show_nat.simps [simp del]

definition is_digit :: "char \<Rightarrow> bool" where
  "is_digit c \<longleftrightarrow> 48 \<le> byte c \<and> byte c \<le> 57"

definition digits_value :: "string \<Rightarrow> nat" where
  "digits_value s = foldl (\<lambda>n c. n * 10 + (byte c - 48)) 0 s"

lemma digit_char_0: "digit_char 0 = CHR ''0''"
  by code_simp

lemma byte_digit_char: "n < 10 \<Longrightarrow> byte (digit_char n) = 48 + n"
  by (simp add: digit_char_def)

lemma is_digit_digit_char [simp]: "n < 10 \<Longrightarrow> is_digit (digit_char n)"
  by (simp add: is_digit_def byte_digit_char)

lemma digits_value_snoc [simp]: "digits_value (s @ [c]) = digits_value s * 10 + (byte c - 48)"
  by (simp add: digits_value_def)

lemma digits_value_show_nat: "digits_value (show_nat n) = n"
proof (induction n rule: show_nat.induct)
  case (1 n)
  then show ?case
    by (subst show_nat.simps) (auto simp: byte_digit_char digits_value_def)
qed

lemma show_nat_digits: "list_all is_digit (show_nat n)"
proof (induction n rule: show_nat.induct)
  case (1 n)
  then show ?case by (subst show_nat.simps) auto
qed

lemma show_nat_nonempty [simp]: "show_nat n \<noteq> []"
  by (subst show_nat.simps) simp

text \<open>No leading zero, except for zero itself.\<close>

lemma hd_show_nat: "0 < n \<Longrightarrow> hd (show_nat n) \<noteq> digit_char 0"
proof (induction n rule: show_nat.induct)
  case (1 n)
  show ?case
  proof (cases "n < 10")
    case True
    have "byte (digit_char n) \<noteq> byte (digit_char 0)"
      using True "1.prems" by (simp add: byte_digit_char)
    then show ?thesis using True by (subst show_nat.simps) auto
  next
    case False
    then have "0 < n div 10" by simp
    with 1 False show ?thesis by (subst show_nat.simps) (simp add: hd_append)
  qed
qed

lemma show_nat_100: "100 \<le> n \<Longrightarrow>
  show_nat n = show_nat (n div 100) @ [digit_char (n mod 100 div 10), digit_char (n mod 10)]"
proof -
  assume n: "100 \<le> n"
  have "n div 10 mod 10 = n mod 100 div 10"
    using mod_mult2_eq [of n 10 10] by simp
  then show ?thesis
    using n by (subst show_nat.simps, subst show_nat.simps) (simp add: div_mult2_eq [symmetric])
qed

section \<open>Counting digits\<close>

function count_digits :: "64 word \<Rightarrow> nat" where
  "count_digits x =
     (if x < 10 then 1 else if x < 100 then 2 else if x < 1000 then 3 else if x < 10000 then 4
      else 4 + count_digits (x div 10000))"
  by pat_completeness auto
termination
  by (relation "measure unat") (auto simp: word_less_nat_alt unat_div)

declare count_digits.simps [simp del]

lemma length_show_nat: "length (show_nat n) = (if n < 10 then 1 else Suc (length (show_nat (n div 10))))"
  by (subst show_nat.simps) simp

lemma count_digits_show_nat: "count_digits x = length (show_nat (unat x))"
proof (induction x rule: count_digits.induct)
  case (1 x)
  have d: "unat x div 10 div 10 = unat x div 100" "unat x div 100 div 10 = unat x div 1000"
    "unat x div 1000 div 10 = unat x div 10000"
    by (simp_all add: div_mult2_eq [symmetric])
  have IH: "10000 \<le> unat x \<Longrightarrow> count_digits (x div 10000) = length (show_nat (unat x div 10000))"
    using 1 by (simp add: word_less_nat_alt unat_div)
  show ?case
    using IH
    by (subst count_digits.simps)
      (simp add: word_less_nat_alt length_show_nat [of "unat x"] length_show_nat [of "unat x div 10"]
        length_show_nat [of "unat x div 100"] length_show_nat [of "unat x div 1000"] d
        div_less_iff_less_mult)
qed

lemma length_show_nat_bound: "n < 10 ^ Suc k \<Longrightarrow> length (show_nat n) \<le> Suc k"
proof (induction k arbitrary: n)
  case (Suc k)
  then have "n div 10 < 10 ^ Suc k" by (simp add: div_less_iff_less_mult mult.commute)
  with Suc.IH show ?case by (subst length_show_nat) auto
qed (simp add: length_show_nat)

section \<open>Writing an integer\<close>

text \<open>The pair \<^verbatim>\<open>digits_to_99[i]\<close>.\<close>

definition digits_to_99 :: "nat \<Rightarrow> char \<times> char" where
  "digits_to_99 i = (digit_char (i div 10), digit_char (i mod 10))"

text \<open>\<^verbatim>\<open>*(--buffer_ptr) = c\<close>\<close>

definition store_before :: "char \<Rightarrow> nat \<Rightarrow> string \<Rightarrow> (nat \<times> string) result" where
  "store_before c p buf =
     (if 0 < p \<and> p \<le> length buf then Inr (p - 1, buf[p - 1 := c]) else Inl Out_Of_Bounds)"

function fill_digits :: "64 word \<Rightarrow> nat \<Rightarrow> string \<Rightarrow> (nat \<times> string) result" where
  "fill_digits abs_value p buf =
     (if 100 \<le> abs_value then
        (let (tens, ones) = digits_to_99 (unat (abs_value mod 100))
         in and_then (store_before ones p buf) (\<lambda>(p, buf).
            and_then (store_before tens p buf) (\<lambda>(p, buf).
              fill_digits (abs_value div 100) p buf)))
      else if 10 \<le> abs_value then
        (let (tens, ones) = digits_to_99 (unat abs_value)
         in and_then (store_before ones p buf) (\<lambda>(p, buf). store_before tens p buf))
      else store_before (digit_char (unat abs_value)) p buf)"
  by pat_completeness auto
termination
  by (relation "measure (\<lambda>(x, p, buf). unat x)") (auto simp: word_le_nat_alt unat_div)

declare fill_digits.simps [simp del]

definition number_buffer :: string where
  "number_buffer = replicate 64 NUL"

text \<open>The common part: \<open>sign\<close> says that the value is a negative \<^verbatim>\<open>number_integer_t\<close>.\<close>

definition dump_abs :: "bool \<Rightarrow> 64 word \<Rightarrow> string result" where
  "dump_abs sign abs_value =
     (let buf = (if sign then number_buffer[0 := CHR ''-''] else number_buffer);
          n_chars = (if sign then 1 else 0) + count_digits abs_value
      in if \<not> n_chars < length buf - 1 then Inl Assertion_Failed
         else and_then (fill_digits abs_value n_chars buf) (\<lambda>(p, buf). Inr (take n_chars buf)))"

definition dump_integer :: "64 word \<Rightarrow> string result" where
  "dump_integer x =
     (if x = 0 then Inr ''0''
      else let is_negative = \<not> 0 \<le> sint x
           in dump_abs is_negative (if is_negative then - x else x))"

definition dump_unsigned :: "64 word \<Rightarrow> string result" where
  "dump_unsigned x = (if x = 0 then Inr ''0'' else dump_abs False x)"

lemma store_before_Suc [simp]:
  "q < length buf \<Longrightarrow> store_before c (Suc q) buf = Inr (q, take q buf @ c # drop (Suc q) buf)"
  by (simp add: store_before_def upd_conv_take_nth_drop)

lemma length_show_nat_pos: "0 < length (show_nat n)"
  by simp

lemma fill_digits_show_nat:
  "length (show_nat (unat x)) \<le> p \<Longrightarrow> p \<le> length buf \<Longrightarrow>
   fill_digits x p buf = Inr (p - length (show_nat (unat x)),
     take (p - length (show_nat (unat x))) buf @ show_nat (unat x) @ drop p buf)"
proof (induction "unat x" arbitrary: x p buf rule: less_induct)
  case less
  consider (big) "100 \<le> unat x" | (two) "10 \<le> unat x" "unat x < 100" | (one) "unat x < 10"
    by linarith
  then show ?case
  proof cases
    case big
    then have x: "100 \<le> x" by (simp add: word_le_nat_alt)
    note s = show_nat_100 [OF big]
    have ux: "unat (x div 100) = unat x div 100" "unat (x mod 100) = unat x mod 100"
      by (simp_all add: unat_div unat_mod)
    have m: "unat x mod 100 mod 10 = unat x mod 10" by (simp add: mod_mod_cancel)
    define q where "q = p - 2"
    have p: "p = Suc (Suc q)" "length (show_nat (unat x div 100)) \<le> q"
      using less.prems(1) by (simp_all add: s q_def)
    let ?buf = "take q buf @ digit_char (unat x mod 100 div 10) # digit_char (unat x mod 10) # drop p buf"
    have "fill_digits x p buf = fill_digits (x div 100) q ?buf"
      using x p less.prems(2)
      by (subst fill_digits.simps) (simp add: digits_to_99_def ux m min_def)
    also have "\<dots> = Inr (q - length (show_nat (unat x div 100)),
        take (q - length (show_nat (unat x div 100))) ?buf @ show_nat (unat x div 100) @ drop q ?buf)"
      using less.hyps [of "x div 100" q ?buf] big p less.prems(2) by (simp add: ux)
    finally show ?thesis
      using p less.prems(2) by (simp add: s min_def)
  next
    case two
    then have x: "\<not> 100 \<le> x" "10 \<le> x" by (simp_all add: word_le_nat_alt)
    have s: "show_nat (unat x) = [digit_char (unat x div 10), digit_char (unat x mod 10)]"
      using two by (subst show_nat.simps, subst show_nat.simps) simp
    define q where "q = p - 2"
    have "p = Suc (Suc q)"
      using less.prems(1) by (simp add: s q_def)
    then show ?thesis
      using x less.prems(2)
      by (subst fill_digits.simps) (simp add: s digits_to_99_def min_def)
  next
    case one
    then have x: "\<not> 100 \<le> x" "\<not> 10 \<le> x" by (simp_all add: word_le_nat_alt)
    have s: "show_nat (unat x) = [digit_char (unat x)]"
      using one by (subst show_nat.simps) simp
    from less.prems obtain q where "p = Suc q"
      by (cases p) (simp_all add: s)
    then show ?thesis
      using x less.prems(2) by (subst fill_digits.simps) (simp add: s)
  qed
qed

lemma length_show_word: "length (show_nat (unat (x :: 64 word))) \<le> 20"
  using length_show_nat_bound [of "unat x" 19] unsigned_less [of x, where ?'a = nat] by simp

lemma dump_abs_show_nat:
  "dump_abs sign x = Inr ((if sign then ''-'' else []) @ show_nat (unat x))"
proof -
  let ?k = "length (show_nat (unat x))"
  have k: "?k \<le> 20" using length_show_word .
  have "fill_digits x ?k number_buffer = Inr (0, show_nat (unat x) @ drop ?k number_buffer)"
    using fill_digits_show_nat [of x ?k number_buffer] k by (simp add: number_buffer_def)
  moreover have "fill_digits x (Suc ?k) (number_buffer[0 := CHR ''-''])
      = Inr (1, ''-'' @ show_nat (unat x) @ drop (Suc ?k) number_buffer)"
    using fill_digits_show_nat [of x "Suc ?k" "number_buffer[0 := CHR ''-'']"] k
    by (simp add: number_buffer_def numeral_eq_Suc)
  ultimately show ?thesis
    using k by (simp add: dump_abs_def count_digits_show_nat number_buffer_def)
qed

lemma dump_unsigned_show_nat: "dump_unsigned x = Inr (show_nat (unat x))"
  by (simp add: dump_unsigned_def dump_abs_show_nat) (subst show_nat.simps, simp add: digit_char_0)

definition show_int :: "int \<Rightarrow> string" where
  "show_int i = (if i < 0 then CHR ''-'' # show_nat (nat (- i)) else show_nat (nat i))"

lemma sint_shift: "sint (x :: 64 word) = (uint x + 2 ^ 63) mod 2 ^ 64 - 2 ^ 63"
  by (simp add: sint_uint signed_take_bit_eq_take_bit_shift take_bit_eq_mod)

lemma sint_cases: "sint (x :: 64 word) = (if uint x < 2 ^ 63 then uint x else uint x - 2 ^ 64)"
proof -
  have "uint x < 2 ^ 64" "0 \<le> uint x"
    using uint_lt2p [of x] by simp_all
  then have "uint x - 2 ^ 63 = (uint x + 2 ^ 63) mod 2 ^ 64" if "\<not> uint x < 2 ^ 63"
    using that minus_mod_self2 [of "uint x + 2 ^ 63" "2 ^ 64"] mod_pos_pos_trivial [of "uint x - 2 ^ 63" "2 ^ 64"]
    by simp
  then show ?thesis
    using \<open>0 \<le> uint x\<close> by (auto simp: sint_shift)
qed

lemma unat_minus_negative:
  assumes "sint (x :: 64 word) < 0"
  shows "unat (- x) = nat (- sint x)"
proof -
  have "sint x = uint x - 2 ^ 64"
    using assms uint_ge_0 [of x] by (auto simp: sint_cases split: if_splits)
  moreover have "uint x < 2 ^ 64"
    using uint_lt2p [of x] by simp
  moreover have "uint x \<noteq> 0"
    using assms by (auto simp: sint_cases)
  ultimately have "uint (- x) = - sint x"
    using uint_ge_0 [of x] by (simp add: uint_word_ariths zmod_zminus1_eq_if)
  then show ?thesis by (simp add: nat_uint_eq [symmetric])
qed

lemma unat_nonneg:
  assumes "0 \<le> sint (x :: 64 word)"
  shows "unat x = nat (sint x)"
proof -
  have "sint x = uint x"
    using assms uint_lt2p [of x] by (auto simp: sint_cases split: if_splits)
  then show ?thesis by (simp add: nat_uint_eq)
qed

lemma dump_integer_show_int: "dump_integer x = Inr (show_int (sint x))"
proof (cases "x = 0")
  case True
  then show ?thesis
    by (simp add: dump_integer_def show_int_def) (subst show_nat.simps, simp add: digit_char_0)
next
  case False
  then show ?thesis
    using unat_nonneg [of x] by (auto simp: dump_integer_def dump_abs_show_nat show_int_def unat_minus_negative)
qed

end
