(* ===== verification/Json_Lexer.thy ===== *)
theory Json_Lexer
  imports Json_Utf8 Json_Number
begin

text \<open>
  \<^verbatim>\<open>detail::lexer\<close> of \<^verbatim>\<open>src/extlibs/json/json.hpp\<close> over the
  remaining bytes of the text; reading a byte and putting it back is not consuming it. A failed
  scan is \<open>None\<close> here and the token \<open>T_parse_error\<close> in \<open>scan\<close>: the parser stops there, so
  the rest does not matter. The decimal point is that of the C locale, which the tool never
  changes.
\<close>

datatype token =
    T_literal_true
  | T_literal_false
  | T_literal_null
  | T_value_string string
  | T_value_unsigned "64 word"
  | T_value_integer "64 word"
  | T_value_float string
  | T_begin_array
  | T_begin_object
  | T_end_array
  | T_end_object
  | T_name_separator
  | T_value_separator
  | T_parse_error
  | T_end_of_input

section \<open>Strings\<close>

definition hex_value :: "char \<Rightarrow> nat option" where
  "hex_value c =
     (let b = byte c in
      if 0x30 \<le> b \<and> b \<le> 0x39 then Some (b - 0x30)
      else if 0x41 \<le> b \<and> b \<le> 0x46 then Some (b - 0x37)
      else if 0x61 \<le> b \<and> b \<le> 0x66 then Some (b - 0x57)
      else None)"

fun codepoint_from :: "nat list \<Rightarrow> nat \<Rightarrow> string \<Rightarrow> (nat \<times> string) option" where
  "codepoint_from [] n s = Some (n, s)"
| "codepoint_from (f # fs) n [] = None"
| "codepoint_from (f # fs) n (c # s) =
     (case hex_value c of
        None \<Rightarrow> None
      | Some h \<Rightarrow> codepoint_from fs (n + push_bit f h) s)"

definition get_codepoint :: "string \<Rightarrow> (nat \<times> string) option" where
  "get_codepoint s = codepoint_from [12, 8, 4, 0] 0 s"

text \<open>The bytes of a code point.\<close>

definition encode_utf8 :: "nat \<Rightarrow> string" where
  "encode_utf8 cp =
     (if cp < 0x80 then [char_of cp]
      else if cp \<le> 0x7FF then
        [char_of (0xC0 OR drop_bit 6 cp), char_of (0x80 OR (cp AND 0x3F))]
      else if cp \<le> 0xFFFF then
        [char_of (0xE0 OR drop_bit 12 cp), char_of (0x80 OR (drop_bit 6 cp AND 0x3F)),
         char_of (0x80 OR (cp AND 0x3F))]
      else
        [char_of (0xF0 OR drop_bit 18 cp), char_of (0x80 OR (drop_bit 12 cp AND 0x3F)),
         char_of (0x80 OR (drop_bit 6 cp AND 0x3F)), char_of (0x80 OR (cp AND 0x3F))])"

text \<open>After \<^verbatim>\<open>\u\<close>: one code unit, or a surrogate pair.\<close>

definition scan_unicode :: "string \<Rightarrow> (string \<times> string) option" where
  "scan_unicode s =
     (case get_codepoint s of
        None \<Rightarrow> None
      | Some (codepoint1, s) \<Rightarrow>
          if 0xD800 \<le> codepoint1 \<and> codepoint1 \<le> 0xDBFF then
            (case s of
               c # d # s \<Rightarrow>
                 if c = CHR 0x5C \<and> d = CHR ''u'' then
                   (case get_codepoint s of
                      None \<Rightarrow> None
                    | Some (codepoint2, s) \<Rightarrow>
                        if 0xDC00 \<le> codepoint2 \<and> codepoint2 \<le> 0xDFFF
                        then Some (encode_utf8 (push_bit 10 codepoint1 + codepoint2 - 0x35FDC00), s)
                        else None)
                 else None
             | _ \<Rightarrow> None)
          else if 0xDC00 \<le> codepoint1 \<and> codepoint1 \<le> 0xDFFF then None
          else Some (encode_utf8 codepoint1, s))"

text \<open>After a backslash.\<close>

definition scan_escape :: "string \<Rightarrow> (string \<times> string) option" where
  "scan_escape s =
     (case s of
        [] \<Rightarrow> None
      | c # s \<Rightarrow>
          if c = CHR 0x22 then Some ([CHR 0x22], s)
          else if c = CHR 0x5C then Some ([CHR 0x5C], s)
          else if c = CHR ''/'' then Some ([CHR ''/''], s)
          else if c = CHR ''b'' then Some ([CHR 0x08], s)
          else if c = CHR ''f'' then Some ([CHR 0x0C], s)
          else if c = CHR ''n'' then Some ([CHR 0x0A], s)
          else if c = CHR ''r'' then Some ([CHR 0x0D], s)
          else if c = CHR ''t'' then Some ([CHR 0x09], s)
          else if c = CHR ''u'' then scan_unicode s
          else None)"

fun next_byte_in_range :: "(nat \<times> nat) list \<Rightarrow> string \<Rightarrow> (string \<times> string) option" where
  "next_byte_in_range [] s = Some ([], s)"
| "next_byte_in_range (r # rs) [] = None"
| "next_byte_in_range ((lo, hi) # rs) (c # s) =
     (if lo \<le> byte c \<and> byte c \<le> hi
      then map_option (\<lambda>(t, s). (c # t, s)) (next_byte_in_range rs s) else None)"

lemma codepoint_from_length: "codepoint_from fs n s = Some (m, t) \<Longrightarrow> length t + length fs = length s"
  by (induction fs n s rule: codepoint_from.induct) (auto split: option.splits)

lemma get_codepoint_length: "get_codepoint s = Some (m, t) \<Longrightarrow> length t < length s"
  by (auto simp: get_codepoint_def dest: codepoint_from_length)

lemma scan_unicode_length: "scan_unicode s = Some (t, u) \<Longrightarrow> length u < length s"
  by (fastforce simp: scan_unicode_def dest: get_codepoint_length
      split: option.splits prod.splits if_splits list.splits)

lemma scan_escape_length: "scan_escape s = Some (t, u) \<Longrightarrow> length u < length s"
  by (auto simp: scan_escape_def dest: scan_unicode_length split: list.splits if_splits)

lemma next_byte_in_range_length: "next_byte_in_range rs s = Some (t, u) \<Longrightarrow> length u \<le> length s"
  by (induction rs s arbitrary: t u rule: next_byte_in_range.induct) (auto split: if_splits)

text \<open>
  The cases of the switch on a byte inside a string that is neither the end of it nor an escape:
  control characters are refused, other ASCII characters stand for themselves, and a lead byte
  of a longer sequence gives the ranges of the bytes after it.
\<close>

definition control_character :: "nat \<Rightarrow> bool" where
  "control_character b \<longleftrightarrow> b \<le> 0x1F"

definition ascii_character :: "nat \<Rightarrow> bool" where
  "ascii_character b \<longleftrightarrow> 0x20 \<le> b \<and> b \<le> 0x7F"

function scan_string :: "string \<Rightarrow> string \<Rightarrow> (string \<times> string) option" where
  "scan_string s token_buffer =
     (case s of
        [] \<Rightarrow> None
      | c # s \<Rightarrow>
          if c = CHR 0x22 then Some (token_buffer, s)
          else if c = CHR 0x5C then
            (case scan_escape s of
               None \<Rightarrow> None
             | Some (t, s) \<Rightarrow> scan_string s (token_buffer @ t))
          else if control_character (byte c) then None
          else if ascii_character (byte c) then scan_string s (token_buffer @ [c])
          else
            (case lead_ranges (byte c) of
               None \<Rightarrow> None
             | Some ranges \<Rightarrow>
                 (case next_byte_in_range ranges s of
                    None \<Rightarrow> None
                  | Some (t, s) \<Rightarrow> scan_string s (token_buffer @ c # t))))"
  by pat_completeness auto
termination
  by (relation "measure (\<lambda>(s, buf). length s)")
    (auto dest!: scan_escape_length next_byte_in_range_length simp: less_Suc_eq_le)

declare scan_string.simps [simp del]

text \<open>An ASCII character is a sequence without further bytes.\<close>

lemma scan_string_step:
  "scan_string s token_buffer =
     (case s of
        [] \<Rightarrow> None
      | c # s \<Rightarrow>
          if c = CHR 0x22 then Some (token_buffer, s)
          else if c = CHR 0x5C then
            (case scan_escape s of
               None \<Rightarrow> None
             | Some (t, s) \<Rightarrow> scan_string s (token_buffer @ t))
          else if byte c \<le> 0x1F then None
          else
            (case lead_ranges (byte c) of
               None \<Rightarrow> None
             | Some ranges \<Rightarrow>
                 (case next_byte_in_range ranges s of
                    None \<Rightarrow> None
                  | Some (t, s) \<Rightarrow> scan_string s (token_buffer @ c # t))))"
  by (subst scan_string.simps)
    (auto simp: control_character_def ascii_character_def lead_ranges_def split: list.splits)

section \<open>Numbers\<close>

datatype number_type = N_unsigned | N_integer | N_float

text \<open>The states of the scanner in the order they refer to one another; each adds to the buffer.\<close>

fun scan_number_any2 :: "string \<Rightarrow> string \<Rightarrow> string \<times> string" where
  "scan_number_any2 buf [] = (buf, [])"
| "scan_number_any2 buf (c # s) =
     (if is_digit c then scan_number_any2 (buf @ [c]) s else (buf, c # s))"

definition scan_number_sign :: "string \<Rightarrow> string \<Rightarrow> (string \<times> string) option" where
  "scan_number_sign buf s =
     (case s of
        c # s \<Rightarrow> if is_digit c then Some (scan_number_any2 (buf @ [c]) s) else None
      | [] \<Rightarrow> None)"

definition scan_number_exponent :: "string \<Rightarrow> string \<Rightarrow> (string \<times> string) option" where
  "scan_number_exponent buf s =
     (case s of
        c # s \<Rightarrow>
          if c = CHR ''+'' \<or> c = CHR ''-'' then scan_number_sign (buf @ [c]) s
          else if is_digit c then Some (scan_number_any2 (buf @ [c]) s)
          else None
      | [] \<Rightarrow> None)"

fun scan_number_decimal2 :: "string \<Rightarrow> string \<Rightarrow> (string \<times> string) option" where
  "scan_number_decimal2 buf [] = Some (buf, [])"
| "scan_number_decimal2 buf (c # s) =
     (if is_digit c then scan_number_decimal2 (buf @ [c]) s
      else if c = CHR ''e'' \<or> c = CHR ''E'' then scan_number_exponent (buf @ [c]) s
      else Some (buf, c # s))"

definition scan_number_decimal1 :: "string \<Rightarrow> string \<Rightarrow> (string \<times> string) option" where
  "scan_number_decimal1 buf s =
     (case s of
        c # s \<Rightarrow> if is_digit c then scan_number_decimal2 (buf @ [c]) s else None
      | [] \<Rightarrow> None)"

definition float_result :: "(string \<times> string) option \<Rightarrow> (number_type \<times> string \<times> string) option" where
  "float_result r = map_option (\<lambda>(buf, s). (N_float, buf, s)) r"

definition scan_number_zero ::
    "number_type \<Rightarrow> string \<Rightarrow> string \<Rightarrow> (number_type \<times> string \<times> string) option" where
  "scan_number_zero nt buf s =
     (case s of
        [] \<Rightarrow> Some (nt, buf, [])
      | c # s' \<Rightarrow>
          if c = CHR ''.'' then float_result (scan_number_decimal1 (buf @ ''.'') s')
          else if c = CHR ''e'' \<or> c = CHR ''E'' then float_result (scan_number_exponent (buf @ [c]) s')
          else Some (nt, buf, c # s'))"

fun scan_number_any1 ::
    "number_type \<Rightarrow> string \<Rightarrow> string \<Rightarrow> (number_type \<times> string \<times> string) option" where
  "scan_number_any1 nt buf [] = Some (nt, buf, [])"
| "scan_number_any1 nt buf (c # s) =
     (if is_digit c then scan_number_any1 nt (buf @ [c]) s
      else if c = CHR ''.'' then float_result (scan_number_decimal1 (buf @ ''.'') s)
      else if c = CHR ''e'' \<or> c = CHR ''E'' then float_result (scan_number_exponent (buf @ [c]) s)
      else Some (nt, buf, c # s))"

definition scan_number_minus :: "string \<Rightarrow> string \<Rightarrow> (number_type \<times> string \<times> string) option" where
  "scan_number_minus buf s =
     (case s of
        [] \<Rightarrow> None
      | c # s \<Rightarrow>
          if c = CHR ''0'' then scan_number_zero N_integer (buf @ [c]) s
          else if is_digit c then scan_number_any1 N_integer (buf @ [c]) s
          else None)"

text \<open>\<^verbatim>\<open>strtoull\<close> and \<^verbatim>\<open>strtoll\<close> on a checked text; \<open>None\<close> is \<^verbatim>\<open>ERANGE\<close>.\<close>

definition strtoull :: "string \<Rightarrow> 64 word option" where
  "strtoull buf =
     (let n = digits_value buf in if n < 2 ^ 64 then Some (word_of_nat n) else None)"

definition strtoll :: "string \<Rightarrow> 64 word option" where
  "strtoll buf =
     (let n = - int (digits_value (tl buf)) in if - (2 ^ 63) \<le> n then Some (word_of_int n) else None)"

definition scan_number_done :: "number_type \<times> string \<times> string \<Rightarrow> token \<times> string" where
  "scan_number_done r =
     (case r of (nt, buf, s) \<Rightarrow>
        (case nt of
           N_unsigned \<Rightarrow>
             (case strtoull buf of Some x \<Rightarrow> (T_value_unsigned x, s) | None \<Rightarrow> (T_value_float buf, s))
         | N_integer \<Rightarrow>
             (case strtoll buf of Some x \<Rightarrow> (T_value_integer x, s) | None \<Rightarrow> (T_value_float buf, s))
         | N_float \<Rightarrow> (T_value_float buf, s)))"

definition scan_number :: "char \<Rightarrow> string \<Rightarrow> token \<times> string" where
  "scan_number current s =
     (case (if current = CHR ''-'' then scan_number_minus [current] s
            else if current = CHR ''0'' then scan_number_zero N_unsigned [current] s
            else scan_number_any1 N_unsigned [current] s) of
        None \<Rightarrow> (T_parse_error, [])
      | Some r \<Rightarrow> scan_number_done r)"

section \<open>Literals and the scanner\<close>

fun scan_literal :: "string \<Rightarrow> token \<Rightarrow> string \<Rightarrow> token \<times> string" where
  "scan_literal [] return_type s = (return_type, s)"
| "scan_literal (l # ls) return_type [] = (T_parse_error, [])"
| "scan_literal (l # ls) return_type (c # s) =
     (if c = l then scan_literal ls return_type s else (T_parse_error, []))"

definition is_space :: "char \<Rightarrow> bool" where
  "is_space c \<longleftrightarrow> c = CHR '' '' \<or> c = CHR 0x09 \<or> c = CHR 0x0A \<or> c = CHR 0x0D"

fun scan :: "string \<Rightarrow> token \<times> string" where
  "scan [] = (T_end_of_input, [])"
| "scan (c # s) =
     (if is_space c then scan s
      else if c = CHR ''['' then (T_begin_array, s)
      else if c = CHR '']'' then (T_end_array, s)
      else if c = CHR ''{'' then (T_begin_object, s)
      else if c = CHR ''}'' then (T_end_object, s)
      else if c = CHR '':'' then (T_name_separator, s)
      else if c = CHR '','' then (T_value_separator, s)
      else if c = CHR ''t'' then scan_literal ''rue'' T_literal_true s
      else if c = CHR ''f'' then scan_literal ''alse'' T_literal_false s
      else if c = CHR ''n'' then scan_literal ''ull'' T_literal_null s
      else if c = CHR 0x22 then
        (case scan_string s [] of
           None \<Rightarrow> (T_parse_error, [])
         | Some (token_buffer, s) \<Rightarrow> (T_value_string token_buffer, s))
      else if c = CHR ''-'' \<or> is_digit c then scan_number c s
      else if c = NUL then (T_end_of_input, s)
      else (T_parse_error, []))"

text \<open>The byte order mark is skipped before the first token; \<open>None\<close> is an incomplete mark.\<close>

definition skip_bom :: "string \<Rightarrow> string option" where
  "skip_bom s =
     (case s of
        c # s' \<Rightarrow>
          if c = CHR 0xEF then
            (case s' of d # e # r \<Rightarrow> if d = CHR 0xBB \<and> e = CHR 0xBF then Some r else None | _ \<Rightarrow> None)
          else Some s
      | [] \<Rightarrow> Some s)"

definition scan_first :: "string \<Rightarrow> token \<times> string" where
  "scan_first s = (case skip_bom s of None \<Rightarrow> (T_parse_error, []) | Some s \<Rightarrow> scan s)"

section \<open>Every token uses up input\<close>

definition ends :: "token \<Rightarrow> bool" where
  "ends t \<longleftrightarrow> t = T_parse_error \<or> t = T_end_of_input"

lemma scan_string_length: "scan_string s buf = Some (t, u) \<Longrightarrow> length u < length s"
proof (induction s buf arbitrary: t u rule: scan_string.induct)
  case (1 s buf)
  from "1.prems" obtain c s' where s: "s = c # s'"
    by (subst (asm) scan_string.simps) (auto split: list.splits)
  from "1.prems" show ?case
    unfolding s
    by (subst (asm) scan_string.simps)
      (use "1.IH" [OF s] in \<open>fastforce split: if_splits option.splits
        dest!: scan_escape_length next_byte_in_range_length\<close>)
qed

lemma any2_length: "scan_number_any2 buf s = (b, t) \<Longrightarrow> length t \<le> length s"
  by (induction buf s arbitrary: b t rule: scan_number_any2.induct) (fastforce split: if_splits)+

lemma exponent_length: "scan_number_exponent buf s = Some (b, t) \<Longrightarrow> length t \<le> length s"
  by (auto simp: scan_number_exponent_def scan_number_sign_def le_SucI
      dest: any2_length split: list.splits if_splits)

lemma decimal2_length: "scan_number_decimal2 buf s = Some (b, t) \<Longrightarrow> length t \<le> length s"
  by (induction buf s arbitrary: b t rule: scan_number_decimal2.induct)
    (auto split: if_splits dest: exponent_length simp: le_SucI)

lemma decimal1_length: "scan_number_decimal1 buf s = Some (b, t) \<Longrightarrow> length t \<le> length s"
  by (auto simp: scan_number_decimal1_def le_SucI dest: decimal2_length split: list.splits if_splits)

lemmas fraction_length = exponent_length decimal1_length

lemma zero_length: "scan_number_zero nt buf s = Some (nt', b, t) \<Longrightarrow> length t \<le> length s"
  by (auto simp: scan_number_zero_def float_result_def le_SucI dest: fraction_length
      split: list.splits if_splits)

lemma any1_length: "scan_number_any1 nt buf s = Some (nt', b, t) \<Longrightarrow> length t \<le> length s"
  by (induction nt buf s arbitrary: nt' b t rule: scan_number_any1.induct)
    (auto simp: float_result_def le_SucI dest: fraction_length split: if_splits)

lemma scan_number_length: "scan_number c s = (t, r) \<Longrightarrow> length r \<le> length s"
  by (auto simp: scan_number_def scan_number_minus_def scan_number_done_def le_SucI
      dest: zero_length any1_length split: if_splits option.splits list.splits number_type.splits)

lemma scan_literal_length: "scan_literal l ty s = (t, r) \<Longrightarrow> length r \<le> length s"
  by (induction l ty s arbitrary: t r rule: scan_literal.induct) (auto split: if_splits simp: le_SucI)

lemma scan_token_length:
  assumes "scan (c # s) = (t, r)" "\<not> is_space c"
  shows "length r \<le> length s"
proof -
  consider "scan_literal ''rue'' T_literal_true s = (t, r)"
    | "scan_literal ''alse'' T_literal_false s = (t, r)"
    | "scan_literal ''ull'' T_literal_null s = (t, r)"
    | "scan_number c s = (t, r)"
    | b where "scan_string s [] = Some (b, r)"
    | "r = s" | "r = []"
    using assms by (simp split: if_splits option.splits prod.splits)
  then show ?thesis
    using scan_string_length [of s "[]"]
    by cases (auto dest: scan_literal_length scan_number_length less_imp_le_nat)
qed

lemma scan_length: "scan s = (t, r) \<Longrightarrow> length r \<le> length s \<and> (\<not> ends t \<longrightarrow> length r < length s)"
proof (induction s arbitrary: t r rule: scan.induct)
  case (2 c s)
  show ?case
  proof (cases "is_space c")
    case True
    with "2.IH" "2.prems" show ?thesis by force
  next
    case False
    with scan_token_length "2.prems" show ?thesis by (force simp: less_Suc_eq_le)
  qed
qed (simp add: ends_def)

end
