(* ===== verification/Json_Value.thy ===== *)
theory Json_Value
  imports Repo_Prelude "HOL-Library.Word"
begin

text \<open>
  JSON documents as \<^verbatim>\<open>nlohmann::json\<close> holds them
  (\<^verbatim>\<open>src/extlibs/json/json.hpp\<close>), and the accessors the tool calls. An object is the
  \<^verbatim>\<open>std::map\<close> of its members: an association list sorted by key. A floating-point
  number is kept as the text it was read from, since the tool never computes with one.
\<close>

datatype json =
    JNull
  | JBool bool
  | JInteger "64 word"
  | JUnsigned "64 word"
  | JFloat string
  | JString string
  | JArray "json list"
  | JObject "(string \<times> json) list"

section \<open>Keys in the order of the map\<close>

fun key_less :: "string \<Rightarrow> string \<Rightarrow> bool" where
  "key_less [] [] = False"
| "key_less [] (_ # _) = True"
| "key_less (_ # _) [] = False"
| "key_less (a # s) (b # t) =
     ((of_char a :: nat) < of_char b \<or> a = b \<and> key_less s t)"

lemma of_char_nat_eq_iff [simp]: "(of_char a :: nat) = of_char b \<longleftrightarrow> a = b"
  by simp

lemma key_less_irrefl [simp]: "\<not> key_less s s"
  by (induction s) auto

lemma key_less_trans: "key_less s t \<Longrightarrow> key_less t u \<Longrightarrow> key_less s u"
proof (induction s t arbitrary: u rule: key_less.induct)
  case (2 b t)
  then show ?case by (cases u) auto
next
  case (4 a s b t)
  then show ?case by (cases u) (auto intro: less_trans)
qed auto

lemma key_less_asym: "key_less s t \<Longrightarrow> \<not> key_less t s"
  using key_less_trans key_less_irrefl by blast

lemma key_less_total: "s \<noteq> t \<Longrightarrow> key_less s t \<or> key_less t s"
proof (induction s t rule: key_less.induct)
  case (4 a s b t)
  then show ?case by (cases "(of_char a :: nat)" "(of_char b :: nat)" rule: linorder_cases) auto
qed auto

section \<open>Members of an object\<close>

fun obj_lookup :: "(string \<times> json) list \<Rightarrow> string \<Rightarrow> json option" where
  "obj_lookup [] k = None"
| "obj_lookup ((l, v) # kvs) k = (if k = l then Some v else obj_lookup kvs k)"

fun obj_insert :: "string \<Rightarrow> json \<Rightarrow> (string \<times> json) list \<Rightarrow> (string \<times> json) list" where
  "obj_insert k v [] = [(k, v)]"
| "obj_insert k v ((l, w) # kvs) =
     (if k = l then (k, v) # kvs
      else if key_less k l then (k, v) # (l, w) # kvs
      else (l, w) # obj_insert k v kvs)"

definition obj_sorted :: "(string \<times> json) list \<Rightarrow> bool" where
  "obj_sorted kvs \<longleftrightarrow> sorted_wrt key_less (map fst kvs)"

lemma obj_lookup_insert: "obj_lookup (obj_insert k v kvs) l = (if l = k then Some v else obj_lookup kvs l)"
  by (induction kvs) auto

lemma keys_obj_insert: "set (map fst (obj_insert k v kvs)) = insert k (set (map fst kvs))"
proof (induction kvs)
  case (Cons p kvs)
  then show ?case by (cases p) auto
qed simp

lemma obj_sorted_insert: "obj_sorted kvs \<Longrightarrow> obj_sorted (obj_insert k v kvs)"
proof (induction kvs)
  case (Cons p kvs)
  obtain l w where p: "p = (l, w)" by force
  have "\<forall>m\<in>set (map fst (obj_insert k v kvs)). key_less l m" if "k \<noteq> l" "\<not> key_less k l"
    using Cons.prems that key_less_total [of k l] keys_obj_insert [of k v kvs]
    by (auto simp: obj_sorted_def p)
  with Cons show ?case
    by (auto simp: obj_sorted_def p intro: key_less_trans)
qed (simp add: obj_sorted_def)

text \<open>A new largest key goes to the end; this is how a sorted object is rebuilt when it is read.\<close>

lemma obj_insert_append:
  "\<forall>l\<in>set (map fst kvs). key_less l k \<Longrightarrow> obj_insert k v kvs = kvs @ [(k, v)]"
proof (induction kvs)
  case (Cons p kvs)
  then show ?case by (cases p) (auto dest: key_less_asym)
qed simp

section \<open>Accessors\<close>

text \<open>
  \<^verbatim>\<open>operator[]\<close> with a string key on a mutable document: null becomes an object, a
  missing member is created as null, anything but an object is \<open>type_error\<close> 305. The result
  is the member and the changed document.
\<close>

definition json_at :: "string \<Rightarrow> json \<Rightarrow> (json \<times> json) result" where
  "json_at k j =
     (case (if j = JNull then JObject [] else j) of
        JObject kvs \<Rightarrow>
          (case obj_lookup kvs k of
             Some v \<Rightarrow> Inr (v, JObject kvs)
           | None \<Rightarrow> Inr (JNull, JObject (obj_insert k JNull kvs)))
      | _ \<Rightarrow> Inl (Type_Error 305))"

text \<open>Assignment through the reference \<^verbatim>\<open>operator[]\<close> returns: \<^verbatim>\<open>j[k] = v\<close>.\<close>

definition json_set :: "string \<Rightarrow> json \<Rightarrow> json \<Rightarrow> json result" where
  "json_set k v j =
     (case (if j = JNull then JObject [] else j) of
        JObject kvs \<Rightarrow> Inr (JObject (obj_insert k v kvs))
      | _ \<Rightarrow> Inl (Type_Error 305))"

definition json_push_back :: "json \<Rightarrow> json \<Rightarrow> json result" where
  "json_push_back v j =
     (case j of
        JNull \<Rightarrow> Inr (JArray [v])
      | JArray vs \<Rightarrow> Inr (JArray (vs @ [v]))
      | _ \<Rightarrow> Inl (Type_Error 308))"

text \<open>\<^verbatim>\<open>get<std::string>()\<close> and the values a loop from \<^verbatim>\<open>begin()\<close> to \<^verbatim>\<open>end()\<close> visits.\<close>

definition get_string :: "json \<Rightarrow> string result" where
  "get_string j = (case j of JString s \<Rightarrow> Inr s | _ \<Rightarrow> Inl (Type_Error 302))"

definition json_elements :: "json \<Rightarrow> json list" where
  "json_elements j =
     (case j of
        JObject kvs \<Rightarrow> map snd kvs
      | JArray vs \<Rightarrow> vs
      | JNull \<Rightarrow> []
      | _ \<Rightarrow> [j])"

lemma json_at_object:
  "obj_lookup kvs k = Some v \<Longrightarrow> json_at k (JObject kvs) = Inr (v, JObject kvs)"
  by (simp add: json_at_def)

lemma json_at_set: "json_set k v j = Inr j' \<Longrightarrow> json_at k j' = Inr (v, j')"
  by (auto simp: json_set_def json_at_def obj_lookup_insert split: json.splits if_splits)

text \<open>Building an array by repeated \<^verbatim>\<open>push_back\<close>, and an object by repeated assignment.\<close>

fun push_all :: "json list \<Rightarrow> json \<Rightarrow> json result" where
  "push_all [] j = Inr j"
| "push_all (v # vs) j = and_then (json_push_back v j) (push_all vs)"

fun set_all :: "(string \<times> json) list \<Rightarrow> json \<Rightarrow> json result" where
  "set_all [] j = Inr j"
| "set_all ((k, v) # kvs) j = and_then (json_set k v j) (set_all kvs)"

lemma push_all_array [simp]: "push_all vs (JArray ws) = Inr (JArray (ws @ vs))"
  by (induction vs arbitrary: ws) (auto simp: json_push_back_def)

lemma json_set_object [simp]: "json_set k v (JObject kvs) = Inr (JObject (obj_insert k v kvs))"
  by (simp add: json_set_def)

lemma json_set_null [simp]: "json_set k v JNull = Inr (JObject [(k, v)])"
  by (simp add: json_set_def)

end
