(* ===== verification/Json_Parser.thy ===== *)
theory Json_Parser
  imports Json_Lexer Json_Value
begin

text \<open>
  \<^verbatim>\<open>parser::sax_parse_internal\<close> with the document builder
  \<^verbatim>\<open>json_sax_dom_parser\<close> (\<^verbatim>\<open>src/extlibs/json/json.hpp\<close>). The stacks of
  array/object marks and of references into the document are one stack of frames: an open
  array with its finished elements, or an open object with its finished members and the pending
  key. Exceptions are allowed, so every error ends the parse with the fault of the exception.
  Whether a number text is finite as a double is the parameter \<open>fin\<close>.
\<close>

datatype frame =
    F_Array "json list"
  | F_Object "(string \<times> json) list" string

definition token_weight :: "token \<Rightarrow> nat" where
  "token_weight t = (if ends t then 0 else 1)"

text \<open>What the termination of the loop rests on: a token takes at least one character.\<close>

lemma scan_weight: "scan s = (t, r) \<Longrightarrow> 3 * length r + 3 * token_weight t \<le> 3 * length s"
  using scan_length [of s t r] by (auto simp: token_weight_def)

lemma token_weight_le: "token_weight t \<le> 1"
  by (simp add: token_weight_def)

lemma token_weight_real [simp]:
  "token_weight T_value_separator = 1" "token_weight T_end_array = 1" "token_weight T_end_object = 1"
  "token_weight T_name_separator = 1" "token_weight (T_value_string k) = 1" "token_weight T_begin_array = 1"
  "token_weight T_begin_object = 1" "token_weight (T_value_float x) = 1" "token_weight T_literal_false = 1"
  "token_weight T_literal_true = 1" "token_weight T_literal_null = 1" "token_weight (T_value_integer w) = 1"
  "token_weight (T_value_unsigned w) = 1"
  by (simp_all add: token_weight_def ends_def)

definition parse_measure ::
    "(string \<Rightarrow> bool) \<times> frame list \<times> token \<times> string
     + (string \<Rightarrow> bool) \<times> frame list \<times> json \<times> string \<Rightarrow> nat" where
  "parse_measure x =
     (case x of Inl (f, st, t, s) \<Rightarrow> 3 * length s + 2 * token_weight t
              | Inr (f, st, v, s) \<Rightarrow> 3 * length s + 1)"

lemma scan_weight_sym: "(t, r) = scan s \<Longrightarrow> 3 * length r + 3 * token_weight t \<le> 3 * length s"
  by (rule scan_weight) simp

lemma scan_measure: "(case scan s of (t, r) \<Rightarrow> 3 * length r + 2 * token_weight t) \<le> 3 * length s"
  using scan_weight [of s "fst (scan s)" "snd (scan s)"] by (simp add: case_prod_beta)

text \<open>
  \<open>parse_value\<close> is the loop entered with a token, \<open>eval_state\<close> the code after a finished
  value.
\<close>

function (sequential) parse_value ::
    "(string \<Rightarrow> bool) \<Rightarrow> frame list \<Rightarrow> token \<Rightarrow> string \<Rightarrow> (json \<times> string) result"
and eval_state ::
    "(string \<Rightarrow> bool) \<Rightarrow> frame list \<Rightarrow> json \<Rightarrow> string \<Rightarrow> (json \<times> string) result" where
  "parse_value fin st last_token s =
     (case last_token of
        T_begin_object \<Rightarrow>
          (case scan s of (t, s) \<Rightarrow>
             if t = T_end_object then eval_state fin st (JObject []) s
             else
               (case t of
                  T_value_string k \<Rightarrow>
                    (case scan s of (t, s) \<Rightarrow>
                       if t = T_name_separator then
                         (case scan s of (t, s) \<Rightarrow> parse_value fin (F_Object [] k # st) t s)
                       else Inl Parse_Error)
                | _ \<Rightarrow> Inl Parse_Error))
      | T_begin_array \<Rightarrow>
          (case scan s of (t, s) \<Rightarrow>
             if t = T_end_array then eval_state fin st (JArray []) s
             else parse_value fin (F_Array [] # st) t s)
      | T_value_float x \<Rightarrow>
          if fin x then eval_state fin st (JFloat x) s else Inl (Out_Of_Range 406)
      | T_literal_false \<Rightarrow> eval_state fin st (JBool False) s
      | T_literal_null \<Rightarrow> eval_state fin st JNull s
      | T_literal_true \<Rightarrow> eval_state fin st (JBool True) s
      | T_value_integer x \<Rightarrow> eval_state fin st (JInteger x) s
      | T_value_string x \<Rightarrow> eval_state fin st (JString x) s
      | T_value_unsigned x \<Rightarrow> eval_state fin st (JUnsigned x) s
      | _ \<Rightarrow> Inl Parse_Error)"
| "eval_state fin [] v s = Inr (v, s)"
| "eval_state fin (F_Array vs # st) v s =
     (case scan s of (t, s) \<Rightarrow>
        if t = T_value_separator then
          (case scan s of (t, s) \<Rightarrow> parse_value fin (F_Array (vs @ [v]) # st) t s)
        else if t = T_end_array then eval_state fin st (JArray (vs @ [v])) s
        else Inl Parse_Error)"
| "eval_state fin (F_Object kvs k # st) v s =
     (case scan s of (t, s) \<Rightarrow>
        if t = T_value_separator then
          (case scan s of (t, s) \<Rightarrow>
             (case t of
                T_value_string l \<Rightarrow>
                  (case scan s of (t, s) \<Rightarrow>
                     if t = T_name_separator then
                       (case scan s of (t, s) \<Rightarrow>
                          parse_value fin (F_Object (obj_insert k v kvs) l # st) t s)
                     else Inl Parse_Error)
              | _ \<Rightarrow> Inl Parse_Error))
        else if t = T_end_object then eval_state fin st (JObject (obj_insert k v kvs)) s
        else Inl Parse_Error)"
  by pat_completeness auto

termination
  by (relation "measure parse_measure")
    (auto simp: parse_measure_def dest!: scan_weight_sym intro!: le_less_trans [OF scan_measure])

declare parse_value.simps [simp del]

section \<open>Parsing a text\<close>

definition json_parse :: "(string \<Rightarrow> bool) \<Rightarrow> string \<Rightarrow> json result" where
  "json_parse fin text =
     (case scan_first text of (t, s) \<Rightarrow>
        and_then (parse_value fin [] t s) (\<lambda>(v, s).
          if fst (scan s) = T_end_of_input then Inr v else Inl Parse_Error))"

text \<open>\<^verbatim>\<open>json::parse(char*)\<close>: the text ends at the first zero byte.\<close>

definition json_parse_c :: "(string \<Rightarrow> bool) \<Rightarrow> string \<Rightarrow> json result" where
  "json_parse_c fin text = json_parse fin (c_str text)"

text \<open>The only ways a parse fails.\<close>

lemma parse_faults:
  "parse_value fin st t s = Inl f \<Longrightarrow> f = Parse_Error \<or> f = Out_Of_Range 406"
  "eval_state fin st v s = Inl f \<Longrightarrow> f = Parse_Error \<or> f = Out_Of_Range 406"
proof (induction fin st t s and fin st v s rule: parse_value_eval_state.induct)
  case (1 fin st last_token s)
  from "1.prems" show ?case
    by (subst (asm) parse_value.simps)
      (auto split: token.splits if_splits prod.splits dest: "1.IH" [rotated -1])
qed (auto split: token.splits if_splits prod.splits)

end
