(* ===== verification/C_Scan.thy ===== *)
theory C_Scan
  imports Json_Number Repo_Prelude "HOL-Library.Word"
begin

text \<open>
  What the tool uses of the C library to read decimal integers: \<^verbatim>\<open>isspace\<close>, the
  conversion \<^verbatim>\<open>%d\<close> of \<^verbatim>\<open>sscanf\<close>, and \<^verbatim>\<open>strtol\<close> with its end pointer,
  on a platform where \<^verbatim>\<open>long\<close> has 64 bits.
\<close>

section \<open>One integer\<close>

text \<open>\<^verbatim>\<open>std::isalpha\<close> and \<^verbatim>\<open>isspace\<close> in the C locale.\<close>

definition is_alpha :: "char \<Rightarrow> bool" where
  "is_alpha c \<longleftrightarrow> 65 \<le> byte c \<and> byte c \<le> 90 \<or> 97 \<le> byte c \<and> byte c \<le> 122"

definition is_c_space :: "char \<Rightarrow> bool" where
  "is_c_space c \<longleftrightarrow> byte c = 32 \<or> 9 \<le> byte c \<and> byte c \<le> 13"

text \<open>
  \<^verbatim>\<open>%d\<close>: leading space, a sign, digits; the value is a clamped \<^verbatim>\<open>long\<close> cut to
  \<^verbatim>\<open>int\<close>. \<open>None\<close> is a failed conversion.
\<close>

definition clamp_long :: "int \<Rightarrow> int" where
  "clamp_long n = max (- (2 ^ 63)) (min (2 ^ 63 - 1) n)"

definition scan_d :: "string \<Rightarrow> (32 word \<times> string) option" where
  "scan_d s =
     (let s = dropWhile is_c_space s;
          neg = (s \<noteq> [] \<and> hd s = CHR ''-'');
          s = (if s \<noteq> [] \<and> (hd s = CHR ''-'' \<or> hd s = CHR ''+'') then tl s else s);
          ds = takeWhile is_digit s
      in if ds = [] then None
         else let n = int (digits_value ds)
              in Some (word_of_int (clamp_long (if neg then - n else n)), dropWhile is_digit s))"

text \<open>
  \<^verbatim>\<open>(int) strtol(s, &end, 10)\<close>: the value and what \<^verbatim>\<open>end\<close> points to; without
  digits the value is zero and nothing is consumed.
\<close>

definition strtol_int :: "string \<Rightarrow> 32 word \<times> string" where
  "strtol_int s = (case scan_d s of None \<Rightarrow> (0, s) | Some r \<Rightarrow> r)"

section \<open>Lemmas\<close>

lemma takeWhile_digits: "list_all is_digit ds \<Longrightarrow> s = [] \<or> \<not> is_digit (hd s) \<Longrightarrow>
  takeWhile is_digit (ds @ s) = ds \<and> dropWhile is_digit (ds @ s) = s"
  by (induction ds) (auto simp: neq_Nil_conv dest: hd_in_set, (cases s; auto)+)

lemma digit_not_space: "is_digit c \<Longrightarrow> \<not> is_c_space c \<and> c \<noteq> CHR ''-'' \<and> c \<noteq> CHR ''+''"
  by (auto simp: is_digit_def is_c_space_def)

lemma scan_d_nat:
  assumes "n < 2 ^ 63" "s = [] \<or> \<not> is_digit (hd s)"
  shows "scan_d (show_nat n @ s) = Some (word_of_nat n, s)"
proof -
  obtain c cs where c: "show_nat n = c # cs" "is_digit c"
    using show_nat_digits [of n] show_nat_nonempty [of n] by (cases "show_nat n") auto
  note tw = takeWhile_digits [OF show_nat_digits assms(2), of n]
  have "dropWhile is_c_space (show_nat n @ s) = show_nat n @ s"
    using c digit_not_space [OF c(2)] by simp
  moreover have "hd (show_nat n @ s) \<noteq> CHR ''-''" "hd (show_nat n @ s) \<noteq> CHR ''+''"
    using c digit_not_space [OF c(2)] by simp_all
  ultimately show ?thesis
    using tw assms(1) by (simp add: scan_d_def digits_value_show_nat clamp_long_def Let_def)
qed

lemma strtol_nat:
  "n < 2 ^ 63 \<Longrightarrow> strtol_int (show_nat n) = (word_of_nat n, [])"
  using scan_d_nat [of n "[]"] by (simp add: strtol_int_def)

end
