(* ===== verification/Inja_Lexer.thy ===== *)
theory Inja_Lexer
  imports C_Scan
begin

text \<open>
  The lexer of the template engine (\<^verbatim>\<open>class Lexer\<close> of
  \<^verbatim>\<open>src/extlibs/inja/src/inja.hpp\<close>): a state machine on the template text that yields
  text, opening and closing delimiters, and the tokens between them. A token is a view into the
  text; its start is kept because the parser reads a JSON literal from the start of its first token
  to the end of its last one.
\<close>

section \<open>Configuration, tokens and state\<close>

record lexer_config =
  statement_open :: string
  statement_close :: string
  line_statement :: string
  expression_open :: string
  expression_close :: string
  comment_open :: string
  comment_close :: string
  open_chars :: string
  trim_blocks :: bool
  lstrip_blocks :: bool

definition default_config :: lexer_config where
  "default_config =
     \<lparr>statement_open = ''{%'', statement_close = ''%}'', line_statement = ''##'',
      expression_open = ''{{'', expression_close = ''}}'', comment_open = ''{#'',
      comment_close = ''#}'', open_chars = ''#{'', trim_blocks = False, lstrip_blocks = False\<rparr>"

text \<open>Index 0 of an empty \<^verbatim>\<open>std::string\<close> is its terminating zero.\<close>

definition first_char :: "string \<Rightarrow> char" where
  "first_char s = (if s = [] then NUL else hd s)"

definition add_open_char :: "string \<Rightarrow> string \<Rightarrow> string" where
  "add_open_char s cs = (if first_char s \<in> set cs then cs else cs @ [first_char s])"

definition update_open_chars :: "lexer_config \<Rightarrow> lexer_config" where
  "update_open_chars cfg =
     cfg\<lparr>open_chars := add_open_char (comment_open cfg) (add_open_char (expression_open cfg)
       (add_open_char (statement_open cfg) (add_open_char (line_statement cfg) [])))\<rparr>"

definition set_statement :: "string \<Rightarrow> string \<Rightarrow> lexer_config \<Rightarrow> lexer_config" where
  "set_statement op cl cfg = update_open_chars (cfg\<lparr>statement_open := op, statement_close := cl\<rparr>)"

definition set_line_statement :: "string \<Rightarrow> lexer_config \<Rightarrow> lexer_config" where
  "set_line_statement op cfg = update_open_chars (cfg\<lparr>line_statement := op\<rparr>)"

definition set_expression :: "string \<Rightarrow> string \<Rightarrow> lexer_config \<Rightarrow> lexer_config" where
  "set_expression op cl cfg = update_open_chars (cfg\<lparr>expression_open := op, expression_close := cl\<rparr>)"

definition set_comment :: "string \<Rightarrow> string \<Rightarrow> lexer_config \<Rightarrow> lexer_config" where
  "set_comment op cl cfg = update_open_chars (cfg\<lparr>comment_open := op, comment_close := cl\<rparr>)"

datatype token_kind =
    K_Text | K_ExpressionOpen | K_ExpressionClose | K_LineStatementOpen | K_LineStatementClose
  | K_StatementOpen | K_StatementClose | K_CommentOpen | K_CommentClose
  | K_Id | K_Number | K_String | K_Comma | K_Colon
  | K_LeftParen | K_RightParen | K_LeftBracket | K_RightBracket | K_LeftBrace | K_RightBrace
  | K_Equal | K_GreaterThan | K_GreaterEqual | K_LessThan | K_LessEqual | K_NotEqual
  | K_Unknown | K_Eof

record inja_token =
  tok_kind :: token_kind
  tok_start :: nat
  tok_text :: string

datatype lexer_state =
    L_Text | L_ExpressionStart | L_ExpressionBody | L_LineStart | L_LineBody
  | L_StatementStart | L_StatementBody | L_CommentStart | L_CommentBody

record lexer =
  m_state :: lexer_state
  m_in :: string
  m_tok_start :: nat
  m_pos :: nat

section \<open>Views\<close>

definition slice :: "string \<Rightarrow> nat \<Rightarrow> nat \<Rightarrow> string" where
  "slice view start stop =
     (let start = min start (length view); stop = min (max start stop) (length view)
      in take (stop - start) (drop start view))"

definition starts_with :: "string \<Rightarrow> string \<Rightarrow> bool" where
  "starts_with view prefix \<longleftrightarrow> length prefix \<le> length view \<and> take (length prefix) view = prefix"

definition find_first_of :: "string \<Rightarrow> string \<Rightarrow> nat option" where
  "find_first_of view cs =
     (let k = length (takeWhile (\<lambda>c. c \<notin> set cs) view) in if k < length view then Some k else None)"

fun find_string :: "string \<Rightarrow> string \<Rightarrow> nat option" where
  "find_string [] s = (if s = [] then Some 0 else None)"
| "find_string (c # view) s =
     (if starts_with (c # view) s then Some 0 else map_option Suc (find_string view s))"

section \<open>Helpers of the lexer\<close>

definition inja_start :: "string \<Rightarrow> lexer" where
  "inja_start input = \<lparr>m_state = L_Text, m_in = input, m_tok_start = 0, m_pos = 0\<rparr>"

definition make_token :: "token_kind \<Rightarrow> lexer \<Rightarrow> inja_token" where
  "make_token kind lx =
     \<lparr>tok_kind = kind, tok_start = min (m_tok_start lx) (length (m_in lx)),
      tok_text = slice (m_in lx) (m_tok_start lx) (m_pos lx)\<rparr>"

definition char_here :: "lexer \<Rightarrow> char option" where
  "char_here lx = (if m_pos lx < length (m_in lx) then Some (m_in lx ! m_pos lx) else None)"

definition advance :: "nat \<Rightarrow> lexer \<Rightarrow> lexer" where
  "advance n lx = lx\<lparr>m_pos := m_pos lx + n\<rparr>"

definition skip_newline :: "lexer \<Rightarrow> lexer" where
  "skip_newline lx =
     (if char_here lx = Some CHR 0x0A then advance 1 lx
      else if char_here lx = Some CHR 0x0D then
        (let lx = advance 1 lx in if char_here lx = Some CHR 0x0A then advance 1 lx else lx)
      else lx)"

definition clear_final_line_if_whitespace :: "string \<Rightarrow> string" where
  "clear_final_line_if_whitespace text =
     (let r = dropWhile (\<lambda>c. c = CHR '' '' \<or> c = CHR 0x09) (rev text)
      in if r = [] \<or> hd r = CHR 0x0A \<or> hd r = CHR 0x0D then rev r else text)"

section \<open>Tokens between delimiters\<close>

text \<open>Identifiers, numbers and strings, from the character after the first one.\<close>

definition is_id_char :: "char \<Rightarrow> bool" where
  "is_id_char c \<longleftrightarrow> is_alpha c \<or> is_digit c \<or> c \<in> {CHR ''.'', CHR ''/'', CHR ''_'', CHR ''-''}"

definition is_number_char :: "char \<Rightarrow> bool" where
  "is_number_char c \<longleftrightarrow> is_digit c \<or> c \<in> {CHR ''.'', CHR ''e'', CHR ''E'', CHR ''+'', CHR ''-''}"

definition take_chars :: "(char \<Rightarrow> bool) \<Rightarrow> lexer \<Rightarrow> lexer" where
  "take_chars p lx = advance (length (takeWhile p (drop (m_pos lx) (m_in lx)))) lx"

definition scan_id :: "lexer \<Rightarrow> inja_token \<times> lexer" where
  "scan_id lx = (let lx = take_chars is_id_char lx in (make_token K_Id lx, lx))"

definition scan_inja_number :: "lexer \<Rightarrow> inja_token \<times> lexer" where
  "scan_inja_number lx = (let lx = take_chars is_number_char lx in (make_token K_Number lx, lx))"

text \<open>
  The number of characters up to the closing quote; a backslash after a backslash still escapes the
  next character.
\<close>

fun string_length :: "bool \<Rightarrow> char \<Rightarrow> string \<Rightarrow> nat" where
  "string_length escape q [] = 0"
| "string_length escape q (ch # s) =
     Suc (if ch = CHR 0x5C then string_length True q s
          else if \<not> escape \<and> ch = q then 0
          else string_length False q s)"

definition scan_inja_string :: "lexer \<Rightarrow> inja_token \<times> lexer" where
  "scan_inja_string lx =
     (let lx = advance (string_length False (m_in lx ! m_tok_start lx) (drop (m_pos lx) (m_in lx))) lx
      in (make_token K_String lx, lx))"

definition followed_by_equal :: "token_kind \<Rightarrow> token_kind \<Rightarrow> lexer \<Rightarrow> inja_token \<times> lexer" where
  "followed_by_equal with_equal alone lx =
     (if char_here lx = Some CHR ''='' then (let lx = advance 1 lx in (make_token with_equal lx, lx))
      else (make_token alone lx, lx))"

definition symbol_kind :: "char \<Rightarrow> token_kind option" where
  "symbol_kind ch =
     (if ch = CHR '','' then Some K_Comma
      else if ch = CHR '':'' then Some K_Colon
      else if ch = CHR ''('' then Some K_LeftParen
      else if ch = CHR '')'' then Some K_RightParen
      else if ch = CHR ''['' then Some K_LeftBracket
      else if ch = CHR '']'' then Some K_RightBracket
      else if ch = CHR ''{'' then Some K_LeftBrace
      else if ch = CHR ''}'' then Some K_RightBrace
      else None)"

definition scan_symbol :: "char \<Rightarrow> lexer \<Rightarrow> inja_token \<times> lexer" where
  "scan_symbol ch lx =
     (if is_alpha ch then scan_id lx
      else case symbol_kind ch of
        Some kind \<Rightarrow> (make_token kind lx, lx)
      | None \<Rightarrow>
          if ch = CHR ''>'' then followed_by_equal K_GreaterEqual K_GreaterThan lx
          else if ch = CHR ''<'' then followed_by_equal K_LessEqual K_LessThan lx
          else if ch = CHR ''='' then followed_by_equal K_Equal K_Unknown lx
          else if ch = CHR ''!'' then followed_by_equal K_NotEqual K_Unknown lx
          else if ch = CHR 0x22 then scan_inja_string lx
          else if is_digit ch \<or> ch = CHR ''-'' then scan_inja_number lx
          else if ch = CHR ''_'' then scan_id lx
          else (make_token K_Unknown lx, lx))"

function scan_body :: "string \<Rightarrow> token_kind \<Rightarrow> bool \<Rightarrow> lexer \<Rightarrow> inja_token \<times> lexer" where
  "scan_body close closeKind trim lx =
     (if length (m_in lx) \<le> m_tok_start lx then (make_token K_Eof lx, lx)
      else
        let ch = m_in lx ! m_tok_start lx in
        if ch = CHR '' '' \<or> ch = CHR 0x09 \<or> ch = CHR 0x0D then
          scan_body close closeKind trim (lx\<lparr>m_tok_start := m_tok_start lx + 1\<rparr>)
        else if starts_with (drop (m_tok_start lx) (m_in lx)) close then
          (let lx = lx\<lparr>m_state := L_Text, m_pos := m_tok_start lx + length close\<rparr>
           in (make_token closeKind lx, if trim then skip_newline lx else lx))
        else if ch = CHR 0x0A then
          scan_body close closeKind trim (lx\<lparr>m_tok_start := m_tok_start lx + 1\<rparr>)
        else scan_symbol ch (lx\<lparr>m_pos := m_tok_start lx + 1\<rparr>))"
  by pat_completeness auto
termination
  by (relation "measure (\<lambda>(close, closeKind, trim, lx). length (m_in lx) - m_tok_start lx)") auto

declare scan_body.simps [simp del]

section \<open>The state machine\<close>

text \<open>What opens at a position of the text: the new state, and whether blanks before it go.\<close>

definition open_sequence :: "lexer_config \<Rightarrow> lexer \<Rightarrow> (lexer_state \<times> bool) option" where
  "open_sequence cfg lx =
     (let open_str = drop (m_pos lx) (m_in lx) in
      if starts_with open_str (expression_open cfg) then Some (L_ExpressionStart, False)
      else if starts_with open_str (statement_open cfg) then Some (L_StatementStart, lstrip_blocks cfg)
      else if starts_with open_str (comment_open cfg) then Some (L_CommentStart, lstrip_blocks cfg)
      else if (m_pos lx = 0 \<or> m_in lx ! (m_pos lx - 1) = CHR 0x0A) \<and> starts_with open_str (line_statement cfg)
      then Some (L_LineStart, False)
      else None)"

definition scan_start :: "lexer_state \<Rightarrow> string \<Rightarrow> token_kind \<Rightarrow> lexer \<Rightarrow> inja_token \<times> lexer" where
  "scan_start body op kind lx =
     (let lx = advance (length op) (lx\<lparr>m_state := body\<rparr>) in (make_token kind lx, lx))"

definition scan_comment :: "lexer_config \<Rightarrow> lexer \<Rightarrow> inja_token \<times> lexer" where
  "scan_comment cfg lx =
     (case find_string (drop (m_pos lx) (m_in lx)) (comment_close cfg) of
        None \<Rightarrow> (let lx = lx\<lparr>m_pos := length (m_in lx)\<rparr> in (make_token K_Eof lx, lx))
      | Some e \<Rightarrow>
          (let lx = advance (e + length (comment_close cfg)) (lx\<lparr>m_state := L_Text\<rparr>)
           in (make_token K_CommentClose lx, if trim_blocks cfg then skip_newline lx else lx)))"

lemma find_first_of_less: "find_first_of s cs = Some k \<Longrightarrow> k < length s"
  by (auto simp: find_first_of_def Let_def split: if_splits)

lemma open_sequence_state: "open_sequence cfg lx = Some (st, b) \<Longrightarrow> st \<noteq> L_Text"
  by (auto simp: open_sequence_def Let_def split: if_splits)

function scan_token :: "lexer_config \<Rightarrow> lexer \<Rightarrow> inja_token \<times> lexer" where
  "scan_token cfg lx =
     (if length (m_in lx) \<le> m_tok_start lx then (make_token K_Eof lx, lx)
      else
        (case m_state lx of
           L_Text \<Rightarrow>
             (case find_first_of (drop (m_pos lx) (m_in lx)) (open_chars cfg) of
                None \<Rightarrow> (let lx = lx\<lparr>m_pos := length (m_in lx)\<rparr> in (make_token K_Text lx, lx))
              | Some open_start \<Rightarrow>
                  let lx = advance open_start lx in
                  (case open_sequence cfg lx of
                     None \<Rightarrow> scan_token cfg (advance 1 lx)
                   | Some (state, must_lstrip) \<Rightarrow>
                       let text = slice (m_in lx) (m_tok_start lx) (m_pos lx);
                           text = (if must_lstrip then clear_final_line_if_whitespace text else text);
                           lx = lx\<lparr>m_state := state\<rparr>
                       in if text = [] then scan_token cfg lx
                          else (\<lparr>tok_kind = K_Text, tok_start = m_tok_start lx, tok_text = text\<rparr>, lx)))
         | L_ExpressionStart \<Rightarrow> scan_start L_ExpressionBody (expression_open cfg) K_ExpressionOpen lx
         | L_LineStart \<Rightarrow> scan_start L_LineBody (line_statement cfg) K_LineStatementOpen lx
         | L_StatementStart \<Rightarrow> scan_start L_StatementBody (statement_open cfg) K_StatementOpen lx
         | L_CommentStart \<Rightarrow> scan_start L_CommentBody (comment_open cfg) K_CommentOpen lx
         | L_ExpressionBody \<Rightarrow> scan_body (expression_close cfg) K_ExpressionClose False lx
         | L_LineBody \<Rightarrow> scan_body [CHR 0x0A] K_LineStatementClose False lx
         | L_StatementBody \<Rightarrow> scan_body (statement_close cfg) K_StatementClose (trim_blocks cfg) lx
         | L_CommentBody \<Rightarrow> scan_comment cfg lx))"
  by pat_completeness auto

termination
proof (relation "measure (\<lambda>(cfg, lx). 2 * (length (m_in lx) - m_pos lx) + (if m_state lx = L_Text then 1 else 0))",
    goal_cases)
  case (2 cfg lx k lx')
  then show ?case using find_first_of_less [of "drop (m_pos lx) (m_in lx)" "open_chars cfg" k]
    by (auto simp: advance_def)
next
  case (3 cfg lx k lx' p st b t1 t2 lx2)
  then show ?case using find_first_of_less [of "drop (m_pos lx) (m_in lx)" "open_chars cfg" k]
      open_sequence_state [of cfg lx' st b]
    by (auto simp: advance_def)
qed simp

declare scan_token.simps [simp del]

definition inja_scan :: "lexer_config \<Rightarrow> lexer \<Rightarrow> inja_token \<times> lexer" where
  "inja_scan cfg lx = scan_token cfg (lx\<lparr>m_tok_start := m_pos lx\<rparr>)"

section \<open>Positions in error messages\<close>

definition find_newline :: "string \<Rightarrow> nat \<Rightarrow> nat option" where
  "find_newline s start =
     (let k = start + length (takeWhile (\<lambda>c. c \<noteq> CHR 0x0A) (drop start s)) in if k < length s then Some k else None)"

text \<open>The search from the start; \<open>None\<close> is \<^verbatim>\<open>npos\<close>, which ends the loop.\<close>

function count_lines :: "string \<Rightarrow> nat \<Rightarrow> nat" where
  "count_lines s search_start =
     (if search_start < length s then
        Suc (case find_newline s (search_start + 1) of None \<Rightarrow> 0 | Some k \<Rightarrow> count_lines s k)
      else 0)"
  by pat_completeness auto
termination
  by (relation "measure (\<lambda>(s, k). length s - k)") (auto simp: find_newline_def Let_def split: if_splits)

declare count_lines.simps [simp del]

definition current_position :: "lexer \<Rightarrow> nat \<times> nat" where
  "current_position lx =
     (let sliced = slice (m_in lx) 0 (m_tok_start lx) in
      if CHR 0x0A \<notin> set sliced then (1, length sliced + 1)
      else
        let after = length (takeWhile (\<lambda>c. c \<noteq> CHR 0x0A) (rev sliced));
            last_newline = length sliced - 1 - after
        in (count_lines sliced 0 + 1, length sliced - last_newline + 1))"

section \<open>Progress\<close>

text \<open>With non-empty delimiters a token takes at least one character, and none is read past the end.\<close>

definition config_ok :: "lexer_config \<Rightarrow> bool" where
  "config_ok cfg \<longleftrightarrow> [] \<notin> {statement_open cfg, statement_close cfg, line_statement cfg,
     expression_open cfg, expression_close cfg, comment_open cfg, comment_close cfg}"

lemma config_ok_default: "config_ok default_config"
  by (simp add: config_ok_def default_config_def)

definition at_delimiter :: "lexer_config \<Rightarrow> lexer \<Rightarrow> bool" where
  "at_delimiter cfg lx \<longleftrightarrow>
     (let here = drop (m_pos lx) (m_in lx) in
      case m_state lx of
        L_ExpressionStart \<Rightarrow> starts_with here (expression_open cfg)
      | L_LineStart \<Rightarrow> starts_with here (line_statement cfg)
      | L_StatementStart \<Rightarrow> starts_with here (statement_open cfg)
      | L_CommentStart \<Rightarrow> starts_with here (comment_open cfg)
      | _ \<Rightarrow> True)"

definition lexer_inv :: "lexer_config \<Rightarrow> lexer \<Rightarrow> bool" where
  "lexer_inv cfg lx \<longleftrightarrow> m_pos lx \<le> length (m_in lx) \<and> at_delimiter cfg lx"

definition scanned :: "lexer_config \<Rightarrow> lexer \<Rightarrow> inja_token \<times> lexer \<Rightarrow> bool" where
  "scanned cfg lx r \<longleftrightarrow>
     (case r of (t, lx') \<Rightarrow> lexer_inv cfg lx' \<and> m_in lx' = m_in lx \<and> m_pos lx \<le> m_pos lx'
        \<and> (tok_kind t \<noteq> K_Eof \<longrightarrow> m_pos lx < m_pos lx'))"

lemma lexer_inv_start: "lexer_inv cfg (inja_start input)"
  by (simp add: lexer_inv_def at_delimiter_def inja_start_def)

lemma tok_kind_make_token [simp]: "tok_kind (make_token k lx) = k"
  by (simp add: make_token_def)

lemma starts_with_length: "starts_with (drop k s) p \<Longrightarrow> p \<noteq> [] \<Longrightarrow> k + length p \<le> length s"
  by (cases "k \<le> length s") (auto simp: starts_with_def)

lemma take_chars_bound: "m_pos lx \<le> length (m_in lx) \<Longrightarrow>
    m_pos (take_chars p lx) \<le> length (m_in lx) \<and> m_pos lx \<le> m_pos (take_chars p lx)"
  using length_takeWhile_le [of p "drop (m_pos lx) (m_in lx)"] by (simp add: take_chars_def advance_def)

lemma string_length_bound: "string_length e q s \<le> length s"
  by (induction e q s rule: string_length.induct) auto

lemma char_here_bound: "char_here lx = Some c \<Longrightarrow> m_pos lx < length (m_in lx)"
  by (auto simp: char_here_def split: if_splits)

lemma skip_newline_bound: "m_pos lx \<le> length (m_in lx) \<Longrightarrow>
    m_in (skip_newline lx) = m_in lx \<and> m_pos lx \<le> m_pos (skip_newline lx)
    \<and> m_pos (skip_newline lx) \<le> length (m_in lx) \<and> m_state (skip_newline lx) = m_state lx"
  by (auto simp: skip_newline_def advance_def char_here_def Let_def split: if_splits)

lemma take_chars_fields [simp]:
  "m_in (take_chars p lx) = m_in lx" "m_state (take_chars p lx) = m_state lx"
  "m_in (advance n lx) = m_in lx" "m_state (advance n lx) = m_state lx" "m_pos (advance n lx) = m_pos lx + n"
  "m_tok_start (advance n lx) = m_tok_start lx"
  by (simp_all add: take_chars_def advance_def)

lemma scan_symbol_bound:
  assumes "scan_symbol ch lx = (t, lx')" "m_pos lx \<le> length (m_in lx)"
  shows "m_in lx' = m_in lx \<and> m_state lx' = m_state lx \<and> m_pos lx \<le> m_pos lx' \<and> m_pos lx' \<le> length (m_in lx)"
  using assms take_chars_bound [of lx] string_length_bound [of False _ "drop (m_pos lx) (m_in lx)"]
  by (auto simp: scan_symbol_def scan_id_def scan_inja_number_def scan_inja_string_def followed_by_equal_def
      Let_def le_diff_conv2 add.commute dest: char_here_bound split: if_splits option.splits)

lemma scan_body_bound:
  assumes "close \<noteq> []" "m_pos lx \<le> length (m_in lx)" "m_pos lx \<le> m_tok_start lx"
    "scan_body close closeKind trim lx = (t, lx')"
  shows "m_in lx' = m_in lx \<and> (m_state lx' = m_state lx \<or> m_state lx' = L_Text) \<and> m_pos lx \<le> m_pos lx'
    \<and> m_pos lx' \<le> length (m_in lx) \<and> (tok_kind t \<noteq> K_Eof \<longrightarrow> m_pos lx < m_pos lx')"
  using assms
proof (induction close closeKind trim lx rule: scan_body.induct)
  case (1 close closeKind trim lx)
  let ?ch = "m_in lx ! m_tok_start lx" and ?next = "lx\<lparr>m_tok_start := m_tok_start lx + 1\<rparr>"
    and ?rest = "drop (m_tok_start lx) (m_in lx)"
  consider "length (m_in lx) \<le> m_tok_start lx"
    | "m_tok_start lx < length (m_in lx)" "?ch = CHR '' '' \<or> ?ch = CHR 0x09 \<or> ?ch = CHR 0x0D"
    | "m_tok_start lx < length (m_in lx)" "\<not> (?ch = CHR '' '' \<or> ?ch = CHR 0x09 \<or> ?ch = CHR 0x0D)"
      "starts_with ?rest close"
    | "m_tok_start lx < length (m_in lx)" "\<not> (?ch = CHR '' '' \<or> ?ch = CHR 0x09 \<or> ?ch = CHR 0x0D)"
      "\<not> starts_with ?rest close" "?ch = CHR 0x0A"
    | "m_tok_start lx < length (m_in lx)" "\<not> (?ch = CHR '' '' \<or> ?ch = CHR 0x09 \<or> ?ch = CHR 0x0D)"
      "\<not> starts_with ?rest close" "?ch \<noteq> CHR 0x0A"
    by linarith
  then show ?case
  proof cases
    case 1
    then show ?thesis using "1.prems" by (auto simp: scan_body.simps [of _ _ _ lx])
  next
    case 2
    then show ?thesis using "1.IH"(1) [OF _ refl] "1.prems" by (simp add: scan_body.simps [of _ _ _ lx])
  next
    case 3
    let ?lx = "lx\<lparr>m_state := L_Text, m_pos := m_tok_start lx + length close\<rparr>"
    have "m_tok_start lx + length close \<le> length (m_in lx)"
      using starts_with_length [OF 3(3)] "1.prems"(1) by simp
    then show ?thesis
      using 3 "1.prems" skip_newline_bound [of ?lx]
      by (cases close) (auto simp: scan_body.simps [of _ _ _ lx] Let_def split: if_splits)
  next
    case 4
    then show ?thesis using "1.IH"(2) [OF _ refl] "1.prems" by (simp add: scan_body.simps [of _ _ _ lx])
  next
    case 5
    then show ?thesis
      using scan_symbol_bound [of ?ch "lx\<lparr>m_pos := m_tok_start lx + 1\<rparr>" t lx'] "1.prems"
      by (simp add: scan_body.simps [of _ _ _ lx] Let_def)
  qed
qed

lemma find_string_bound: "find_string view s = Some k \<Longrightarrow> k + length s \<le> length view"
  by (induction view s arbitrary: k rule: find_string.induct) (auto simp: starts_with_def split: if_splits)

lemma text_slice_bound: "m_pos lx \<le> length (m_in lx) \<Longrightarrow> k \<le> m_pos lx \<Longrightarrow>
    slice (m_in lx) k (m_pos lx) \<noteq> [] \<Longrightarrow> k < m_pos lx"
  by (auto simp: slice_def Let_def)

lemma clear_final_line_Nil [simp]: "clear_final_line_if_whitespace [] = []"
  by (simp add: clear_final_line_if_whitespace_def)

lemma open_sequence_delimiter:
  "open_sequence cfg lx = Some (st, b) \<Longrightarrow> at_delimiter cfg (lx\<lparr>m_state := st\<rparr>)"
  by (auto simp: open_sequence_def at_delimiter_def Let_def split: if_splits)

lemma scan_body_scanned:
  assumes "close \<noteq> []" "m_pos lx \<le> length (m_in lx)" "m_pos lx \<le> m_tok_start lx"
    and "m_state lx \<in> {L_ExpressionBody, L_LineBody, L_StatementBody}"
  shows "scanned cfg lx (scan_body close closeKind trim lx)"
proof -
  obtain t lx' where r: "scan_body close closeKind trim lx = (t, lx')" by force
  from scan_body_bound [OF assms(1-3) r] assms(4) show ?thesis
    by (auto simp: scanned_def r lexer_inv_def at_delimiter_def)
qed

lemma scan_start_scanned:
  assumes "op \<noteq> []" "starts_with (drop (m_pos lx) (m_in lx)) op"
    and "body \<in> {L_ExpressionBody, L_LineBody, L_StatementBody, L_CommentBody}"
  shows "scanned cfg lx (scan_start body op kind lx)"
  using starts_with_length [OF assms(2,1)] assms(1,3)
  by (auto simp: scanned_def scan_start_def Let_def lexer_inv_def at_delimiter_def)

lemma scan_comment_scanned:
  assumes "comment_close cfg \<noteq> []" "m_pos lx \<le> length (m_in lx)" "m_state lx = L_CommentBody"
  shows "scanned cfg lx (scan_comment cfg lx)"
proof (cases "find_string (drop (m_pos lx) (m_in lx)) (comment_close cfg)")
  case None
  then show ?thesis
    using assms by (simp add: scanned_def scan_comment_def lexer_inv_def at_delimiter_def Let_def)
next
  case (Some k)
  let ?lx = "advance (k + length (comment_close cfg)) (lx\<lparr>m_state := L_Text\<rparr>)"
  have pos: "m_pos ?lx \<le> length (m_in ?lx)"
    using find_string_bound [OF Some] assms(2) by simp
  have less: "m_pos lx < m_pos ?lx" using assms(1) by (cases "comment_close cfg") auto
  have "scan_comment cfg lx = (make_token K_CommentClose ?lx, if trim_blocks cfg then skip_newline ?lx else ?lx)"
    by (simp add: scan_comment_def Some Let_def)
  moreover have "m_pos lx < m_pos (skip_newline ?lx)"
    using less skip_newline_bound [OF pos] by linarith
  ultimately show ?thesis
    using pos skip_newline_bound [OF pos] assms(1)
    by (auto simp: scanned_def lexer_inv_def at_delimiter_def)
qed

definition in_body :: "lexer \<Rightarrow> bool" where
  "in_body lx \<longleftrightarrow> m_state lx \<in> {L_ExpressionBody, L_LineBody, L_StatementBody, L_CommentBody}"

text \<open>Tokens of every state but the text.\<close>

lemma scan_token_other:
  assumes "config_ok cfg" "lexer_inv cfg lx" "in_body lx \<Longrightarrow> m_pos lx \<le> m_tok_start lx"
    and "m_state lx \<noteq> L_Text" "m_tok_start lx < length (m_in lx)"
  shows "scanned cfg lx (scan_token cfg lx)"
  using assms
  by (cases "m_state lx")
    (auto simp: scan_token.simps [of cfg lx] config_ok_def lexer_inv_def at_delimiter_def in_body_def
      intro!: scan_body_scanned scan_start_scanned scan_comment_scanned)

lemma scan_token_scanned:
  assumes "config_ok cfg" "lexer_inv cfg lx" "m_tok_start lx \<le> m_pos lx" "in_body lx \<longrightarrow> m_tok_start lx = m_pos lx"
  shows "case scan_token cfg lx of (t, lx') \<Rightarrow> lexer_inv cfg lx' \<and> m_in lx' = m_in lx
    \<and> m_pos lx \<le> m_pos lx' \<and> (tok_kind t \<noteq> K_Eof \<longrightarrow> m_tok_start lx < m_pos lx')"
  using assms
proof (induction cfg lx rule: scan_token.induct)
  case (1 cfg lx)
  note inv = "1.prems"(2) [unfolded lexer_inv_def]
  consider "length (m_in lx) \<le> m_tok_start lx"
    | (other) "\<not> length (m_in lx) \<le> m_tok_start lx" "m_state lx \<noteq> L_Text"
    | (rest) "\<not> length (m_in lx) \<le> m_tok_start lx" "m_state lx = L_Text"
        "find_first_of (drop (m_pos lx) (m_in lx)) (open_chars cfg) = None"
    | (found) k where "\<not> length (m_in lx) \<le> m_tok_start lx" "m_state lx = L_Text"
        "find_first_of (drop (m_pos lx) (m_in lx)) (open_chars cfg) = Some k"
    by blast
  then show ?case
  proof cases
    case 1
    then show ?thesis using "1.prems" by (simp add: scan_token.simps [of _ lx])
  next
    case other
    then have "scanned cfg lx (scan_token cfg lx)"
      using "1.prems" by (intro scan_token_other) auto
    then show ?thesis using "1.prems"(3) by (auto simp: scanned_def)
  next
    case rest
    then show ?thesis
      using inv by (simp add: scan_token.simps [of _ lx] lexer_inv_def at_delimiter_def Let_def)
  next
    case found
    let ?lx = "advance k lx"
    note unfold = scan_token.simps [of cfg lx] if_not_P [OF found(1)] found(2,3)
    have k: "m_pos ?lx < length (m_in lx)"
      using find_first_of_less [OF found(3)] by simp
    show ?thesis
    proof (cases "open_sequence cfg ?lx")
      case None
      have "lexer_inv cfg (advance 1 ?lx)" "\<not> in_body (advance 1 ?lx)"
        using k found(2) by (simp_all add: lexer_inv_def at_delimiter_def in_body_def)
      from "1.IH"(1) [OF found refl None "1.prems"(1) this(1)] this(2) "1.prems"(3)
      have "case scan_token cfg (advance 1 ?lx) of (t, lx') \<Rightarrow> lexer_inv cfg lx' \<and> m_in lx' = m_in lx
        \<and> m_pos lx \<le> m_pos lx' \<and> (tok_kind t \<noteq> K_Eof \<longrightarrow> m_tok_start lx < m_pos lx')"
        by (auto simp: advance_def)
      moreover have "scan_token cfg lx = scan_token cfg (advance 1 ?lx)"
        by (simp add: unfold None Let_def)
      ultimately show ?thesis by simp
    next
      case (Some p)
      then obtain st b where p: "open_sequence cfg ?lx = Some (st, b)" by (cases p) auto
      let ?text = "slice (m_in ?lx) (m_tok_start ?lx) (m_pos ?lx)"
      let ?t = "if b then clear_final_line_if_whitespace ?text else ?text" and ?lx' = "?lx\<lparr>m_state := st\<rparr>"
      have inv': "lexer_inv cfg ?lx'"
        using k open_sequence_delimiter [OF p] by (simp add: lexer_inv_def)
      have body: "\<not> in_body ?lx'"
        using p by (auto simp: in_body_def open_sequence_def Let_def split: if_splits)
      show ?thesis
      proof (cases "?t = []")
        case True
        from "1.IH"(2) [OF found refl p refl refl refl refl True "1.prems"(1) inv'] body "1.prems"(3)
        have "case scan_token cfg ?lx' of (t, lx') \<Rightarrow> lexer_inv cfg lx' \<and> m_in lx' = m_in lx
          \<and> m_pos lx \<le> m_pos lx' \<and> (tok_kind t \<noteq> K_Eof \<longrightarrow> m_tok_start lx < m_pos lx')"
          by auto
        moreover have "scan_token cfg lx = scan_token cfg ?lx'"
          using True by (cases b) (simp_all add: unfold p Let_def)
        ultimately show ?thesis by simp
      next
        case False
        then have "?text \<noteq> []" by (auto split: if_splits)
        then have "m_tok_start lx < m_pos lx + k"
          using text_slice_bound [of ?lx "m_tok_start lx"] k "1.prems"(3) by simp
        with False inv' show ?thesis by (cases b) (simp_all add: unfold p Let_def)
      qed
    qed
  qed
qed

theorem inja_scan_progress:
  assumes "config_ok cfg" "lexer_inv cfg lx" "inja_scan cfg lx = (t, lx')"
  shows "lexer_inv cfg lx'" "m_in lx' = m_in lx" "m_pos lx \<le> m_pos lx'"
    "tok_kind t \<noteq> K_Eof \<Longrightarrow> m_pos lx < m_pos lx'"
proof -
  let ?lx = "lx\<lparr>m_tok_start := m_pos lx\<rparr>"
  have "lexer_inv cfg ?lx"
    using assms(2) by (simp add: lexer_inv_def at_delimiter_def)
  from scan_token_scanned [OF assms(1) this] assms(3)
  show "lexer_inv cfg lx'" "m_in lx' = m_in lx" "m_pos lx \<le> m_pos lx'"
    "tok_kind t \<noteq> K_Eof \<Longrightarrow> m_pos lx < m_pos lx'"
    by (simp_all add: inja_scan_def)
qed

end
