(* ===== verification/Inja_Bytecode.thy ===== *)
theory Inja_Bytecode
  imports Json_Parser Inja_Lexer
begin

text \<open>
  The instructions the template parser emits and the renderer runs, and the table of built-in
  functions (\<^verbatim>\<open>Bytecode\<close>, \<^verbatim>\<open>FunctionStorage\<close>,
  \<^verbatim>\<open>ParserStatic\<close> of \<^verbatim>\<open>src/extlibs/inja/src/inja.hpp\<close>).
\<close>

section \<open>Instructions\<close>

datatype bytecode_op =
    Op_Nop | Op_PrintText | Op_PrintValue | Op_Push
  | Op_Not | Op_And | Op_Or | Op_In | Op_Equal | Op_Greater | Op_GreaterEqual | Op_Less | Op_LessEqual
  | Op_At | Op_Different | Op_DivisibleBy | Op_Even | Op_First | Op_Float | Op_Int | Op_Last | Op_Length
  | Op_Lower | Op_Max | Op_Min | Op_Odd | Op_Range | Op_Result | Op_Round | Op_Sort | Op_Upper
  | Op_Exists | Op_ExistsInObject | Op_IsBoolean | Op_IsNumber | Op_IsInteger | Op_IsFloat | Op_IsObject
  | Op_IsArray | Op_IsString | Op_Default | Op_Include | Op_Callback
  | Op_Jump | Op_ConditionalJump | Op_StartLoop | Op_EndLoop

datatype value_flag = ValuePop | ValueImmediate | ValueLookupDot | ValueLookupPointer

text \<open>The operand is a bit field of 30 bits: an argument count, or a position to jump to.\<close>

record bytecode =
  bc_op :: bytecode_op
  bc_args :: "30 word"
  bc_flags :: value_flag
  bc_value :: json
  bc_str :: string

definition bc_plain :: "bytecode_op \<Rightarrow> nat \<Rightarrow> bytecode" where
  "bc_plain op n = \<lparr>bc_op = op, bc_args = word_of_nat n, bc_flags = ValuePop, bc_value = JNull, bc_str = []\<rparr>"

definition bc_string :: "bytecode_op \<Rightarrow> string \<Rightarrow> value_flag \<Rightarrow> bytecode" where
  "bc_string op s fl = \<lparr>bc_op = op, bc_args = 0, bc_flags = fl, bc_value = JNull, bc_str = s\<rparr>"

definition bc_json :: "bytecode_op \<Rightarrow> json \<Rightarrow> value_flag \<Rightarrow> bytecode" where
  "bc_json op v fl = \<lparr>bc_op = op, bc_args = 0, bc_flags = fl, bc_value = v, bc_str = []\<rparr>"

definition bc_target :: "bytecode \<Rightarrow> nat" where
  "bc_target bc = unat (bc_args bc)"

record inja_template =
  bytecodes :: "bytecode list"
  content :: string

type_synonym template_storage = "(string \<times> inja_template) list"

section \<open>Functions\<close>

text \<open>
  The functions of one name, by the number of their arguments. Callbacks are not registered in the
  storage of the parser, so an entry is an instruction.
\<close>

type_synonym function_storage = "(string \<times> (nat \<times> bytecode_op) list) list"

fun set_num_args :: "nat \<Rightarrow> bytecode_op \<Rightarrow> (nat \<times> bytecode_op) list \<Rightarrow> (nat \<times> bytecode_op) list" where
  "set_num_args n op [] = [(n, op)]"
| "set_num_args n op ((m, q) # vs) = (if m = n then (m, op) # vs else (m, q) # set_num_args n op vs)"

definition add_builtin :: "string \<times> nat \<times> bytecode_op \<Rightarrow> function_storage \<Rightarrow> function_storage" where
  "add_builtin f fs =
     (case f of (name, num_args, op) \<Rightarrow>
        let vec = (case map_of fs name of None \<Rightarrow> [] | Some v \<Rightarrow> v)
        in (name, set_num_args num_args op vec) # filter (\<lambda>e. fst e \<noteq> name) fs)"

definition find_builtin :: "function_storage \<Rightarrow> string \<Rightarrow> nat \<Rightarrow> bytecode_op" where
  "find_builtin fs name num_args =
     (case map_of fs name of
        None \<Rightarrow> Op_Nop
      | Some vec \<Rightarrow> (case map_of vec num_args of None \<Rightarrow> Op_Nop | Some op \<Rightarrow> op))"

definition builtin_functions :: "(string \<times> nat \<times> bytecode_op) list" where
  "builtin_functions =
     [(''at'', 2, Op_At), (''default'', 2, Op_Default), (''divisibleBy'', 2, Op_DivisibleBy),
      (''even'', 1, Op_Even), (''first'', 1, Op_First), (''float'', 1, Op_Float), (''int'', 1, Op_Int),
      (''last'', 1, Op_Last), (''length'', 1, Op_Length), (''lower'', 1, Op_Lower), (''max'', 1, Op_Max),
      (''min'', 1, Op_Min), (''odd'', 1, Op_Odd), (''range'', 1, Op_Range), (''round'', 2, Op_Round),
      (''sort'', 1, Op_Sort), (''upper'', 1, Op_Upper), (''exists'', 1, Op_Exists),
      (''existsIn'', 2, Op_ExistsInObject), (''isBoolean'', 1, Op_IsBoolean), (''isNumber'', 1, Op_IsNumber),
      (''isInteger'', 1, Op_IsInteger), (''isFloat'', 1, Op_IsFloat), (''isObject'', 1, Op_IsObject),
      (''isArray'', 1, Op_IsArray), (''isString'', 1, Op_IsString)]"

definition ParserStatic :: function_storage where
  "ParserStatic = fold add_builtin builtin_functions []"

section \<open>Lemmas\<close>

lemma unat_args [simp]: "n < 2 ^ 30 \<Longrightarrow> unat (word_of_nat n :: 30 word) = n"
  by (simp add: unsigned_of_nat take_bit_nat_eq_self)

text \<open>The table holds exactly the registered functions, which have distinct names.\<close>

lemma find_add_builtin:
  "find_builtin (add_builtin (name, n, op) fs) name' n'
     = (if name' = name \<and> n' = n then op else find_builtin fs name' n')"
proof -
  have s: "map_of (set_num_args n op vs) m = (if m = n then Some op else map_of vs m)" for vs m
    by (induction n op vs rule: set_num_args.induct) auto
  have f: "name' \<noteq> name \<Longrightarrow> map_of (filter (\<lambda>e. fst e \<noteq> name) fs) name' = map_of fs name'"
    by (induction fs) auto
  show ?thesis
    by (auto simp: find_builtin_def add_builtin_def Let_def s f split: option.splits)
qed

end
