(* ===== verification/Json_Query.thy ===== *)
theory Json_Query
  imports Json_Value C_Scan
begin

text \<open>
  What the template engine asks of a JSON document (\<^verbatim>\<open>src/extlibs/json/json.hpp\<close>): its
  size, its first and last element, members and elements with checks, conversion to
  \<^verbatim>\<open>int\<close>, comparison, and JSON pointers. What it computes with doubles is the parameter
  \<open>double_ops\<close>.
\<close>

section \<open>Doubles\<close>

record double_ops =
  d_eq :: "string \<Rightarrow> string \<Rightarrow> bool"
  d_less :: "string \<Rightarrow> string \<Rightarrow> bool"
  d_of_int :: "int \<Rightarrow> string"
  d_to_int :: "string \<Rightarrow> 32 word"
  d_round :: "string \<Rightarrow> 32 word \<Rightarrow> string"
  d_stod :: "string \<Rightarrow> string result"

section \<open>Size, first and last element\<close>

definition json_empty :: "json \<Rightarrow> bool" where
  "json_empty j =
     (case j of
        JNull \<Rightarrow> True
      | JArray vs \<Rightarrow> vs = []
      | JObject kvs \<Rightarrow> kvs = []
      | _ \<Rightarrow> False)"

definition json_size :: "json \<Rightarrow> nat" where
  "json_size j =
     (case j of
        JNull \<Rightarrow> 0
      | JArray vs \<Rightarrow> length vs
      | JObject kvs \<Rightarrow> length kvs
      | _ \<Rightarrow> 1)"

text \<open>Dereferencing the end of an array or object is out of bounds, of null an exception.\<close>

definition json_front :: "json \<Rightarrow> json result" where
  "json_front j =
     (case json_elements j of
        v # _ \<Rightarrow> Inr v
      | [] \<Rightarrow> Inl (if j = JNull then Invalid_Iterator 214 else Out_Of_Bounds))"

definition json_back :: "json \<Rightarrow> json result" where
  "json_back j =
     (case rev (json_elements j) of
        v # _ \<Rightarrow> Inr v
      | [] \<Rightarrow> Inl (if j = JNull then Invalid_Iterator 214 else Out_Of_Bounds))"

section \<open>Checked access\<close>

definition json_at_position :: "json \<Rightarrow> nat \<Rightarrow> json result" where
  "json_at_position j i =
     (case j of
        JArray vs \<Rightarrow> if i < length vs then Inr (vs ! i) else Inl (Out_Of_Range 401)
      | _ \<Rightarrow> Inl (Type_Error 304))"

definition json_at_index :: "json \<Rightarrow> 64 word \<Rightarrow> json result" where
  "json_at_index j idx = json_at_position j (unat idx)"

definition json_at_key :: "json \<Rightarrow> string \<Rightarrow> json result" where
  "json_at_key j key =
     (case j of
        JObject kvs \<Rightarrow> (case obj_lookup kvs key of Some v \<Rightarrow> Inr v | None \<Rightarrow> Inl (Out_Of_Range 403))
      | _ \<Rightarrow> Inl (Type_Error 304))"

definition json_find :: "json \<Rightarrow> string \<Rightarrow> json option" where
  "json_find j key = (case j of JObject kvs \<Rightarrow> obj_lookup kvs key | _ \<Rightarrow> None)"

text \<open>\<^verbatim>\<open>get<int>()\<close> and \<^verbatim>\<open>get_ref<const std::string&>()\<close>.\<close>

definition get_int :: "double_ops \<Rightarrow> json \<Rightarrow> 32 word result" where
  "get_int d j =
     (case j of
        JUnsigned x \<Rightarrow> Inr (ucast x)
      | JInteger x \<Rightarrow> Inr (ucast x)
      | JFloat x \<Rightarrow> Inr (d_to_int d x)
      | JBool b \<Rightarrow> Inr (if b then 1 else 0)
      | _ \<Rightarrow> Inl (Type_Error 302))"

definition get_double :: "double_ops \<Rightarrow> json \<Rightarrow> string result" where
  "get_double d j =
     (case j of
        JUnsigned x \<Rightarrow> Inr (d_of_int d (uint x))
      | JInteger x \<Rightarrow> Inr (d_of_int d (sint x))
      | JFloat x \<Rightarrow> Inr x
      | _ \<Rightarrow> Inl (Type_Error 302))"

definition get_string_ref :: "json \<Rightarrow> string result" where
  "get_string_ref j = (case j of JString s \<Rightarrow> Inr s | _ \<Rightarrow> Inl (Type_Error 303))"

definition get_bool :: "json \<Rightarrow> bool result" where
  "get_bool j = (case j of JBool b \<Rightarrow> Inr b | _ \<Rightarrow> Inl (Type_Error 302))"

definition is_number :: "json \<Rightarrow> bool" where
  "is_number j = (case j of JInteger x \<Rightarrow> True | JUnsigned x \<Rightarrow> True | JFloat x \<Rightarrow> True | _ \<Rightarrow> False)"

section \<open>Comparison\<close>

text \<open>
  \<^verbatim>\<open>operator==\<close>: values of different types are different, except numbers, which are
  converted; an unsigned number is cast to a signed one.
\<close>

fun json_eq :: "double_ops \<Rightarrow> json \<Rightarrow> json \<Rightarrow> bool"
and values_eq :: "double_ops \<Rightarrow> json list \<Rightarrow> json list \<Rightarrow> bool"
and members_eq :: "double_ops \<Rightarrow> (string \<times> json) list \<Rightarrow> (string \<times> json) list \<Rightarrow> bool" where
  "json_eq d (JArray vs) r = (case r of JArray ws \<Rightarrow> values_eq d vs ws | _ \<Rightarrow> False)"
| "json_eq d (JObject kvs) r = (case r of JObject lws \<Rightarrow> members_eq d kvs lws | _ \<Rightarrow> False)"
| "json_eq d JNull r = (r = JNull)"
| "json_eq d (JString s) r = (r = JString s)"
| "json_eq d (JBool b) r = (r = JBool b)"
| "json_eq d (JInteger x) r =
     (case r of
        JInteger y \<Rightarrow> x = y
      | JUnsigned y \<Rightarrow> x = y
      | JFloat y \<Rightarrow> d_eq d (d_of_int d (sint x)) y
      | _ \<Rightarrow> False)"
| "json_eq d (JUnsigned x) r =
     (case r of
        JUnsigned y \<Rightarrow> x = y
      | JInteger y \<Rightarrow> x = y
      | JFloat y \<Rightarrow> d_eq d (d_of_int d (uint x)) y
      | _ \<Rightarrow> False)"
| "json_eq d (JFloat x) r =
     (case r of
        JFloat y \<Rightarrow> d_eq d x y
      | JInteger y \<Rightarrow> d_eq d x (d_of_int d (sint y))
      | JUnsigned y \<Rightarrow> d_eq d x (d_of_int d (uint y))
      | _ \<Rightarrow> False)"
| "values_eq d [] ws = (ws = [])"
| "values_eq d (v # vs) ws = (case ws of [] \<Rightarrow> False | w # ws \<Rightarrow> json_eq d v w \<and> values_eq d vs ws)"
| "members_eq d [] lws = (lws = [])"
| "members_eq d ((k, v) # kvs) lws =
     (case lws of [] \<Rightarrow> False | (l, w) # lws \<Rightarrow> k = l \<and> json_eq d v w \<and> members_eq d kvs lws)"

text \<open>
  \<^verbatim>\<open>operator<\<close>: null, booleans, numbers, objects, arrays, strings in this order; arrays and
  objects lexicographically.
\<close>

definition type_order :: "json \<Rightarrow> nat" where
  "type_order j =
     (case j of
        JNull \<Rightarrow> 0 | JBool b \<Rightarrow> 1 | JInteger x \<Rightarrow> 2 | JUnsigned x \<Rightarrow> 2 | JFloat x \<Rightarrow> 2
      | JObject kvs \<Rightarrow> 3 | JArray vs \<Rightarrow> 4 | JString s \<Rightarrow> 5)"

definition number_less :: "double_ops \<Rightarrow> json \<Rightarrow> json \<Rightarrow> bool" where
  "number_less d l r =
     (case (l, r) of
        (JInteger x, JInteger y) \<Rightarrow> sint x < sint y
      | (JUnsigned x, JUnsigned y) \<Rightarrow> x < y
      | (JFloat x, JFloat y) \<Rightarrow> d_less d x y
      | (JInteger x, JFloat y) \<Rightarrow> d_less d (d_of_int d (sint x)) y
      | (JFloat x, JInteger y) \<Rightarrow> d_less d x (d_of_int d (sint y))
      | (JUnsigned x, JFloat y) \<Rightarrow> d_less d (d_of_int d (uint x)) y
      | (JFloat x, JUnsigned y) \<Rightarrow> d_less d x (d_of_int d (uint y))
      | (JInteger x, JUnsigned y) \<Rightarrow> sint x < sint y
      | (JUnsigned x, JInteger y) \<Rightarrow> sint x < sint y
      | _ \<Rightarrow> False)"

function (sequential) json_less :: "double_ops \<Rightarrow> json \<Rightarrow> json \<Rightarrow> bool"
and values_less :: "double_ops \<Rightarrow> json list \<Rightarrow> json list \<Rightarrow> bool"
and members_less :: "double_ops \<Rightarrow> (string \<times> json) list \<Rightarrow> (string \<times> json) list \<Rightarrow> bool" where
  "json_less d (JArray vs) (JArray ws) = values_less d vs ws"
| "json_less d (JObject kvs) (JObject lws) = members_less d kvs lws"
| "json_less d l r =
     (case (l, r) of
        (JString s, JString t) \<Rightarrow> key_less s t
      | (JBool a, JBool b) \<Rightarrow> \<not> a \<and> b
      | _ \<Rightarrow> if is_number l \<and> is_number r then number_less d l r else type_order l < type_order r)"
| "values_less d vs [] = False"
| "values_less d [] (w # ws) = True"
| "values_less d (v # vs) (w # ws) =
     (if json_less d v w then True else if json_less d w v then False else values_less d vs ws)"
| "members_less d kvs [] = False"
| "members_less d [] (lw # lws) = True"
| "members_less d ((k, v) # kvs) ((l, w) # lws) =
     (if key_less k l \<or> \<not> key_less l k \<and> json_less d v w then True
      else if key_less l k \<or> \<not> key_less k l \<and> json_less d w v then False
      else members_less d kvs lws)"
  by pat_completeness auto

termination
  by (relation "measure (\<lambda>x. case x of Inl (d, l, r) \<Rightarrow> size l + size r
        | Inr (Inl (d, vs, ws)) \<Rightarrow> size_list size vs + size_list size ws
        | Inr (Inr (d, kvs, lws)) \<Rightarrow> size_list (size_prod (\<lambda>_. 0) size) kvs + size_list (size_prod (\<lambda>_. 0) size) lws)")
    auto

declare json_less.simps [simp del] values_less.simps [simp del] members_less.simps [simp del]

section \<open>JSON pointers\<close>

text \<open>
  \<^verbatim>\<open>std::stoi\<close>: the value and what is left of the text; a text without digits and a value
  that does not fit are exceptions.
\<close>

definition stoi :: "string \<Rightarrow> (32 word \<times> string) result" where
  "stoi s =
     (let s = dropWhile is_c_space s;
          neg = (s \<noteq> [] \<and> hd s = CHR ''-'');
          s = (if s \<noteq> [] \<and> (hd s = CHR ''-'' \<or> hd s = CHR ''+'') then tl s else s);
          ds = takeWhile is_digit s;
          n = (if neg then - int (digits_value ds) else int (digits_value ds))
      in if ds = [] then Inl Invalid_Argument
         else if n < - (2 ^ 31) \<or> 2 ^ 31 \<le> n then Inl Std_Out_Of_Range
         else Inr (word_of_int n, dropWhile is_digit s))"

definition array_index :: "string \<Rightarrow> 32 word result" where
  "array_index s =
     and_then (stoi s) (\<lambda>(res, rest). if rest \<noteq> [] then Inl (Out_Of_Range 404) else Inr res)"

text \<open>Reference tokens: between slashes, with \<^verbatim>\<open>~1\<close> for a slash and \<^verbatim>\<open>~0\<close> for a tilde.\<close>

function replace_substring :: "string \<Rightarrow> string \<Rightarrow> string \<Rightarrow> string result" where
  "replace_substring s f t =
     (if f = [] then Inl Assertion_Failed
      else if s = [] then Inr []
      else if take (length f) s = f
      then and_then (replace_substring (drop (length f) s) f t) (\<lambda>r. Inr (t @ r))
      else and_then (replace_substring (tl s) f t) (\<lambda>r. Inr (hd s # r)))"
  by pat_completeness auto
termination
  by (relation "measure (\<lambda>(s, f, t). length s)") auto

declare replace_substring.simps [simp del]

definition unescape :: "string \<Rightarrow> string result" where
  "unescape s =
     and_then (replace_substring s ''~1'' ''/'') (\<lambda>s. replace_substring s ''~0'' ''~'')"

fun tildes_ok :: "string \<Rightarrow> bool" where
  "tildes_ok [] = True"
| "tildes_ok (c # s) =
     ((c = CHR ''~'' \<longrightarrow> s \<noteq> [] \<and> (hd s = CHR ''0'' \<or> hd s = CHR ''1'')) \<and> tildes_ok s)"

fun pointer_tokens :: "string \<Rightarrow> string \<Rightarrow> string list result" where
  "pointer_tokens token [] =
     (if tildes_ok token then and_then (unescape token) (\<lambda>t. Inr [t]) else Inl Parse_Error)"
| "pointer_tokens token (c # s) =
     (if c = CHR ''/'' then
        (if tildes_ok token
         then and_then (unescape token) (\<lambda>t. and_then (pointer_tokens [] s) (\<lambda>ts. Inr (t # ts)))
         else Inl Parse_Error)
      else pointer_tokens (token @ [c]) s)"

definition json_pointer :: "string \<Rightarrow> string list result" where
  "json_pointer s =
     (case s of
        [] \<Rightarrow> Inr []
      | c # s \<Rightarrow> if c \<noteq> CHR ''/'' then Inl Parse_Error else pointer_tokens [] s)"

text \<open>\<^verbatim>\<open>get_checked\<close>: one step for each reference token.\<close>

definition pointer_step :: "string \<Rightarrow> json \<Rightarrow> json result" where
  "pointer_step token j =
     (case j of
        JObject kvs \<Rightarrow> json_at_key j token
      | JArray vs \<Rightarrow>
          if token = ''-'' then Inl (Out_Of_Range 402)
          else if 1 < length token \<and> hd token = CHR ''0'' then Inl Parse_Error
          else (case array_index token of
              Inl f \<Rightarrow> Inl (if f = Invalid_Argument then Parse_Error else f)
            | Inr i \<Rightarrow> json_at_index j (scast i))
      | _ \<Rightarrow> Inl (Out_Of_Range 404))"

fun get_checked :: "string list \<Rightarrow> json \<Rightarrow> json result" where
  "get_checked [] j = Inr j"
| "get_checked (token # ts) j = and_then (pointer_step token j) (get_checked ts)"

section \<open>Lemmas\<close>

text \<open>A name without special characters is one reference token.\<close>

definition plain_name :: "string \<Rightarrow> bool" where
  "plain_name s \<longleftrightarrow> list_all (\<lambda>c. c \<noteq> CHR ''/'' \<and> c \<noteq> CHR ''~'') s"

lemma plain_name_append [simp]: "plain_name (s @ t) \<longleftrightarrow> plain_name s \<and> plain_name t"
  by (simp add: plain_name_def)

lemma tildes_ok_plain: "plain_name s \<Longrightarrow> tildes_ok s"
  by (induction s) (auto simp: plain_name_def)

lemma replace_substring_none:
  assumes "f \<noteq> []" "hd f \<notin> set s"
  shows "replace_substring s f t = Inr s"
  using assms(2)
proof (induction s)
  case Nil
  then show ?case using assms(1) by (simp add: replace_substring.simps)
next
  case (Cons c s)
  then have "take (length f) (c # s) \<noteq> f"
    using assms(1) by (cases f) auto
  with Cons assms(1) show ?case by (subst replace_substring.simps) simp
qed

lemma unescape_plain:
  assumes "plain_name s"
  shows "unescape s = Inr s"
proof -
  have "CHR ''~'' \<notin> set s" using assms by (auto simp: plain_name_def list_all_iff)
  then have "replace_substring s ''~1'' t = Inr s" "replace_substring s ''~0'' t = Inr s" for t
    by (simp_all add: replace_substring_none)
  then show ?thesis by (simp add: unescape_def)
qed

lemma pointer_tokens_plain: "plain_name token \<Longrightarrow> plain_name s \<Longrightarrow> pointer_tokens token s = Inr [token @ s]"
  by (induction s arbitrary: token) (auto simp: tildes_ok_plain unescape_plain plain_name_def)

lemma pointer_tokens_slash:
  "plain_name token \<Longrightarrow> plain_name s \<Longrightarrow>
   pointer_tokens token (s @ CHR ''/'' # r) = and_then (pointer_tokens [] r) (\<lambda>ts. Inr ((token @ s) # ts))"
  by (induction s arbitrary: token) (auto simp: tildes_ok_plain unescape_plain plain_name_def)

lemma json_pointer_plain: "plain_name s \<Longrightarrow> json_pointer (CHR ''/'' # s) = Inr [s]"
  by (simp add: json_pointer_def pointer_tokens_plain plain_name_def)

lemma json_pointer_two:
  "plain_name s \<Longrightarrow> plain_name t \<Longrightarrow> json_pointer (CHR ''/'' # s @ CHR ''/'' # t) = Inr [s, t]"
  using pointer_tokens_slash [of "[]" s t] pointer_tokens_plain [of "[]" t]
  by (simp add: json_pointer_def plain_name_def)

end
