(* ===== verification/Inja_Parser.thy ===== *)
theory Inja_Parser
  imports Inja_Bytecode Json_Query
begin

text \<open>
  The parser of the template engine (\<^verbatim>\<open>class Parser\<close> of
  \<^verbatim>\<open>src/extlibs/inja/src/inja.hpp\<close>): it reads tokens with one token of look-ahead and emits
  bytecode into the template, patching the targets of jumps when the end of a block is seen. The
  recursion of the expressions and the loops take fuel; \<open>Inja_Parser_Fuel\<close> shows how much is
  enough.
\<close>

section \<open>State\<close>

datatype element_notation = Dot | Pointer

text \<open>\<open>pe_finite\<close>: whether a number text is finite as a double, for literals in a template.\<close>

record parser_env =
  pe_config :: lexer_config
  pe_notation :: element_notation
  pe_finite :: "string \<Rightarrow> bool"

record if_data =
  prev_cond_jump :: nat
  uncond_jumps :: "nat list"

text \<open>The two stacks have their top first.\<close>

record parser =
  p_lexer :: lexer
  m_tok :: inja_token
  m_peek_tok :: "inja_token option"
  p_code :: "bytecode list"
  m_if_stack :: "if_data list"
  m_loop_stack :: "nat list"
  m_included :: template_storage

definition no_token :: inja_token where
  "no_token = \<lparr>tok_kind = K_Unknown, tok_start = 0, tok_text = []\<rparr>"

definition parser_init :: "string \<Rightarrow> template_storage \<Rightarrow> parser" where
  "parser_init input included =
     \<lparr>p_lexer = inja_start input, m_tok = no_token, m_peek_tok = None, p_code = [], m_if_stack = [],
      m_loop_stack = [], m_included = included\<rparr>"

definition get_next_token :: "parser_env \<Rightarrow> parser \<Rightarrow> parser" where
  "get_next_token env p =
     (case m_peek_tok p of
        Some t \<Rightarrow> p\<lparr>m_tok := t, m_peek_tok := None\<rparr>
      | None \<Rightarrow> (case inja_scan (pe_config env) (p_lexer p) of (t, lx) \<Rightarrow> p\<lparr>m_tok := t, p_lexer := lx\<rparr>))"

definition get_peek_token :: "parser_env \<Rightarrow> parser \<Rightarrow> parser" where
  "get_peek_token env p =
     (case m_peek_tok p of
        Some t \<Rightarrow> p
      | None \<Rightarrow>
          (case inja_scan (pe_config env) (p_lexer p) of (t, lx) \<Rightarrow> p\<lparr>m_peek_tok := Some t, p_lexer := lx\<rparr>))"

definition tok_is :: "token_kind \<Rightarrow> parser \<Rightarrow> bool" where
  "tok_is k p \<longleftrightarrow> tok_kind (m_tok p) = k"

definition tok_word :: "string \<Rightarrow> parser \<Rightarrow> bool" where
  "tok_word s p \<longleftrightarrow> tok_is K_Id p \<and> tok_text (m_tok p) = s"

section \<open>Emitting code\<close>

definition emit :: "bytecode \<Rightarrow> parser \<Rightarrow> parser" where
  "emit bc p = p\<lparr>p_code := p_code p @ [bc]\<rparr>"

definition append_function :: "bytecode_op \<Rightarrow> nat \<Rightarrow> parser \<Rightarrow> parser" where
  "append_function op num_args p =
     (if p_code p \<noteq> [] \<and> bc_op (last (p_code p)) = Op_Push
      then p\<lparr>p_code := butlast (p_code p) @ [(last (p_code p))\<lparr>bc_op := op, bc_args := word_of_nat num_args\<rparr>]\<rparr>
      else emit (bc_plain op num_args) p)"

definition append_callback :: "string \<Rightarrow> nat \<Rightarrow> parser \<Rightarrow> parser" where
  "append_callback name num_args p =
     (if p_code p \<noteq> [] \<and> bc_op (last (p_code p)) = Op_Push \<and> bc_flags (last (p_code p)) = ValueImmediate
      then p\<lparr>p_code := butlast (p_code p) @
             [(last (p_code p))\<lparr>bc_op := Op_Callback, bc_args := word_of_nat num_args, bc_str := name\<rparr>]\<rparr>
      else emit ((bc_plain Op_Callback num_args)\<lparr>bc_str := name\<rparr>) p)"

text \<open>The last two instructions of \<^verbatim>\<open>default(a, b)\<close> are swapped.\<close>

definition swap_last :: "parser \<Rightarrow> parser result" where
  "swap_last p =
     (case rev (p_code p) of
        b # a # bs \<Rightarrow> Inr (p\<lparr>p_code := rev bs @ [b, a]\<rparr>)
      | _ \<Rightarrow> Inl Out_Of_Bounds)"

definition set_target :: "nat \<Rightarrow> nat \<Rightarrow> parser \<Rightarrow> parser result" where
  "set_target i n p =
     and_then (array_get (p_code p) i) (\<lambda>bc.
       Inr (p\<lparr>p_code := (p_code p)[i := bc\<lparr>bc_args := word_of_nat n\<rparr>]\<rparr>))"

fun set_targets :: "nat list \<Rightarrow> nat \<Rightarrow> parser \<Rightarrow> parser result" where
  "set_targets [] n p = Inr p"
| "set_targets (i # is) n p = and_then (set_target i n p) (set_targets is n)"

section \<open>Expressions\<close>

text \<open>\<^verbatim>\<open>if (!f(tmpl)) return false;\<close>\<close>

definition require :: "(bool \<times> parser) result \<Rightarrow> (parser \<Rightarrow> (bool \<times> parser) result) \<Rightarrow> (bool \<times> parser) result" where
  "require r f = and_then r (\<lambda>(ok, p). if ok then f p else Inr (False, p))"

definition comparison_op :: "parser \<Rightarrow> bytecode_op option" where
  "comparison_op p =
     (case tok_kind (m_tok p) of
        K_Id \<Rightarrow> if tok_text (m_tok p) = ''in'' then Some Op_In else None
      | K_Equal \<Rightarrow> Some Op_Equal
      | K_GreaterThan \<Rightarrow> Some Op_Greater
      | K_LessThan \<Rightarrow> Some Op_Less
      | K_LessEqual \<Rightarrow> Some Op_LessEqual
      | K_GreaterEqual \<Rightarrow> Some Op_GreaterEqual
      | K_NotEqual \<Rightarrow> Some Op_Different
      | _ \<Rightarrow> None)"

text \<open>The JSON text from the first token to the end of the current one.\<close>

definition return_json :: "parser_env \<Rightarrow> nat \<Rightarrow> parser \<Rightarrow> (bool \<times> parser) result" where
  "return_json env json_first p =
     (let json_text = slice (m_in (p_lexer p)) json_first (tok_start (m_tok p) + length (tok_text (m_tok p))) in
      and_then (json_parse (pe_finite env) json_text) (\<lambda>v.
        Inr (True, get_next_token env (emit (bc_json Op_Push v ValueImmediate) p))))"

definition call_function :: "string \<Rightarrow> nat \<Rightarrow> parser \<Rightarrow> (bool \<times> parser) result" where
  "call_function name num_args p =
     (let op = find_builtin ParserStatic name num_args in
      if op \<noteq> Op_Nop then
        and_then (if op = Op_Default then swap_last p else Inr p) (\<lambda>p. Inr (True, append_function op num_args p))
      else Inr (True, append_callback name num_args p))"

text \<open>
  One round of the loop of \<^verbatim>\<open>parse_expression_datum\<close>: it returns, goes on with the next
  token, or needs an expression in parentheses or the arguments of a call.
\<close>

datatype datum_round =
    Datum_Return "(bool \<times> parser) result"
  | Datum_Next nat nat nat parser
  | Datum_Paren parser
  | Datum_Call string parser

definition datum_id :: "parser_env \<Rightarrow> nat \<Rightarrow> nat \<Rightarrow> nat \<Rightarrow> parser \<Rightarrow> datum_round" where
  "datum_id env json_first bracket_level brace_level p =
     (let p = get_peek_token env p; name = tok_text (m_tok p) in
      if map_option tok_kind (m_peek_tok p) = Some K_LeftParen then
        (let p = get_next_token env (get_next_token env p) in
         if tok_is K_RightParen p then Datum_Return (call_function name 0 (get_next_token env p))
         else Datum_Call name p)
      else if name = ''true'' \<or> name = ''false'' \<or> name = ''null'' then
        (if brace_level = 0 \<and> bracket_level = 0 then Datum_Return (return_json env (tok_start (m_tok p)) p)
         else Datum_Next json_first bracket_level brace_level (get_next_token env p))
      else
        Datum_Return (Inr (True, get_next_token env (emit (bc_string Op_Push name
          (if pe_notation env = Pointer then ValueLookupPointer else ValueLookupDot)) p))))"

definition datum_step :: "parser_env \<Rightarrow> nat \<Rightarrow> nat \<Rightarrow> nat \<Rightarrow> parser \<Rightarrow> datum_round" where
  "datum_step env json_first bracket_level brace_level p =
     (let top = (brace_level = 0 \<and> bracket_level = 0);
          here = tok_start (m_tok p);
          first = (if top then here else json_first);
          next = get_next_token env p
      in case tok_kind (m_tok p) of
        K_LeftParen \<Rightarrow> Datum_Paren next
      | K_Id \<Rightarrow> datum_id env json_first bracket_level brace_level p
      | K_Number \<Rightarrow>
          if top then Datum_Return (return_json env here p) else Datum_Next json_first bracket_level brace_level next
      | K_String \<Rightarrow>
          if top then Datum_Return (return_json env here p) else Datum_Next json_first bracket_level brace_level next
      | K_Comma \<Rightarrow>
          if top then Datum_Return (Inl Parser_Error) else Datum_Next json_first bracket_level brace_level next
      | K_Colon \<Rightarrow>
          if top then Datum_Return (Inl Parser_Error) else Datum_Next json_first bracket_level brace_level next
      | K_LeftBracket \<Rightarrow> Datum_Next first (Suc bracket_level) brace_level next
      | K_LeftBrace \<Rightarrow> Datum_Next first bracket_level (Suc brace_level) next
      | K_RightBracket \<Rightarrow>
          if bracket_level = 0 then Datum_Return (Inl Parser_Error)
          else if brace_level = 0 \<and> bracket_level = 1 then Datum_Return (return_json env json_first p)
          else Datum_Next json_first (bracket_level - 1) brace_level next
      | K_RightBrace \<Rightarrow>
          if brace_level = 0 then Datum_Return (Inl Parser_Error)
          else if brace_level = 1 \<and> bracket_level = 0 then Datum_Return (return_json env json_first p)
          else Datum_Next json_first bracket_level (brace_level - 1) next
      | _ \<Rightarrow> Datum_Return (if top then Inr (False, p) else Inl Parser_Error))"

function (sequential) parse_expression :: "nat \<Rightarrow> parser_env \<Rightarrow> parser \<Rightarrow> (bool \<times> parser) result"
and parse_expression_and :: "nat \<Rightarrow> parser_env \<Rightarrow> parser \<Rightarrow> (bool \<times> parser) result"
and parse_expression_not :: "nat \<Rightarrow> parser_env \<Rightarrow> parser \<Rightarrow> (bool \<times> parser) result"
and parse_expression_comparison :: "nat \<Rightarrow> parser_env \<Rightarrow> parser \<Rightarrow> (bool \<times> parser) result"
and parse_expression_datum ::
    "nat \<Rightarrow> parser_env \<Rightarrow> nat \<Rightarrow> nat \<Rightarrow> nat \<Rightarrow> parser \<Rightarrow> (bool \<times> parser) result"
and parse_arguments :: "nat \<Rightarrow> parser_env \<Rightarrow> nat \<Rightarrow> parser \<Rightarrow> (nat \<times> parser) result" where
  "parse_expression 0 env p = Inl No_Fuel"
| "parse_expression (Suc n) env p =
     require (parse_expression_and n env p) (\<lambda>p.
       if \<not> tok_word ''or'' p then Inr (True, p)
       else require (parse_expression_and n env (get_next_token env p)) (\<lambda>p.
         Inr (True, append_function Op_Or 2 p)))"
| "parse_expression_and 0 env p = Inl No_Fuel"
| "parse_expression_and (Suc n) env p =
     require (parse_expression_not n env p) (\<lambda>p.
       if \<not> tok_word ''and'' p then Inr (True, p)
       else require (parse_expression_not n env (get_next_token env p)) (\<lambda>p.
         Inr (True, append_function Op_And 2 p)))"
| "parse_expression_not 0 env p = Inl No_Fuel"
| "parse_expression_not (Suc n) env p =
     (if tok_word ''not'' p then
        require (parse_expression_not n env (get_next_token env p)) (\<lambda>p.
          Inr (True, append_function Op_Not 1 p))
      else parse_expression_comparison n env p)"
| "parse_expression_comparison 0 env p = Inl No_Fuel"
| "parse_expression_comparison (Suc n) env p =
     require (parse_expression_datum n env 0 0 0 p) (\<lambda>p.
       case comparison_op p of
         None \<Rightarrow> Inr (True, p)
       | Some op \<Rightarrow>
           require (parse_expression_datum n env 0 0 0 (get_next_token env p)) (\<lambda>p.
             Inr (True, append_function op 2 p)))"
| "parse_expression_datum 0 env json_first bracket_level brace_level p = Inl No_Fuel"
| "parse_expression_datum (Suc n) env json_first bracket_level brace_level p =
     (case datum_step env json_first bracket_level brace_level p of
        Datum_Return r \<Rightarrow> r
      | Datum_Next first bracket brace p \<Rightarrow> parse_expression_datum n env first bracket brace p
      | Datum_Paren p \<Rightarrow>
          require (parse_expression n env p) (\<lambda>p.
            if \<not> tok_is K_RightParen p then Inl Parser_Error else Inr (True, get_next_token env p))
      | Datum_Call name p \<Rightarrow>
          and_then (parse_arguments n env 0 p) (\<lambda>(num_args, p). call_function name num_args p))"
| "parse_arguments 0 env num_args p = Inl No_Fuel"
| "parse_arguments (Suc n) env num_args p =
     and_then (parse_expression n env p) (\<lambda>(ok, p).
       if \<not> ok then Inl Parser_Error
       else if tok_is K_RightParen p then Inr (Suc num_args, get_next_token env p)
       else if \<not> tok_is K_Comma p then Inl Parser_Error
       else parse_arguments n env (Suc num_args) (get_next_token env p))"
  by pat_completeness auto

termination
  by (relation "measure (\<lambda>x. case x of
       Inl (Inl (n, _)) \<Rightarrow> n | Inl (Inr (Inl (n, _))) \<Rightarrow> n | Inl (Inr (Inr (n, _))) \<Rightarrow> n
     | Inr (Inl (n, _)) \<Rightarrow> n | Inr (Inr (Inl (n, _))) \<Rightarrow> n | Inr (Inr (Inr (n, _))) \<Rightarrow> n)")
    simp_all

section \<open>Statements\<close>

text \<open>\<^verbatim>\<open>std::numeric_limits<unsigned int>::max()\<close> marks that there is no conditional jump to patch.\<close>

definition no_jump :: nat where
  "no_jump = 4294967295"

definition parse_if :: "nat \<Rightarrow> parser_env \<Rightarrow> parser \<Rightarrow> (bool \<times> parser) result" where
  "parse_if n env p =
     require (parse_expression n env (get_next_token env p)) (\<lambda>p.
       Inr (True, emit (bc_plain Op_ConditionalJump 0)
         (p\<lparr>m_if_stack := \<lparr>prev_cond_jump = length (p_code p), uncond_jumps = []\<rparr> # m_if_stack p\<rparr>)))"

definition parse_endif :: "parser_env \<Rightarrow> parser \<Rightarrow> (bool \<times> parser) result" where
  "parse_endif env p =
     (case m_if_stack p of
        [] \<Rightarrow> Inl Parser_Error
      | if_data # rest \<Rightarrow>
          let p = get_next_token env p; here = length (p_code p) in
          and_then (if prev_cond_jump if_data \<noteq> no_jump then set_target (prev_cond_jump if_data) here p
                    else Inr p) (\<lambda>p.
          and_then (set_targets (uncond_jumps if_data) here p) (\<lambda>p.
            Inr (True, p\<lparr>m_if_stack := rest\<rparr>))))"

definition parse_else :: "nat \<Rightarrow> parser_env \<Rightarrow> parser \<Rightarrow> (bool \<times> parser) result" where
  "parse_else n env p =
     (case m_if_stack p of
        [] \<Rightarrow> Inl Parser_Error
      | if_data # rest \<Rightarrow>
          let p = get_next_token env p;
              jumps = uncond_jumps if_data @ [length (p_code p)];
              p = emit (bc_plain Op_Jump 0) p
          in and_then (set_target (prev_cond_jump if_data) (length (p_code p)) p) (\<lambda>p.
             let p = p\<lparr>m_if_stack := \<lparr>prev_cond_jump = no_jump, uncond_jumps = jumps\<rparr> # rest\<rparr> in
             if tok_word ''if'' p then
               require (parse_expression n env (get_next_token env p)) (\<lambda>p.
                 Inr (True, emit (bc_plain Op_ConditionalJump 0)
                   (p\<lparr>m_if_stack := \<lparr>prev_cond_jump = length (p_code p), uncond_jumps = jumps\<rparr> # rest\<rparr>)))
             else Inr (True, p)))"

text \<open>The names of the loop: the key, if there are two, and the value.\<close>

definition parse_loop_names :: "parser_env \<Rightarrow> parser \<Rightarrow> (string \<times> string \<times> parser) result" where
  "parse_loop_names env p =
     (if \<not> tok_is K_Id p then Inl Parser_Error
      else
        let value_token = tok_text (m_tok p); p = get_next_token env p in
        if tok_is K_Comma p then
          (let p = get_next_token env p in
           if \<not> tok_is K_Id p then Inl Parser_Error
           else Inr (value_token, tok_text (m_tok p), get_next_token env p))
        else Inr ([], value_token, p))"

definition start_loop :: "string \<Rightarrow> string \<Rightarrow> bytecode" where
  "start_loop key value =
     (bc_plain Op_StartLoop 0)\<lparr>bc_value := (if key = [] then JNull else JString key), bc_str := value\<rparr>"

definition parse_for :: "nat \<Rightarrow> parser_env \<Rightarrow> parser \<Rightarrow> (bool \<times> parser) result" where
  "parse_for n env p =
     and_then (parse_loop_names env (get_next_token env p)) (\<lambda>(key, value, p).
       if \<not> tok_word ''in'' p then Inl Parser_Error
       else require (parse_expression n env (get_next_token env p)) (\<lambda>p.
         Inr (True, emit (start_loop key value)
           (p\<lparr>m_loop_stack := length (p_code p) # m_loop_stack p\<rparr>))))"

definition parse_endfor :: "parser_env \<Rightarrow> parser \<Rightarrow> (bool \<times> parser) result" where
  "parse_endfor env p =
     (let p = get_next_token env p in
      case m_loop_stack p of
        [] \<Rightarrow> Inl Parser_Error
      | start # rest \<Rightarrow>
          and_then (set_target start (length (p_code p)) p) (\<lambda>p.
            Inr (True, emit (bc_plain Op_EndLoop (start + 1)) (p\<lparr>m_loop_stack := rest\<rparr>))))"

type_synonym includer = "string \<Rightarrow> template_storage \<Rightarrow> (inja_template \<times> template_storage) result"

definition parse_include :: "includer \<Rightarrow> string \<Rightarrow> parser_env \<Rightarrow> parser \<Rightarrow> (bool \<times> parser) result" where
  "parse_include inc path env p =
     (let p = get_next_token env p in
      if \<not> tok_is K_String p then Inl Parser_Error
      else
        and_then (json_parse (pe_finite env) (tok_text (m_tok p))) (\<lambda>json_name.
        and_then (get_string_ref json_name) (\<lambda>name.
        let pathname = path @ name;
            pathname = (if take 2 pathname = ''./'' then drop 2 pathname else pathname)
        in and_then (if map_of (m_included p) pathname \<noteq> None then Inr (m_included p)
                     else and_then (inc pathname (m_included p)) (\<lambda>(t, included). Inr (
                       if map_of included pathname = None then (pathname, t) # included else included)))
             (\<lambda>included.
               Inr (True, get_next_token env (emit (bc_json Op_Include (JString pathname) ValueImmediate)
                 (p\<lparr>m_included := included\<rparr>)))))))"

definition parse_statement ::
    "nat \<Rightarrow> includer \<Rightarrow> string \<Rightarrow> parser_env \<Rightarrow> parser \<Rightarrow> (bool \<times> parser) result" where
  "parse_statement n inc path env p =
     (if \<not> tok_is K_Id p then Inr (False, p)
      else if tok_word ''if'' p then parse_if n env p
      else if tok_word ''endif'' p then parse_endif env p
      else if tok_word ''else'' p then parse_else n env p
      else if tok_word ''for'' p then parse_for n env p
      else if tok_word ''endfor'' p then parse_endfor env p
      else if tok_word ''include'' p then parse_include inc path env p
      else Inr (False, p))"

section \<open>Templates\<close>

text \<open>One round of the loop of \<^verbatim>\<open>parse_into\<close>; \<open>True\<close> at the end of the text.\<close>

definition parse_round ::
    "nat \<Rightarrow> includer \<Rightarrow> string \<Rightarrow> parser_env \<Rightarrow> parser \<Rightarrow> (bool \<times> parser) result" where
  "parse_round n inc path env p =
     (let p = get_next_token env p in
      case tok_kind (m_tok p) of
        K_Eof \<Rightarrow>
          if m_if_stack p \<noteq> [] then Inl Parser_Error
          else if m_loop_stack p \<noteq> [] then Inl Parser_Error
          else Inr (True, p)
      | K_Text \<Rightarrow> Inr (False, emit (bc_string Op_PrintText (tok_text (m_tok p)) ValuePop) p)
      | K_StatementOpen \<Rightarrow>
          and_then (parse_statement n inc path env (get_next_token env p)) (\<lambda>(ok, p).
            if \<not> ok then Inl Parser_Error
            else if \<not> tok_is K_StatementClose p then Inl Parser_Error
            else Inr (False, p))
      | K_LineStatementOpen \<Rightarrow>
          and_then (parse_statement n inc path env (get_next_token env p)) (\<lambda>(ok, p).
            if \<not> tok_is K_LineStatementClose p \<and> \<not> tok_is K_Eof p then Inl Parser_Error
            else Inr (False, p))
      | K_ExpressionOpen \<Rightarrow>
          and_then (parse_expression n env (get_next_token env p)) (\<lambda>(ok, p).
            if \<not> ok then Inl Parser_Error
            else
              let p = append_function Op_PrintValue 1 p in
              if \<not> tok_is K_ExpressionClose p then Inl Parser_Error
              else Inr (False, p))
      | K_CommentOpen \<Rightarrow>
          (let p = get_next_token env p in
           if \<not> tok_is K_CommentClose p then Inl Parser_Error else Inr (False, p))
      | _ \<Rightarrow> Inl Parser_Error)"

fun parse_into :: "nat \<Rightarrow> includer \<Rightarrow> string \<Rightarrow> parser_env \<Rightarrow> parser \<Rightarrow> parser result" where
  "parse_into 0 inc path env p = Inl No_Fuel"
| "parse_into (Suc n) inc path env p =
     and_then (parse_round n inc path env p) (\<lambda>(stop, p).
       if stop then Inr p else parse_into n inc path env p)"

text \<open>Enough rounds and recursion for a text of this length.\<close>

definition parse_fuel :: "string \<Rightarrow> nat" where
  "parse_fuel input = 8 * length input + 16"

definition directory_part :: "string \<Rightarrow> string" where
  "directory_part filename =
     rev (dropWhile (\<lambda>c. c \<noteq> CHR ''/'' \<and> c \<noteq> CHR 0x5C) (rev filename))"

text \<open>
  A template file; the number bounds the depth of includes, since a template that includes itself is
  parsed without end.
\<close>

fun inja_parse_template ::
    "nat \<Rightarrow> (string \<Rightarrow> string option) \<Rightarrow> parser_env \<Rightarrow> string \<Rightarrow> template_storage
     \<Rightarrow> (inja_template \<times> template_storage) result" where
  "inja_parse_template 0 fs env filename included = Inl No_Fuel"
| "inja_parse_template (Suc d) fs env filename included =
     (case fs filename of
        None \<Rightarrow> Inl File_Error
      | Some input \<Rightarrow>
          and_then (parse_into (parse_fuel input) (inja_parse_template d fs env) (directory_part filename) env
              (parser_init input included)) (\<lambda>p.
            Inr (\<lparr>bytecodes = p_code p, content = input\<rparr>, m_included p)))"

end
