(* ===== verification/Json_Serializer.thy ===== *)
theory Json_Serializer
  imports Json_Utf8 Json_Value
begin

text \<open>
  \<^verbatim>\<open>detail::serializer\<close> of \<^verbatim>\<open>src/extlibs/json/json.hpp\<close>: strings are
  escaped through a 512-byte buffer, integers are written backwards into a 64-byte buffer, and
  documents are written in \<open>Json_Dump\<close> and \<open>Json_Layout\<close>. A write outside a buffer is the fault \<open>Out_Of_Bounds\<close>; the
  lemmas show there is none. The text of a floating-point number is the parameter
  \<open>dump_float\<close> (the Grisu2 routine).
\<close>

section \<open>Escaping strings\<close>

datatype error_handler = Strict | Replace | Ignore

record escaper =
  ustate :: nat
  codepoint :: "32 word"
  string_buffer :: string
  last_accept :: nat
  undumped :: nat
  written :: string

definition escaper_init :: escaper where
  "escaper_init = \<lparr>ustate = UTF8_ACCEPT, codepoint = 0, string_buffer = [], last_accept = 0,
     undumped = 0, written = []\<rparr>"

text \<open>Write \<open>t\<close> and then \<open>room\<close> bytes that are not counted (the zero byte of \<^verbatim>\<open>snprintf\<close>).\<close>

definition put :: "string \<Rightarrow> nat \<Rightarrow> escaper \<Rightarrow> escaper result" where
  "put t room e =
     (if length (string_buffer e) + length t + room > 512 then Inl Out_Of_Bounds
      else Inr (e\<lparr>string_buffer := string_buffer e @ t\<rparr>))"

definition flush_if_full :: "escaper \<Rightarrow> escaper" where
  "flush_if_full e =
     (if 512 - length (string_buffer e) < 13
      then e\<lparr>written := written e @ string_buffer e, string_buffer := []\<rparr> else e)"

definition hex_digit :: "nat \<Rightarrow> char" where
  "hex_digit n = (if n < 10 then char_of (48 + n) else char_of (87 + n))"

definition u_escape :: "nat \<Rightarrow> string" where
  "u_escape n = [CHR 0x5C, CHR ''u'', hex_digit (n div 4096 mod 16), hex_digit (n div 256 mod 16),
     hex_digit (n div 16 mod 16), hex_digit (n mod 16)]"

text \<open>The text for one accepted code point; \<open>c\<close> is the byte that completed it.\<close>

definition escape_codepoint :: "bool \<Rightarrow> nat \<Rightarrow> char \<Rightarrow> string \<times> nat" where
  "escape_codepoint ensure_ascii cp c =
     (if cp = 0x08 then ([CHR 0x5C, CHR ''b''], 0)
      else if cp = 0x09 then ([CHR 0x5C, CHR ''t''], 0)
      else if cp = 0x0A then ([CHR 0x5C, CHR ''n''], 0)
      else if cp = 0x0C then ([CHR 0x5C, CHR ''f''], 0)
      else if cp = 0x0D then ([CHR 0x5C, CHR ''r''], 0)
      else if cp = 0x22 then ([CHR 0x5C, CHR 0x22], 0)
      else if cp = 0x5C then ([CHR 0x5C, CHR 0x5C], 0)
      else if cp \<le> 0x1F \<or> ensure_ascii \<and> cp \<ge> 0x7F then
        (if cp \<le> 0xFFFF then (u_escape cp, 1)
         else (u_escape ((0xD7C0 + cp div 2 ^ 10) mod 2 ^ 16) @ u_escape ((0xDC00 + cp mod 2 ^ 10) mod 2 ^ 16), 1))
      else ([c], 0))"

definition replacement :: "bool \<Rightarrow> string" where
  "replacement ensure_ascii =
     (if ensure_ascii then [CHR 0x5C, CHR ''u'', CHR ''f'', CHR ''f'', CHR ''f'', CHR ''d'']
      else [CHR 0xEF, CHR 0xBF, CHR 0xBD])"

text \<open>What the loop does for one byte: the new state, and whether the byte is read again.\<close>

definition escape_byte :: "error_handler \<Rightarrow> bool \<Rightarrow> char \<Rightarrow> escaper \<Rightarrow> (escaper \<times> bool) result" where
  "escape_byte handler ensure_ascii c e =
     (let (state, codep) = decode (ustate e) (codepoint e) (byte c);
          e = e\<lparr>ustate := state, codepoint := codep\<rparr>
      in if state = UTF8_ACCEPT then
           (let (t, room) = escape_codepoint ensure_ascii (unat codep) c
            in and_then (put t room e) (\<lambda>e.
                 let e = flush_if_full e
                 in Inr (e\<lparr>last_accept := length (string_buffer e), undumped := 0\<rparr>, False)))
         else if state = UTF8_REJECT then
           (if handler = Strict then Inl (Type_Error 316)
            else
              let again = 0 < undumped e;
                  e = e\<lparr>string_buffer := take (last_accept e) (string_buffer e)\<rparr>
              in and_then
                   (if handler = Replace
                    then and_then (put (replacement ensure_ascii) 0 e) (\<lambda>e.
                           let e = flush_if_full e
                           in Inr (e\<lparr>last_accept := length (string_buffer e)\<rparr>))
                    else Inr e)
                   (\<lambda>e. Inr (e\<lparr>undumped := 0, ustate := UTF8_ACCEPT\<rparr>, again)))
         else
           and_then (if ensure_ascii then Inr e else put [c] 0 e) (\<lambda>e.
             Inr (e\<lparr>undumped := Suc (undumped e)\<rparr>, False)))"

lemma put_undumped: "put t room e = Inr e' \<Longrightarrow> undumped e' = undumped e"
  by (auto simp: put_def split: if_splits)

lemma escape_byte_again:
  "escape_byte handler ensure_ascii c e = Inr (e', True) \<Longrightarrow> 0 < undumped e \<and> undumped e' = 0"
  by (auto simp: escape_byte_def Let_def result_simps split: if_splits prod.splits)

function (sequential) escape_from ::
    "error_handler \<Rightarrow> bool \<Rightarrow> string \<Rightarrow> escaper \<Rightarrow> escaper result" where
  "escape_from handler ensure_ascii [] e = Inr e"
| "escape_from handler ensure_ascii (c # s) e =
     (case escape_byte handler ensure_ascii c e of
        Inl f \<Rightarrow> Inl f
      | Inr (e', again) \<Rightarrow> escape_from handler ensure_ascii (if again then c # s else s) e')"
  by pat_completeness auto
termination
proof (relation "measure (\<lambda>(handler, ensure_ascii, s, e). 2 * length s + (if 0 < undumped e then 1 else 0))",
    goal_cases)
  case (2 handler ensure_ascii c s e p e' again)
  then show ?case
    using escape_byte_again [of handler ensure_ascii c e e'] by (cases again) auto
qed simp

definition dump_escaped :: "error_handler \<Rightarrow> bool \<Rightarrow> string \<Rightarrow> string result" where
  "dump_escaped handler ensure_ascii s =
     and_then (escape_from handler ensure_ascii s escaper_init) (\<lambda>e.
       if ustate e = UTF8_ACCEPT then Inr (written e @ string_buffer e)
       else
         (case handler of
            Strict \<Rightarrow> Inl (Type_Error 316)
          | Ignore \<Rightarrow> Inr (written e @ take (last_accept e) (string_buffer e))
          | Replace \<Rightarrow> Inr (written e @ take (last_accept e) (string_buffer e) @ replacement ensure_ascii)))"

section \<open>Escaping: the buffer is large enough, whatever the bytes\<close>

definition escaper_inv :: "bool \<Rightarrow> escaper \<Rightarrow> bool" where
  "escaper_inv ensure_ascii e \<longleftrightarrow>
     live_state (ustate e)
   \<and> (ustate e \<noteq> UTF8_ACCEPT \<longrightarrow> undumped e + length (state_ranges (ustate e)) \<le> 4)
   \<and> (ustate e = UTF8_ACCEPT \<longrightarrow> undumped e = 0)
   \<and> last_accept e \<le> length (string_buffer e) \<and> last_accept e \<le> 499
   \<and> length (string_buffer e) \<le> 499 + (if ensure_ascii then 0 else undumped e)"

lemma escaper_inv_init: "escaper_inv a escaper_init"
  by (simp add: escaper_inv_def escaper_init_def live_state_def)

lemma length_u_escape [simp]: "length (u_escape n) = 6"
  by (simp add: u_escape_def)

lemma escape_codepoint_size:
  "escape_codepoint a cp c = (t, room) \<Longrightarrow> length t + room \<le> (if a then 13 else 7)"
  by (auto simp: escape_codepoint_def split: if_splits)

lemma replacement_size: "length (replacement a) \<le> 6"
  by (simp add: replacement_def)

lemma flush_if_full_bound: "length (string_buffer (flush_if_full e)) \<le> 499"
  by (auto simp: flush_if_full_def)

lemma flush_if_full_simps [simp]:
  "ustate (flush_if_full e) = ustate e" "codepoint (flush_if_full e) = codepoint e"
  "undumped (flush_if_full e) = undumped e" "last_accept (flush_if_full e) = last_accept e"
  "written (flush_if_full e) @ string_buffer (flush_if_full e) = written e @ string_buffer e"
  by (auto simp: flush_if_full_def)

lemma live_ranges_pending: "live_state st \<Longrightarrow> st \<noteq> UTF8_ACCEPT \<Longrightarrow> 1 \<le> length (state_ranges st)"
  using state_ranges_Nil [of st] by (cases "state_ranges st") auto

lemma decode_pending:
  assumes "escaper_inv a e" "decode (ustate e) (codepoint e) (byte c) = (st, cp)"
    "st \<noteq> UTF8_ACCEPT" "st \<noteq> UTF8_REJECT"
  shows "live_state st \<and> Suc (undumped e) + length (state_ranges st) \<le> 4"
proof -
  have st: "st = next_state (ustate e) (byte c)"
    using fst_decode [of "byte c" "ustate e" "codepoint e"] assms(2) by simp
  show ?thesis
  proof (cases "ustate e = UTF8_ACCEPT")
    case True
    with next_state_lead [of "byte c"] assms(1,4) show ?thesis
      by (auto simp: st escaper_inv_def dest: lead_ranges_length split: option.splits)
  next
    case False
    then obtain lo hi rs where r: "state_ranges (ustate e) = (lo, hi) # rs"
      using live_ranges_pending [of "ustate e"] assms(1)
      by (cases "state_ranges (ustate e)") (auto simp: escaper_inv_def)
    then show ?thesis
      using next_state_continue [of "byte c" "ustate e" lo hi rs] assms(1,4) False
      by (auto simp: st escaper_inv_def split: if_splits)
  qed
qed

lemma undumped_le_3: "escaper_inv a e \<Longrightarrow> undumped e \<le> 3"
  using live_ranges_pending [of "ustate e"] by (cases "ustate e = UTF8_ACCEPT") (auto simp: escaper_inv_def)

lemma escape_byte_safe:
  assumes inv: "escaper_inv a e"
  shows "case escape_byte handler a c e of
      Inl f \<Rightarrow> f = Type_Error 316 \<and> handler = Strict
    | Inr (e', again) \<Rightarrow> escaper_inv a e'"
proof -
  obtain st cp where d: "decode (ustate e) (codepoint e) (byte c) = (st, cp)" by force
  have u: "undumped e \<le> 3" using undumped_le_3 [OF inv] .
  consider (accept) "st = UTF8_ACCEPT" | (reject) "st = UTF8_REJECT"
    | (pending) "st \<noteq> UTF8_ACCEPT" "st \<noteq> UTF8_REJECT" by auto
  then show ?thesis
  proof cases
    case accept
    obtain t room where t: "escape_codepoint a (unat cp) c = (t, room)" by force
    have "length (string_buffer e) + length t + room \<le> 512"
      using inv u escape_codepoint_size [OF t] by (auto simp: escaper_inv_def split: if_splits)
    then show ?thesis
      using flush_if_full_bound
      by (simp add: escape_byte_def d accept t put_def escaper_inv_def live_state_def Let_def)
  next
    case reject
    have "last_accept e + length (replacement a) \<le> 512"
      using inv replacement_size [of a] by (simp add: escaper_inv_def)
    then show ?thesis
      using inv flush_if_full_bound
      by (auto simp: escape_byte_def d reject put_def escaper_inv_def live_state_def Let_def)
  next
    case pending
    with decode_pending [OF inv d] u inv show ?thesis
      by (auto simp: escape_byte_def d put_def escaper_inv_def Let_def split: if_splits)
  qed
qed

lemma escape_from_safe:
  "escaper_inv a e \<Longrightarrow>
   (case escape_from handler a s e of
      Inl f \<Rightarrow> f = Type_Error 316 \<and> handler = Strict
    | Inr e' \<Rightarrow> escaper_inv a e')"
proof (induction handler a s e rule: escape_from.induct)
  case (2 handler a c s e)
  show ?case
  proof (cases "escape_byte handler a c e")
    case (Inl f)
    with escape_byte_safe [OF "2.prems", of handler c] show ?thesis by simp
  next
    case (Inr p)
    then obtain e' again where p: "escape_byte handler a c e = Inr (e', again)" by (cases p) auto
    with escape_byte_safe [OF "2.prems", of handler c] "2.IH" [of "(e', again)" e' again]
    show ?thesis by (simp split: if_splits)
  qed
qed simp

lemma dump_escaped_safe:
  "case dump_escaped handler a s of
     Inl f \<Rightarrow> f = Type_Error 316 \<and> handler = Strict
   | Inr t \<Rightarrow> True"
  using escape_from_safe [OF escaper_inv_init, of handler a s]
  by (auto simp: dump_escaped_def split: sum.splits error_handler.splits)

section \<open>Escaping: what is written\<close>

definition escape_char :: "char \<Rightarrow> string" where
  "escape_char c = fst (escape_codepoint False (byte c) c)"

definition escape_string :: "string \<Rightarrow> string" where
  "escape_string s = concat (map escape_char s)"

lemma escape_char_high [simp]: "0x80 \<le> byte c \<Longrightarrow> escape_char c = [c]"
  by (simp add: escape_char_def escape_codepoint_def)

definition strict_inv :: "escaper \<Rightarrow> bool" where
  "strict_inv e \<longleftrightarrow> escaper_inv False e \<and> codep_inv (ustate e) (codepoint e)"

lemma strict_step:
  assumes inv: "strict_inv e"
  shows "if (case state_ranges (ustate e) of [] \<Rightarrow> lead_ranges (byte c) \<noteq> None
             | (lo, hi) # rs \<Rightarrow> lo \<le> byte c \<and> byte c \<le> hi)
         then \<exists>e'. escape_byte Strict False c e = Inr (e', False) \<and> strict_inv e'
            \<and> state_ranges (ustate e') = (case state_ranges (ustate e) of
                 [] \<Rightarrow> the (lead_ranges (byte c)) | r # rs \<Rightarrow> rs)
            \<and> written e' @ string_buffer e' = written e @ string_buffer e @ escape_char c
         else escape_byte Strict False c e = Inl (Type_Error 316)"
    (is "if ?ok then _ else _")
proof -
  obtain st cp where d: "decode (ustate e) (codepoint e) (byte c) = (st, cp)" by force
  have st: "st = next_state (ustate e) (byte c)"
    using fst_decode [of "byte c" "ustate e" "codepoint e"] d by simp
  have live: "live_state (ustate e)" and ci: "codep_inv (ustate e) (codepoint e)"
    using inv by (auto simp: strict_inv_def escaper_inv_def)
  have step: "if ?ok then live_state st \<and> codep_inv st cp
       \<and> state_ranges st = (case state_ranges (ustate e) of
            [] \<Rightarrow> the (lead_ranges (byte c)) | r # rs \<Rightarrow> rs)
       \<and> (st = 0 \<longrightarrow> fst (escape_codepoint False (unat cp) c) = escape_char c)
       \<and> (st \<noteq> 0 \<longrightarrow> 0x80 \<le> byte c)
     else st = 1"
  proof (cases "ustate e = 0")
    case True
    have r: "state_ranges (ustate e) = []" using True by (simp add: state_ranges_def)
    show ?thesis
    proof (cases "byte c < 0x80")
      case ascii: True
      with True d have "st = 0" "cp = word_of_nat (byte c)" by (simp_all add: decode_ascii)
      then show ?thesis
        using ascii by (simp add: r True escape_char_def live_state_def codep_inv_def state_ranges_def
            unsigned_of_nat take_bit_nat_eq_self)
    next
      case high: False
      from next_state_lead [of "byte c"] True have
        n: "case lead_ranges (byte c) of None \<Rightarrow> st = 1 | Some rs \<Rightarrow> live_state st \<and> state_ranges st = rs"
        by (simp only: st True nat_of_char_less_256)
      have "codep_inv st cp" using codep_lead [of "byte c" "codepoint e" st cp] d True by simp
      moreover have "st \<noteq> 0"
        using n high lead_ranges_Nil [of "byte c"] by (cases "st = 0") (auto split: option.splits)
      ultimately show ?thesis using n high by (auto simp: r split: option.splits)
    qed
  next
    case False
    then obtain lo hi rs where r: "state_ranges (ustate e) = (lo, hi) # rs"
      using live_ranges_pending [OF live] by (cases "state_ranges (ustate e)") auto
    have lo: "0x80 \<le> lo"
      using r by (auto simp: state_ranges_def split: if_splits)
    have cp: "codep_inv st cp" "st = 0 \<Longrightarrow> 0x80 \<le> unat cp"
      using codep_continue [of "byte c", OF _ live _ ci d] False by simp_all
    have "st = 0 \<longrightarrow> fst (escape_codepoint False (unat cp) c) = [c]"
      using cp(2) by (cases "st = 0") (simp_all add: escape_codepoint_def)
    moreover have "if lo \<le> byte c \<and> byte c \<le> hi then live_state st \<and> state_ranges st = rs else st = 1"
      using next_state_continue [of "byte c", OF _ live r] by (simp add: st)
    ultimately show ?thesis
      using cp(1) lo by (auto simp: r)
  qed
  show ?thesis
  proof (cases ?ok)
    case False
    with step have "st = 1" by simp
    with False show ?thesis by (simp add: escape_byte_def d)
  next
    case True
    with step have s: "live_state st" "codep_inv st cp" "st \<noteq> 1"
      by (auto simp: live_state_def)
    obtain t room where t: "escape_codepoint False (unat cp) c = (t, room)" by force
    have safe: "case escape_byte Strict False c e of
        Inl f \<Rightarrow> f = Type_Error 316 \<and> Strict = Strict | Inr (e', again) \<Rightarrow> escaper_inv False e'"
      using escape_byte_safe [of False e Strict c] inv by (simp add: strict_inv_def)
    have nb: "escape_byte Strict False c e \<noteq> Inl (Type_Error 316)"
      using s(3) by (auto simp: escape_byte_def d t Let_def result_simps put_def)
    then obtain e' again where e': "escape_byte Strict False c e = Inr (e', again)"
      using safe by (cases "escape_byte Strict False c e") auto
    have "ustate e' = st \<and> codepoint e' = cp \<and> \<not> again
        \<and> written e' @ string_buffer e' = written e @ string_buffer e @ escape_char c"
    proof (cases "st = 0")
      case z: True
      with True step t e' show ?thesis
        by (auto simp: escape_byte_def d put_def Let_def split: if_splits)
    next
      case nz: False
      with True step s(3) e' have "escape_char c = [c]" by simp
      with nz s(3) e' show ?thesis
        by (auto simp: escape_byte_def d put_def Let_def split: if_splits)
    qed
    with True step safe e' show ?thesis
      by (auto simp: strict_inv_def)
  qed
qed

lemma escape_from_strict:
  "strict_inv e \<Longrightarrow>
   (if utf8_from (state_ranges (ustate e)) s
    then \<exists>e'. escape_from Strict False s e = Inr e' \<and> ustate e' = 0
           \<and> written e' @ string_buffer e' = written e @ string_buffer e @ escape_string s
    else escape_from Strict False s e = Inl (Type_Error 316)
       \<or> (\<exists>e'. escape_from Strict False s e = Inr e' \<and> ustate e' \<noteq> 0))"
proof (induction s arbitrary: e)
  case Nil
  then show ?case
    using state_ranges_Nil [of "ustate e"]
    by (cases "state_ranges (ustate e)") (auto simp: strict_inv_def escaper_inv_def escape_string_def)
next
  case (Cons c s)
  note st = strict_step [OF Cons.prems, of c]
  show ?case
  proof (cases "state_ranges (ustate e)")
    case Nil
    with st Cons.IH show ?thesis
      by (cases "lead_ranges (byte c)") (force simp: escape_string_def)+
  next
    case (Cons r rs)
    obtain lo hi where "r = (lo, hi)" by force
    with Cons st Cons.IH show ?thesis
      by (cases "lo \<le> byte c \<and> byte c \<le> hi") (force simp: escape_string_def)+
  qed
qed

lemma dump_escaped_strict:
  "dump_escaped Strict False s = (if valid_utf8 s then Inr (escape_string s) else Inl (Type_Error 316))"
proof -
  have "strict_inv escaper_init"
    by (simp add: strict_inv_def escaper_inv_init) (simp add: escaper_init_def codep_inv_def)
  from escape_from_strict [OF this, of s] show ?thesis
    by (auto simp: dump_escaped_def valid_utf8_def escaper_init_def state_ranges_def split: if_splits)
qed

end
