(* ===== verification/Json_Dump.thy ===== *)
theory Json_Dump
  imports Json_Serializer Json_Number
begin

text \<open>
  \<^verbatim>\<open>basic_json::dump()\<close> with its default arguments, as every caller in the tool uses
  it: no indentation, no ASCII escaping, and an exception on a string that is not UTF-8 (the other
  arguments are in \<open>Json_Layout\<close>, lemma \<open>json_dump_default\<close>). The
  reference text \<open>json_text\<close> writes the same document without buffers or errors.
\<close>

abbreviation (input) quote :: char where "quote \<equiv> CHR 0x22"

definition dump_string :: "string \<Rightarrow> string result" where
  "dump_string s = and_then (dump_escaped Strict False s) (\<lambda>t. Inr ([quote] @ t @ [quote]))"

fun dump :: "(string \<Rightarrow> string) \<Rightarrow> json \<Rightarrow> string result"
and dump_values :: "(string \<Rightarrow> string) \<Rightarrow> json list \<Rightarrow> string result"
and dump_members :: "(string \<Rightarrow> string) \<Rightarrow> (string \<times> json) list \<Rightarrow> string result" where
  "dump dump_float (JObject kvs) =
     (if kvs = [] then Inr ''{}''
      else and_then (dump_members dump_float kvs) (\<lambda>t. Inr (''{'' @ t @ ''}'')))"
| "dump dump_float (JArray vs) =
     (if vs = [] then Inr ''[]''
      else and_then (dump_values dump_float vs) (\<lambda>t. Inr (''['' @ t @ '']'')))"
| "dump dump_float (JString s) = dump_string s"
| "dump dump_float (JBool b) = Inr (if b then ''true'' else ''false'')"
| "dump dump_float (JInteger x) = dump_integer x"
| "dump dump_float (JUnsigned x) = dump_unsigned x"
| "dump dump_float (JFloat x) = Inr (dump_float x)"
| "dump dump_float JNull = Inr ''null''"
| "dump_values dump_float [] = Inr []"
| "dump_values dump_float (v # vs) =
     and_then (dump dump_float v) (\<lambda>t.
       if vs = [] then Inr t
       else and_then (dump_values dump_float vs) (\<lambda>u. Inr (t @ '','' @ u)))"
| "dump_members dump_float [] = Inr []"
| "dump_members dump_float ((k, v) # kvs) =
     and_then (dump_string k) (\<lambda>q.
     and_then (dump dump_float v) (\<lambda>t.
       if kvs = [] then Inr (q @ '':'' @ t)
       else and_then (dump_members dump_float kvs) (\<lambda>u. Inr (q @ '':'' @ t @ '','' @ u))))"

section \<open>The text of a document\<close>

definition quoted :: "string \<Rightarrow> string" where
  "quoted s = [quote] @ escape_string s @ [quote]"

text \<open>
  How a text looks: how a string is escaped, what starts the line of a value \<open>n\<close> levels
  deep, what separates a key from its value, and how a floating-point number is written.
\<close>

record layout =
  lay_escape :: "string \<Rightarrow> string"
  lay_line :: "nat \<Rightarrow> string"
  lay_colon :: string
  lay_float :: "string \<Rightarrow> string"

definition lay_string :: "layout \<Rightarrow> string \<Rightarrow> string" where
  "lay_string L s = [quote] @ lay_escape L s @ [quote]"

fun layout_json :: "layout \<Rightarrow> nat \<Rightarrow> json \<Rightarrow> string"
and layout_values :: "layout \<Rightarrow> nat \<Rightarrow> json list \<Rightarrow> string"
and layout_members :: "layout \<Rightarrow> nat \<Rightarrow> (string \<times> json) list \<Rightarrow> string" where
  "layout_json L n (JObject kvs) =
     (if kvs = [] then ''{}'' else ''{'' @ layout_members L (Suc n) kvs @ lay_line L n @ ''}'')"
| "layout_json L n (JArray vs) =
     (if vs = [] then ''[]'' else ''['' @ layout_values L (Suc n) vs @ lay_line L n @ '']'')"
| "layout_json L n (JString s) = lay_string L s"
| "layout_json L n (JBool b) = (if b then ''true'' else ''false'')"
| "layout_json L n (JInteger x) = show_int (sint x)"
| "layout_json L n (JUnsigned x) = show_nat (unat x)"
| "layout_json L n (JFloat x) = lay_float L x"
| "layout_json L n JNull = ''null''"
| "layout_values L n [] = []"
| "layout_values L n (v # vs) =
     lay_line L n @ layout_json L n v @ (if vs = [] then [] else '','' @ layout_values L n vs)"
| "layout_members L n [] = []"
| "layout_members L n ((k, v) # kvs) =
     lay_line L n @ lay_string L k @ lay_colon L @ layout_json L n v
       @ (if kvs = [] then [] else '','' @ layout_members L n kvs)"

text \<open>The layout of the default arguments, written out.\<close>

definition compact_layout :: "(string \<Rightarrow> string) \<Rightarrow> layout" where
  "compact_layout df = \<lparr>lay_escape = escape_string, lay_line = (\<lambda>n. []), lay_colon = '':'', lay_float = df\<rparr>"

lemma compact_layout_simps [simp]:
  "lay_escape (compact_layout df) = escape_string" "lay_line (compact_layout df) n = []"
  "lay_colon (compact_layout df) = '':''" "lay_float (compact_layout df) = df"
  "lay_string (compact_layout df) = quoted"
  by (auto simp: compact_layout_def lay_string_def quoted_def)

fun json_text :: "(string \<Rightarrow> string) \<Rightarrow> json \<Rightarrow> string"
and values_text :: "(string \<Rightarrow> string) \<Rightarrow> json list \<Rightarrow> string"
and members_text :: "(string \<Rightarrow> string) \<Rightarrow> (string \<times> json) list \<Rightarrow> string" where
  "json_text df (JObject kvs) = ''{'' @ members_text df kvs @ ''}''"
| "json_text df (JArray vs) = ''['' @ values_text df vs @ '']''"
| "json_text df (JString s) = quoted s"
| "json_text df (JBool b) = (if b then ''true'' else ''false'')"
| "json_text df (JInteger x) = show_int (sint x)"
| "json_text df (JUnsigned x) = show_nat (unat x)"
| "json_text df (JFloat x) = df x"
| "json_text df JNull = ''null''"
| "values_text df [] = []"
| "values_text df (v # vs) = json_text df v @ (if vs = [] then [] else '','' @ values_text df vs)"
| "members_text df [] = []"
| "members_text df ((k, v) # kvs) =
     quoted k @ '':'' @ json_text df v @ (if kvs = [] then [] else '','' @ members_text df kvs)"

lemma json_text_layout:
  "layout_json (compact_layout df) n v = json_text df v"
  "layout_values (compact_layout df) n vs = values_text df vs"
  "layout_members (compact_layout df) n kvs = members_text df kvs"
  by (induction df v and df vs and df kvs arbitrary: n and n and n rule: json_text_values_text_members_text.induct) auto

text \<open>All strings and keys of the document are UTF-8.\<close>

fun json_utf8 :: "json \<Rightarrow> bool"
and values_utf8 :: "json list \<Rightarrow> bool"
and members_utf8 :: "(string \<times> json) list \<Rightarrow> bool" where
  "json_utf8 (JObject kvs) = members_utf8 kvs"
| "json_utf8 (JArray vs) = values_utf8 vs"
| "json_utf8 (JString s) = valid_utf8 s"
| "json_utf8 _ = True"
| "values_utf8 [] = True"
| "values_utf8 (v # vs) = (json_utf8 v \<and> values_utf8 vs)"
| "members_utf8 [] = True"
| "members_utf8 ((k, v) # kvs) = (valid_utf8 k \<and> json_utf8 v \<and> members_utf8 kvs)"

lemma dump_string_quoted:
  "dump_string s = (if valid_utf8 s then Inr (quoted s) else Inl (Type_Error 316))"
  by (simp add: dump_string_def dump_escaped_strict quoted_def)

lemma dump_json_text:
  "dump df v = (if json_utf8 v then Inr (json_text df v) else Inl (Type_Error 316))"
  "dump_values df vs = (if values_utf8 vs then Inr (values_text df vs) else Inl (Type_Error 316))"
  "dump_members df kvs = (if members_utf8 kvs then Inr (members_text df kvs) else Inl (Type_Error 316))"
proof (induction df v and df vs and df kvs rule: dump_dump_values_dump_members.induct)
qed (simp_all add: dump_string_quoted dump_integer_show_int dump_unsigned_show_nat)

end
