(* ===== verification/Inja_Renderer.thy ===== *)
theory Inja_Renderer
  imports Inja_Bytecode Json_Query Json_Dump "HOL-Library.Signed_Division"
begin

text \<open>
  The virtual machine that fills a template with a document (\<^verbatim>\<open>class Renderer\<close> of
  \<^verbatim>\<open>src/extlibs/inja/src/inja.hpp\<close>): a stack of values, a stack of loops, and the text
  written so far. Callbacks are a parameter; the tool registers none.
\<close>

section \<open>State\<close>

record render_env =
  re_double :: double_ops
  re_float :: "string \<Rightarrow> string"
  re_callbacks :: "string \<Rightarrow> nat \<Rightarrow> (json list \<Rightarrow> json result) option"
  re_included :: template_storage

datatype loop_kind = Loop_Map | Loop_Array

text \<open>\<^verbatim>\<open>map_it\<close> is a position in \<^verbatim>\<open>map_values\<close>.\<close>

record loop_level =
  loop_type :: loop_kind
  key_name :: string
  value_name :: string
  loop_data :: json
  loop_values :: json
  loop_index :: nat
  loop_size :: nat
  map_values :: "(string \<times> json) list"
  map_it :: nat

text \<open>Both stacks have their top first.\<close>

record render_state =
  r_stack :: "json list"
  r_loops :: "loop_level list"
  r_out :: string

definition render_init :: render_state where
  "render_init = \<lparr>r_stack = [], r_loops = [], r_out = []\<rparr>"

text \<open>What \<^verbatim>\<open>m_data\<close> points to: the data of the innermost loop, or the document.\<close>

definition current_data :: "json \<Rightarrow> render_state \<Rightarrow> json" where
  "current_data data st = (case r_loops st of [] \<Rightarrow> data | level # _ \<Rightarrow> loop_data level)"

section \<open>Operands\<close>

function convert_dot_to_json_pointer :: "string \<Rightarrow> string" where
  "convert_dot_to_json_pointer dot =
     (let part = takeWhile (\<lambda>c. c \<noteq> CHR ''.'') dot; rest = drop (Suc (length part)) dot
      in CHR ''/'' # part @ (if rest = [] then [] else convert_dot_to_json_pointer rest))"
  by pat_completeness auto
termination
  by (relation "measure length") auto

declare convert_dot_to_json_pointer.simps [simp del]

text \<open>The faults that are exceptions, which a \<^verbatim>\<open>catch (std::exception&)\<close> stops.\<close>

definition is_exception :: "fault \<Rightarrow> bool" where
  "is_exception f =
     (case f of
        Parse_Error \<Rightarrow> True | Type_Error n \<Rightarrow> True | Out_Of_Range n \<Rightarrow> True | File_Error \<Rightarrow> True
      | Invalid_Iterator n \<Rightarrow> True | Invalid_Argument \<Rightarrow> True | Std_Out_Of_Range \<Rightarrow> True
      | Length_Error \<Rightarrow> True | Parser_Error \<Rightarrow> True | Render_Error \<Rightarrow> True | Json_Error \<Rightarrow> True
      | _ \<Rightarrow> False)"

definition lookup_value :: "render_env \<Rightarrow> json \<Rightarrow> string \<Rightarrow> string \<Rightarrow> json result" where
  "lookup_value env data ptr name =
     (case and_then (json_pointer (c_str ptr)) (\<lambda>ts. get_checked ts data) of
        Inr v \<Rightarrow> Inr v
      | Inl f \<Rightarrow>
          if is_exception f then
            (case re_callbacks env name 0 of None \<Rightarrow> Inl Render_Error | Some callback \<Rightarrow> callback [])
          else Inl f)"

text \<open>Without an immediate value the result is a null pointer, which every caller dereferences.\<close>

definition get_imm :: "render_env \<Rightarrow> json \<Rightarrow> bytecode \<Rightarrow> json result" where
  "get_imm env data bc =
     (case bc_flags bc of
        ValuePop \<Rightarrow> Inl Null_Pointer
      | ValueImmediate \<Rightarrow> Inr (bc_value bc)
      | ValueLookupDot \<Rightarrow> lookup_value env data (convert_dot_to_json_pointer (bc_str bc)) (bc_str bc)
      | ValueLookupPointer \<Rightarrow> lookup_value env data (CHR ''/'' # bc_str bc) (bc_str bc))"

definition has_imm :: "bytecode \<Rightarrow> bool" where
  "has_imm bc \<longleftrightarrow> bc_flags bc \<noteq> ValuePop"

text \<open>
  The arguments, and the stack without them. The count is unsigned, so an immediate value with a
  count of zero asks for more values than any stack has.
\<close>

definition get_args :: "render_env \<Rightarrow> json \<Rightarrow> bytecode \<Rightarrow> json list \<Rightarrow> json list result" where
  "get_args env data bc stack =
     (let n = bc_target bc in
      if has_imm bc \<and> n = 0 then Inl Out_Of_Bounds
      else
        let pops = (if has_imm bc then n - 1 else n) in
        if length stack < pops then Inl Out_Of_Bounds
        else if has_imm bc then and_then (get_imm env data bc) (\<lambda>v. Inr (rev (take pops stack) @ [v]))
        else Inr (rev (take pops stack)))"

definition pop_args :: "bytecode \<Rightarrow> json list \<Rightarrow> json list" where
  "pop_args bc stack = drop (bc_target bc - (if has_imm bc then 1 else 0)) stack"

definition truthy :: "double_ops \<Rightarrow> json \<Rightarrow> bool result" where
  "truthy d var =
     (if json_empty var then Inr False
      else if is_number var then Inr (\<not> json_eq d var (JInteger 0))
      else if (case var of JString s \<Rightarrow> True | _ \<Rightarrow> False) then Inr (\<not> json_empty var)
      else (case get_bool var of Inr b \<Rightarrow> Inr b | Inl f \<Rightarrow> Inl Json_Error))"

section \<open>Functions\<close>

definition to_upper :: "char \<Rightarrow> char" where
  "to_upper c = (let n = of_char c :: nat in if 97 \<le> n \<and> n \<le> 122 then char_of (n - 32) else c)"

text \<open>
  \<^verbatim>\<open>std::sort\<close>; the order it gives to values of which neither is less is not specified, the
  model keeps it.
\<close>

fun insert_by :: "('a \<Rightarrow> 'a \<Rightarrow> bool) \<Rightarrow> 'a \<Rightarrow> 'a list \<Rightarrow> 'a list" where
  "insert_by lt x [] = [x]"
| "insert_by lt x (y # ys) = (if lt y x then y # insert_by lt x ys else x # y # ys)"

fun sort_by :: "('a \<Rightarrow> 'a \<Rightarrow> bool) \<Rightarrow> 'a list \<Rightarrow> 'a list" where
  "sort_by lt [] = []"
| "sort_by lt (x # xs) = insert_by lt x (sort_by lt xs)"

text \<open>\<^verbatim>\<open>std::max_element\<close> and \<^verbatim>\<open>std::min_element\<close>: the first of the largest or smallest.\<close>

definition max_element :: "double_ops \<Rightarrow> json \<Rightarrow> json \<Rightarrow> json" where
  "max_element d largest v = (if json_less d largest v then v else largest)"

definition min_element :: "double_ops \<Rightarrow> json \<Rightarrow> json \<Rightarrow> json" where
  "min_element d smallest v = (if json_less d v smallest then v else smallest)"

definition best_element :: "(json \<Rightarrow> json \<Rightarrow> json) \<Rightarrow> json \<Rightarrow> json result" where
  "best_element better j =
     (case json_elements j of
        v # vs \<Rightarrow> Inr (foldl better v vs)
      | [] \<Rightarrow> Inl (if j = JNull then Invalid_Iterator 214 else Out_Of_Bounds))"

definition range_values :: "32 word \<Rightarrow> json result" where
  "range_values number =
     (if sint number < 0 then Inl Length_Error
      else Inr (JArray (map (\<lambda>i. JInteger (word_of_nat i)) [0..<nat (sint number)])))"

definition divisible_by :: "32 word \<Rightarrow> 32 word \<Rightarrow> bool result" where
  "divisible_by number divisor =
     (if divisor = 0 then Inr False
      else if sint number = - (2 ^ 31) \<and> sint divisor = -1 then Inl Signed_Overflow
      else Inr (sint number smod sint divisor = 0))"

definition sort_values :: "double_ops \<Rightarrow> json \<Rightarrow> json result" where
  "sort_values d j =
     (case j of JArray vs \<Rightarrow> Inr (JArray (sort_by (json_less d) vs)) | _ \<Rightarrow> Inl (Type_Error 302))"

definition length_value :: "json \<Rightarrow> json" where
  "length_value j =
     JUnsigned (word_of_nat (case j of JString s \<Rightarrow> length s | _ \<Rightarrow> json_size j))"

definition type_test :: "bytecode_op \<Rightarrow> json \<Rightarrow> bool" where
  "type_test op j =
     (case op of
        Op_IsBoolean \<Rightarrow> (case j of JBool b \<Rightarrow> True | _ \<Rightarrow> False)
      | Op_IsNumber \<Rightarrow> is_number j
      | Op_IsInteger \<Rightarrow> (case j of JInteger x \<Rightarrow> True | JUnsigned x \<Rightarrow> True | _ \<Rightarrow> False)
      | Op_IsFloat \<Rightarrow> (case j of JFloat x \<Rightarrow> True | _ \<Rightarrow> False)
      | Op_IsObject \<Rightarrow> (case j of JObject kvs \<Rightarrow> True | _ \<Rightarrow> False)
      | Op_IsArray \<Rightarrow> (case j of JArray vs \<Rightarrow> True | _ \<Rightarrow> False)
      | Op_IsString \<Rightarrow> (case j of JString s \<Rightarrow> True | _ \<Rightarrow> False)
      | _ \<Rightarrow> False)"

text \<open>The cases with one argument, and those with two; \<open>data\<close> is the whole document.\<close>

definition apply_unary :: "render_env \<Rightarrow> json \<Rightarrow> bytecode_op \<Rightarrow> json \<Rightarrow> json result" where
  "apply_unary env data op a =
     (let d = re_double env in
      case op of
        Op_Upper \<Rightarrow> and_then (get_string a) (\<lambda>s. Inr (JString (map to_upper s)))
      | Op_Lower \<Rightarrow> and_then (get_string a) (\<lambda>s. Inr (JString (map to_lower s)))
      | Op_Range \<Rightarrow> and_then (get_int d a) range_values
      | Op_Length \<Rightarrow> Inr (length_value a)
      | Op_Sort \<Rightarrow> sort_values d a
      | Op_First \<Rightarrow> json_front a
      | Op_Last \<Rightarrow> json_back a
      | Op_Odd \<Rightarrow> and_then (get_int d a) (\<lambda>n. Inr (JBool (sint n smod 2 \<noteq> 0)))
      | Op_Even \<Rightarrow> and_then (get_int d a) (\<lambda>n. Inr (JBool (sint n smod 2 = 0)))
      | Op_Max \<Rightarrow> best_element (max_element d) a
      | Op_Min \<Rightarrow> best_element (min_element d) a
      | Op_Not \<Rightarrow> and_then (truthy d a) (\<lambda>b. Inr (JBool (\<not> b)))
      | Op_Float \<Rightarrow> and_then (get_string_ref a) (\<lambda>s. and_then (d_stod d s) (\<lambda>x. Inr (JFloat x)))
      | Op_Int \<Rightarrow> and_then (get_string_ref a) (\<lambda>s. and_then (stoi s) (\<lambda>(n, rest). Inr (JInteger (scast n))))
      | Op_Exists \<Rightarrow> and_then (get_string_ref a) (\<lambda>name. Inr (JBool (json_find data name \<noteq> None)))
      | _ \<Rightarrow> Inr (JBool (type_test op a)))"

definition apply_binary :: "render_env \<Rightarrow> bytecode_op \<Rightarrow> json \<Rightarrow> json \<Rightarrow> json result" where
  "apply_binary env op a b =
     (let d = re_double env in
      case op of
        Op_At \<Rightarrow> and_then (get_int d b) (\<lambda>i. json_at_index a (scast i))
      | Op_Round \<Rightarrow>
          and_then (get_double d a) (\<lambda>number. and_then (get_int d b) (\<lambda>precision.
            Inr (JFloat (d_round d number precision))))
      | Op_DivisibleBy \<Rightarrow>
          and_then (get_int d a) (\<lambda>number. and_then (get_int d b) (\<lambda>divisor.
            and_then (divisible_by number divisor) (\<lambda>r. Inr (JBool r))))
      | Op_And \<Rightarrow>
          and_then (truthy d a) (\<lambda>x. if x then and_then (truthy d b) (\<lambda>y. Inr (JBool y)) else Inr (JBool False))
      | Op_Or \<Rightarrow>
          and_then (truthy d a) (\<lambda>x. if x then Inr (JBool True) else and_then (truthy d b) (\<lambda>y. Inr (JBool y)))
      | Op_In \<Rightarrow> Inr (JBool (list_ex (\<lambda>v. json_eq d v a) (json_elements b)))
      | Op_Equal \<Rightarrow> Inr (JBool (json_eq d a b))
      | Op_Different \<Rightarrow> Inr (JBool (\<not> json_eq d a b))
      | Op_Less \<Rightarrow> Inr (JBool (json_less d a b))
      | Op_Greater \<Rightarrow> Inr (JBool (json_less d b a))
      | Op_LessEqual \<Rightarrow> Inr (JBool (\<not> json_less d b a))
      | Op_GreaterEqual \<Rightarrow> Inr (JBool (\<not> json_less d a b))
      | _ \<Rightarrow> and_then (get_string_ref b) (\<lambda>name. Inr (JBool (json_find a name \<noteq> None))))"

definition unary_ops :: "bytecode_op list" where
  "unary_ops =
     [Op_Upper, Op_Lower, Op_Range, Op_Length, Op_Sort, Op_First, Op_Last, Op_Odd, Op_Even, Op_Max, Op_Min,
      Op_Not, Op_Float, Op_Int, Op_Exists, Op_IsBoolean, Op_IsNumber, Op_IsInteger, Op_IsFloat, Op_IsObject,
      Op_IsArray, Op_IsString]"

definition binary_ops :: "bytecode_op list" where
  "binary_ops =
     [Op_At, Op_Round, Op_DivisibleBy, Op_And, Op_Or, Op_In, Op_Equal, Op_Different, Op_Less, Op_Greater,
      Op_LessEqual, Op_GreaterEqual, Op_ExistsInObject]"

text \<open>Arguments are read by position, so a call with too few of them reads past their end.\<close>

definition apply_op :: "render_env \<Rightarrow> json \<Rightarrow> bytecode_op \<Rightarrow> json list \<Rightarrow> json result" where
  "apply_op env data op args =
     (if op \<in> set unary_ops then and_then (array_get args 0) (apply_unary env data op)
      else if op \<in> set binary_ops then
        and_then (array_get args 0) (\<lambda>a. and_then (array_get args 1) (\<lambda>b. apply_binary env op a b))
      else Inl Render_Error)"

section \<open>Loops\<close>

text \<open>
  What a round sets: the value and the members of \<^verbatim>\<open>loop\<close>, or the key and the value. A
  position in an array is below its size, so it does not wrap.
\<close>

definition array_round :: "string \<Rightarrow> nat \<Rightarrow> nat \<Rightarrow> json \<Rightarrow> json \<Rightarrow> json result" where
  "array_round name n i v data =
     and_then (json_set name v data) (\<lambda>data.
     and_then (json_at ''loop'' data) (\<lambda>(loopData, data).
     and_then (json_set ''index'' (JUnsigned (word_of_nat i)) loopData) (\<lambda>loopData.
     and_then (json_set ''index1'' (JUnsigned (word_of_nat (i + 1))) loopData) (\<lambda>loopData.
     and_then (json_set ''is_first'' (JBool (i = 0)) loopData) (\<lambda>loopData.
     and_then (json_set ''is_last'' (JBool (i + 1 = n)) loopData) (\<lambda>loopData.
       json_set ''loop'' loopData data))))))"

definition map_round :: "string \<Rightarrow> string \<Rightarrow> string \<times> json \<Rightarrow> json \<Rightarrow> json result" where
  "map_round key value kv data =
     and_then (json_set key (JString (fst kv)) data) (\<lambda>data. json_set value (snd kv) data)"

definition update_array_data :: "loop_level \<Rightarrow> loop_level result" where
  "update_array_data level =
     and_then (json_at_position (loop_values level) (loop_index level)) (\<lambda>v.
     and_then (array_round (value_name level) (loop_size level) (loop_index level) v (loop_data level)) (\<lambda>data.
       Inr (level\<lparr>loop_data := data\<rparr>)))"

definition update_map_data :: "loop_level \<Rightarrow> loop_level result" where
  "update_map_data level =
     and_then (array_get (map_values level) (map_it level)) (\<lambda>kv.
     and_then (map_round (key_name level) (value_name level) kv (loop_data level)) (\<lambda>data.
       Inr (level\<lparr>loop_data := data\<rparr>)))"

definition update_loop_data :: "loop_level \<Rightarrow> loop_level result" where
  "update_loop_data level =
     (case loop_type level of Loop_Array \<Rightarrow> update_array_data level | Loop_Map \<Rightarrow> update_map_data level)"

text \<open>The level a loop starts with, before the data of its first round is set.\<close>

definition new_level :: "bytecode \<Rightarrow> json \<Rightarrow> json \<Rightarrow> loop_level result" where
  "new_level bc values data =
     (case (bc_value bc, values) of
        (JString key, JObject kvs) \<Rightarrow>
          Inr \<lparr>loop_type = Loop_Map, key_name = key, value_name = bc_str bc, loop_data = data, loop_values = values,
            loop_index = 0, loop_size = 0,
            map_values = sort_by (\<lambda>a b. key_less (fst a) (fst b)) kvs, map_it = 0\<rparr>
      | (JString key, _) \<Rightarrow> Inl Render_Error
      | (_, JArray vs) \<Rightarrow>
          Inr \<lparr>loop_type = Loop_Array, key_name = [], value_name = bc_str bc, loop_data = data, loop_values = values,
            loop_index = 0, loop_size = length vs, map_values = [], map_it = 0\<rparr>
      | _ \<Rightarrow> Inl Render_Error)"

text \<open>The data of the enclosing loop becomes the member \<^verbatim>\<open>parent\<close> of \<^verbatim>\<open>loop\<close>.\<close>

definition link_parent :: "json \<Rightarrow> json result" where
  "link_parent data =
     (case json_find data ''loop'' of
        None \<Rightarrow> Inr data
      | Some loop_copy \<Rightarrow> and_then (json_set ''parent'' loop_copy loop_copy) (\<lambda>l. json_set ''loop'' l data))"

text \<open>
  Sixteen loops are reserved. The next one moves them, and \<^verbatim>\<open>m_data\<close> is read after that.
\<close>

definition reserved_loops :: nat where
  "reserved_loops = 16"

definition start_level :: "json \<Rightarrow> bytecode \<Rightarrow> render_state \<Rightarrow> render_state result" where
  "start_level data bc st =
     (case r_stack st of
        [] \<Rightarrow> Inl Out_Of_Bounds
      | values # stack \<Rightarrow>
          if reserved_loops \<le> length (r_loops st) then Inl Use_After_Free
          else
            and_then (new_level bc values (current_data data st)) (\<lambda>level.
            and_then (link_parent (loop_data level)) (\<lambda>d.
            and_then (update_loop_data (level\<lparr>loop_data := d\<rparr>)) (\<lambda>level.
              Inr (st\<lparr>r_stack := stack, r_loops := level # r_loops st\<rparr>)))))"

definition next_round :: "loop_level \<Rightarrow> loop_level \<times> bool" where
  "next_round level =
     (case loop_type level of
        Loop_Array \<Rightarrow>
          let level = level\<lparr>loop_index := loop_index level + 1\<rparr>
          in (level, loop_index level = json_size (loop_values level))
      | Loop_Map \<Rightarrow>
          let level = level\<lparr>map_it := map_it level + 1\<rparr>
          in (level, map_it level = length (map_values level)))"

section \<open>Instructions\<close>

definition write_out :: "string \<Rightarrow> render_state \<Rightarrow> render_state" where
  "write_out s st = st\<lparr>r_out := r_out st @ s\<rparr>"

definition print_value :: "render_env \<Rightarrow> json \<Rightarrow> string result" where
  "print_value env v = (case v of JString s \<Rightarrow> Inr s | _ \<Rightarrow> dump (re_float env) v)"

text \<open>One instruction; the result has the position of the next one.\<close>

definition render_step ::
    "render_env \<Rightarrow> json \<Rightarrow> bytecode \<Rightarrow> nat \<Rightarrow> render_state \<Rightarrow> (nat \<times> render_state) result" where
  "render_step env data bc i st =
     (let here = current_data data st in
      case bc_op bc of
        Op_Nop \<Rightarrow> Inr (i + 1, st)
      | Op_PrintText \<Rightarrow> Inr (i + 1, write_out (bc_str bc) st)
      | Op_PrintValue \<Rightarrow>
          and_then (get_args env here bc (r_stack st)) (\<lambda>args.
          and_then (array_get args 0) (\<lambda>v.
          and_then (print_value env v) (\<lambda>s.
            Inr (i + 1, write_out s (st\<lparr>r_stack := pop_args bc (r_stack st)\<rparr>)))))
      | Op_Push \<Rightarrow> and_then (get_imm env here bc) (\<lambda>v. Inr (i + 1, st\<lparr>r_stack := v # r_stack st\<rparr>))
      | Op_Default \<Rightarrow>
          (case get_imm env here bc of
             Inr imm \<Rightarrow>
               (case r_stack st of
                  [] \<Rightarrow> Inl Out_Of_Bounds
                | _ # stack \<Rightarrow> Inr (i + 1, st\<lparr>r_stack := imm # stack\<rparr>))
           | Inl f \<Rightarrow> if is_exception f then Inr (i + 1, st) else Inl f)
      | Op_Callback \<Rightarrow>
          (case re_callbacks env (bc_str bc) (bc_target bc) of
             None \<Rightarrow> Inl Render_Error
           | Some callback \<Rightarrow>
               and_then (get_args env here bc (r_stack st)) (\<lambda>args.
               and_then (callback args) (\<lambda>v.
                 Inr (i + 1, st\<lparr>r_stack := v # pop_args bc (r_stack st)\<rparr>))))
      | Op_Jump \<Rightarrow> Inr (bc_target bc, st)
      | Op_ConditionalJump \<Rightarrow>
          (case r_stack st of
             [] \<Rightarrow> Inl Out_Of_Bounds
           | v # stack \<Rightarrow>
               and_then (truthy (re_double env) v) (\<lambda>b.
                 Inr (if b then i + 1 else bc_target bc, st\<lparr>r_stack := stack\<rparr>)))
      | Op_StartLoop \<Rightarrow>
          (case r_stack st of
             [] \<Rightarrow> Inl Out_Of_Bounds
           | v # stack \<Rightarrow>
               if json_empty v then Inr (bc_target bc + 1, st\<lparr>r_stack := stack\<rparr>)
               else and_then (start_level data bc st) (\<lambda>st. Inr (i + 1, st)))
      | Op_EndLoop \<Rightarrow>
          (case r_loops st of
             [] \<Rightarrow> Inl Render_Error
           | level # loops \<Rightarrow>
               (case next_round level of (level, finished) \<Rightarrow>
                  if finished then Inr (i + 1, st\<lparr>r_loops := loops\<rparr>)
                  else and_then (update_loop_data level) (\<lambda>level.
                    Inr (bc_target bc, st\<lparr>r_loops := level # loops\<rparr>))))
      | op \<Rightarrow>
          and_then (get_args env here bc (r_stack st)) (\<lambda>args.
          and_then (apply_op env data op args) (\<lambda>v.
            Inr (i + 1, st\<lparr>r_stack := v # pop_args bc (r_stack st)\<rparr>))))"

text \<open>
  The loop over the instructions; an included template runs on its own machine that writes to the
  same stream. Fuel bounds the number of instructions.
\<close>

fun render_run ::
    "nat \<Rightarrow> render_env \<Rightarrow> json \<Rightarrow> bytecode list \<Rightarrow> nat \<Rightarrow> render_state \<Rightarrow> render_state result" where
  "render_run 0 env data code i st = Inl No_Fuel"
| "render_run (Suc n) env data code i st =
     (if length code \<le> i then Inr st
      else if bc_op (code ! i) = Op_Include then
        and_then (get_imm env (current_data data st) (code ! i)) (\<lambda>v.
        and_then (get_string_ref v) (\<lambda>name.
          case map_of (re_included env) name of
            None \<Rightarrow> Inl Out_Of_Bounds
          | Some tmpl \<Rightarrow>
              and_then (render_run n env (current_data data st) (bytecodes tmpl) 0 (render_init\<lparr>r_out := r_out st\<rparr>))
                (\<lambda>inner. render_run n env data code (i + 1) (st\<lparr>r_out := r_out inner\<rparr>))))
      else and_then (render_step env data (code ! i) i st) (\<lambda>(i, st). render_run n env data code i st))"

definition render_template :: "nat \<Rightarrow> render_env \<Rightarrow> inja_template \<Rightarrow> json \<Rightarrow> string result" where
  "render_template n env tmpl data =
     and_then (render_run n env data (bytecodes tmpl) 0 render_init) (\<lambda>st. Inr (r_out st))"

end
