(* ===== verification/Inja_Spec.thy ===== *)
theory Inja_Spec
  imports Inja_Renderer
begin

text \<open>
  What a template means, without stacks, jumps or positions: its syntax, the text it denotes for a
  document, and the code the parser emits for it. \<open>render_compiled\<close> is the theorem that the virtual
  machine computes the meaning, faults included.
\<close>

section \<open>Syntax\<close>

datatype expr =
    Lookup string
  | Literal json
  | Unary bytecode_op expr
  | Binary bytecode_op expr expr
  | Fallback string expr

datatype node =
    Text string
  | Print expr
  | If_Then expr "node list"
  | If_Else expr "node list" "node list"
  | For string string expr "node list"

fun wf_expr :: "expr \<Rightarrow> bool" where
  "wf_expr (Lookup name) = True"
| "wf_expr (Literal v) = True"
| "wf_expr (Unary op e) = (op \<in> set unary_ops \<and> wf_expr e)"
| "wf_expr (Binary op a b) = (op \<in> set binary_ops \<and> wf_expr a \<and> wf_expr b)"
| "wf_expr (Fallback name e) = wf_expr e"

fun wf_node :: "node \<Rightarrow> bool" and wf_nodes :: "node list \<Rightarrow> bool" where
  "wf_node (Text s) = True"
| "wf_node (Print e) = wf_expr e"
| "wf_node (If_Then e b) = (wf_expr e \<and> wf_nodes b)"
| "wf_node (If_Else e b c) = (wf_expr e \<and> wf_nodes b \<and> wf_nodes c)"
| "wf_node (For key value e b) = (wf_expr e \<and> wf_nodes b)"
| "wf_nodes [] = True"
| "wf_nodes (t # ts) = (wf_node t \<and> wf_nodes ts)"

section \<open>Meaning\<close>

text \<open>
  A value is looked up in the data of the innermost loop, \<open>cur\<close>; \<^verbatim>\<open>exists\<close> asks the whole
  document, \<open>root\<close>.
\<close>

definition lookup_name :: "render_env \<Rightarrow> json \<Rightarrow> string \<Rightarrow> json result" where
  "lookup_name env cur name = lookup_value env cur (convert_dot_to_json_pointer name) name"

fun eval :: "render_env \<Rightarrow> json \<Rightarrow> json \<Rightarrow> expr \<Rightarrow> json result" where
  "eval env root cur (Lookup name) = lookup_name env cur name"
| "eval env root cur (Literal v) = Inr v"
| "eval env root cur (Unary op e) = and_then (eval env root cur e) (apply_unary env root op)"
| "eval env root cur (Binary op a b) =
     and_then (eval env root cur a) (\<lambda>x. and_then (eval env root cur b) (apply_binary env op x))"
| "eval env root cur (Fallback name e) =
     and_then (eval env root cur e) (\<lambda>v.
       case lookup_name env cur name of
         Inr x \<Rightarrow> Inr x
       | Inl f \<Rightarrow> if is_exception f then Inr v else Inl f)"

text \<open>The rounds of a loop: each sets the data its body sees from the data of the round before.\<close>

definition rounds :: "string \<Rightarrow> string \<Rightarrow> json \<Rightarrow> (json \<Rightarrow> json result) list result" where
  "rounds key value v =
     (if key = [] then
        (case v of
           JArray vs \<Rightarrow> Inr (map (\<lambda>i. array_round value (length vs) i (vs ! i)) [0..<length vs])
         | _ \<Rightarrow> Inl Render_Error)
      else
        (case v of
           JObject kvs \<Rightarrow> Inr (map (map_round key value) (sort_by (\<lambda>a b. key_less (fst a) (fst b)) kvs))
         | _ \<Rightarrow> Inl Render_Error))"

fun run_rounds :: "(json \<Rightarrow> string result) \<Rightarrow> (json \<Rightarrow> json result) list \<Rightarrow> json \<Rightarrow> string result" where
  "run_rounds body [] cur = Inr []"
| "run_rounds body (f # fs) cur =
     and_then (f cur) (\<lambda>cur. and_then (body cur) (\<lambda>s. and_then (run_rounds body fs cur) (\<lambda>t. Inr (s @ t))))"

fun meaning :: "render_env \<Rightarrow> json \<Rightarrow> nat \<Rightarrow> json \<Rightarrow> node \<Rightarrow> string result"
and meanings :: "render_env \<Rightarrow> json \<Rightarrow> nat \<Rightarrow> json \<Rightarrow> node list \<Rightarrow> string result" where
  "meaning env root depth cur (Text s) = Inr s"
| "meaning env root depth cur (Print e) = and_then (eval env root cur e) (print_value env)"
| "meaning env root depth cur (If_Then e b) =
     and_then (eval env root cur e) (\<lambda>v. and_then (truthy (re_double env) v) (\<lambda>t.
       if t then meanings env root depth cur b else Inr []))"
| "meaning env root depth cur (If_Else e b c) =
     and_then (eval env root cur e) (\<lambda>v. and_then (truthy (re_double env) v) (\<lambda>t.
       if t then meanings env root depth cur b else meanings env root depth cur c))"
| "meaning env root depth cur (For key value e b) =
     and_then (eval env root cur e) (\<lambda>v.
       if json_empty v then Inr []
       else if reserved_loops \<le> depth then Inl Use_After_Free
       else
         and_then (rounds key value v) (\<lambda>fs.
         and_then (link_parent cur) (\<lambda>cur.
           run_rounds (\<lambda>cur. meanings env root (Suc depth) cur b) fs cur)))"
| "meanings env root depth cur [] = Inr []"
| "meanings env root depth cur (t # ts) =
     and_then (meaning env root depth cur t) (\<lambda>s.
       and_then (meanings env root depth cur ts) (\<lambda>u. Inr (s @ u)))"

section \<open>Code\<close>

text \<open>A function is merged into the push of its last argument.\<close>

definition merge :: "bytecode_op \<Rightarrow> nat \<Rightarrow> bytecode list \<Rightarrow> bytecode list" where
  "merge op n code =
     (if code \<noteq> [] \<and> bc_op (last code) = Op_Push
      then butlast code @ [(last code)\<lparr>bc_op := op, bc_args := word_of_nat n\<rparr>]
      else code @ [bc_plain op n])"

fun comp_expr :: "expr \<Rightarrow> bytecode list" where
  "comp_expr (Lookup name) = [bc_string Op_Push name ValueLookupDot]"
| "comp_expr (Literal v) = [bc_json Op_Push v ValueImmediate]"
| "comp_expr (Unary op e) = merge op 1 (comp_expr e)"
| "comp_expr (Binary op a b) = merge op 2 (comp_expr a @ comp_expr b)"
| "comp_expr (Fallback name e) = merge Op_Default 2 (comp_expr e @ [bc_string Op_Push name ValueLookupDot])"

lemma comp_expr_not_Nil [simp]: "comp_expr e \<noteq> []"
  by (cases e) (auto simp: merge_def)

definition loop_start :: "string \<Rightarrow> string \<Rightarrow> nat \<Rightarrow> bytecode" where
  "loop_start key value n =
     (bc_plain Op_StartLoop n)\<lparr>bc_value := (if key = [] then JNull else JString key), bc_str := value\<rparr>"

text \<open>\<open>i\<close> is the position of the first instruction.\<close>

fun comp_node :: "nat \<Rightarrow> node \<Rightarrow> bytecode list"
and comp_nodes :: "nat \<Rightarrow> node list \<Rightarrow> bytecode list" where
  "comp_node i (Text s) = [bc_string Op_PrintText s ValuePop]"
| "comp_node i (Print e) = merge Op_PrintValue 1 (comp_expr e)"
| "comp_node i (If_Then e b) =
     (let c = comp_expr e; i = i + length c + 1; cb = comp_nodes i b
      in c @ [bc_plain Op_ConditionalJump (i + length cb)] @ cb)"
| "comp_node i (If_Else e b d) =
     (let c = comp_expr e; i = i + length c + 1; cb = comp_nodes i b;
          j = i + length cb + 1; cd = comp_nodes j d
      in c @ [bc_plain Op_ConditionalJump j] @ cb @ [bc_plain Op_Jump (j + length cd)] @ cd)"
| "comp_node i (For key value e b) =
     (let c = comp_expr e; i = i + length c + 1; cb = comp_nodes i b
      in c @ [loop_start key value (i + length cb)] @ cb @ [bc_plain Op_EndLoop i])"
| "comp_nodes i [] = []"
| "comp_nodes i (t # ts) = (let c = comp_node i t in c @ comp_nodes (i + length c) ts)"

definition compile_template :: "node list \<Rightarrow> bytecode list" where
  "compile_template ts = comp_nodes 0 ts"

end
