(* ===== verification/Json_Roundtrip.thy ===== *)
theory Json_Roundtrip
  imports Json_Dump Json_Parser
begin

text \<open>
  What is dumped is parsed back: for every document the tool can build (sorted objects, UTF-8
  strings, unsigned or negative integers, no floating-point numbers) the parser reads the text of
  the serializer as the same document.
\<close>

section \<open>Strings\<close>

lemma hex_value_hex_digit: "n < 16 \<Longrightarrow> hex_value (hex_digit n) = Some n"
  by (auto simp: hex_value_def hex_digit_def Let_def)

lemma get_codepoint_u_escape:
  assumes "n < 65536"
  shows "get_codepoint (drop 2 (u_escape n) @ t) = Some (n, t)"
proof -
  have "n div 4096 * 4096 + n div 256 mod 16 * 256 + n div 16 mod 16 * 16 + n mod 16 = n"
  proof -
    define a b c where "a = n div 16" and "b = a div 16" and "c = b div 16"
    have e: "n = a * 16 + n mod 16" "a = b * 16 + a mod 16" "b = c * 16 + b mod 16"
      by (simp_all add: a_def b_def c_def)
    have d: "n div 256 = b" "n div 4096 = c"
      by (simp_all add: a_def b_def c_def div_mult2_eq [symmetric])
    have "c < 16" unfolding d(2) [symmetric] using assms by (simp add: div_less_iff_less_mult)
    then have "n = (c * 16 + b mod 16) * 256 + (a mod 16 * 16 + n mod 16)"
      using e by simp
    then show ?thesis unfolding d a_def [symmetric] by simp
  qed
  moreover have "n div 4096 < 16" "n div 4096 mod 16 = n div 4096"
    using assms by (simp_all add: div_less_iff_less_mult)
  ultimately show ?thesis
    by (simp add: get_codepoint_def u_escape_def hex_value_hex_digit push_bit_eq_mult)
qed

lemma scan_escape_simps [simp]:
  "scan_escape (CHR ''b'' # s) = Some ([CHR 0x08], s)"
  "scan_escape (CHR ''f'' # s) = Some ([CHR 0x0C], s)"
  "scan_escape (CHR ''n'' # s) = Some ([CHR 0x0A], s)"
  "scan_escape (CHR ''r'' # s) = Some ([CHR 0x0D], s)"
  "scan_escape (CHR ''t'' # s) = Some ([CHR 0x09], s)"
  "scan_escape (CHR ''u'' # s) = scan_unicode s"
  "scan_escape (CHR 0x22 # s) = Some ([CHR 0x22], s)"
  "scan_escape (CHR 0x5C # s) = Some ([CHR 0x5C], s)"
  by (simp_all add: scan_escape_def)

lemma scan_string_escape:
  "scan_escape u = Some (t, s) \<Longrightarrow> scan_string (CHR 0x5C # u) buf = scan_string s (buf @ t)"
  by (subst scan_string_step) simp

lemma scan_string_quote [simp]: "scan_string (CHR 0x22 # s) buf = Some (buf, s)"
  by (subst scan_string_step) simp

lemma byte_literals:
  "byte c = 0x08 \<longleftrightarrow> c = CHR 0x08" "byte c = 0x09 \<longleftrightarrow> c = CHR 0x09" "byte c = 0x0A \<longleftrightarrow> c = CHR 0x0A"
  "byte c = 0x0C \<longleftrightarrow> c = CHR 0x0C" "byte c = 0x0D \<longleftrightarrow> c = CHR 0x0D" "byte c = 0x22 \<longleftrightarrow> c = CHR 0x22"
  "byte c = 0x5C \<longleftrightarrow> c = CHR 0x5C"
  using of_char_eq_iff [of c "CHR 0x08", where 'a = nat] of_char_eq_iff [of c "CHR 0x09", where 'a = nat]
    of_char_eq_iff [of c "CHR 0x0A", where 'a = nat] of_char_eq_iff [of c "CHR 0x0C", where 'a = nat]
    of_char_eq_iff [of c "CHR 0x0D", where 'a = nat] of_char_eq_iff [of c "CHR 0x22", where 'a = nat]
    of_char_eq_iff [of c "CHR 0x5C", where 'a = nat]
  by simp_all

lemma scan_string_ascii:
  assumes "byte c < 0x80"
  shows "scan_string (escape_char c @ t) buf = scan_string t (buf @ [c])"
proof -
  consider (special) "byte c \<in> {0x08, 0x09, 0x0A, 0x0C, 0x0D, 0x22, 0x5C}"
    | (control) "byte c \<le> 0x1F" "byte c \<notin> {0x08, 0x09, 0x0A, 0x0C, 0x0D, 0x22, 0x5C}"
    | (plain) "0x1F < byte c" "byte c \<notin> {0x22, 0x5C}"
    by (cases "byte c \<in> {0x08, 0x09, 0x0A, 0x0C, 0x0D, 0x22, 0x5C}"; cases "byte c \<le> 0x1F") auto
  then show ?thesis
  proof cases
    case special
    then have "c \<in> {CHR 0x08, CHR 0x09, CHR 0x0A, CHR 0x0C, CHR 0x0D, CHR 0x22, CHR 0x5C}"
      by (auto simp: byte_literals)
    then show ?thesis
      by (auto simp: escape_char_def escape_codepoint_def scan_string_escape)
  next
    case control
    then have "escape_char c @ t = CHR 0x5C # CHR ''u'' # drop 2 (u_escape (byte c)) @ t"
      by (simp add: escape_char_def escape_codepoint_def u_escape_def)
    moreover have "scan_unicode (drop 2 (u_escape (byte c)) @ t) = Some ([c], t)"
      using control by (simp add: scan_unicode_def get_codepoint_u_escape encode_utf8_def)
    ultimately show ?thesis
      by (simp add: scan_string_escape)
  next
    case plain
    then have "escape_char c = [c]" "c \<noteq> CHR 0x22" "c \<noteq> CHR 0x5C"
      using assms by (auto simp: escape_char_def escape_codepoint_def)
    then show ?thesis
      using plain assms by (subst scan_string_step) simp
  qed
qed

lemma escape_string_high: "list_all (\<lambda>c. 0x80 \<le> byte c) s \<Longrightarrow> escape_string s = s"
  by (induction s) (auto simp: escape_string_def)

lemma escape_string_append [simp]: "escape_string (s @ t) = escape_string s @ escape_string t"
  by (simp add: escape_string_def)

lemma utf8_from_ranges:
  "utf8_from rs s \<Longrightarrow> (\<forall>r\<in>set rs. 0x80 \<le> fst r) \<Longrightarrow>
   \<exists>u v. s = u @ v \<and> list_all (\<lambda>c. 0x80 \<le> byte c) u \<and> utf8_from [] v
     \<and> (\<forall>t. next_byte_in_range rs (u @ t) = Some (u, t))"
proof (induction rs s rule: utf8_from.induct)
  case (4 lo hi rs c s)
  then obtain u v where "s = u @ v" "list_all (\<lambda>c. 0x80 \<le> byte c) u" "utf8_from [] v"
    "\<forall>t. next_byte_in_range rs (u @ t) = Some (u, t)" by auto
  with 4 show ?case by (intro exI [of _ "c # u"] exI [of _ v]) auto
qed auto

lemma scan_string_escaped:
  "valid_utf8 s \<Longrightarrow> scan_string (escape_string s @ CHR 0x22 # t) buf = Some (buf @ s, t)"
proof (induction "length s" arbitrary: s buf rule: less_induct)
  case less
  show ?case
  proof (cases s)
    case Nil
    then show ?thesis by (simp add: escape_string_def)
  next
    case (Cons c s')
    from less.prems obtain rs where rs: "lead_ranges (byte c) = Some rs" "utf8_from rs s'"
      by (auto simp: Cons valid_utf8_def split: option.splits)
    show ?thesis
    proof (cases "byte c < 0x80")
      case True
      with rs less.hyps [of s'] show ?thesis
        by (simp add: Cons escape_string_def valid_utf8_def scan_string_ascii)
    next
      case False
      from utf8_from_ranges [OF rs(2)] lead_ranges_high [OF rs(1)] obtain u v where
        uv: "s' = u @ v" "list_all (\<lambda>c. 0x80 \<le> byte c) u" "utf8_from [] v"
          "\<forall>t. next_byte_in_range rs (u @ t) = Some (u, t)" by blast
      have "escape_string s = c # u @ escape_string v"
        using False uv(1,2) by (simp add: Cons escape_string_high flip: append_Cons)
      moreover have "c \<noteq> CHR 0x22" "c \<noteq> CHR 0x5C" using False by auto
      ultimately have "scan_string (escape_string s @ CHR 0x22 # t) buf
          = scan_string (escape_string v @ CHR 0x22 # t) (buf @ c # u)"
        using rs(1) uv(4) False by (subst scan_string_step) simp
      also have "\<dots> = Some ((buf @ c # u) @ v, t)"
        using less.hyps [of v] uv by (simp add: Cons valid_utf8_def)
      finally show ?thesis by (simp add: Cons uv(1))
    qed
  qed
qed

lemma scan_quoted: "valid_utf8 k \<Longrightarrow> scan (quoted k @ s) = (T_value_string k, s)"
  by (simp add: quoted_def is_space_def scan_string_escaped)

section \<open>Numbers\<close>

text \<open>What may follow a value in a document: nothing, white space or a separator.\<close>

definition delim :: "string \<Rightarrow> bool" where
  "delim s \<longleftrightarrow> (case s of [] \<Rightarrow> True | c # _ \<Rightarrow> is_space c \<or> c \<in> set '',]}'')"

lemma delim_Nil [simp]: "delim []"
  by (simp add: delim_def)

lemma delim_Cons [simp]: "delim (CHR '','' # s)" "delim (CHR '']'' # s)" "delim (CHR ''}'' # s)"
  by (simp_all add: delim_def)

lemma delim_space: "list_all is_space w \<Longrightarrow> delim s \<Longrightarrow> delim (w @ s)"
  by (cases w) (simp_all add: delim_def)

lemma delim_char:
  "delim (c # s) \<Longrightarrow> \<not> is_digit c \<and> c \<noteq> CHR ''.'' \<and> c \<noteq> CHR ''e'' \<and> c \<noteq> CHR ''E''"
  by (auto simp: delim_def is_digit_def is_space_def)

lemma any1_digits:
  "list_all is_digit ds \<Longrightarrow> delim s \<Longrightarrow> scan_number_any1 nt buf (ds @ s) = Some (nt, buf @ ds, s)"
proof (induction ds arbitrary: buf)
  case Nil
  then show ?case by (cases s) (auto dest: delim_char)
qed simp

lemma zero_delim: "delim s \<Longrightarrow> scan_number_zero nt buf s = Some (nt, buf, s)"
  by (cases s) (auto simp: scan_number_zero_def dest: delim_char)

lemma show_nat_0: "show_nat 0 = ''0''"
  by (subst show_nat.simps) (simp add: digit_char_0)

lemma show_nat_Cons:
  assumes "0 < n"
  obtains d ds where "show_nat n = d # ds" "is_digit d" "d \<noteq> CHR ''0''" "list_all is_digit ds"
  using assms hd_show_nat [of n] show_nat_digits [of n] show_nat_nonempty [of n]
  by (cases "show_nat n") (auto simp: digit_char_0)

lemma digits_scan:
  "delim s \<Longrightarrow>
   \<exists>d ds. show_nat n = d # ds \<and> is_digit d \<and>
     (if d = CHR ''0'' then scan_number_zero nt (buf @ [d]) (ds @ s)
      else scan_number_any1 nt (buf @ [d]) (ds @ s)) = Some (nt, buf @ show_nat n, s)"
proof (cases "n = 0")
  case True
  then show "delim s \<Longrightarrow> ?thesis" by (simp add: show_nat_0 zero_delim is_digit_def)
next
  case False
  then obtain d ds where "show_nat n = d # ds" "is_digit d" "d \<noteq> CHR ''0''" "list_all is_digit ds"
    using show_nat_Cons [of n] by auto
  then show "delim s \<Longrightarrow> ?thesis" by (simp add: any1_digits)
qed

lemma is_digit_other [simp]:
  "is_digit c \<Longrightarrow> \<not> is_space c"
  "is_digit c \<Longrightarrow> c \<noteq> CHR ''-'' \<and> c \<noteq> CHR ''['' \<and> c \<noteq> CHR '']'' \<and> c \<noteq> CHR ''{'' \<and> c \<noteq> CHR ''}''
     \<and> c \<noteq> CHR '':'' \<and> c \<noteq> CHR '','' \<and> c \<noteq> CHR ''t'' \<and> c \<noteq> CHR ''f'' \<and> c \<noteq> CHR ''n'' \<and> c \<noteq> CHR 0x22"
  by (auto simp: is_digit_def is_space_def)

lemma scan_unsigned:
  assumes "delim s"
  shows "scan (show_nat (unat x) @ s) = (T_value_unsigned x, s)"
proof -
  from digits_scan [OF assms, of "unat x" N_unsigned "[]"] obtain d ds where
    d: "show_nat (unat x) = d # ds" "is_digit d"
    and r: "(if d = CHR ''0'' then scan_number_zero N_unsigned [d] (ds @ s)
      else scan_number_any1 N_unsigned [d] (ds @ s)) = Some (N_unsigned, show_nat (unat x), s)"
    by (auto cong: if_cong)
  have "scan_number d (ds @ s) = scan_number_done (N_unsigned, show_nat (unat x), s)"
    using r is_digit_other(2) [OF d(2)] by (cases "d = CHR ''0''") (simp_all add: scan_number_def)
  also have "\<dots> = (T_value_unsigned x, s)"
    using unsigned_less [of x, where ?'a = nat]
    by (simp add: scan_number_done_def strtoull_def digits_value_show_nat)
  finally show ?thesis
    using is_digit_other [OF d(2)] d by simp
qed

lemma scan_negative:
  assumes "delim s" "sint x < 0"
  shows "scan (show_int (sint x) @ s) = (T_value_integer x, s)"
proof -
  let ?n = "nat (- sint x)"
  from digits_scan [OF assms(1), of ?n N_integer "''-''"] obtain d ds where
    d: "show_nat ?n = d # ds" "is_digit d"
    and r: "(if d = CHR ''0'' then scan_number_zero N_integer [CHR ''-'', d] (ds @ s)
      else scan_number_any1 N_integer [CHR ''-'', d] (ds @ s))
        = Some (N_integer, CHR ''-'' # show_nat ?n, s)"
    by (auto cong: if_cong)
  have "scan_number (CHR ''-'') (show_nat ?n @ s) = scan_number_done (N_integer, CHR ''-'' # show_nat ?n, s)"
    using r d by (cases "d = CHR ''0''") (simp_all add: scan_number_def scan_number_minus_def)
  also have "\<dots> = (T_value_integer x, s)"
    using assms(2) sint_greater_eq [of x]
    by (simp add: scan_number_done_def strtoll_def digits_value_show_nat)
  finally show ?thesis
    using assms(2) by (simp add: show_int_def is_space_def)
qed

section \<open>Documents\<close>

text \<open>The documents that are read back exactly.\<close>

fun json_plain :: "json \<Rightarrow> bool"
and values_plain :: "json list \<Rightarrow> bool"
and members_plain :: "(string \<times> json) list \<Rightarrow> bool" where
  "json_plain (JObject kvs) = (obj_sorted kvs \<and> members_plain kvs)"
| "json_plain (JArray vs) = values_plain vs"
| "json_plain (JString s) = valid_utf8 s"
| "json_plain (JInteger x) = (sint x < 0)"
| "json_plain (JFloat x) = False"
| "json_plain _ = True"
| "values_plain [] = True"
| "values_plain (v # vs) = (json_plain v \<and> values_plain vs)"
| "members_plain [] = True"
| "members_plain ((k, v) # kvs) = (valid_utf8 k \<and> json_plain v \<and> members_plain kvs)"

lemma plain_utf8:
  "json_plain v \<Longrightarrow> json_utf8 v" "values_plain vs \<Longrightarrow> values_utf8 vs"
  "members_plain kvs \<Longrightarrow> members_utf8 kvs"
  by (induction v and vs and kvs rule: json_plain_values_plain_members_plain.induct) auto

text \<open>Read a value in the middle of a text.\<close>

definition read_value :: "(string \<Rightarrow> bool) \<Rightarrow> frame list \<Rightarrow> string \<Rightarrow> (json \<times> string) result" where
  "read_value fin st s = (case scan s of (t, r) \<Rightarrow> parse_value fin st t r)"

lemma scan_literals [simp]:
  "scan (CHR ''t'' # CHR ''r'' # CHR ''u'' # CHR ''e'' # s) = (T_literal_true, s)"
  "scan (CHR ''f'' # CHR ''a'' # CHR ''l'' # CHR ''s'' # CHR ''e'' # s) = (T_literal_false, s)"
  "scan (CHR ''n'' # CHR ''u'' # CHR ''l'' # CHR ''l'' # s) = (T_literal_null, s)"
  by (simp_all add: is_space_def)

lemma scan_structural [simp]:
  "scan (CHR ''['' # s) = (T_begin_array, s)" "scan (CHR '']'' # s) = (T_end_array, s)"
  "scan (CHR ''{'' # s) = (T_begin_object, s)" "scan (CHR ''}'' # s) = (T_end_object, s)"
  "scan (CHR '':'' # s) = (T_name_separator, s)" "scan (CHR '','' # s) = (T_value_separator, s)"
  by (simp_all add: is_space_def)

declare scan.simps(2) [simp del]

lemma obj_sorted_snoc: "obj_sorted (kvs @ [(k, v)]) \<Longrightarrow> obj_insert k v kvs = kvs @ [(k, v)]"
  by (rule obj_insert_append) (auto simp: obj_sorted_def sorted_wrt_append)

lemma obj_sorted_prefix: "obj_sorted (kvs @ ls) \<Longrightarrow> obj_sorted kvs"
  by (simp add: obj_sorted_def sorted_wrt_append)

lemma nul_free_show_nat [simp]: "nul_free (show_nat n)"
  using show_nat_digits [of n] by (auto simp: nul_free_def list_all_iff is_digit_def)

lemma hex_digit_nonzero [simp]: "k < 16 \<Longrightarrow> NUL \<noteq> hex_digit k"
proof
  assume "k < 16" "NUL = hex_digit k"
  then have "byte NUL = byte (hex_digit k)" by simp
  with \<open>k < 16\<close> show False by (simp add: hex_digit_def split: if_splits)
qed

lemma nul_free_escape_char [simp]: "nul_free (escape_char c)"
  by (auto simp: escape_char_def escape_codepoint_def u_escape_def nul_free_def)

lemma nul_free_escape_string [simp]: "nul_free (escape_string s)"
  unfolding escape_string_def using nul_free_escape_char by (induction s) auto

lemma skip_bom_show_nat: "skip_bom (show_nat n) = Some (show_nat n)"
  using show_nat_digits [of n] by (cases "show_nat n") (auto simp: skip_bom_def is_digit_def)

lemma scan_space: "is_space c \<Longrightarrow> scan (c # s) = scan s"
  by (subst scan.simps(2)) (simp only: if_True)

lemma scan_spaces: "list_all is_space w \<Longrightarrow> scan (w @ s) = scan s"
  by (induction w) (simp_all add: scan_space)

lemma nul_free_spaces: "list_all is_space w \<Longrightarrow> nul_free w"
proof -
  have "\<not> is_space NUL" by (simp add: is_space_def)
  then show "list_all is_space w \<Longrightarrow> nul_free w" by (metis nul_free_def list_all_iff)
qed

text \<open>
  A layout whose strings are read back and whose lines start with white space. What follows is
  proved for all of them at once.
\<close>

locale readable =
  fixes L :: layout
  assumes scan_escaped: "valid_utf8 s \<Longrightarrow> scan_string (lay_escape L s @ CHR 0x22 # t) buf = Some (buf @ s, t)"
    and line_space: "list_all is_space (lay_line L n)"
    and colon_space: "\<exists>w. lay_colon L = CHR '':'' # w \<and> list_all is_space w"
    and nul_free_escaped: "valid_utf8 s \<Longrightarrow> nul_free (lay_escape L s)"
begin

lemma scan_lay_string: "valid_utf8 k \<Longrightarrow> scan (lay_string L k @ s) = (T_value_string k, s)"
  unfolding lay_string_def append_Cons by (subst scan.simps(2)) (simp add: is_space_def scan_escaped)

lemma scan_line: "scan (lay_line L n @ s) = scan s"
  by (rule scan_spaces) (rule line_space)

lemma delim_line: "delim s \<Longrightarrow> delim (lay_line L n @ s)"
  by (rule delim_space) (rule line_space)

lemma read_colon: "(case scan (lay_colon L @ s) of (t, s) \<Rightarrow> if t = T_name_separator then f (scan s) else e) = f (scan s)"
proof -
  obtain w where "lay_colon L = CHR '':'' # w" "list_all is_space w" using colon_space by blast
  then show ?thesis by (simp add: scan_spaces)
qed

text \<open>A value never starts with the token that closes an array.\<close>

lemma scan_value_not_end:
  "json_plain v \<Longrightarrow> delim s \<Longrightarrow> fst (scan (layout_json L n v @ s)) \<noteq> T_end_array"
  by (cases v) (auto simp: scan_lay_string scan_unsigned scan_negative)

text \<open>The members of an object from behind the first key.\<close>

definition after_key :: "nat \<Rightarrow> (string \<times> json) list \<Rightarrow> string" where
  "after_key n kvs =
     (case kvs of [] \<Rightarrow> []
      | (k, v) # kvs \<Rightarrow> layout_json L n v @ (if kvs = [] then [] else '','' @ layout_members L n kvs))"

lemma layout_members_key:
  "kvs \<noteq> [] \<Longrightarrow> layout_members L n kvs = lay_line L n @ lay_string L (fst (hd kvs)) @ lay_colon L @ after_key n kvs"
  by (cases kvs) (auto simp: after_key_def)

lemma read_layout:
  "json_plain v \<Longrightarrow> delim s \<Longrightarrow> read_value fin st (layout_json L n v @ s) = eval_state fin st v s"
  "values_plain vs \<Longrightarrow> vs \<noteq> [] \<Longrightarrow>
   read_value fin (F_Array ws # st) (layout_values L n vs @ lay_line L m @ CHR '']'' # s)
     = eval_state fin st (JArray (ws @ vs)) s"
  "members_plain kvs \<Longrightarrow> kvs \<noteq> [] \<Longrightarrow> obj_sorted (ls @ kvs) \<Longrightarrow>
   read_value fin (F_Object ls (fst (hd kvs)) # st) (after_key n kvs @ lay_line L m @ CHR ''}'' # s)
     = eval_state fin st (JObject (ls @ kvs)) s"
proof (induction v and vs and kvs arbitrary: st s n and st s ws n m and st s ls n m
    rule: json_plain_values_plain_members_plain.induct)
  case (1 kvs)
  show ?case
  proof (cases "kvs = []")
    case True
    then show ?thesis by (simp add: read_value_def parse_value.simps)
  next
    case False
    let ?rest = "after_key (Suc n) kvs @ lay_line L n @ CHR ''}'' # s"
    have "valid_utf8 (fst (hd kvs))" using 1 False by (cases kvs) auto
    with False have "read_value fin st (layout_json L n (JObject kvs) @ s)
        = read_value fin (F_Object [] (fst (hd kvs)) # st) ?rest"
      by (simp add: read_value_def parse_value.simps [of _ _ T_begin_object] layout_members_key scan_line
          scan_lay_string read_colon)
    with 1 False show ?thesis by simp
  qed
next
  case (2 vs)
  show ?case
  proof (cases vs)
    case Nil
    then show ?thesis by (simp add: read_value_def parse_value.simps)
  next
    case (Cons v us)
    let ?rest = "lay_line L n @ CHR '']'' # s"
    have d: "delim ((if us = [] then [] else CHR '','' # layout_values L (Suc n) us) @ ?rest)"
      by (simp add: delim_line)
    have "fst (scan (layout_values L (Suc n) vs @ ?rest)) \<noteq> T_end_array"
      using scan_value_not_end [OF _ d, of v "Suc n"] 2 by (cases "us = []") (simp_all add: Cons scan_line)
    then have "read_value fin st (layout_json L n (JArray vs) @ s)
        = read_value fin (F_Array [] # st) (layout_values L (Suc n) vs @ ?rest)"
      by (cases "scan (layout_values L (Suc n) vs @ ?rest)")
        (simp add: Cons read_value_def parse_value.simps [of _ _ T_begin_array])
    with 2 Cons show ?thesis by simp
  qed
next
  case (8 v vs)
  then have v: "json_plain v" "values_plain vs" by auto
  let ?close = "lay_line L m @ CHR '']'' # s"
  have line: "read_value fin (F_Array ws # st) (lay_line L n @ u) = read_value fin (F_Array ws # st) u" for u
    by (simp add: read_value_def scan_line)
  show ?case
  proof (cases "vs = []")
    case True
    with "8.IH"(1) [OF v(1), of ?close "F_Array ws # st" n] show ?thesis
      by (simp add: line delim_line scan_line)
  next
    case False
    have "read_value fin (F_Array ws # st) (layout_values L n (v # vs) @ ?close)
        = eval_state fin (F_Array ws # st) v (CHR '','' # layout_values L n vs @ ?close)"
      using "8.IH"(1) [OF v(1), of "CHR '','' # layout_values L n vs @ ?close" "F_Array ws # st" n] False
      by (simp add: line)
    also have "\<dots> = read_value fin (F_Array (ws @ [v]) # st) (layout_values L n vs @ ?close)"
      by (simp add: read_value_def)
    finally show ?thesis using "8.IH"(2) [OF v(2) False, of "ws @ [v]" st n m s] by simp
  qed
next
  case (10 k v kvs)
  then have v: "valid_utf8 k" "json_plain v" "members_plain kvs" by auto
  let ?close = "lay_line L m @ CHR ''}'' # s"
  have ins: "obj_insert k v ls = ls @ [(k, v)]"
    using "10.prems"(3) obj_sorted_prefix [of "ls @ [(k, v)]" kvs] by (intro obj_sorted_snoc) simp
  show ?case
  proof (cases "kvs = []")
    case True
    with "10.IH"(1) [OF v(2), of ?close "F_Object ls k # st" n] ins show ?thesis
      by (simp add: after_key_def delim_line scan_line)
  next
    case False
    have "valid_utf8 (fst (hd kvs))" using v(3) False by (cases kvs) auto
    have "read_value fin (F_Object ls k # st) (after_key n ((k, v) # kvs) @ ?close)
        = eval_state fin (F_Object ls k # st) v (CHR '','' # layout_members L n kvs @ ?close)"
      using "10.IH"(1) [OF v(2), of "CHR '','' # layout_members L n kvs @ ?close" "F_Object ls k # st" n] False
      by (simp add: after_key_def)
    also have "\<dots> = read_value fin (F_Object (ls @ [(k, v)]) (fst (hd kvs)) # st) (after_key n kvs @ ?close)"
      using \<open>valid_utf8 (fst (hd kvs))\<close> False
      by (simp add: read_value_def layout_members_key scan_line scan_lay_string read_colon ins)
    finally show ?thesis
      using "10.IH"(2) [OF v(3) False, of "ls @ [(k, v)]" st n m s] "10.prems"(3) by simp
  qed
qed (simp_all add: read_value_def parse_value.simps scan_lay_string scan_unsigned scan_negative)

text \<open>The text starts with an ASCII character and contains no zero byte.\<close>

lemma nul_free_layout:
  "json_plain v \<Longrightarrow> nul_free (layout_json L n v)" "values_plain vs \<Longrightarrow> nul_free (layout_values L n vs)"
  "members_plain kvs \<Longrightarrow> nul_free (layout_members L n kvs)"
proof (induction v and vs and kvs arbitrary: n and n and n rule: json_plain_values_plain_members_plain.induct)
  case (10 k v kvs)
  moreover obtain w where "lay_colon L = CHR '':'' # w" "list_all is_space w" using colon_space by blast
  ultimately show ?case
    by (simp add: lay_string_def nul_free_escaped nul_free_spaces line_space)
qed (auto simp: show_int_def lay_string_def nul_free_escaped nul_free_spaces line_space)

lemma skip_bom_layout: "json_plain v \<Longrightarrow> skip_bom (layout_json L n v) = Some (layout_json L n v)"
  by (cases v) (auto simp: skip_bom_def lay_string_def show_int_def skip_bom_show_nat [unfolded skip_bom_def])

theorem parse_layout:
  assumes "json_plain v"
  shows "json_parse_c fin (layout_json L n v) = Inr v"
proof -
  have "read_value fin [] (layout_json L n v @ []) = Inr (v, [])"
    using read_layout(1) [OF assms, of "[]"] by simp
  then show ?thesis
    by (simp add: json_parse_c_def nul_free_layout(1) [OF assms] json_parse_def scan_first_def
        skip_bom_layout [OF assms] read_value_def split: prod.splits)
qed

end

interpretation compact: readable "compact_layout df" for df
  by unfold_locales (simp_all add: scan_string_escaped)

theorem json_parse_dump:
  assumes "json_plain v" "dump df v = Inr doc"
  shows "json_parse_c fin doc = Inr v"
  using assms dump_json_text(1) [of df v] plain_utf8(1) compact.parse_layout [OF assms(1), of fin df 0]
  by (simp add: json_text_layout)

lemma nul_free_json_text: "json_plain v \<Longrightarrow> nul_free (json_text df v)"
  using compact.nul_free_layout(1) [of v df 0] by (simp add: json_text_layout)

lemma dump_plain: "json_plain v \<Longrightarrow> \<exists>doc. dump df v = Inr doc \<and> nul_free doc"
  using dump_json_text(1) [of df v] plain_utf8(1) nul_free_json_text by auto

end
