(* ===== verification/Inja_Syntax.thy ===== *)
theory Inja_Syntax
  imports Inja_Parser Inja_Spec Json_Roundtrip
begin

text \<open>
  The text of a template: how the statements and expressions of \<open>Inja_Spec\<close> are written with the
  default delimiters, one way for each. \<open>Inja_Parse_Print\<close> shows that the parser reads it back.
\<close>

section \<open>Names and literals\<close>

definition name_ok :: "string \<Rightarrow> bool" where
  "name_ok s \<longleftrightarrow> s \<noteq> [] \<and> (is_alpha (hd s) \<or> hd s = CHR ''_'') \<and> list_all is_id_char s"

definition variable_ok :: "string \<Rightarrow> bool" where
  "variable_ok s \<longleftrightarrow> name_ok s \<and> s \<notin> {''not'', ''true'', ''false'', ''null''}"

definition plain_char :: "char \<Rightarrow> bool" where
  "plain_char c \<longleftrightarrow> 32 \<le> byte c \<and> byte c < 127 \<and> c \<noteq> CHR 0x22 \<and> c \<noteq> CHR 0x5C"

definition literal_ok :: "json \<Rightarrow> bool" where
  "literal_ok v =
     (case v of
        JString s \<Rightarrow> list_all plain_char s
      | JUnsigned n \<Rightarrow> True
      | JBool b \<Rightarrow> True
      | JNull \<Rightarrow> True
      | _ \<Rightarrow> False)"

definition print_literal :: "json \<Rightarrow> string" where
  "print_literal v = json_text id v"

section \<open>Expressions\<close>

definition infix_word :: "bytecode_op \<Rightarrow> string option" where
  "infix_word op =
     (case op of
        Op_In \<Rightarrow> Some ''in'' | Op_Equal \<Rightarrow> Some ''=='' | Op_Different \<Rightarrow> Some ''!='' | Op_Less \<Rightarrow> Some ''<''
      | Op_Greater \<Rightarrow> Some ''>'' | Op_LessEqual \<Rightarrow> Some ''<='' | Op_GreaterEqual \<Rightarrow> Some ''>=''
      | Op_And \<Rightarrow> Some ''and'' | Op_Or \<Rightarrow> Some ''or'' | _ \<Rightarrow> None)"

definition function_name :: "bytecode_op \<Rightarrow> string" where
  "function_name op = (case find (\<lambda>(name, n, q). q = op) builtin_functions of Some (name, _) \<Rightarrow> name | None \<Rightarrow> [])"

fun print_expr :: "expr \<Rightarrow> string" where
  "print_expr (Lookup name) = name"
| "print_expr (Literal v) = print_literal v"
| "print_expr (Unary op e) =
     (if op = Op_Not then ''(not '' @ print_expr e @ '')'' else function_name op @ ''('' @ print_expr e @ '')'')"
| "print_expr (Binary op a b) =
     (case infix_word op of
        Some word \<Rightarrow> ''('' @ print_expr a @ '' '' @ word @ '' '' @ print_expr b @ '')''
      | None \<Rightarrow> function_name op @ ''('' @ print_expr a @ '', '' @ print_expr b @ '')'')"
| "print_expr (Fallback name e) = ''default('' @ name @ '', '' @ print_expr e @ '')''"

text \<open>The last two instructions of a fallback are swapped, so its second argument must be one instruction.\<close>

fun expr_ok :: "expr \<Rightarrow> bool" where
  "expr_ok (Lookup name) = variable_ok name"
| "expr_ok (Literal v) = literal_ok v"
| "expr_ok (Unary op e) = (op \<in> set unary_ops \<and> expr_ok e)"
| "expr_ok (Binary op a b) = (op \<in> set binary_ops \<and> expr_ok a \<and> expr_ok b)"
| "expr_ok (Fallback name e) = (variable_ok name \<and> expr_ok e \<and> length (comp_expr e) = 1)"

lemma wf_expr_ok: "expr_ok e \<Longrightarrow> wf_expr e"
  by (induction e) auto

section \<open>Statements\<close>

definition statement :: "string \<Rightarrow> string" where
  "statement s = ''{% '' @ s @ '' %}''"

fun print_node :: "node \<Rightarrow> string" and print_nodes :: "node list \<Rightarrow> string" where
  "print_node (Text s) = s"
| "print_node (Print e) = ''{{ '' @ print_expr e @ '' }}''"
| "print_node (If_Then e b) = statement (''if '' @ print_expr e) @ print_nodes b @ statement ''endif''"
| "print_node (If_Else e b c) =
     statement (''if '' @ print_expr e) @ print_nodes b @ statement ''else'' @ print_nodes c @ statement ''endif''"
| "print_node (For key var e b) =
     statement (''for '' @ (if key = [] then [] else key @ '', '') @ var @ '' in '' @ print_expr e)
       @ print_nodes b @ statement ''endfor''"
| "print_nodes [] = []"
| "print_nodes (t # ts) = print_node t @ print_nodes ts"

text \<open>Text has no character that may open something, and two texts do not follow each other.\<close>

definition text_ok :: "string \<Rightarrow> bool" where
  "text_ok s \<longleftrightarrow> s \<noteq> [] \<and> list_all (\<lambda>c. c \<noteq> CHR ''{'' \<and> c \<noteq> CHR ''#'') s"

definition is_text :: "node \<Rightarrow> bool" where
  "is_text t = (case t of Text s \<Rightarrow> True | _ \<Rightarrow> False)"

fun node_ok :: "node \<Rightarrow> bool" and nodes_ok :: "node list \<Rightarrow> bool" where
  "node_ok (Text s) = text_ok s"
| "node_ok (Print e) = expr_ok e"
| "node_ok (If_Then e b) = (expr_ok e \<and> nodes_ok b)"
| "node_ok (If_Else e b c) = (expr_ok e \<and> nodes_ok b \<and> nodes_ok c)"
| "node_ok (For key var e b) = ((key = [] \<or> name_ok key) \<and> name_ok var \<and> expr_ok e \<and> nodes_ok b)"
| "nodes_ok [] = True"
| "nodes_ok (t # ts) = (node_ok t \<and> nodes_ok ts \<and> (is_text t \<longrightarrow> ts = [] \<or> \<not> is_text (hd ts)))"

lemma wf_node_ok: "node_ok t \<Longrightarrow> wf_node t" and wf_nodes_ok: "nodes_ok ts \<Longrightarrow> wf_nodes ts"
  by (induction t and ts rule: node_ok_nodes_ok.induct) (auto intro: wf_expr_ok)

end
