(* ===== verification/Inja_Reads.thy ===== *)
theory Inja_Reads
  imports Inja_Lexer
begin

text \<open>
  The tokens the lexer reads, with the default delimiters, as a relation between the states before
  and after: independent of positions, so that the parser can be followed on the text itself.
\<close>

section \<open>Reading one token\<close>

text \<open>The lexer is in a state and has a text before it.\<close>

definition at_text :: "lexer \<Rightarrow> lexer_state \<Rightarrow> string \<Rightarrow> bool" where
  "at_text lx st r \<longleftrightarrow> m_state lx = st \<and> m_pos lx \<le> length (m_in lx) \<and> drop (m_pos lx) (m_in lx) = r"

definition token_of :: "inja_token \<Rightarrow> string \<Rightarrow> token_kind \<Rightarrow> string \<Rightarrow> bool" where
  "token_of t inp k s \<longleftrightarrow> tok_kind t = k \<and> tok_text t = s \<and> slice inp (tok_start t) (tok_start t + length s) = s"

definition reads :: "lexer_state \<Rightarrow> string \<Rightarrow> token_kind \<Rightarrow> string \<Rightarrow> lexer_state \<Rightarrow> string \<Rightarrow> bool" where
  "reads st r k s st' r' \<longleftrightarrow>
     (\<forall>lx. at_text lx st r \<longrightarrow>
        (case inja_scan default_config lx of (t, lx') \<Rightarrow>
           token_of t (m_in lx) k s \<and> m_in lx' = m_in lx \<and> at_text lx' st' r'))"

lemma readsI:
  "(\<And>lx. at_text lx st r \<Longrightarrow> \<exists>t lx'. inja_scan default_config lx = (t, lx') \<and> token_of t (m_in lx) k s
      \<and> m_in lx' = m_in lx \<and> at_text lx' st' r') \<Longrightarrow> reads st r k s st' r'"
  by (fastforce simp: reads_def)

lemma readsD:
  "reads st r k s st' r' \<Longrightarrow> at_text lx st r \<Longrightarrow> \<exists>t lx'. inja_scan default_config lx = (t, lx')
      \<and> token_of t (m_in lx) k s \<and> m_in lx' = m_in lx \<and> at_text lx' st' r'"
  by (cases "inja_scan default_config lx") (auto simp: reads_def)

section \<open>Views\<close>

lemma slice_prefix: "drop a inp = s @ r \<Longrightarrow> a \<le> length inp \<Longrightarrow> slice inp a (a + length s) = s"
proof -
  assume d: "drop a inp = s @ r" and a: "a \<le> length inp"
  from d have "length inp - a = length s + length r" by (metis length_append length_drop)
  then have "min (max a (a + length s)) (length inp) - min a (length inp) = length s" using a by simp
  with d a show ?thesis by (simp add: slice_def Let_def)
qed

lemma drop_advance: "drop a inp = s @ r \<Longrightarrow> drop (a + length s) inp = r"
  by (metis append_eq_conv_conj drop_drop add.commute)

lemma drop_bound: "drop a inp = s @ r \<Longrightarrow> a \<le> length inp \<Longrightarrow> a + length s \<le> length inp"
proof -
  assume d: "drop a inp = s @ r" and a: "a \<le> length inp"
  from d have "length inp - a = length s + length r" by (metis length_append length_drop)
  with a show ?thesis by simp
qed

text \<open>A token from a position to the end of what it consumed.\<close>

lemma make_token_of:
  assumes "drop a (m_in lx) = s @ r" "a \<le> length (m_in lx)" "m_tok_start lx = a" "m_pos lx = a + length s"
  shows "token_of (make_token k lx) (m_in lx) k s" "m_state lx = st \<Longrightarrow> at_text lx st r"
  using slice_prefix [OF assms(1,2)] drop_advance [OF assms(1)] drop_bound [OF assms(1,2)] assms
  by (simp_all add: token_of_def make_token_def at_text_def)

lemma starts_with_append [simp]: "starts_with (p @ r) p"
  by (simp add: starts_with_def)

lemma starts_with_Cons: "starts_with (c # r) (d # p) \<longleftrightarrow> c = d \<and> starts_with r p"
  by (auto simp: starts_with_def)

lemma starts_with_Nil: "starts_with [] p \<longleftrightarrow> p = []" "starts_with r []"
  by (auto simp: starts_with_def)

lemma at_text_Cons:
  assumes "at_text lx st (c # r)"
  shows "m_pos lx < length (m_in lx)" "m_in lx ! m_pos lx = c" "drop (Suc (m_pos lx)) (m_in lx) = r"
proof -
  show l: "m_pos lx < length (m_in lx)"
    using assms by (cases "m_pos lx < length (m_in lx)") (auto simp: at_text_def)
  with Cons_nth_drop_Suc [OF l] assms show "m_in lx ! m_pos lx = c" "drop (Suc (m_pos lx)) (m_in lx) = r"
    by (auto simp: at_text_def)
qed

section \<open>Between delimiters\<close>

definition is_body :: "lexer_state \<Rightarrow> bool" where
  "is_body st \<longleftrightarrow> st = L_ExpressionBody \<or> st = L_StatementBody"

definition close_of :: "lexer_state \<Rightarrow> string" where
  "close_of st = (if st = L_ExpressionBody then ''}}'' else ''%}'')"

definition close_kind :: "lexer_state \<Rightarrow> token_kind" where
  "close_kind st = (if st = L_ExpressionBody then K_ExpressionClose else K_StatementClose)"

definition is_blank_char :: "char \<Rightarrow> bool" where
  "is_blank_char c \<longleftrightarrow> c = CHR '' '' \<or> c = CHR 0x09 \<or> c = CHR 0x0D \<or> c = CHR 0x0A"

lemma scan_in_body:
  assumes "is_body st" "at_text lx st (c # r)" "\<not> is_blank_char c"
  shows "inja_scan default_config lx =
    (if starts_with (c # r) (close_of st) then
       (let lx = lx\<lparr>m_tok_start := m_pos lx, m_state := L_Text, m_pos := m_pos lx + length (close_of st)\<rparr>
        in (make_token (close_kind st) lx, lx))
     else scan_symbol c (lx\<lparr>m_tok_start := m_pos lx, m_pos := m_pos lx + 1\<rparr>))"
proof -
  note c = at_text_Cons [OF assms(2)]
  have d: "drop (m_pos lx) (m_in lx) = c # r" and s: "m_state lx = st" using assms(2) by (auto simp: at_text_def)
  show ?thesis
    using assms(1,3) c d s unfolding inja_scan_def is_body_def
    by (subst scan_token.simps)
      (auto simp: scan_body.simps [of _ _ _ "lx\<lparr>m_tok_start := m_pos lx\<rparr>"] Let_def is_blank_char_def
        default_config_def close_of_def close_kind_def)
qed

lemma scan_token_body:
  assumes "is_body st" "m_state lx = st" "m_tok_start lx < length (m_in lx)"
  shows "scan_token default_config lx = scan_body (close_of st) (close_kind st) False lx"
  using assms by (subst scan_token.simps) (auto simp: is_body_def close_of_def close_kind_def default_config_def)

lemma scan_blank:
  assumes "is_body st" "at_text lx st (CHR '' '' # c # r)" "\<not> is_blank_char c"
  shows "inja_scan default_config lx = inja_scan default_config (lx\<lparr>m_pos := Suc (m_pos lx)\<rparr>)"
    and "at_text (lx\<lparr>m_pos := Suc (m_pos lx)\<rparr>) st (c # r)"
proof -
  let ?lx = "lx\<lparr>m_pos := Suc (m_pos lx)\<rparr>"
  note b = at_text_Cons [OF assms(2)]
  show at: "at_text ?lx st (c # r)" using b assms(2) by (simp add: at_text_def)
  note c = at_text_Cons [OF at]
  have s: "m_state lx = st" using assms(2) by (simp add: at_text_def)
  have "scan_body (close_of st) (close_kind st) False (lx\<lparr>m_tok_start := m_pos lx\<rparr>)
    = scan_body (close_of st) (close_kind st) False (lx\<lparr>m_tok_start := Suc (m_pos lx)\<rparr>)"
    using b by (subst scan_body.simps) simp
  also have "\<dots> = scan_body (close_of st) (close_kind st) False (?lx\<lparr>m_tok_start := Suc (m_pos lx)\<rparr>)"
    using c assms(3) by (simp add: scan_body.simps is_blank_char_def Let_def)
  finally show "inja_scan default_config lx = inja_scan default_config ?lx"
    using b c s by (simp add: inja_scan_def scan_token_body [OF assms(1)])
qed

lemma reads_blank:
  assumes "reads st (c # r) k s st' r'" "is_body st" "\<not> is_blank_char c"
  shows "reads st (CHR '' '' # c # r) k s st' r'"
  using assms scan_blank by (fastforce simp: reads_def)

text \<open>Tokens that start with a character that does not close.\<close>

lemma reads_symbol:
  assumes "is_body st" "\<not> is_blank_char c" "\<not> starts_with (c # s @ r) (close_of st)"
    and "\<And>lx. at_text lx st (s @ r) \<Longrightarrow>
      scan_symbol c lx = (make_token k (lx\<lparr>m_pos := m_pos lx + length s\<rparr>), lx\<lparr>m_pos := m_pos lx + length s\<rparr>)"
  shows "reads st (c # s @ r) k (c # s) st r"
proof (rule readsI)
  fix lx assume at: "at_text lx st (c # s @ r)"
  let ?lx = "lx\<lparr>m_tok_start := m_pos lx, m_pos := m_pos lx + 1\<rparr>"
  let ?ly = "?lx\<lparr>m_pos := m_pos ?lx + length s\<rparr>"
  note c = at_text_Cons [OF at]
  have "at_text ?lx st (s @ r)" using at c by (simp add: at_text_def)
  then have scan: "inja_scan default_config lx = (make_token k ?ly, ?ly)"
    using scan_in_body [OF assms(1) at assms(2)] assms(3,4) by simp
  have "drop (m_pos lx) (m_in ?ly) = (c # s) @ r" "m_pos lx \<le> length (m_in ?ly)" "m_state ?ly = st"
    using at by (auto simp: at_text_def)
  with make_token_of [of "m_pos lx" ?ly "c # s" r]
  have "token_of (make_token k ?ly) (m_in lx) k (c # s)" "at_text ?ly st r" by simp_all
  with scan show "\<exists>t lx'. inja_scan default_config lx = (t, lx') \<and> token_of t (m_in lx) k (c # s)
      \<and> m_in lx' = m_in lx \<and> at_text lx' st r" by simp
qed

lemma take_chars_prefix:
  assumes "at_text lx st (s @ r)" "list_all p s" "r = [] \<or> \<not> p (hd r)"
  shows "take_chars p lx = lx\<lparr>m_pos := m_pos lx + length s\<rparr>"
proof -
  have "takeWhile p (s @ r) = s"
    using assms(2,3) by (induction s) (cases r; simp)+
  with assms(1) show ?thesis by (simp add: take_chars_def advance_def at_text_def)
qed

lemma not_close: "is_body st \<Longrightarrow> c \<noteq> CHR ''}'' \<Longrightarrow> c \<noteq> CHR ''%'' \<Longrightarrow> \<not> starts_with (c # r) (close_of st)"
  by (auto simp: close_of_def starts_with_Cons)

lemma alpha_neq: "is_alpha c \<Longrightarrow> \<not> is_alpha d \<Longrightarrow> c \<noteq> d"
  by auto

lemma alpha_char:
  assumes "is_alpha c \<or> c = CHR ''_''"
  shows "\<not> is_blank_char c" "c \<noteq> CHR ''}''" "c \<noteq> CHR ''%''" "symbol_kind c = None" "\<not> is_digit c"
    "c \<notin> {CHR ''>'', CHR ''<'', CHR ''='', CHR ''!'', CHR 0x22, CHR ''-''}"
proof -
  have "c \<noteq> d" if "d \<in> {CHR '' '', CHR 0x09, CHR 0x0D, CHR 0x0A, CHR ''}'', CHR ''%'', CHR '','', CHR '':'',
      CHR ''('', CHR '')'', CHR ''['', CHR '']'', CHR ''{'', CHR ''>'', CHR ''<'', CHR ''='', CHR ''!'', CHR 0x22, CHR ''-''}" for d
  proof -
    have "\<not> is_alpha d \<and> d \<noteq> CHR ''_''" using that by (auto simp: is_alpha_def)
    with assms show ?thesis by auto
  qed
  then show "\<not> is_blank_char c" "c \<noteq> CHR ''}''" "c \<noteq> CHR ''%''" "symbol_kind c = None"
    "c \<notin> {CHR ''>'', CHR ''<'', CHR ''='', CHR ''!'', CHR 0x22, CHR ''-''}"
    by (simp_all add: is_blank_char_def symbol_kind_def)
  show "\<not> is_digit c" using assms by (auto simp: is_alpha_def is_digit_def)
qed

lemma reads_id:
  assumes "is_body st" "is_alpha c \<or> c = CHR ''_''" "list_all is_id_char s" "r = [] \<or> \<not> is_id_char (hd r)"
  shows "reads st (c # s @ r) K_Id (c # s) st r"
proof (rule reads_symbol [OF assms(1)])
  note c = alpha_char [OF assms(2)]
  show "\<not> is_blank_char c" by (rule c(1))
  show "\<not> starts_with (c # s @ r) (close_of st)" by (rule not_close [OF assms(1) c(2,3)])
  fix lx assume "at_text lx st (s @ r)"
  from take_chars_prefix [OF this assms(3,4)] c assms(2)
  show "scan_symbol c lx = (make_token K_Id (lx\<lparr>m_pos := m_pos lx + length s\<rparr>), lx\<lparr>m_pos := m_pos lx + length s\<rparr>)"
    by (cases "is_alpha c") (auto simp: scan_symbol_def scan_id_def Let_def)
qed

lemma reads_kind:
  assumes "is_body st" "symbol_kind c = Some k" "c \<noteq> CHR ''}''"
  shows "reads st (c # r) k [c] st r"
proof -
  have c: "\<not> is_blank_char c \<and> c \<noteq> CHR ''%'' \<and> \<not> is_alpha c"
    using assms(2) by (auto simp: symbol_kind_def is_blank_char_def is_alpha_def split: if_splits)
  show ?thesis
    using reads_symbol [OF assms(1), of c "[]" r k] c not_close [OF assms(1,3)] assms(2)
    by (simp add: scan_symbol_def)
qed

text \<open>Comparisons; each is followed by a blank.\<close>

definition comparison_kind :: "string \<Rightarrow> token_kind option" where
  "comparison_kind s =
     (if s = ''=='' then Some K_Equal else if s = ''!='' then Some K_NotEqual
      else if s = ''<'' then Some K_LessThan else if s = ''>'' then Some K_GreaterThan
      else if s = ''<='' then Some K_LessEqual else if s = ''>='' then Some K_GreaterEqual else None)"

lemma char_here_at: "at_text lx st r \<Longrightarrow> char_here lx = (case r of [] \<Rightarrow> None | c # _ \<Rightarrow> Some c)"
proof (cases r)
  case (Cons c s)
  assume "at_text lx st r"
  from at_text_Cons [OF this [unfolded Cons]] Cons show ?thesis by (simp add: char_here_def)
qed (auto simp: char_here_def at_text_def)

lemma reads_comparison:
  assumes "is_body st" "comparison_kind s = Some k"
  shows "reads st (s @ CHR '' '' # r) k s st (CHR '' '' # r)"
proof -
  have two: "reads st (c # CHR ''='' # CHR '' '' # r) k [c, CHR ''=''] st (CHR '' '' # r)"
    if "c \<in> {CHR ''='', CHR ''!'', CHR ''<'', CHR ''>''}" "comparison_kind [c, CHR ''=''] = Some k" for c
    using that reads_symbol [OF assms(1), of c "''=''" "CHR '' '' # r" k] not_close [OF assms(1), of c]
    by (auto simp: is_blank_char_def is_alpha_def symbol_kind_def scan_symbol_def followed_by_equal_def
        char_here_at advance_def comparison_kind_def Let_def)
  have one: "reads st (c # CHR '' '' # r) k [c] st (CHR '' '' # r)"
    if "c \<in> {CHR ''<'', CHR ''>''}" "comparison_kind [c] = Some k" for c
    using that reads_symbol [OF assms(1), of c "[]" "CHR '' '' # r" k] not_close [OF assms(1), of c]
    by (auto simp: is_blank_char_def is_alpha_def symbol_kind_def scan_symbol_def followed_by_equal_def
        char_here_at advance_def comparison_kind_def Let_def)
  show ?thesis
    using assms(2) one two by (auto simp: comparison_kind_def split: if_splits)
qed


lemma digit_char:
  assumes "is_digit c"
  shows "\<not> is_blank_char c" "c \<noteq> CHR ''}''" "c \<noteq> CHR ''%''" "symbol_kind c = None" "\<not> is_alpha c"
    "c \<notin> {CHR ''>'', CHR ''<'', CHR ''='', CHR ''!'', CHR 0x22}"
proof -
  have "c \<noteq> d" if "d \<in> {CHR '' '', CHR 0x09, CHR 0x0D, CHR 0x0A, CHR ''}'', CHR ''%'', CHR '','', CHR '':'',
      CHR ''('', CHR '')'', CHR ''['', CHR '']'', CHR ''{'', CHR ''>'', CHR ''<'', CHR ''='', CHR ''!'', CHR 0x22}" for d
  proof -
    have "\<not> is_digit d" using that by (auto simp: is_digit_def)
    with assms show ?thesis by auto
  qed
  then show "\<not> is_blank_char c" "c \<noteq> CHR ''}''" "c \<noteq> CHR ''%''" "symbol_kind c = None"
    "c \<notin> {CHR ''>'', CHR ''<'', CHR ''='', CHR ''!'', CHR 0x22}"
    by (simp_all add: is_blank_char_def symbol_kind_def)
  show "\<not> is_alpha c" using assms by (auto simp: is_alpha_def is_digit_def)
qed

lemma reads_number:
  assumes "is_body st" "list_all is_digit s" "s \<noteq> []" "r = [] \<or> \<not> is_number_char (hd r)"
  shows "reads st (s @ r) K_Number s st r"
proof -
  obtain c ds where s: "s = c # ds" "is_digit c" "list_all is_digit ds" using assms(2,3) by (cases s) auto
  note c = digit_char [OF s(2)]
  have ds: "list_all is_number_char ds" using s(3) by (simp add: list_all_iff is_number_char_def)
  have "reads st (c # ds @ r) K_Number (c # ds) st r"
  proof (rule reads_symbol [OF assms(1)])
    show "\<not> is_blank_char c" by (rule c(1))
    show "\<not> starts_with (c # ds @ r) (close_of st)" by (rule not_close [OF assms(1) c(2,3)])
    fix lx assume "at_text lx st (ds @ r)"
    from take_chars_prefix [OF this ds assms(4)] c s(2)
    show "scan_symbol c lx = (make_token K_Number (lx\<lparr>m_pos := m_pos lx + length ds\<rparr>), lx\<lparr>m_pos := m_pos lx + length ds\<rparr>)"
      by (auto simp: scan_symbol_def scan_inja_number_def Let_def)
  qed
  then show ?thesis by (simp add: s)
qed

text \<open>A string without quotes and backslashes.\<close>

lemma string_length_plain:
  "list_all (\<lambda>c. c \<noteq> CHR 0x22 \<and> c \<noteq> CHR 0x5C) s \<Longrightarrow> string_length False CHR 0x22 (s @ CHR 0x22 # r) = Suc (length s)"
  by (induction s) auto

lemma reads_string:
  assumes "is_body st" "list_all (\<lambda>c. c \<noteq> CHR 0x22 \<and> c \<noteq> CHR 0x5C) s"
  shows "reads st (CHR 0x22 # s @ CHR 0x22 # r) K_String (CHR 0x22 # s @ [CHR 0x22]) st r"
proof (rule readsI)
  let ?q = "CHR 0x22"
  fix lx assume at: "at_text lx st (?q # s @ ?q # r)"
  let ?lx = "lx\<lparr>m_tok_start := m_pos lx, m_pos := m_pos lx + 1\<rparr>"
  let ?ly = "?lx\<lparr>m_pos := m_pos ?lx + Suc (length s)\<rparr>"
  note c = at_text_Cons [OF at]
  have "scan_symbol ?q ?lx = (make_token K_String ?ly, ?ly)"
    using c string_length_plain [OF assms(2), of r]
    by (simp add: scan_symbol_def is_alpha_def symbol_kind_def scan_inja_string_def advance_def Let_def)
  then have scan: "inja_scan default_config lx = (make_token K_String ?ly, ?ly)"
    using scan_in_body [OF assms(1) at] not_close [OF assms(1), of ?q "s @ ?q # r"] by (simp add: is_blank_char_def)
  have "drop (m_pos lx) (m_in ?ly) = (?q # s @ [?q]) @ r" "m_pos lx \<le> length (m_in ?ly)" "m_state ?ly = st"
    using at by (auto simp: at_text_def)
  with make_token_of [of "m_pos lx" ?ly "?q # s @ [?q]" r]
  have "token_of (make_token K_String ?ly) (m_in lx) K_String (?q # s @ [?q])" "at_text ?ly st r" by simp_all
  with scan show "\<exists>t lx'. inja_scan default_config lx = (t, lx') \<and> token_of t (m_in lx) K_String (?q # s @ [?q])
      \<and> m_in lx' = m_in lx \<and> at_text lx' st r" by simp
qed

lemma reads_close:
  assumes "is_body st"
  shows "reads st (close_of st @ r) (close_kind st) (close_of st) L_Text r"
proof (rule readsI)
  fix lx assume at: "at_text lx st (close_of st @ r)"
  have "close_of st = hd (close_of st) # tl (close_of st)" "\<not> is_blank_char (hd (close_of st))"
    by (simp_all add: close_of_def is_blank_char_def)
  then obtain c s where c: "close_of st = c # s" "\<not> is_blank_char c" by blast
  let ?lx = "lx\<lparr>m_tok_start := m_pos lx, m_state := L_Text, m_pos := m_pos lx + length (close_of st)\<rparr>"
  have scan: "inja_scan default_config lx = (make_token (close_kind st) ?lx, ?lx)"
    using scan_in_body [OF assms at [unfolded c append_Cons] c(2)] starts_with_append [of "close_of st" r]
    by (simp add: c Let_def)
  have "drop (m_pos lx) (m_in ?lx) = close_of st @ r" "m_pos lx \<le> length (m_in ?lx)" "m_state ?lx = L_Text"
    using at by (auto simp: at_text_def)
  with make_token_of [of "m_pos lx" ?lx "close_of st" r]
  have "token_of (make_token (close_kind st) ?lx) (m_in lx) (close_kind st) (close_of st)" "at_text ?lx L_Text r"
    by simp_all
  with scan show "\<exists>t lx'. inja_scan default_config lx = (t, lx') \<and> token_of t (m_in lx) (close_kind st) (close_of st)
      \<and> m_in lx' = m_in lx \<and> at_text lx' L_Text r" by simp
qed

section \<open>Text and opening delimiters\<close>

definition open_of :: "lexer_state \<Rightarrow> string" where
  "open_of body = (if body = L_ExpressionBody then ''{{'' else ''{%'')"

definition open_kind :: "lexer_state \<Rightarrow> token_kind" where
  "open_kind body = (if body = L_ExpressionBody then K_ExpressionOpen else K_StatementOpen)"

definition start_of :: "lexer_state \<Rightarrow> lexer_state" where
  "start_of body = (if body = L_ExpressionBody then L_ExpressionStart else L_StatementStart)"

lemma reads_start:
  assumes "is_body body"
  shows "reads (start_of body) (open_of body @ r) (open_kind body) (open_of body) body r"
proof (rule readsI)
  fix lx assume at: "at_text lx (start_of body) (open_of body @ r)"
  let ?lx = "lx\<lparr>m_tok_start := m_pos lx, m_state := body, m_pos := m_pos lx + length (open_of body)\<rparr>"
  have "m_pos lx < length (m_in lx)"
    using at_text_Cons(1) [of lx "start_of body" "CHR ''{''" "tl (open_of body) @ r"] at by (auto simp: open_of_def split: if_splits)
  then have scan: "inja_scan default_config lx = (make_token (open_kind body) ?lx, ?lx)"
    using at assms unfolding inja_scan_def
    by (subst scan_token.simps)
      (auto simp: at_text_def is_body_def start_of_def open_of_def open_kind_def default_config_def scan_start_def
        advance_def Let_def)
  have "drop (m_pos lx) (m_in ?lx) = open_of body @ r" "m_pos lx \<le> length (m_in ?lx)" "m_state ?lx = body"
    using at by (auto simp: at_text_def)
  with make_token_of [of "m_pos lx" ?lx "open_of body" r]
  have "token_of (make_token (open_kind body) ?lx) (m_in lx) (open_kind body) (open_of body)" "at_text ?lx body r"
    by simp_all
  with scan show "\<exists>t lx'. inja_scan default_config lx = (t, lx') \<and> token_of t (m_in lx) (open_kind body) (open_of body)
      \<and> m_in lx' = m_in lx \<and> at_text lx' body r" by simp
qed

definition text_char :: "char \<Rightarrow> bool" where
  "text_char c \<longleftrightarrow> c \<noteq> CHR ''{'' \<and> c \<noteq> CHR ''#''"

lemma find_first_of_text:
  "list_all text_char s \<Longrightarrow> find_first_of (s @ CHR ''{'' # r) (open_chars default_config) = Some (length s)"
  "list_all text_char s \<Longrightarrow> find_first_of s (open_chars default_config) = None"
proof -
  assume "list_all text_char s"
  then have w: "takeWhile (\<lambda>c. c \<notin> set (open_chars default_config)) (s @ CHR ''{'' # r) = s"
    "takeWhile (\<lambda>c. c \<notin> set (open_chars default_config)) s = s"
    by (induction s) (auto simp: text_char_def default_config_def)
  show "find_first_of (s @ CHR ''{'' # r) (open_chars default_config) = Some (length s)"
    unfolding find_first_of_def w Let_def by simp
  show "find_first_of s (open_chars default_config) = None"
    unfolding find_first_of_def w Let_def by simp
qed

lemma open_sequence_open:
  assumes "is_body body" "drop (m_pos lx) (m_in lx) = open_of body @ r"
  shows "open_sequence default_config lx = Some (start_of body, False)"
  using assms by (auto simp: open_sequence_def default_config_def open_of_def is_body_def start_of_def starts_with_Cons
      starts_with_Nil Let_def)

text \<open>Text up to an opening delimiter, and up to the end.\<close>

lemma reads_text:
  assumes "is_body body" "list_all text_char s" "s \<noteq> []"
  shows "reads L_Text (s @ open_of body @ r) K_Text s (start_of body) (open_of body @ r)"
proof (rule readsI)
  fix lx assume at: "at_text lx L_Text (s @ open_of body @ r)"
  let ?lx = "lx\<lparr>m_tok_start := m_pos lx, m_pos := m_pos lx + length s, m_state := start_of body\<rparr>"
  obtain ch where o: "open_of body = [CHR ''{'', ch]" by (cases "body = L_ExpressionBody") (auto simp: open_of_def)
  have d: "drop (m_pos lx) (m_in lx) = s @ open_of body @ r" and l: "m_pos lx \<le> length (m_in lx)"
    using at by (auto simp: at_text_def)
  note e = drop_advance [OF d]
  have pos: "m_pos lx < length (m_in lx)" using drop_bound [OF d l] assms(3) by (cases s) auto
  have sl: "slice (m_in lx) (m_pos lx) (m_pos lx + length s) = s" by (rule slice_prefix [OF d l])
  have scan: "inja_scan default_config lx = (\<lparr>tok_kind = K_Text, tok_start = m_pos lx, tok_text = s\<rparr>, ?lx)"
    using at pos sl assms(3) open_sequence_open [OF assms(1), of "lx\<lparr>m_tok_start := m_pos lx, m_pos := m_pos lx + length s\<rparr>" r] e
      find_first_of_text(1) [OF assms(2), of "ch # r"]
    unfolding inja_scan_def
    by (subst scan_token.simps) (simp add: d o advance_def at_text_def Let_def)
  have "token_of \<lparr>tok_kind = K_Text, tok_start = m_pos lx, tok_text = s\<rparr> (m_in lx) K_Text s" "at_text ?lx (start_of body) (open_of body @ r)"
    using sl e drop_bound [OF d l] by (simp_all add: token_of_def at_text_def)
  with scan show "\<exists>t lx'. inja_scan default_config lx = (t, lx') \<and> token_of t (m_in lx) K_Text s
      \<and> m_in lx' = m_in lx \<and> at_text lx' (start_of body) (open_of body @ r)" by simp
qed


text \<open>An opening delimiter where no text comes before it.\<close>

lemma reads_open:
  assumes "is_body body"
  shows "reads L_Text (open_of body @ r) (open_kind body) (open_of body) body r"
proof (rule readsI)
  fix lx assume at: "at_text lx L_Text (open_of body @ r)"
  obtain ch where o: "open_of body = [CHR ''{'', ch]" by (cases "body = L_ExpressionBody") (auto simp: open_of_def)
  let ?lx = "lx\<lparr>m_state := start_of body\<rparr>"
  have d: "drop (m_pos lx) (m_in lx) = open_of body @ r" using at by (simp add: at_text_def)
  have pos: "m_pos lx < length (m_in lx)" using at_text_Cons(1) [OF at [unfolded o append_Cons]] .
  have sl: "slice (m_in lx) (m_pos lx) (m_pos lx) = []" by (simp add: slice_def Let_def)
  have swap: "lx\<lparr>m_tok_start := m_pos lx, m_state := start_of body\<rparr> = ?lx\<lparr>m_tok_start := m_pos ?lx\<rparr>"
    by (cases lx) simp
  have "inja_scan default_config lx = scan_token default_config (lx\<lparr>m_tok_start := m_pos lx, m_state := start_of body\<rparr>)"
    using at pos sl open_sequence_open [OF assms(1), of "lx\<lparr>m_tok_start := m_pos lx\<rparr>" r] d
      find_first_of_text(1) [of "[]" "ch # r"]
    unfolding inja_scan_def
    by (subst scan_token.simps) (simp add: d o advance_def at_text_def Let_def)
  then have "inja_scan default_config lx = inja_scan default_config ?lx"
    unfolding swap by (simp add: inja_scan_def)
  moreover have "at_text ?lx (start_of body) (open_of body @ r)" using at by (simp add: at_text_def)
  ultimately show "\<exists>t lx'. inja_scan default_config lx = (t, lx') \<and> token_of t (m_in lx) (open_kind body) (open_of body)
      \<and> m_in lx' = m_in lx \<and> at_text lx' body r"
    using readsD [OF reads_start [OF assms, of r]] by fastforce
qed

lemma reads_last_text:
  assumes "list_all text_char s" "s \<noteq> []"
  shows "reads L_Text s K_Text s L_Text []"
proof (rule readsI)
  fix lx assume at: "at_text lx L_Text s"
  let ?lx = "lx\<lparr>m_tok_start := m_pos lx, m_pos := length (m_in lx)\<rparr>"
  have d: "drop (m_pos lx) (m_in lx) = s @ []" and l: "m_pos lx \<le> length (m_in lx)" using at by (auto simp: at_text_def)
  have pos: "m_pos lx < length (m_in lx)" using drop_bound [OF d l] assms(2) by (cases s) auto
  have scan: "inja_scan default_config lx = (make_token K_Text ?lx, ?lx)"
    using at pos find_first_of_text(2) [OF assms(1)] unfolding inja_scan_def
    by (subst scan_token.simps) (simp add: d at_text_def Let_def)
  have "length (m_in lx) - m_pos lx = length s" using d by (metis append_Nil2 length_drop)
  then have len: "m_pos ?lx = m_pos lx + length s" using l by simp
  show "\<exists>t lx'. inja_scan default_config lx = (t, lx') \<and> token_of t (m_in lx) K_Text s
      \<and> m_in lx' = m_in lx \<and> at_text lx' L_Text []"
    using scan make_token_of [of "m_pos lx" ?lx s "[]"] d l len at by (simp add: at_text_def)
qed

lemma reads_end: "reads L_Text [] K_Eof [] L_Text []"
proof (rule readsI)
  fix lx assume at: "at_text lx L_Text []"
  then have l: "m_pos lx = length (m_in lx)" by (simp add: at_text_def)
  let ?lx = "lx\<lparr>m_tok_start := m_pos lx\<rparr>"
  have "inja_scan default_config lx = (make_token K_Eof ?lx, ?lx)"
    unfolding inja_scan_def using l by (subst scan_token.simps) simp
  moreover have "token_of (make_token K_Eof ?lx) (m_in lx) K_Eof []" "at_text ?lx L_Text []"
    using l at by (simp_all add: token_of_def make_token_def slice_def at_text_def)
  ultimately show "\<exists>t lx'. inja_scan default_config lx = (t, lx') \<and> token_of t (m_in lx) K_Eof []
      \<and> m_in lx' = m_in lx \<and> at_text lx' L_Text []" by simp
qed

text \<open>What may follow a piece of text: the end, or an opening delimiter in either state.\<close>

definition resumes :: "lexer_state \<Rightarrow> string \<Rightarrow> bool" where
  "resumes st r \<longleftrightarrow> st = L_Text \<or> (\<exists>body r'. is_body body \<and> st = start_of body \<and> r = open_of body @ r')"

lemma open_of_inject: "open_of body @ r = open_of body' @ r' \<Longrightarrow> is_body body \<Longrightarrow> is_body body' \<Longrightarrow> body = body'"
  by (auto simp: open_of_def is_body_def split: if_splits)

lemma reads_opening:
  assumes "is_body body" "resumes st (open_of body @ r)"
  shows "reads st (open_of body @ r) (open_kind body) (open_of body) body r"
proof (cases "st = L_Text")
  case True
  then show ?thesis using reads_open [OF assms(1)] by simp
next
  case False
  with assms open_of_inject have "st = start_of body" unfolding resumes_def by metis
  then show ?thesis using reads_start [OF assms(1)] by simp
qed

end
