(* ===== verification/Inja_Parse_Print.thy ===== *)
theory Inja_Parse_Print
  imports Inja_Syntax Inja_Reads
begin

text \<open>
  The parser on printed templates: it accepts them and emits the code of \<open>Inja_Spec\<close>, whatever stands
  before or after. Expressions are read at any place of an expression or statement body, statements at
  any place of the text.
\<close>

section \<open>States of the parser\<close>

text \<open>Nothing is peeked, and the lexer is before a text.\<close>

definition awaits :: "parser \<Rightarrow> lexer_state \<Rightarrow> string \<Rightarrow> bool" where
  "awaits q st r \<longleftrightarrow> m_peek_tok q = None \<and> at_text (p_lexer q) st r"

definition token_is :: "token_kind \<Rightarrow> string \<Rightarrow> lexer_state \<Rightarrow> string \<Rightarrow> parser \<Rightarrow> bool" where
  "token_is k s st r p \<longleftrightarrow> token_of (m_tok p) (m_in (p_lexer p)) k s \<and> awaits p st r"

text \<open>What reading tokens does not change.\<close>

definition core :: "parser \<Rightarrow> bytecode list \<times> if_data list \<times> nat list \<times> template_storage" where
  "core p = (p_code p, m_if_stack p, m_loop_stack p, m_included p)"

definition default_env :: "(string \<Rightarrow> bool) \<Rightarrow> parser_env" where
  "default_env fin = \<lparr>pe_config = default_config, pe_notation = Dot, pe_finite = fin\<rparr>"

lemma default_env_simps [simp]:
  "pe_config (default_env fin) = default_config" "pe_notation (default_env fin) = Dot"
  "pe_finite (default_env fin) = fin"
  by (simp_all add: default_env_def)

lemma token_awaits: "token_is k s st r p \<Longrightarrow> awaits p st r"
  by (simp add: token_is_def)

lemma tok_is_simps:
  "token_is k s st r p \<Longrightarrow> tok_is k' p \<longleftrightarrow> k' = k"
  "token_is k s st r p \<Longrightarrow> tok_word w p \<longleftrightarrow> k = K_Id \<and> s = w"
  "token_is k s st r p \<Longrightarrow> tok_kind (m_tok p) = k"
  "token_is k s st r p \<Longrightarrow> tok_text (m_tok p) = s"
  by (auto simp: token_is_def token_of_def tok_is_def tok_word_def)

lemma next_token:
  assumes "awaits q st r" "reads st r k s st' r'"
  shows "token_is k s st' r' (get_next_token (default_env fin) q)" "core (get_next_token (default_env fin) q) = core q"
proof -
  have at: "at_text (p_lexer q) st r" using assms(1) by (simp add: awaits_def)
  obtain t lx where "inja_scan default_config (p_lexer q) = (t, lx)" "token_of t (m_in (p_lexer q)) k s"
    "m_in lx = m_in (p_lexer q)" "at_text lx st' r'"
    using readsD [OF assms(2) at] by blast
  then show "token_is k s st' r' (get_next_token (default_env fin) q)" "core (get_next_token (default_env fin) q) = core q"
    using assms(1) by (simp_all add: get_next_token_def awaits_def token_is_def core_def)
qed

lemma peek_token:
  assumes "awaits p st r" "reads st r k s st' r'"
  shows "m_tok (get_peek_token (default_env fin) p) = m_tok p"
    "\<exists>z. m_peek_tok (get_peek_token (default_env fin) p) = Some z \<and> tok_kind z = k"
    "m_in (p_lexer (get_peek_token (default_env fin) p)) = m_in (p_lexer p)"
proof -
  have at: "at_text (p_lexer p) st r" using assms(1) by (simp add: awaits_def)
  obtain t lx where "inja_scan default_config (p_lexer p) = (t, lx)" "token_of t (m_in (p_lexer p)) k s"
    "m_in lx = m_in (p_lexer p)" "at_text lx st' r'"
    using readsD [OF assms(2) at] by blast
  then show "m_tok (get_peek_token (default_env fin) p) = m_tok p"
    "\<exists>z. m_peek_tok (get_peek_token (default_env fin) p) = Some z \<and> tok_kind z = k"
    "m_in (p_lexer (get_peek_token (default_env fin) p)) = m_in (p_lexer p)"
    using assms(1) by (simp_all add: get_peek_token_def awaits_def token_of_def)
qed

lemma next_after_peek:
  "m_peek_tok p = None \<Longrightarrow> get_next_token env (get_peek_token env p) = get_next_token env p"
  "m_peek_tok p = None \<Longrightarrow> get_next_token env (emit bc (get_peek_token env p)) = get_next_token env (emit bc p)"
  by (simp_all add: get_next_token_def get_peek_token_def emit_def split: prod.splits)

lemma awaits_simps [simp]:
  "awaits (emit bc p) st r = awaits p st r" "awaits (append_function op n p) st r = awaits p st r"
  "awaits (p\<lparr>m_if_stack := x\<rparr>) st r = awaits p st r" "awaits (p\<lparr>m_loop_stack := y\<rparr>) st r = awaits p st r"
  "awaits (p\<lparr>p_code := c\<rparr>) st r = awaits p st r"
  by (simp_all add: awaits_def emit_def append_function_def)

lemma core_simps [simp]:
  "core p = (c, i, l, inc) \<Longrightarrow> core (emit bc p) = (c @ [bc], i, l, inc)"
  "core p = (c, i, l, inc) \<Longrightarrow> core (p\<lparr>m_if_stack := x\<rparr>) = (c, x, l, inc)"
  "core p = (c, i, l, inc) \<Longrightarrow> core (p\<lparr>m_loop_stack := y\<rparr>) = (c, i, y, inc)"
  "core p = (c, i, l, inc) \<Longrightarrow> core (p\<lparr>p_code := d\<rparr>) = (d, i, l, inc)"
  by (simp_all add: core_def emit_def)

lemma core_append_function:
  "core p = (c @ d, i, l, inc) \<Longrightarrow> d \<noteq> [] \<Longrightarrow> core (append_function op n p) = (c @ merge op n d, i, l, inc)"
  by (auto simp: core_def append_function_def emit_def merge_def butlast_append)

section \<open>What follows an expression\<close>

text \<open>After an argument, at the end of parentheses, or before the closing delimiter.\<close>

definition ends_expr :: "lexer_state \<Rightarrow> string \<Rightarrow> bool" where
  "ends_expr st r \<longleftrightarrow> (\<exists>r'. r = CHR '','' # CHR '' '' # r' \<or> r = CHR '')'' # r' \<or> r = CHR '' '' # close_of st @ r')"

text \<open>Also before an operator: a token that is not an opening parenthesis.\<close>

definition follows :: "lexer_state \<Rightarrow> string \<Rightarrow> bool" where
  "follows st r \<longleftrightarrow> (r \<noteq> [] \<and> \<not> is_id_char (hd r) \<and> \<not> is_number_char (hd r))
     \<and> (\<exists>k s st' r'. reads st r k s st' r' \<and> k \<noteq> K_LeftParen)"

lemma ends_next:
  assumes "is_body st" "ends_expr st r"
  obtains k s st' r' where "reads st r k s st' r'" "k \<in> {K_Comma, K_RightParen, close_kind st}"
proof -
  from assms(2) consider r' where "r = CHR '','' # r'" | r' where "r = CHR '')'' # r'"
    | r' where "r = CHR '' '' # close_of st @ r'" by (auto simp: ends_expr_def)
  then show thesis
  proof cases
    case 1
    with reads_kind [OF assms(1), of "CHR '',''" K_Comma r'] that show ?thesis by (auto simp: symbol_kind_def)
  next
    case 2
    with reads_kind [OF assms(1), of "CHR '')''" K_RightParen r'] that show ?thesis by (auto simp: symbol_kind_def)
  next
    case 3
    obtain c s where c: "close_of st = c # s" "\<not> is_blank_char c"
      by (cases "st = L_ExpressionBody") (auto simp: close_of_def is_blank_char_def)
    have "reads st (CHR '' '' # close_of st @ r') (close_kind st) (close_of st) L_Text r'"
      using reads_blank [of st c "s @ r'"] reads_close [OF assms(1), of r'] assms(1) c by simp
    with 3 that show ?thesis by auto
  qed
qed

lemma ends_follows:
  assumes "is_body st" "ends_expr st r"
  shows "follows st r"
proof -
  have "r \<noteq> [] \<and> \<not> is_id_char (hd r) \<and> \<not> is_number_char (hd r)"
    using assms(2) by (auto simp: ends_expr_def is_id_char_def is_number_char_def is_alpha_def is_digit_def)
  moreover obtain k s st' r' where "reads st r k s st' r'" "k \<in> {K_Comma, K_RightParen, close_kind st}"
    by (rule ends_next [OF assms])
  ultimately show ?thesis
    unfolding follows_def by (metis close_kind_def insert_iff singletonD token_kind.distinct)
qed


lemma skip_blank:
  assumes "awaits q st (CHR '' '' # c # r)" "is_body st" "\<not> is_blank_char c"
  obtains q' where "awaits q' st (c # r)" "core q' = core q"
    "get_next_token (default_env fin) q = get_next_token (default_env fin) q'"
proof -
  have at: "at_text (p_lexer q) st (CHR '' '' # c # r)" using assms(1) by (simp add: awaits_def)
  let ?lx = "(p_lexer q)\<lparr>m_pos := Suc (m_pos (p_lexer q))\<rparr>"
  show thesis
    by (rule that [of "q\<lparr>p_lexer := ?lx\<rparr>"])
      (use scan_blank [OF assms(2) at assms(3)] assms(1) in
        \<open>simp_all add: awaits_def core_def get_next_token_def split: prod.splits\<close>)
qed

section \<open>First tokens\<close>

lemma function_names:
  "list_all (\<lambda>(name, n, op). name_ok name \<and> name \<noteq> ''not'' \<and> function_name op = name
      \<and> find_builtin ParserStatic name n = op \<and> op \<noteq> Op_Nop) builtin_functions"
  by code_simp

lemma unary_functions:
  "list_all (\<lambda>op. op = Op_Not \<or> (function_name op, 1, op) \<in> set builtin_functions \<and> op \<noteq> Op_Default) unary_ops"
  "list_all (\<lambda>op. infix_word op \<noteq> None \<or> (function_name op, 2, op) \<in> set builtin_functions \<and> op \<noteq> Op_Default) binary_ops"
  by code_simp+

lemma function_name_ok:
  assumes "op \<in> set unary_ops \<and> op \<noteq> Op_Not \<and> n = 1 \<or> op \<in> set binary_ops \<and> infix_word op = None \<and> n = 2"
  shows "name_ok (function_name op)" "function_name op \<noteq> ''not''"
    "find_builtin ParserStatic (function_name op) n = op" "op \<noteq> Op_Nop" "op \<noteq> Op_Default"
proof -
  have "(function_name op, n, op) \<in> set builtin_functions \<and> op \<noteq> Op_Default"
    using assms unary_functions by (auto simp: list_all_iff)
  with function_names show "name_ok (function_name op)" "function_name op \<noteq> ''not''"
    "find_builtin ParserStatic (function_name op) n = op" "op \<noteq> Op_Nop" "op \<noteq> Op_Default"
    by (auto simp: list_all_iff)
qed

lemma name_default: "name_ok ''default''" "find_builtin ParserStatic ''default'' 2 = Op_Default"
  by code_simp+

lemma reads_name:
  assumes "name_ok s" "is_body st" "r = [] \<or> \<not> is_id_char (hd r)"
  shows "reads st (s @ r) K_Id s st r"
  using assms reads_id [OF assms(2), of "hd s" "tl s" r] by (cases s) (auto simp: name_ok_def)

lemma name_first: "name_ok s \<Longrightarrow> \<exists>c t. s = c # t \<and> \<not> is_blank_char c"
  by (cases s) (auto simp: name_ok_def alpha_char(1))

lemma escape_plain: "list_all plain_char s \<Longrightarrow> escape_string s = s"
proof (induction s)
  case (Cons c s)
  then have c: "32 \<le> byte c" "byte c < 127" "c \<noteq> CHR 0x22" "c \<noteq> CHR 0x5C" by (auto simp: plain_char_def)
  then have "byte c \<noteq> byte CHR 0x22" "byte c \<noteq> byte CHR 0x5C" by (metis of_char_nat_eq_iff)+
  then have "escape_char c = [c]" using c(1,2) by (simp add: escape_char_def escape_codepoint_def)
  with Cons show ?case by (simp add: escape_string_def)
qed (simp add: escape_string_def)

lemma literal_cases:
  assumes "literal_ok v"
  obtains s where "v = JString s" "list_all plain_char s" "print_literal v = CHR 0x22 # s @ [CHR 0x22]"
  | n where "v = JUnsigned n" "print_literal v = show_nat (unat n)"
  | "v \<in> {JBool True, JBool False, JNull}" "print_literal v \<in> {''true'', ''false'', ''null''}"
proof -
  show thesis
  proof (cases v)
    case (JString s)
    with assms have "list_all plain_char s" by (simp add: literal_ok_def)
    with JString that(1) escape_plain show ?thesis by (simp add: print_literal_def quoted_def)
  next
    case (JUnsigned n)
    with that(2) show ?thesis by (simp add: print_literal_def)
  next
    case (JBool b)
    with that(3) show ?thesis by (cases b) (simp_all add: print_literal_def)
  next
    case JNull
    with that(3) show ?thesis by (simp add: print_literal_def)
  qed (use assms in \<open>simp_all add: literal_ok_def\<close>)
qed

lemma words_ok: "name_ok ''true''" "name_ok ''false''" "name_ok ''null''" "name_ok ''not''" "name_ok ''and''"
  "name_ok ''or''" "name_ok ''in''" "name_ok ''if''" "name_ok ''for''" "name_ok ''else''" "name_ok ''endif''" "name_ok ''endfor''"
  by code_simp+

definition ended :: "string \<Rightarrow> bool" where
  "ended r \<longleftrightarrow> r \<noteq> [] \<and> \<not> is_id_char (hd r) \<and> \<not> is_number_char (hd r)"

lemma ended_simps [simp]:
  "ended (CHR '')'' # r)" "ended (CHR '','' # r)" "ended (CHR '' '' # r)" "ended (CHR ''('' # r)" "ended (CHR 0x22 # r)"
  by (simp_all add: ended_def is_id_char_def is_number_char_def is_alpha_def is_digit_def)

lemma follows_ended: "follows st r \<Longrightarrow> ended r"
  by (simp add: follows_def ended_def)

lemma reads_paren:
  assumes "is_body st"
  shows "reads st (CHR ''('' # r) K_LeftParen ''('' st r" "reads st (CHR '')'' # r) K_RightParen '')'' st r"
    "reads st (CHR '','' # r) K_Comma '','' st r"
  by (rule reads_kind [OF assms]; simp add: symbol_kind_def)+

lemma reads_literal:
  assumes "literal_ok v" "is_body st" "ended r"
  shows "\<exists>k. reads st (print_literal v @ r) k (print_literal v) st r
    \<and> (k \<in> {K_Number, K_String} \<or> k = K_Id \<and> print_literal v \<in> {''true'', ''false'', ''null''})"
  using assms(1)
proof (cases rule: literal_cases)
  case (1 s)
  then have "list_all (\<lambda>c. c \<noteq> CHR 0x22 \<and> c \<noteq> CHR 0x5C) s" by (auto simp: list_all_iff plain_char_def)
  with 1 reads_string [OF assms(2), of s r] show ?thesis by auto
next
  case (2 n)
  have "reads st (show_nat (unat n) @ r) K_Number (show_nat (unat n)) st r"
    using assms(3) by (intro reads_number [OF assms(2)]) (auto simp: ended_def show_nat_digits show_nat_nonempty)
  with 2 show ?thesis by auto
next
  case 3
  then have "name_ok (print_literal v)" using words_ok by auto
  with 3 reads_name [OF _ assms(2), of "print_literal v" r] assms(3) show ?thesis by (auto simp: ended_def)
qed

lemma json_parse_literal:
  assumes "literal_ok v"
  shows "json_parse fin (print_literal v) = Inr v"
proof -
  have plain: "json_plain v"
    using assms
  proof (cases rule: literal_cases)
    case (1 s)
    then have "list_all (\<lambda>c. byte c < 0x80) s"
      unfolding list_all_iff plain_char_def by (meson less_trans numeral_less_iff semiring_norm(68,76,78,79,80,81))
    with 1 show ?thesis by (simp add: valid_utf8_ascii)
  qed auto
  then have d: "dump id v = Inr (print_literal v)"
    using dump_json_text(1) [of id v] plain_utf8(1) by (simp add: print_literal_def)
  from json_parse_dump [OF plain d, of fin] nul_free_json_text [OF plain, of id]
  show ?thesis by (simp add: json_parse_c_def print_literal_def)
qed

lemma reads_call: "name_ok s \<Longrightarrow> is_body st \<Longrightarrow> reads st (s @ CHR ''('' # r) K_Id s st (CHR ''('' # r)"
  by (rule reads_name) (simp_all add: is_id_char_def is_alpha_def is_digit_def)

text \<open>The first token of an expression.\<close>

lemma reads_expr:
  assumes "expr_ok e" "is_body st" "ended r"
  obtains k s r' where "reads st (print_expr e @ r) k s st r'" "k \<in> {K_Id, K_Number, K_String, K_LeftParen}" "s \<noteq> ''not''"
proof (cases e)
  case (Lookup name)
  with assms reads_name [of name st r] that show ?thesis by (auto simp: variable_ok_def ended_def)
next
  case (Literal v)
  with assms reads_literal [of v st r] obtain k where k: "reads st (print_literal v @ r) k (print_literal v) st r"
    "k \<in> {K_Number, K_String} \<or> k = K_Id \<and> print_literal v \<in> {''true'', ''false'', ''null''}" by auto
  have "print_literal v \<noteq> ''not''"
    using assms(1)[unfolded Literal expr_ok.simps]
  proof (cases rule: literal_cases)
    case (2 n)
    have "\<not> is_digit CHR ''n''" by (simp add: is_digit_def)
    with 2 show_nat_digits [of "unat n"] show ?thesis by auto
  qed auto
  with k that [of k "print_literal v" r] Literal show ?thesis by auto
next
  case (Unary op a)
  show ?thesis
  proof (cases "op = Op_Not")
    case True
    with Unary reads_paren(1) [OF assms(2)] that show ?thesis by auto
  next
    case False
    then have n: "name_ok (function_name op)" "function_name op \<noteq> ''not''"
      using function_name_ok [of op 1] assms(1) Unary by simp_all
    show ?thesis using that [OF _ _ n(2)] reads_call [OF n(1) assms(2)] Unary False by auto
  qed
next
  case (Binary op a b)
  show ?thesis
  proof (cases "infix_word op")
    case (Some w)
    with Binary reads_paren(1) [OF assms(2)] that show ?thesis by auto
  next
    case None
    then have n: "name_ok (function_name op)" "function_name op \<noteq> ''not''"
      using function_name_ok [of op 2] assms(1) Binary by simp_all
    show ?thesis using that [OF _ _ n(2)] reads_call [OF n(1) assms(2)] Binary None by auto
  qed
next
  case (Fallback name a)
  then show ?thesis using that [of K_Id "''default''"] reads_call [OF name_default(1) assms(2)] by auto
qed

lemma expr_first: "expr_ok e \<Longrightarrow> \<exists>c t. print_expr e = c # t \<and> \<not> is_blank_char c"
proof (cases e)
  case (Literal v)
  assume "expr_ok e"
  then have "literal_ok v" using Literal by simp
  then have "\<exists>c t. print_literal v = c # t \<and> \<not> is_blank_char c"
  proof (cases rule: literal_cases)
    case (2 n)
    obtain c t where "show_nat (unat n) = c # t" "is_digit c"
      using show_nat_digits [of "unat n"] show_nat_nonempty [of "unat n"] by (cases "show_nat (unat n)") auto
    with 2 digit_char(1) show ?thesis by auto
  qed (auto simp: is_blank_char_def)
  then show ?thesis using Literal by simp
next
  case (Unary op a)
  assume e: "expr_ok e"
  show ?thesis
  proof (cases "op = Op_Not")
    case False
    with e Unary have "name_ok (function_name op)" using function_name_ok [of op 1] by simp
    from name_first [OF this] Unary False show ?thesis by auto
  qed (simp add: Unary is_blank_char_def)
next
  case (Binary op a b)
  assume e: "expr_ok e"
  show ?thesis
  proof (cases "infix_word op")
    case None
    with e Binary have "name_ok (function_name op)" using function_name_ok [of op 2] by simp
    from name_first [OF this] Binary None show ?thesis by auto
  qed (simp add: Binary is_blank_char_def)
qed (auto simp: variable_ok_def is_blank_char_def dest: name_first)

section \<open>Expressions\<close>

text \<open>The fuel an expression needs.\<close>

fun need :: "expr \<Rightarrow> nat" where
  "need (Lookup name) = 1"
| "need (Literal v) = 1"
| "need (Unary op e) = need e + 7"
| "need (Binary op a b) = need a + need b + 8"
| "need (Fallback name e) = need e + 9"

definition datum_ok :: "(string \<Rightarrow> bool) \<Rightarrow> expr \<Rightarrow> bool" where
  "datum_ok fin e \<longleftrightarrow>
     (\<forall>st q r c i l inc n jf. is_body st \<longrightarrow> awaits q st (print_expr e @ r) \<longrightarrow> follows st r \<longrightarrow> core q = (c, i, l, inc)
        \<longrightarrow> need e \<le> n
        \<longrightarrow> (\<exists>q'. parse_expression_datum n (default_env fin) jf 0 0 (get_next_token (default_env fin) q)
                 = Inr (True, get_next_token (default_env fin) q')
              \<and> awaits q' st r \<and> core q' = (c @ comp_expr e, i, l, inc)))"

lemma datum_okD:
  assumes "datum_ok fin e" "is_body st" "awaits q st (print_expr e @ r)" "follows st r" "core q = (c, i, l, inc)" "need e \<le> n"
  obtains q' where "parse_expression_datum n (default_env fin) jf 0 0 (get_next_token (default_env fin) q)
      = Inr (True, get_next_token (default_env fin) q')" "awaits q' st r" "core q' = (c @ comp_expr e, i, l, inc)"
  using assms unfolding datum_ok_def by blast

text \<open>The token before an expression is no operator and does not end an argument list.\<close>

lemma expr_token:
  assumes "expr_ok e" "is_body st" "ended r" "awaits q st (print_expr e @ r)"
  shows "\<not> tok_word ''not'' (get_next_token (default_env fin) q)" "\<not> tok_is K_RightParen (get_next_token (default_env fin) q)"
proof -
  obtain k s r' where k: "reads st (print_expr e @ r) k s st r'" "k \<in> {K_Id, K_Number, K_String, K_LeftParen}" "s \<noteq> ''not''"
    by (rule reads_expr [OF assms(1-3)])
  from tok_is_simps [OF next_token(1) [OF assms(4) k(1)]] k(2,3)
  show "\<not> tok_word ''not'' (get_next_token (default_env fin) q)" "\<not> tok_is K_RightParen (get_next_token (default_env fin) q)"
    by auto
qed

lemma no_operator:
  assumes "is_body st" "ends_expr st r" "awaits q st r"
  shows "comparison_op (get_next_token (default_env fin) q) = None"
    "\<not> tok_word ''and'' (get_next_token (default_env fin) q)" "\<not> tok_word ''or'' (get_next_token (default_env fin) q)"
proof -
  obtain k s st' r' where k: "reads st r k s st' r'" "k \<in> {K_Comma, K_RightParen, close_kind st}"
    by (rule ends_next [OF assms(1,2)])
  note t = tok_is_simps [OF next_token(1) [OF assms(3) k(1), of fin]]
  show "comparison_op (get_next_token (default_env fin) q) = None"
    "\<not> tok_word ''and'' (get_next_token (default_env fin) q)" "\<not> tok_word ''or'' (get_next_token (default_env fin) q)"
    using k(2) by (auto simp: comparison_op_def t close_kind_def split: if_splits)
qed

lemma require_True [simp]: "require (Inr (True, p)) f = f p"
  by (simp add: require_def)

lemma expression_reads:
  assumes "datum_ok fin e" "expr_ok e" "is_body st" "awaits q st (print_expr e @ r)" "ends_expr st r"
    "core q = (c, i, l, inc)" "need e + 4 \<le> n"
  obtains q' where "parse_expression n (default_env fin) (get_next_token (default_env fin) q)
      = Inr (True, get_next_token (default_env fin) q')" "awaits q' st r" "core q' = (c @ comp_expr e, i, l, inc)"
proof -
  note f = ends_follows [OF assms(3,5)]
  have "n = Suc (Suc (Suc (Suc (n - 4))))" "need e \<le> n - 4" using assms(7) by linarith+
  then obtain m where n: "n = Suc (Suc (Suc (Suc m)))" "need e \<le> m" by blast
  obtain q' where q': "parse_expression_datum m (default_env fin) 0 0 0 (get_next_token (default_env fin) q)
      = Inr (True, get_next_token (default_env fin) q')" "awaits q' st r" "core q' = (c @ comp_expr e, i, l, inc)"
    by (rule datum_okD [OF assms(1,3,4) f assms(6) n(2)])
  show thesis
    by (rule that [OF _ q'(2,3)])
      (simp add: n q' expr_token [OF assms(2,3) follows_ended [OF f] assms(4)] no_operator [OF assms(3,5) q'(2)])
qed


lemma append_after_next:
  "append_function op n (get_next_token env p) = get_next_token env (append_function op n p)"
  by (simp add: append_function_def get_next_token_def emit_def split: option.split prod.split)

lemma swap_after_next:
  "swap_last p = Inr p' \<Longrightarrow> swap_last (get_next_token env p) = Inr (get_next_token env p')"
  by (auto simp: swap_last_def get_next_token_def split: option.split prod.split list.splits)

text \<open>One and two arguments, up to the token after the closing parenthesis.\<close>

lemma arguments_one:
  assumes e: "datum_ok fin e" "expr_ok e" and st: "is_body st" and q: "awaits q st (print_expr e @ CHR '')'' # r)"
    and core: "core q = (c, i, l, inc)" and n: "need e + 5 \<le> n"
  obtains q' where "parse_arguments n (default_env fin) k (get_next_token (default_env fin) q)
      = Inr (Suc k, get_next_token (default_env fin) q')" "awaits q' st r" "core q' = (c @ comp_expr e, i, l, inc)"
proof -
  let ?next = "get_next_token (default_env fin)"
  obtain m where m: "n = Suc m" "need e + 4 \<le> m" using n by (cases n) auto
  have ends_expr: "ends_expr st (CHR '')'' # r)" by (simp add: ends_expr_def)
  obtain q' where q': "parse_expression m (default_env fin) (?next q) = Inr (True, ?next q')"
    "awaits q' st (CHR '')'' # r)" "core q' = (c @ comp_expr e, i, l, inc)"
    by (rule expression_reads [OF e st q ends_expr core m(2)])
  note t = next_token [OF q'(2) reads_paren(2) [OF st], of fin]
  show thesis
    by (rule that [of "?next q'"]) (use q' t token_awaits [OF t(1)] in \<open>simp_all add: m tok_is_simps [OF t(1)]\<close>)
qed

lemma arguments_two:
  assumes a: "datum_ok fin a" "expr_ok a" and b: "datum_ok fin b" "expr_ok b"
    and st: "is_body st" and q: "awaits q st (print_expr a @ '', '' @ print_expr b @ CHR '')'' # r)"
    and core: "core q = (c, i, l, inc)" and n: "need a + need b + 6 \<le> n"
  obtains q' where "parse_arguments n (default_env fin) k (get_next_token (default_env fin) q)
      = Inr (Suc (Suc k), get_next_token (default_env fin) q')" "awaits q' st r"
    "core q' = (c @ comp_expr a @ comp_expr b, i, l, inc)"
proof -
  let ?next = "get_next_token (default_env fin)"
  obtain m where m: "n = Suc m" "need a + 4 \<le> m" "need b + 5 \<le> m" using n by (cases n) auto
  obtain ch s where b': "print_expr b = ch # s" "\<not> is_blank_char ch" using expr_first [OF b(2)] by auto
  have ends_expr: "ends_expr st ('', '' @ print_expr b @ CHR '')'' # r)" by (simp add: ends_expr_def)
  obtain q1 where q1: "parse_expression m (default_env fin) (?next q) = Inr (True, ?next q1)"
    "awaits q1 st ('', '' @ print_expr b @ CHR '')'' # r)" "core q1 = (c @ comp_expr a, i, l, inc)"
    by (rule expression_reads [OF a st q ends_expr core m(2)])
  have comma: "reads st ('', '' @ print_expr b @ CHR '')'' # r) K_Comma '','' st (CHR '' '' # ch # s @ CHR '')'' # r)"
    using reads_paren(3) [OF st] b' by simp
  note t = next_token [OF q1(2) comma, of fin]
  obtain q2 where q2: "awaits q2 st (ch # s @ CHR '')'' # r)" "core q2 = core (?next q1)" "?next (?next q1) = ?next q2"
    by (rule skip_blank [OF token_awaits [OF t(1)] st b'(2)])
  have q2': "awaits q2 st (print_expr b @ CHR '')'' # r)" "core q2 = (c @ comp_expr a, i, l, inc)"
    using q2 t q1 b' by simp_all
  obtain q' where q': "parse_arguments m (default_env fin) (Suc k) (?next q2) = Inr (Suc (Suc k), ?next q')"
    "awaits q' st r" "core q' = ((c @ comp_expr a) @ comp_expr b, i, l, inc)"
    by (rule arguments_one [OF b st q2' m(3)])
  show thesis
    by (rule that [OF _ q'(2)]) (use q' q1 q2 in \<open>simp_all add: m tok_is_simps [OF t(1)]\<close>)
qed

text \<open>The name of a function and the opening parenthesis.\<close>

lemma datum_call:
  assumes name: "name_ok name" and st: "is_body st" and q: "awaits q st (name @ CHR ''('' # s @ r)"
    and core: "core q = (c, i, l, inc)"
    and first: "\<And>p. awaits p st (s @ r) \<Longrightarrow> \<not> tok_is K_RightParen (get_next_token (default_env fin) p)"
  obtains p where "awaits p st (s @ r)" "core p = (c, i, l, inc)"
    "parse_expression_datum (Suc n) (default_env fin) jf 0 0 (get_next_token (default_env fin) q)
      = and_then (parse_arguments n (default_env fin) 0 (get_next_token (default_env fin) p))
          (\<lambda>(num_args, p). call_function name num_args p)"
proof -
  let ?env = "default_env fin" and ?next = "get_next_token (default_env fin)"
  note t = next_token [OF q reads_call [OF name st], of fin]
  note p = next_token [OF token_awaits [OF t(1)] reads_paren(1) [OF st], of fin]
  note peek = peek_token [OF token_awaits [OF t(1)] reads_paren(1) [OF st], of fin]
  obtain z where z: "m_peek_tok (get_peek_token ?env (?next q)) = Some z" "tok_kind z = K_LeftParen"
    using peek(2) by blast
  have none: "m_peek_tok (?next q) = None" using token_awaits [OF t(1)] by (simp add: awaits_def)
  have "datum_step ?env jf 0 0 (?next q) = Datum_Call name (?next (?next (?next q)))"
    using first [OF token_awaits [OF p(1)]]
    by (simp add: datum_step_def datum_id_def tok_is_simps [OF t(1)] peek(1) z next_after_peek(1) [OF none] Let_def)
  then show thesis
    using that [OF token_awaits [OF p(1)]] t(2) p(2) core by simp
qed

lemma call_reads:
  assumes "awaits q st r" "core q = (c @ d, i, l, inc)" "d \<noteq> []"
    "find_builtin ParserStatic name n = op" "op \<noteq> Op_Nop" "op \<noteq> Op_Default"
  obtains q' where "call_function name n (get_next_token (default_env fin) q) = Inr (True, get_next_token (default_env fin) q')"
    "awaits q' st r" "core q' = (c @ merge op n d, i, l, inc)"
  by (rule that [of "append_function op n q"])
    (use assms core_append_function [OF assms(2,3)] in \<open>simp_all add: call_function_def append_after_next\<close>)


lemma datum_okI:
  assumes "\<And>st q r c i l inc n jf. is_body st \<Longrightarrow> awaits q st (print_expr e @ r) \<Longrightarrow> follows st r \<Longrightarrow> core q = (c, i, l, inc)
    \<Longrightarrow> need e \<le> Suc n
    \<Longrightarrow> \<exists>q'. parse_expression_datum (Suc n) (default_env fin) jf 0 0 (get_next_token (default_env fin) q)
          = Inr (True, get_next_token (default_env fin) q') \<and> awaits q' st r \<and> core q' = (c @ comp_expr e, i, l, inc)"
  shows "datum_ok fin e"
proof -
  have "1 \<le> need e" by (cases e) simp_all
  show ?thesis
    unfolding datum_ok_def
  proof (intro allI impI)
    fix st q r c i l inc n jf
    assume a: "is_body st" "awaits q st (print_expr e @ r)" "follows st r" "core q = (c, i, l, inc)" "need e \<le> n"
    then obtain m where "n = Suc m" using \<open>1 \<le> need e\<close> by (cases n) auto
    with a assms [of st q r c i l inc m jf]
    show "\<exists>q'. parse_expression_datum n (default_env fin) jf 0 0 (get_next_token (default_env fin) q)
          = Inr (True, get_next_token (default_env fin) q') \<and> awaits q' st r \<and> core q' = (c @ comp_expr e, i, l, inc)"
      by simp
  qed
qed

lemma datum_lookup:
  assumes "variable_ok name"
  shows "datum_ok fin (Lookup name)"
proof (rule datum_okI)
  fix st q r c i l inc n jf
  let ?env = "default_env fin" and ?next = "get_next_token (default_env fin)"
  assume a: "is_body st" "awaits q st (print_expr (Lookup name) @ r)" "follows st r" "core q = (c, i, l, inc)"
  have name: "name_ok name" "name \<notin> {''true'', ''false'', ''null''}" using assms by (auto simp: variable_ok_def)
  have "reads st (name @ r) K_Id name st r"
    using a(3) by (intro reads_name [OF name(1) a(1)]) (auto simp: follows_def)
  note t = next_token [OF a(2) [unfolded print_expr.simps] this, of fin]
  obtain k s st' r' where k: "reads st r k s st' r'" "k \<noteq> K_LeftParen" using a(3) by (auto simp: follows_def)
  note peek = peek_token [OF token_awaits [OF t(1)] k(1), of fin]
  obtain z where z: "m_peek_tok (get_peek_token ?env (?next q)) = Some z" "tok_kind z = k" using peek(2) by blast
  have none: "m_peek_tok (?next q) = None" using token_awaits [OF t(1)] by (simp add: awaits_def)
  show "\<exists>q'. parse_expression_datum (Suc n) ?env jf 0 0 (?next q) = Inr (True, ?next q')
      \<and> awaits q' st r \<and> core q' = (c @ comp_expr (Lookup name), i, l, inc)"
    by (rule exI [of _ "emit (bc_string Op_Push name ValueLookupDot) (?next q)"])
      (use name(2) k(2) a(4) t(2) token_awaits [OF t(1)] in
        \<open>simp add: datum_step_def datum_id_def tok_is_simps [OF t(1)] peek(1) z next_after_peek(2) [OF none] Let_def\<close>)
qed

lemma return_literal:
  assumes "token_is k (print_literal v) st r p" "literal_ok v" "m_in (p_lexer p') = m_in (p_lexer p)" "m_tok p' = m_tok p"
  shows "return_json (default_env fin) (tok_start (m_tok p)) p'
    = Inr (True, get_next_token (default_env fin) (emit (bc_json Op_Push v ValueImmediate) p'))"
  using assms json_parse_literal [OF assms(2), of fin]
  by (simp add: return_json_def token_is_def token_of_def Let_def)

lemma datum_literal:
  assumes "literal_ok v"
  shows "datum_ok fin (Literal v)"
proof (rule datum_okI)
  fix st q r c i l inc n jf
  let ?env = "default_env fin" and ?next = "get_next_token (default_env fin)"
  assume a: "is_body st" "awaits q st (print_expr (Literal v) @ r)" "follows st r" "core q = (c, i, l, inc)"
  obtain k where k: "reads st (print_literal v @ r) k (print_literal v) st r"
    "k \<in> {K_Number, K_String} \<or> k = K_Id \<and> print_literal v \<in> {''true'', ''false'', ''null''}"
    using reads_literal [OF assms a(1) follows_ended [OF a(3)]] by blast
  note t = next_token [OF a(2) [unfolded print_expr.simps] k(1), of fin]
  obtain k' s st' r' where k': "reads st r k' s st' r'" "k' \<noteq> K_LeftParen" using a(3) by (auto simp: follows_def)
  note peek = peek_token [OF token_awaits [OF t(1)] k'(1), of fin]
  obtain z where z: "m_peek_tok (get_peek_token ?env (?next q)) = Some z" "tok_kind z = k'" using peek(2) by blast
  have none: "m_peek_tok (?next q) = None" using token_awaits [OF t(1)] by (simp add: awaits_def)
  have ret: "return_json ?env (tok_start (m_tok (?next q))) (?next q)
      = Inr (True, ?next (emit (bc_json Op_Push v ValueImmediate) (?next q)))"
    "return_json ?env (tok_start (m_tok (?next q))) (get_peek_token ?env (?next q))
      = Inr (True, ?next (emit (bc_json Op_Push v ValueImmediate) (?next q)))"
    using return_literal [OF t(1) assms] peek(1,3) next_after_peek(2) [OF none] by simp_all
  show "\<exists>q'. parse_expression_datum (Suc n) ?env jf 0 0 (?next q) = Inr (True, ?next q')
      \<and> awaits q' st r \<and> core q' = (c @ comp_expr (Literal v), i, l, inc)"
    by (rule exI [of _ "emit (bc_json Op_Push v ValueImmediate) (?next q)"])
      (use k(2) k'(2) a(4) t(2) token_awaits [OF t(1)] ret z peek(1) in
        \<open>auto simp: datum_step_def datum_id_def tok_is_simps [OF t(1)] Let_def\<close>)
qed

lemma datum_unary:
  assumes e: "datum_ok fin e" "expr_ok e" and op: "op \<in> set unary_ops" "op \<noteq> Op_Not"
  shows "datum_ok fin (Unary op e)"
proof (rule datum_okI)
  fix st q r c i l inc n jf
  let ?env = "default_env fin" and ?next = "get_next_token (default_env fin)"
  assume a: "is_body st" "awaits q st (print_expr (Unary op e) @ r)" "core q = (c, i, l, inc)" "need (Unary op e) \<le> Suc n"
  note f = function_name_ok [of op 1, simplified op, simplified]
  have q: "awaits q st (function_name op @ CHR ''('' # (print_expr e @ '')'') @ r)" using a(2) op(2) by simp
  have first: "\<not> tok_is K_RightParen (?next p)" if "awaits p st ((print_expr e @ '')'') @ r)" for p
    using expr_token(2) [OF e(2) a(1), of "CHR '')'' # r" p] that by simp
  obtain p where p: "awaits p st ((print_expr e @ '')'') @ r)" "core p = (c, i, l, inc)"
    "parse_expression_datum (Suc n) ?env jf 0 0 (?next q)
      = and_then (parse_arguments n ?env 0 (?next p)) (\<lambda>(num_args, p). call_function (function_name op) num_args p)"
    by (rule datum_call [OF f(1) a(1) q a(3) first])
  have p': "awaits p st (print_expr e @ CHR '')'' # r)" and n: "need e + 5 \<le> n" using p a(4) by simp_all
  obtain q1 where q1: "parse_arguments n ?env 0 (?next p) = Inr (Suc 0, ?next q1)" "awaits q1 st r"
    "core q1 = (c @ comp_expr e, i, l, inc)"
    by (rule arguments_one [OF e a(1) p' p(2) n])
  obtain q' where q': "call_function (function_name op) (Suc 0) (?next q1) = Inr (True, ?next q')" "awaits q' st r"
    "core q' = (c @ merge op (Suc 0) (comp_expr e), i, l, inc)"
    by (rule call_reads [OF q1(2,3) comp_expr_not_Nil f(3-5)])
  show "\<exists>q'. parse_expression_datum (Suc n) ?env jf 0 0 (?next q) = Inr (True, ?next q')
      \<and> awaits q' st r \<and> core q' = (c @ comp_expr (Unary op e), i, l, inc)"
    using p(3) q1(1) q' by auto
qed

lemma datum_binary:
  assumes a: "datum_ok fin a" "expr_ok a" and b: "datum_ok fin b" "expr_ok b"
    and op: "op \<in> set binary_ops" "infix_word op = None"
  shows "datum_ok fin (Binary op a b)"
proof (rule datum_okI)
  fix st q r c i l inc n jf
  let ?env = "default_env fin" and ?next = "get_next_token (default_env fin)"
  let ?args = "print_expr a @ '', '' @ print_expr b @ '')''"
  assume st: "is_body st" and q0: "awaits q st (print_expr (Binary op a b) @ r)" and core: "core q = (c, i, l, inc)"
    and n: "need (Binary op a b) \<le> Suc n"
  note f = function_name_ok [of op 2, simplified op, simplified]
  have q: "awaits q st (function_name op @ CHR ''('' # ?args @ r)" using q0 op(2) by simp
  have first: "\<not> tok_is K_RightParen (?next p)" if "awaits p st (?args @ r)" for p
    using expr_token(2) [OF a(2) st, of "'', '' @ print_expr b @ CHR '')'' # r" p] that by simp
  obtain p where p: "awaits p st (?args @ r)" "core p = (c, i, l, inc)"
    "parse_expression_datum (Suc n) ?env jf 0 0 (?next q)
      = and_then (parse_arguments n ?env 0 (?next p)) (\<lambda>(num_args, p). call_function (function_name op) num_args p)"
    by (rule datum_call [OF f(1) st q core first])
  have p': "awaits p st (print_expr a @ '', '' @ print_expr b @ CHR '')'' # r)" and n': "need a + need b + 6 \<le> n"
    using p n by simp_all
  obtain q1 where q1: "parse_arguments n ?env 0 (?next p) = Inr (Suc (Suc 0), ?next q1)" "awaits q1 st r"
    "core q1 = (c @ comp_expr a @ comp_expr b, i, l, inc)"
    by (rule arguments_two [OF a b st p' p(2) n'])
  have "comp_expr a @ comp_expr b \<noteq> []" by simp
  then obtain q' where q': "call_function (function_name op) 2 (?next q1) = Inr (True, ?next q')" "awaits q' st r"
    "core q' = (c @ merge op 2 (comp_expr a @ comp_expr b), i, l, inc)"
    by (rule call_reads [OF q1(2,3) _ f(3-5)])
  show "\<exists>q'. parse_expression_datum (Suc n) ?env jf 0 0 (?next q) = Inr (True, ?next q')
      \<and> awaits q' st r \<and> core q' = (c @ comp_expr (Binary op a b), i, l, inc)"
    using p(3) q1(1) q' by (auto simp: numeral_2_eq_2)
qed

lemma swap_last_core:
  assumes "core q = (c @ [a, b], i, l, inc)" "awaits q st r"
  obtains q' where "swap_last q = Inr q'" "awaits q' st r" "core q' = (c @ [b, a], i, l, inc)"
  by (rule that [of "q\<lparr>p_code := c @ [b, a]\<rparr>"]) (use assms in \<open>simp_all add: swap_last_def core_def awaits_def\<close>)

lemma datum_fallback:
  assumes name: "variable_ok name" and e: "datum_ok fin e" "expr_ok e" "length (comp_expr e) = 1"
  shows "datum_ok fin (Fallback name e)"
proof (rule datum_okI)
  fix st q r c i l inc n jf
  let ?env = "default_env fin" and ?next = "get_next_token (default_env fin)"
  let ?args = "name @ '', '' @ print_expr e @ '')''"
  assume st: "is_body st" and q0: "awaits q st (print_expr (Fallback name e) @ r)" and core: "core q = (c, i, l, inc)"
    and n: "need (Fallback name e) \<le> Suc n"
  have q: "awaits q st (''default'' @ CHR ''('' # ?args @ r)" using q0 by simp
  have a: "datum_ok fin (Lookup name)" "expr_ok (Lookup name)" using datum_lookup [OF name] name by simp_all
  have first: "\<not> tok_is K_RightParen (?next p)" if "awaits p st (?args @ r)" for p
    using expr_token(2) [OF a(2) st, of "'', '' @ print_expr e @ CHR '')'' # r" p] that by simp
  obtain p where p: "awaits p st (?args @ r)" "core p = (c, i, l, inc)"
    "parse_expression_datum (Suc n) ?env jf 0 0 (?next q)
      = and_then (parse_arguments n ?env 0 (?next p)) (\<lambda>(num_args, p). call_function ''default'' num_args p)"
    by (rule datum_call [OF name_default(1) st q core first])
  have p': "awaits p st (print_expr (Lookup name) @ '', '' @ print_expr e @ CHR '')'' # r)"
    and n': "need (Lookup name) + need e + 6 \<le> n" using p n by simp_all
  obtain q1 where q1: "parse_arguments n ?env 0 (?next p) = Inr (Suc (Suc 0), ?next q1)" "awaits q1 st r"
    "core q1 = (c @ comp_expr (Lookup name) @ comp_expr e, i, l, inc)"
    by (rule arguments_two [OF a e(1,2) st p' p(2) n'])
  obtain bc where bc: "comp_expr e = [bc]" using e(3) by (metis length_0_conv length_Suc_conv One_nat_def)
  obtain q2 where q2: "swap_last q1 = Inr q2" "awaits q2 st r"
    "core q2 = (c @ [bc, bc_string Op_Push name ValueLookupDot], i, l, inc)"
    using q1(2,3) bc by (auto intro: swap_last_core)
  let ?q = "append_function Op_Default 2 q2"
  have "core ?q = (c @ comp_expr (Fallback name e), i, l, inc)"
    using core_append_function [OF q2(3), of Op_Default 2] bc by simp
  moreover have "call_function ''default'' 2 (?next q1) = Inr (True, ?next ?q)"
    using swap_after_next [OF q2(1), of ?env] name_default(2) by (simp add: call_function_def append_after_next)
  ultimately show "\<exists>q'. parse_expression_datum (Suc n) ?env jf 0 0 (?next q) = Inr (True, ?next q')
      \<and> awaits q' st r \<and> core q' = (c @ comp_expr (Fallback name e), i, l, inc)"
    using p(3) q1(1) q2(2) by (intro exI [of _ ?q]) (auto simp: numeral_2_eq_2)
qed


section \<open>Parentheses and operators\<close>

lemma datum_paren:
  assumes st: "is_body st" and q: "awaits q st (CHR ''('' # s)" and core: "core q = (c, i, l, inc)"
  obtains p where "awaits p st s" "core p = (c, i, l, inc)"
    "parse_expression_datum (Suc n) (default_env fin) jf 0 0 (get_next_token (default_env fin) q)
      = require (parse_expression n (default_env fin) (get_next_token (default_env fin) p)) (\<lambda>p.
          if \<not> tok_is K_RightParen p then Inl Parser_Error else Inr (True, get_next_token (default_env fin) p))"
proof -
  note t = next_token [OF q reads_paren(1) [OF st], of fin]
  show thesis
    by (rule that [OF token_awaits [OF t(1)]])
      (use t core in \<open>simp_all add: datum_step_def tok_is_simps [OF t(1)] Let_def\<close>)
qed

text \<open>The end of the parentheses.\<close>

lemma paren_end:
  assumes "is_body st" "awaits q st (CHR '')'' # r)" "core q = (c, i, l, inc)"
    "parse_expression n (default_env fin) p = Inr (True, get_next_token (default_env fin) q)"
  shows "\<exists>q'. require (parse_expression n (default_env fin) p) (\<lambda>p.
          if \<not> tok_is K_RightParen p then Inl Parser_Error else Inr (True, get_next_token (default_env fin) p))
      = Inr (True, get_next_token (default_env fin) q') \<and> awaits q' st r \<and> core q' = (c, i, l, inc)"
proof -
  note t = next_token [OF assms(2) reads_paren(2) [OF assms(1)], of fin]
  show ?thesis
    by (rule exI [of _ "get_next_token (default_env fin) q"])
      (use assms(3,4) t token_awaits [OF t(1)] in \<open>simp add: tok_is_simps [OF t(1)]\<close>)
qed

lemma datum_not:
  assumes e: "datum_ok fin e" "expr_ok e"
  shows "datum_ok fin (Unary Op_Not e)"
proof (rule datum_okI)
  fix st q r c i l inc n jf
  let ?env = "default_env fin" and ?next = "get_next_token (default_env fin)"
  assume st: "is_body st" and q0: "awaits q st (print_expr (Unary Op_Not e) @ r)" and core: "core q = (c, i, l, inc)"
    and n: "need (Unary Op_Not e) \<le> Suc n"
  have "n = Suc (Suc (Suc (Suc (Suc (n - 5)))))" "need e \<le> n - 5" using n by simp_all
  then obtain m where m: "n = Suc (Suc (Suc (Suc (Suc m))))" "need e \<le> m" by blast
  obtain ch s where e': "print_expr e = ch # s" "\<not> is_blank_char ch" using expr_first [OF e(2)] by auto
  have q: "awaits q st (CHR ''('' # ''not '' @ print_expr e @ '')'' @ r)" using q0 by simp
  obtain p where p: "awaits p st (''not '' @ print_expr e @ '')'' @ r)" "core p = (c, i, l, inc)"
    "parse_expression_datum (Suc n) ?env jf 0 0 (?next q) = require (parse_expression n ?env (?next p)) (\<lambda>p.
          if \<not> tok_is K_RightParen p then Inl Parser_Error else Inr (True, ?next p))"
    by (rule datum_paren [OF st q core])
  have "reads st (''not'' @ CHR '' '' # ch # s @ CHR '')'' # r) K_Id ''not'' st (CHR '' '' # ch # s @ CHR '')'' # r)"
    by (rule reads_name [OF words_ok(4) st]) (simp add: is_id_char_def is_alpha_def is_digit_def)
  then have not: "reads st (''not '' @ print_expr e @ '')'' @ r) K_Id ''not'' st (CHR '' '' # ch # s @ CHR '')'' # r)"
    by (simp add: e')
  note t = next_token [OF p(1) not, of fin]
  obtain q1 where q1: "awaits q1 st (ch # s @ CHR '')'' # r)" "core q1 = core (?next p)" "?next (?next p) = ?next q1"
    by (rule skip_blank [OF token_awaits [OF t(1)] st e'(2)])
  have q1': "awaits q1 st (print_expr e @ CHR '')'' # r)" "core q1 = (c, i, l, inc)" using q1 e' t(2) p(2) by simp_all
  have ends_expr: "ends_expr st (CHR '')'' # r)" by (simp add: ends_expr_def)
  obtain q2 where q2: "parse_expression_datum m ?env 0 0 0 (?next q1) = Inr (True, ?next q2)"
    "awaits q2 st (CHR '')'' # r)" "core q2 = (c @ comp_expr e, i, l, inc)"
    by (rule datum_okD [OF e(1) st q1'(1) ends_follows [OF st ends_expr] q1'(2) m(2)])
  let ?q = "append_function Op_Not 1 q2"
  have rq: "awaits ?q st (CHR '')'' # r)" using q2(2) by simp
  have cq: "core ?q = (c @ comp_expr (Unary Op_Not e), i, l, inc)"
    using core_append_function [OF q2(3)] by simp
  have "parse_expression n ?env (?next p) = Inr (True, ?next ?q)"
    using q2(1) q1(3) no_operator [OF st ends_expr q2(2)] no_operator [OF st ends_expr rq]
      expr_token(1) [OF e(2) st follows_ended [OF ends_follows [OF st ends_expr]] q1'(1)]
    by (simp add: m(1) tok_is_simps [OF t(1)] append_after_next)
  from paren_end [OF st rq cq this] p(3)
  show "\<exists>q'. parse_expression_datum (Suc n) ?env jf 0 0 (?next q) = Inr (True, ?next q')
      \<and> awaits q' st r \<and> core q' = (c @ comp_expr (Unary Op_Not e), i, l, inc)"
    by simp
qed

text \<open>The token of an infix operator, and what the levels of the grammar do with it.\<close>

definition infix_kind :: "bytecode_op \<Rightarrow> token_kind \<times> string" where
  "infix_kind op =
     (case infix_word op of
        Some w \<Rightarrow> ((case comparison_kind w of Some k \<Rightarrow> k | None \<Rightarrow> K_Id), w)
      | None \<Rightarrow> (K_Unknown, []))"

lemma infix_ops: "infix_word op = Some w \<Longrightarrow>
  op \<in> {Op_In, Op_Equal, Op_Different, Op_Less, Op_Greater, Op_LessEqual, Op_GreaterEqual, Op_And, Op_Or}"
  by (auto simp: infix_word_def split: bytecode_op.splits)

lemma reads_infix:
  assumes "is_body st" "infix_word op = Some w"
  shows "reads st (w @ CHR '' '' # r) (fst (infix_kind op)) w st (CHR '' '' # r)"
proof (cases "comparison_kind w")
  case (Some k)
  with reads_comparison [OF assms(1), of w k r] assms(2) show ?thesis by (simp add: infix_kind_def)
next
  case None
  then have "w \<in> {''in'', ''and'', ''or''}"
    using assms(2) infix_ops [OF assms(2)] by (auto simp: infix_word_def comparison_kind_def)
  then have "name_ok w" using words_ok by auto
  then have "reads st (w @ CHR '' '' # r) K_Id w st (CHR '' '' # r)"
    by (rule reads_name [OF _ assms(1)]) (simp add: is_id_char_def is_alpha_def is_digit_def)
  with None assms(2) show ?thesis by (simp add: infix_kind_def)
qed

lemma infix_kinds:
  assumes "infix_word op = Some w"
  shows "(op, w, fst (infix_kind op)) \<in> {(Op_In, ''in'', K_Id), (Op_Equal, ''=='', K_Equal), (Op_Different, ''!='', K_NotEqual),
    (Op_Less, ''<'', K_LessThan), (Op_Greater, ''>'', K_GreaterThan), (Op_LessEqual, ''<='', K_LessEqual),
    (Op_GreaterEqual, ''>='', K_GreaterEqual), (Op_And, ''and'', K_Id), (Op_Or, ''or'', K_Id)}"
proof -
  have w: "w = the (infix_word op)" using assms by simp
  show ?thesis
    using infix_ops [OF assms] unfolding w
    by (elim insertE emptyE) (simp_all add: infix_kind_def infix_word_def comparison_kind_def)
qed

lemma infix_token:
  assumes "token_is (fst (infix_kind op)) w st r p" "infix_word op = Some w"
  shows "comparison_op p = (if op = Op_And \<or> op = Op_Or then None else Some op)"
    "tok_word ''and'' p \<longleftrightarrow> op = Op_And" "tok_word ''or'' p \<longleftrightarrow> op = Op_Or"
proof -
  obtain k where k: "fst (infix_kind op) = k" by blast
  note t = tok_is_simps [OF assms(1) [unfolded k]] and cases = infix_kinds [OF assms(2), unfolded k]
  from cases show "comparison_op p = (if op = Op_And \<or> op = Op_Or then None else Some op)"
    unfolding comparison_op_def t by (elim insertE emptyE) simp_all
  from cases show "tok_word ''and'' p \<longleftrightarrow> op = Op_And" "tok_word ''or'' p \<longleftrightarrow> op = Op_Or"
    unfolding t by (elim insertE emptyE; simp)+
qed

lemma datum_infix:
  assumes a: "datum_ok fin a" "expr_ok a" and b: "datum_ok fin b" "expr_ok b" and op: "infix_word op = Some w"
  shows "datum_ok fin (Binary op a b)"
proof (rule datum_okI)
  fix st q r c i l inc n jf
  let ?env = "default_env fin" and ?next = "get_next_token (default_env fin)"
  assume st: "is_body st" and q0: "awaits q st (print_expr (Binary op a b) @ r)" and core: "core q = (c, i, l, inc)"
    and n: "need (Binary op a b) \<le> Suc n"
  have "n = Suc (Suc (Suc (Suc (n - 4))))" "need a \<le> n - 4" "need b \<le> n - 4" using n by simp_all
  then obtain m where m: "n = Suc (Suc (Suc (Suc m)))" "need a \<le> m" "need b \<le> m" by blast
  obtain ch s where b': "print_expr b = ch # s" "\<not> is_blank_char ch" using expr_first [OF b(2)] by auto
  let ?r = "CHR '')'' # r" and ?b = "CHR '' '' # ch # s @ CHR '')'' # r"
  have q: "awaits q st (CHR ''('' # print_expr a @ CHR '' '' # w @ ?b)" using q0 op b' by simp
  obtain p where p: "awaits p st (print_expr a @ CHR '' '' # w @ ?b)" "core p = (c, i, l, inc)"
    "parse_expression_datum (Suc n) ?env jf 0 0 (?next q) = require (parse_expression n ?env (?next p)) (\<lambda>p.
          if \<not> tok_is K_RightParen p then Inl Parser_Error else Inr (True, ?next p))"
    by (rule datum_paren [OF st q core])
  have "\<exists>x y. w = x # y \<and> \<not> is_blank_char x"
    using infix_ops [OF op] op by (auto simp: infix_word_def is_blank_char_def)
  then have opr: "reads st (CHR '' '' # w @ ?b) (fst (infix_kind op)) w st ?b"
    using reads_infix [OF st op, of "ch # s @ CHR '')'' # r"] reads_blank [OF _ st] by auto
  have "fst (infix_kind op) \<noteq> K_LeftParen"
    using infix_ops [OF op] by (auto simp: infix_kind_def infix_word_def comparison_kind_def)
  with opr have fol: "follows st (CHR '' '' # w @ ?b)"
    unfolding follows_def by (auto simp: is_id_char_def is_number_char_def is_alpha_def is_digit_def)
  obtain q1 where q1: "parse_expression_datum m ?env 0 0 0 (?next p) = Inr (True, ?next q1)"
    "awaits q1 st (CHR '' '' # w @ ?b)" "core q1 = (c @ comp_expr a, i, l, inc)"
    by (rule datum_okD [OF a(1) st p(1) fol p(2) m(2)])
  note t = next_token [OF q1(2) opr, of fin]
  obtain q2 where q2: "awaits q2 st (ch # s @ CHR '')'' # r)" "core q2 = core (?next q1)" "?next (?next q1) = ?next q2"
    by (rule skip_blank [OF token_awaits [OF t(1)] st b'(2)])
  have q2': "awaits q2 st (print_expr b @ ?r)" "core q2 = (c @ comp_expr a, i, l, inc)" using q2 b' t(2) q1(3) by simp_all
  have ends_expr: "ends_expr st ?r" by (simp add: ends_expr_def)
  obtain q3 where q3: "parse_expression_datum m ?env 0 0 0 (?next q2) = Inr (True, ?next q3)"
    "awaits q3 st ?r" "core q3 = ((c @ comp_expr a) @ comp_expr b, i, l, inc)"
    by (rule datum_okD [OF b(1) st q2'(1) ends_follows [OF st ends_expr] q2'(2) m(3)])
  let ?q = "append_function op 2 q3"
  have rq: "awaits ?q st ?r" using q3(2) by simp
  have cq: "core ?q = (c @ comp_expr (Binary op a b), i, l, inc)"
    using core_append_function [of q3 c "comp_expr a @ comp_expr b"] q3(3) by simp
  have "parse_expression n ?env (?next p) = Inr (True, ?next ?q)"
    using q1(1) q2(3) q3(1) no_operator [OF st ends_expr q3(2)] no_operator [OF st ends_expr rq] infix_token [OF t(1) op]
      expr_token(1) [OF a(2) st follows_ended [OF fol] p(1)]
      expr_token(1) [OF b(2) st follows_ended [OF ends_follows [OF st ends_expr]] q2'(1)]
    by (cases "op = Op_And"; cases "op = Op_Or") (simp_all add: m(1) append_after_next)
  from paren_end [OF st rq cq this] p(3)
  show "\<exists>q'. parse_expression_datum (Suc n) ?env jf 0 0 (?next q) = Inr (True, ?next q')
      \<and> awaits q' st r \<and> core q' = (c @ comp_expr (Binary op a b), i, l, inc)"
    by simp
qed

text \<open>Every printed expression is read back as its code.\<close>

theorem datum_reads: "expr_ok e \<Longrightarrow> datum_ok fin e"
proof (induction e)
  case (Unary op e)
  then show ?case by (cases "op = Op_Not") (auto intro: datum_not datum_unary)
next
  case (Binary op a b)
  then show ?case by (cases "infix_word op") (auto intro: datum_binary datum_infix)
qed (auto intro: datum_lookup datum_literal datum_fallback)

end
