(* ===== verification/Inja_Parse_Nodes.thy ===== *)
theory Inja_Parse_Nodes
  imports Inja_Parse_Print
begin

text \<open>
  The parser on printed statements: one round of its loop for each delimiter, the patching of jumps
  at the end of a block, and the theorem \<open>parse_printed\<close> that a printed template is read as its code
  with the fuel the model gives the parser.
\<close>

section \<open>Between two pieces\<close>

definition between :: "parser \<Rightarrow> string \<Rightarrow> bool" where
  "between q r \<longleftrightarrow> (\<exists>st. awaits q st r \<and> resumes st r)"

text \<open>Where text may end: at the end of the template or before a delimiter.\<close>

definition stops :: "string \<Rightarrow> bool" where
  "stops r \<longleftrightarrow> r = [] \<or> (\<exists>body r'. is_body body \<and> r = open_of body @ r')"

lemma between_text: "awaits q L_Text r \<Longrightarrow> between q r"
  by (auto simp: between_def resumes_def)

lemma next_open:
  assumes "between q (open_of body @ r)" "is_body body"
  shows "token_is (open_kind body) (open_of body) body r (get_next_token (default_env fin) q)"
    "core (get_next_token (default_env fin) q) = core q"
proof -
  from assms(1) obtain st where st: "awaits q st (open_of body @ r)" "resumes st (open_of body @ r)"
    unfolding between_def by blast
  from next_token [OF st(1) reads_opening [OF assms(2) st(2)]]
  show "token_is (open_kind body) (open_of body) body r (get_next_token (default_env fin) q)"
    "core (get_next_token (default_env fin) q) = core q" by blast+
qed

lemma token_is_simps [simp]:
  "token_is k s st r (emit bc p) = token_is k s st r p"
  "token_is k s st r (append_function op n p) = token_is k s st r p"
  "token_is k s st r (p\<lparr>m_if_stack := x\<rparr>) = token_is k s st r p"
  "token_is k s st r (p\<lparr>m_loop_stack := y\<rparr>) = token_is k s st r p"
  "token_is k s st r (p\<lparr>p_code := c\<rparr>) = token_is k s st r p"
  by (simp_all add: token_is_def emit_def append_function_def awaits_def)

text \<open>The closing delimiter after a blank.\<close>

lemma next_close:
  assumes "awaits q st (CHR '' '' # close_of st @ r)" "is_body st"
  shows "token_is (close_kind st) (close_of st) L_Text r (get_next_token (default_env fin) q)"
    "core (get_next_token (default_env fin) q) = core q"
proof -
  have "close_of st = hd (close_of st) # tl (close_of st)" "\<not> is_blank_char (hd (close_of st))"
    by (simp_all add: close_of_def is_blank_char_def)
  then have "reads st (CHR '' '' # close_of st @ r) (close_kind st) (close_of st) L_Text r"
    using reads_close [OF assms(2), of r] reads_blank [OF _ assms(2)] by (metis append_Cons)
  from next_token [OF assms(1) this]
  show "token_is (close_kind st) (close_of st) L_Text r (get_next_token (default_env fin) q)"
    "core (get_next_token (default_env fin) q) = core q" by blast+
qed

section \<open>Printing values\<close>

lemma round_text:
  assumes "between q (s @ r)" "text_ok s" "stops r" "core q = (c, i, l, incl)"
  obtains q' where "parse_round n inc path (default_env fin) q = Inr (False, q')" "between q' r"
    "core q' = (c @ [bc_string Op_PrintText s ValuePop], i, l, incl)"
proof -
  have s: "s \<noteq> []" "list_all text_char s" using assms(2) by (auto simp: text_ok_def text_char_def list_all_iff)
  obtain st where st: "awaits q st (s @ r)" "resumes st (s @ r)" using assms(1) unfolding between_def by blast
  have "st = L_Text"
  proof (rule ccontr)
    assume "st \<noteq> L_Text"
    with st(2) obtain body r' where "s @ r = open_of body @ r'" by (auto simp: resumes_def)
    then have "hd s = CHR ''{''" using s(1) by (cases s) (auto simp: open_of_def split: if_splits)
    with s show False by (cases s) (auto simp: text_char_def)
  qed
  moreover obtain st' where "reads L_Text (s @ r) K_Text s st' r" "resumes st' r"
  proof (cases "r = []")
    case True
    with reads_last_text [OF s(2,1)] that [of L_Text] show ?thesis by (simp add: resumes_def)
  next
    case False
    with assms(3) obtain body r' where "is_body body" "r = open_of body @ r'" by (auto simp: stops_def)
    with reads_text [OF _ s(2,1), of body r'] that [of "start_of body"] show ?thesis by (auto simp: resumes_def)
  qed
  ultimately have t: "token_is K_Text s st' r (get_next_token (default_env fin) q)"
    "core (get_next_token (default_env fin) q) = core q" and res: "resumes st' r"
    using next_token st(1) by blast+
  show thesis
    by (rule that [of "emit (bc_string Op_PrintText s ValuePop) (get_next_token (default_env fin) q)"])
      (use t res token_awaits [OF t(1)] assms(4) in
        \<open>auto simp: parse_round_def Let_def tok_is_simps [OF t(1)] between_def\<close>)
qed

lemma round_print:
  assumes "between q (''{{ '' @ print_expr e @ '' }}'' @ r)" "expr_ok e" "core q = (c, i, l, incl)" "need e + 4 \<le> n"
  obtains q' where "parse_round n inc path (default_env fin) q = Inr (False, q')" "between q' r"
    "core q' = (c @ merge Op_PrintValue 1 (comp_expr e), i, l, incl)"
proof -
  let ?next = "get_next_token (default_env fin)" and ?st = L_ExpressionBody
  have st: "is_body ?st" "open_of ?st = ''{{''" "close_of ?st = ''}}''" "close_kind ?st = K_ExpressionClose"
    "open_kind ?st = K_ExpressionOpen"
    by (simp_all add: is_body_def open_of_def close_of_def close_kind_def open_kind_def)
  obtain ch s where e: "print_expr e = ch # s" "\<not> is_blank_char ch" using expr_first [OF assms(2)] by auto
  have q: "between q (open_of ?st @ CHR '' '' # ch # s @ CHR '' '' # close_of ?st @ r)" using assms(1) st e by simp
  note t = next_open [OF q st(1), of fin]
  obtain q1 where q1: "awaits q1 ?st (ch # s @ CHR '' '' # close_of ?st @ r)" "core q1 = core (?next q)" "?next (?next q) = ?next q1"
    by (rule skip_blank [OF token_awaits [OF t(1)] st(1) e(2)])
  have q1': "awaits q1 ?st (print_expr e @ CHR '' '' # close_of ?st @ r)" "core q1 = (c, i, l, incl)"
    using q1 e t(2) assms(3) by simp_all
  have ends: "ends_expr ?st (CHR '' '' # close_of ?st @ r)" by (simp add: ends_expr_def)
  obtain q2 where q2: "parse_expression n (default_env fin) (?next q1) = Inr (True, ?next q2)"
    "awaits q2 ?st (CHR '' '' # close_of ?st @ r)" "core q2 = (c @ comp_expr e, i, l, incl)"
    by (rule expression_reads [OF datum_reads [OF assms(2)] assms(2) st(1) q1'(1) ends q1'(2) assms(4)])
  note u = next_close [OF q2(2) st(1), of fin]
  show thesis
    by (rule that [of "append_function Op_PrintValue 1 (?next q2)"])
      (use q1(3) q2(1,3) st(4,5) u(2) token_awaits [OF u(1)] tok_is_simps(1) [of _ _ _ _ "append_function Op_PrintValue 1 (?next q2)"]
          u(1) core_append_function [of "?next q2" c "comp_expr e"] in
        \<open>auto simp: parse_round_def Let_def tok_is_simps [OF t(1)] intro: between_text\<close>)
qed


section \<open>Statements\<close>

text \<open>A statement starts with its word; what the word does is left open.\<close>

lemma round_statement:
  assumes "between q (statement s @ r)" "s = word @ s'" "name_ok word" "s' = [] \<or> hd s' = CHR '' ''" "core q = (c, i, l, incl)"
  obtains p where "token_is K_Id word L_StatementBody (s' @ '' %}'' @ r) p" "core p = (c, i, l, incl)"
    "parse_round n inc path (default_env fin) q =
       and_then (parse_statement n inc path (default_env fin) p) (\<lambda>(ok, p).
         if \<not> ok then Inl Parser_Error
         else if \<not> tok_is K_StatementClose p then Inl Parser_Error
         else Inr (False, p))"
proof -
  let ?next = "get_next_token (default_env fin)" and ?st = L_StatementBody
  have st: "is_body ?st" "open_of ?st = ''{%''" "open_kind ?st = K_StatementOpen"
    by (simp_all add: is_body_def open_of_def open_kind_def)
  obtain ch w where w: "word = ch # w" "\<not> is_blank_char ch" using name_first [OF assms(3)] by auto
  have q: "between q (open_of ?st @ CHR '' '' # ch # w @ s' @ '' %}'' @ r)"
    using assms(1,2) st w by (simp add: statement_def)
  note t = next_open [OF q st(1), of fin]
  obtain q1 where q1: "awaits q1 ?st (ch # w @ s' @ '' %}'' @ r)" "core q1 = core (?next q)" "?next (?next q) = ?next q1"
    by (rule skip_blank [OF token_awaits [OF t(1)] st(1) w(2)])
  have "reads ?st (word @ s' @ '' %}'' @ r) K_Id word ?st (s' @ '' %}'' @ r)"
    using assms(4) by (intro reads_name [OF assms(3) st(1)])
      (cases s'; auto simp: is_id_char_def is_alpha_def is_digit_def)
  then have "reads ?st (ch # w @ s' @ '' %}'' @ r) K_Id word ?st (s' @ '' %}'' @ r)" by (simp add: w)
  note u = next_token [OF q1(1) this, of fin]
  show thesis
    by (rule that [OF u(1)])
      (use q1(2,3) t(2) u(2) assms(5) st(3) in \<open>simp_all add: parse_round_def Let_def tok_is_simps [OF t(1)]\<close>)
qed

lemma statement_close:
  assumes "awaits q L_StatementBody ('' %}'' @ r)"
  shows "token_is K_StatementClose ''%}'' L_Text r (get_next_token (default_env fin) q)"
    "core (get_next_token (default_env fin) q) = core q"
proof -
  have "is_body L_StatementBody" by (simp add: is_body_def)
  from next_close [OF _ this, of q r fin] assms
  show "token_is K_StatementClose ''%}'' L_Text r (get_next_token (default_env fin) q)"
    "core (get_next_token (default_env fin) q) = core q"
    by (simp_all add: close_of_def close_kind_def)
qed

text \<open>An expression in a statement, after a blank.\<close>

lemma statement_expression:
  assumes "awaits q L_StatementBody (CHR '' '' # print_expr e @ '' %}'' @ r)" "expr_ok e" "core q = (c, i, l, incl)" "need e + 4 \<le> n"
  obtains p where "parse_expression n (default_env fin) (get_next_token (default_env fin) q) = Inr (True, p)"
    "token_is K_StatementClose ''%}'' L_Text r p" "core p = (c @ comp_expr e, i, l, incl)"
proof -
  let ?next = "get_next_token (default_env fin)" and ?st = L_StatementBody
  have st: "is_body ?st" by (simp add: is_body_def)
  obtain ch s where e: "print_expr e = ch # s" "\<not> is_blank_char ch" using expr_first [OF assms(2)] by auto
  have q: "awaits q ?st (CHR '' '' # ch # s @ '' %}'' @ r)" using assms(1) e by simp
  obtain q1 where q1: "awaits q1 ?st (ch # s @ '' %}'' @ r)" "core q1 = core q" "?next q = ?next q1"
    by (rule skip_blank [OF q st e(2)])
  have q1': "awaits q1 ?st (print_expr e @ '' %}'' @ r)" "core q1 = (c, i, l, incl)"
    using q1 e assms(3) by simp_all
  have ends: "ends_expr ?st ('' %}'' @ r)" by (simp add: ends_expr_def close_of_def)
  obtain q2 where q2: "parse_expression n (default_env fin) (?next q1) = Inr (True, ?next q2)"
    "awaits q2 ?st ('' %}'' @ r)" "core q2 = (c @ comp_expr e, i, l, incl)"
    by (rule expression_reads [OF datum_reads [OF assms(2)] assms(2) st q1'(1) ends q1'(2) assms(4)])
  note u = statement_close [OF q2(2), of fin]
  show thesis
    by (rule that [of "?next q2"]) (use q1(3) q2 u in simp_all)
qed

subsection \<open>Conditions\<close>

lemma round_if:
  assumes "between q (statement (''if '' @ print_expr e) @ r)" "expr_ok e" "core q = (c, i, l, incl)" "need e + 4 \<le> n"
  obtains q' where "parse_round n inc path (default_env fin) q = Inr (False, q')" "between q' r"
    "core q' = (c @ comp_expr e @ [bc_plain Op_ConditionalJump 0],
      \<lparr>prev_cond_jump = length c + length (comp_expr e), uncond_jumps = []\<rparr> # i, l, incl)"
proof -
  obtain p where p: "token_is K_Id ''if'' L_StatementBody ((CHR '' '' # print_expr e) @ '' %}'' @ r) p" "core p = (c, i, l, incl)"
    "parse_round n inc path (default_env fin) q =
       and_then (parse_statement n inc path (default_env fin) p) (\<lambda>(ok, p).
         if \<not> ok then Inl Parser_Error else if \<not> tok_is K_StatementClose p then Inl Parser_Error else Inr (False, p))"
    by (rule round_statement [OF assms(1) _ words_ok(8) _ assms(3), of "CHR '' '' # print_expr e"]) simp_all
  have a: "awaits p L_StatementBody (CHR '' '' # print_expr e @ '' %}'' @ r)" using token_awaits [OF p(1)] by simp
  obtain p' where p': "parse_expression n (default_env fin) (get_next_token (default_env fin) p) = Inr (True, p')"
    "token_is K_StatementClose ''%}'' L_Text r p'" "core p' = (c @ comp_expr e, i, l, incl)"
    by (rule statement_expression [OF a assms(2) p(2) assms(4)])
  let ?q = "emit (bc_plain Op_ConditionalJump 0)
    (p'\<lparr>m_if_stack := \<lparr>prev_cond_jump = length (p_code p'), uncond_jumps = []\<rparr> # m_if_stack p'\<rparr>)"
  have q: "token_is K_StatementClose ''%}'' L_Text r ?q" using p'(2) by simp
  have "p_code p' = c @ comp_expr e" "m_if_stack p' = i" using p'(3) by (simp_all add: core_def)
  then have "core ?q = (c @ comp_expr e @ [bc_plain Op_ConditionalJump 0],
      \<lparr>prev_cond_jump = length c + length (comp_expr e), uncond_jumps = []\<rparr> # i, l, incl)"
    using p'(3) by (simp add: core_def emit_def)
  moreover have "parse_round n inc path (default_env fin) q = Inr (False, ?q)"
    using p(3) p'(1) q by (simp add: parse_statement_def parse_if_def tok_is_simps [OF p(1)] tok_is_simps [OF q])
  ultimately show thesis using that between_text token_awaits [OF q] by blast
qed

definition patch :: "nat \<Rightarrow> nat \<Rightarrow> bytecode list \<Rightarrow> bytecode list" where
  "patch k n c = c[k := (c ! k)\<lparr>bc_args := word_of_nat n\<rparr>]"

lemma patch_here: "patch (length c) n (c @ b # d) = c @ b\<lparr>bc_args := word_of_nat n\<rparr> # d"
  by (simp add: patch_def)

lemma bc_plain_args [simp]: "(bc_plain op m)\<lparr>bc_args := word_of_nat n\<rparr> = bc_plain op n"
  by (simp add: bc_plain_def)

lemma set_target_core:
  assumes "core p = (c, i, l, incl)" "k < length c" "token_is kd s st r p"
  obtains p' where "set_target k n p = Inr p'" "core p' = (patch k n c, i, l, incl)" "token_is kd s st r p'"
  by (rule that [of "p\<lparr>p_code := patch k n c\<rparr>"])
    (use assms in \<open>simp_all add: set_target_def core_def patch_def\<close>)

lemma round_endif:
  assumes "between q (statement ''endif'' @ r)" "core q = (c, d # i, l, incl)" "k < length c"
    "d = \<lparr>prev_cond_jump = k, uncond_jumps = []\<rparr> \<and> k < no_jump \<or> d = \<lparr>prev_cond_jump = no_jump, uncond_jumps = [k]\<rparr>"
  obtains q' where "parse_round n inc path (default_env fin) q = Inr (False, q')" "between q' r"
    "core q' = (patch k (length c) c, i, l, incl)"
proof -
  obtain p where p: "token_is K_Id ''endif'' L_StatementBody ([] @ '' %}'' @ r) p" "core p = (c, d # i, l, incl)"
    "parse_round n inc path (default_env fin) q =
       and_then (parse_statement n inc path (default_env fin) p) (\<lambda>(ok, p).
         if \<not> ok then Inl Parser_Error else if \<not> tok_is K_StatementClose p then Inl Parser_Error else Inr (False, p))"
    by (rule round_statement [OF assms(1) _ words_ok(11) _ assms(2), of "[]"]) simp_all
  let ?p = "get_next_token (default_env fin) p"
  have t: "token_is K_StatementClose ''%}'' L_Text r ?p" "core ?p = (c, d # i, l, incl)"
    using statement_close [of p r fin] token_awaits [OF p(1)] p(2) by simp_all
  obtain p' where p': "set_target k (length c) ?p = Inr p'" "core p' = (patch k (length c) c, d # i, l, incl)"
    "token_is K_StatementClose ''%}'' L_Text r p'"
    by (rule set_target_core [OF t(2) assms(3) t(1)])
  let ?q = "p'\<lparr>m_if_stack := i\<rparr>"
  have q: "token_is K_StatementClose ''%}'' L_Text r ?q" using p'(3) by simp
  have f: "m_if_stack p = d # i" "p_code ?p = c" using p(2) t(2) by (simp_all add: core_def)
  have "parse_endif (default_env fin) p = Inr (True, ?q)"
    using assms(4) p'(1) by (auto simp: parse_endif_def f Let_def)
  then have "parse_round n inc path (default_env fin) q = Inr (False, ?q)"
    using p(3) by (simp add: parse_statement_def tok_is_simps [OF p(1)] tok_is_simps [OF q])
  moreover have "core ?q = (patch k (length c) c, i, l, incl)" using p'(2) by simp
  ultimately show thesis using that between_text token_awaits [OF q] by blast
qed

lemma round_else:
  assumes "between q (statement ''else'' @ r)" "core q = (c, \<lparr>prev_cond_jump = k, uncond_jumps = []\<rparr> # i, l, incl)" "k < length c"
  obtains q' where "parse_round n inc path (default_env fin) q = Inr (False, q')" "between q' r"
    "core q' = (patch k (length c + 1) c @ [bc_plain Op_Jump 0],
      \<lparr>prev_cond_jump = no_jump, uncond_jumps = [length c]\<rparr> # i, l, incl)"
proof -
  let ?d = "\<lparr>prev_cond_jump = k, uncond_jumps = []\<rparr>"
  obtain p where p: "token_is K_Id ''else'' L_StatementBody ([] @ '' %}'' @ r) p" "core p = (c, ?d # i, l, incl)"
    "parse_round n inc path (default_env fin) q =
       and_then (parse_statement n inc path (default_env fin) p) (\<lambda>(ok, p).
         if \<not> ok then Inl Parser_Error else if \<not> tok_is K_StatementClose p then Inl Parser_Error else Inr (False, p))"
    by (rule round_statement [OF assms(1) _ words_ok(10) _ assms(2), of "[]"]) simp_all
  let ?p = "get_next_token (default_env fin) p" and ?j = "bc_plain Op_Jump 0"
  have t: "token_is K_StatementClose ''%}'' L_Text r ?p" "core ?p = (c, ?d # i, l, incl)"
    using statement_close [of p r fin] token_awaits [OF p(1)] p(2) by simp_all
  have e: "core (emit ?j ?p) = (c @ [?j], ?d # i, l, incl)" "token_is K_StatementClose ''%}'' L_Text r (emit ?j ?p)"
    using t by simp_all
  have "k < length (c @ [?j])" using assms(3) by simp
  then obtain p' where p': "set_target k (length c + 1) (emit ?j ?p) = Inr p'"
    "core p' = (patch k (length c + 1) (c @ [?j]), ?d # i, l, incl)" "token_is K_StatementClose ''%}'' L_Text r p'"
    by (rule set_target_core [OF e(1) _ e(2)])
  let ?q = "p'\<lparr>m_if_stack := \<lparr>prev_cond_jump = no_jump, uncond_jumps = [length c]\<rparr> # i\<rparr>"
  have q: "token_is K_StatementClose ''%}'' L_Text r ?q" using p'(3) by simp
  have f: "m_if_stack p = ?d # i" "p_code ?p = c" "p_code (emit ?j ?p) = c @ [?j]" using p(2) t(2) by (simp_all add: core_def emit_def)
  have "parse_else n (default_env fin) p = Inr (True, ?q)"
    using p'(1) by (simp add: parse_else_def f Let_def tok_is_simps [OF q])
  then have "parse_round n inc path (default_env fin) q = Inr (False, ?q)"
    using p(3) by (simp add: parse_statement_def tok_is_simps [OF p(1)] tok_is_simps [OF q])
  moreover have "core ?q = (patch k (length c + 1) c @ [?j], \<lparr>prev_cond_jump = no_jump, uncond_jumps = [length c]\<rparr> # i, l, incl)"
    using p'(2) assms(3) by (simp add: patch_def list_update_append nth_append)
  ultimately show thesis using that between_text token_awaits [OF q] by blast
qed


subsection \<open>Loops\<close>

text \<open>A name in a statement, after a blank and before a blank or a comma.\<close>

lemma statement_name:
  assumes "awaits q L_StatementBody (CHR '' '' # name @ r)" "name_ok name" "r \<noteq> [] \<and> (hd r = CHR '' '' \<or> hd r = CHR '','')"
  shows "token_is K_Id name L_StatementBody r (get_next_token (default_env fin) q)"
    "core (get_next_token (default_env fin) q) = core q"
proof -
  have st: "is_body L_StatementBody" by (simp add: is_body_def)
  obtain ch s where e: "name = ch # s" "\<not> is_blank_char ch" using name_first [OF assms(2)] by auto
  have q: "awaits q L_StatementBody (CHR '' '' # ch # s @ r)" using assms(1) e by simp
  obtain q1 where q1: "awaits q1 L_StatementBody (ch # s @ r)" "core q1 = core q"
    "get_next_token (default_env fin) q = get_next_token (default_env fin) q1"
    by (rule skip_blank [OF q st e(2)])
  have "reads L_StatementBody (name @ r) K_Id name L_StatementBody r"
    using assms(3) by (intro reads_name [OF assms(2) st]) (auto simp: is_id_char_def is_alpha_def is_digit_def)
  then have "reads L_StatementBody (ch # s @ r) K_Id name L_StatementBody r" by (simp add: e)
  from next_token [OF q1(1) this, of fin] q1(2,3)
  show "token_is K_Id name L_StatementBody r (get_next_token (default_env fin) q)"
    "core (get_next_token (default_env fin) q) = core q" by simp_all
qed

definition loop_names :: "string \<Rightarrow> string \<Rightarrow> string" where
  "loop_names key var = (if key = [] then [] else key @ '', '') @ var"

lemma loop_names_read:
  assumes "awaits q L_StatementBody (CHR '' '' # loop_names key var @ '' in'' @ r)" "key = [] \<or> name_ok key" "name_ok var"
    "core q = (c, i, l, incl)" "r \<noteq> []" "hd r = CHR '' ''"
  obtains p where "parse_loop_names (default_env fin) (get_next_token (default_env fin) q) = Inr (key, var, p)"
    "token_is K_Id ''in'' L_StatementBody r p" "core p = (c, i, l, incl)"
proof -
  let ?next = "get_next_token (default_env fin)" and ?st = L_StatementBody
  have "reads ?st (CHR '','' # x) K_Comma '','' ?st x" for x by (rule reads_paren(3)) (simp add: is_body_def)
  note comma = this
  have "\<exists>p. parse_loop_names (default_env fin) (?next q) = Inr (key, var, p)
    \<and> token_is K_Id ''in'' ?st r p \<and> core p = (c, i, l, incl)"
  proof (cases "key = []")
    case True
    have v: "awaits q ?st (CHR '' '' # var @ '' in'' @ r)" using assms(1) True by (simp add: loop_names_def)
    note t = statement_name [OF v assms(3), of fin]
    have a: "awaits (?next q) ?st (CHR '' '' # ''in'' @ r)" using token_awaits [OF t(1)] by simp
    note u = statement_name [OF a words_ok(7), of fin]
    show ?thesis
      by (rule exI [of _ "?next (?next q)"])
        (use t u True assms(4-6) in \<open>simp add: parse_loop_names_def Let_def tok_is_simps [OF t(1)] tok_is_simps [OF u(1)]\<close>)
  next
    case False
    then have key: "name_ok key" using assms(2) by simp
    have k: "awaits q ?st (CHR '' '' # key @ '', '' @ var @ '' in'' @ r)" using assms(1) False by (simp add: loop_names_def)
    note t = statement_name [OF k key, of fin]
    have t': "token_is K_Id key ?st (CHR '','' # CHR '' '' # var @ '' in'' @ r) (?next q)" using t(1) by simp
    note w = next_token [OF token_awaits [OF t'] comma, of fin]
    have b: "awaits (?next (?next q)) ?st (CHR '' '' # var @ '' in'' @ r)" using token_awaits [OF w(1)] by simp
    note u = statement_name [OF b assms(3), of fin]
    have a: "awaits (?next (?next (?next q))) ?st (CHR '' '' # ''in'' @ r)" using token_awaits [OF u(1)] by simp
    note x = statement_name [OF a words_ok(7), of fin]
    show ?thesis
      by (rule exI [of _ "?next (?next (?next (?next q)))"])
        (use t w u x assms(4-6) in \<open>simp add: parse_loop_names_def Let_def tok_is_simps [OF t'] tok_is_simps [OF w(1)]
          tok_is_simps [OF u(1)] tok_is_simps [OF x(1)]\<close>)
  qed
  then show thesis using that by blast
qed

lemma round_for:
  assumes "between q (statement (''for '' @ loop_names key var @ '' in '' @ print_expr e) @ r)" "key = [] \<or> name_ok key" "name_ok var"
    "expr_ok e" "core q = (c, i, l, incl)" "need e + 4 \<le> n"
  obtains q' where "parse_round n inc path (default_env fin) q = Inr (False, q')" "between q' r"
    "core q' = (c @ comp_expr e @ [loop_start key var 0], i, (length c + length (comp_expr e)) # l, incl)"
proof -
  let ?s = "CHR '' '' # loop_names key var @ '' in '' @ print_expr e"
  obtain p where p: "token_is K_Id ''for'' L_StatementBody (?s @ '' %}'' @ r) p" "core p = (c, i, l, incl)"
    "parse_round n inc path (default_env fin) q =
       and_then (parse_statement n inc path (default_env fin) p) (\<lambda>(ok, p).
         if \<not> ok then Inl Parser_Error else if \<not> tok_is K_StatementClose p then Inl Parser_Error else Inr (False, p))"
    by (rule round_statement [OF assms(1) _ words_ok(9) _ assms(5), of ?s]) simp_all
  have a: "awaits p L_StatementBody (CHR '' '' # loop_names key var @ '' in'' @ (CHR '' '' # print_expr e @ '' %}'' @ r))"
    using token_awaits [OF p(1)] by simp
  obtain p1 where p1: "parse_loop_names (default_env fin) (get_next_token (default_env fin) p) = Inr (key, var, p1)"
    "token_is K_Id ''in'' L_StatementBody (CHR '' '' # print_expr e @ '' %}'' @ r) p1" "core p1 = (c, i, l, incl)"
    by (rule loop_names_read [OF a assms(2,3) p(2)]) simp_all
  obtain p' where p': "parse_expression n (default_env fin) (get_next_token (default_env fin) p1) = Inr (True, p')"
    "token_is K_StatementClose ''%}'' L_Text r p'" "core p' = (c @ comp_expr e, i, l, incl)"
    by (rule statement_expression [OF token_awaits [OF p1(2)] assms(4) p1(3) assms(6)])
  let ?q = "emit (start_loop key var) (p'\<lparr>m_loop_stack := length (p_code p') # m_loop_stack p'\<rparr>)"
  have q: "token_is K_StatementClose ''%}'' L_Text r ?q" using p'(2) by simp
  have "p_code p' = c @ comp_expr e" "m_loop_stack p' = l" using p'(3) by (simp_all add: core_def)
  then have "core ?q = (c @ comp_expr e @ [loop_start key var 0], i, (length c + length (comp_expr e)) # l, incl)"
    using p'(3) by (simp add: core_def emit_def start_loop_def loop_start_def)
  moreover have "parse_round n inc path (default_env fin) q = Inr (False, ?q)"
    using p(3) p1(1) p'(1) q
    by (simp add: parse_statement_def parse_for_def tok_is_simps [OF p(1)] tok_is_simps [OF p1(2)] tok_is_simps [OF q])
  ultimately show thesis using that between_text token_awaits [OF q] by blast
qed

lemma round_endfor:
  assumes "between q (statement ''endfor'' @ r)" "core q = (c, i, k # l, incl)" "k < length c"
  obtains q' where "parse_round n inc path (default_env fin) q = Inr (False, q')" "between q' r"
    "core q' = (patch k (length c) c @ [bc_plain Op_EndLoop (Suc k)], i, l, incl)"
proof -
  obtain p where p: "token_is K_Id ''endfor'' L_StatementBody ([] @ '' %}'' @ r) p" "core p = (c, i, k # l, incl)"
    "parse_round n inc path (default_env fin) q =
       and_then (parse_statement n inc path (default_env fin) p) (\<lambda>(ok, p).
         if \<not> ok then Inl Parser_Error else if \<not> tok_is K_StatementClose p then Inl Parser_Error else Inr (False, p))"
    by (rule round_statement [OF assms(1) _ words_ok(12) _ assms(2), of "[]"]) simp_all
  let ?p = "get_next_token (default_env fin) p"
  have t: "token_is K_StatementClose ''%}'' L_Text r ?p" "core ?p = (c, i, k # l, incl)"
    using statement_close [of p r fin] token_awaits [OF p(1)] p(2) by simp_all
  obtain p' where p': "set_target k (length c) ?p = Inr p'" "core p' = (patch k (length c) c, i, k # l, incl)"
    "token_is K_StatementClose ''%}'' L_Text r p'"
    by (rule set_target_core [OF t(2) assms(3) t(1)])
  let ?q = "emit (bc_plain Op_EndLoop (Suc k)) (p'\<lparr>m_loop_stack := l\<rparr>)"
  have q: "token_is K_StatementClose ''%}'' L_Text r ?q" using p'(3) by simp
  have f: "m_loop_stack ?p = k # l" "p_code ?p = c" using t(2) by (simp_all add: core_def)
  have "parse_endfor (default_env fin) p = Inr (True, ?q)"
    using p'(1) by (simp add: parse_endfor_def f Let_def)
  then have "parse_round n inc path (default_env fin) q = Inr (False, ?q)"
    using p(3) by (simp add: parse_statement_def tok_is_simps [OF p(1)] tok_is_simps [OF q])
  moreover have "core ?q = (patch k (length c) c @ [bc_plain Op_EndLoop (Suc k)], i, l, incl)" using p'(2) by simp
  ultimately show thesis using that between_text token_awaits [OF q] by blast
qed

section \<open>Templates\<close>

text \<open>The rounds of the loop, and the fuel the expressions need in them.\<close>

fun rounds_of :: "node \<Rightarrow> nat" and rounds_all :: "node list \<Rightarrow> nat" where
  "rounds_of (Text s) = 1"
| "rounds_of (Print e) = 1"
| "rounds_of (If_Then e b) = rounds_all b + 2"
| "rounds_of (If_Else e b c) = rounds_all b + rounds_all c + 3"
| "rounds_of (For key var e b) = rounds_all b + 2"
| "rounds_all [] = 0"
| "rounds_all (t # ts) = rounds_of t + rounds_all ts"

fun need_of :: "node \<Rightarrow> nat" and need_all :: "node list \<Rightarrow> nat" where
  "need_of (Text s) = 0"
| "need_of (Print e) = need e + 4"
| "need_of (If_Then e b) = need e + 4 + need_all b"
| "need_of (If_Else e b c) = need e + 4 + need_all b + need_all c"
| "need_of (For key var e b) = need e + 4 + need_all b"
| "need_all [] = 0"
| "need_all (t # ts) = need_of t + need_all ts"

lemma stops_simps [simp]: "stops []" "stops (statement s @ r)" "\<not> is_text t \<Longrightarrow> stops (print_node t @ r)"
proof -
  have st: "is_body L_StatementBody" "is_body L_ExpressionBody" "open_of L_StatementBody = ''{%''" "open_of L_ExpressionBody = ''{{''"
    by (simp_all add: is_body_def open_of_def)
  show s: "stops (statement s @ r)" for s r
    unfolding stops_def statement_def using st by (intro disjI2 exI [of _ L_StatementBody]) simp
  show "stops []" by (simp add: stops_def)
  have p: "stops (''{{ '' @ x)" for x
    unfolding stops_def using st by (intro disjI2 exI [of _ L_ExpressionBody]) simp
  show "\<not> is_text t \<Longrightarrow> stops (print_node t @ r)"
    using s p by (cases t) (auto simp: is_text_def)
qed

lemma stops_nodes: "stops r \<Longrightarrow> ts = [] \<or> \<not> is_text (hd ts) \<Longrightarrow> stops (print_nodes ts @ r)"
  by (cases ts) auto

lemma parse_into_round:
  "parse_round n inc path env q = Inr (False, q') \<Longrightarrow> parse_into (Suc n) inc path env q = parse_into n inc path env q'"
  by simp

text \<open>Statements are read as their code, after the code that is there.\<close>

definition reads_code ::
    "(string \<Rightarrow> bool) \<Rightarrow> includer \<Rightarrow> string \<Rightarrow> bool \<Rightarrow> nat \<Rightarrow> nat \<Rightarrow> string \<Rightarrow> (nat \<Rightarrow> bytecode list) \<Rightarrow> bool" where
  "reads_code fin inc path stop k m s code \<longleftrightarrow>
     (\<forall>q r c i l incl n. between q (s @ r) \<longrightarrow> (stop \<longrightarrow> stops r) \<longrightarrow> core q = (c, i, l, incl)
        \<longrightarrow> length c + length (code (length c)) < no_jump \<longrightarrow> m \<le> n
        \<longrightarrow> (\<exists>q'. parse_into (k + n) inc path (default_env fin) q = parse_into n inc path (default_env fin) q'
              \<and> between q' r \<and> core q' = (c @ code (length c), i, l, incl)))"

lemma reads_codeI:
  assumes "\<And>q r c i l incl n. between q (s @ r) \<Longrightarrow> stop \<longrightarrow> stops r \<Longrightarrow> core q = (c, i, l, incl)
      \<Longrightarrow> length c + length (code (length c)) < no_jump \<Longrightarrow> m \<le> n
      \<Longrightarrow> \<exists>q'. parse_into (k + n) inc path (default_env fin) q = parse_into n inc path (default_env fin) q'
            \<and> between q' r \<and> core q' = (c @ code (length c), i, l, incl)"
  shows "reads_code fin inc path stop k m s code"
  using assms unfolding reads_code_def by blast

lemma reads_codeD:
  assumes "reads_code fin inc path stop k m s code" "between q (s @ r)" "stop \<longrightarrow> stops r" "core q = (c, i, l, incl)"
    "length c + length (code (length c)) < no_jump" "m \<le> n"
  obtains q' where "parse_into (k + n) inc path (default_env fin) q = parse_into n inc path (default_env fin) q'"
    "between q' r" "core q' = (c @ code (length c), i, l, incl)"
  using assms unfolding reads_code_def by blast

abbreviation "reads_node fin inc path t \<equiv>
  reads_code fin inc path (is_text t) (rounds_of t) (need_of t) (print_node t) (\<lambda>i. comp_node i t)"

abbreviation "reads_nodes fin inc path ts \<equiv>
  reads_code fin inc path True (rounds_all ts) (need_all ts) (print_nodes ts) (\<lambda>i. comp_nodes i ts)"

lemma reads_if_then:
  assumes e: "expr_ok e" and b: "reads_nodes fin inc path b"
  shows "reads_node fin inc path (If_Then e b)"
proof (rule reads_codeI)
  fix q r i l incl n and c :: "bytecode list"
  let ?env = "default_env fin" and ?k = "length c + length (comp_expr e)"
  let ?c1 = "c @ comp_expr e @ [bc_plain Op_ConditionalJump 0]"
  assume q: "between q (print_node (If_Then e b) @ r)" and core: "core q = (c, i, l, incl)"
    and len: "length c + length (comp_node (length c) (If_Then e b)) < no_jump" and n: "need_of (If_Then e b) \<le> n"
  have q0: "between q (statement (''if '' @ print_expr e) @ print_nodes b @ statement ''endif'' @ r)" using q by simp
  have n1: "need e + 4 \<le> Suc (rounds_all b + n)" "need_all b \<le> Suc n" using n by simp_all
  obtain q1 where q1: "parse_round (Suc (rounds_all b + n)) inc path ?env q = Inr (False, q1)"
    "between q1 (print_nodes b @ statement ''endif'' @ r)"
    "core q1 = (?c1, \<lparr>prev_cond_jump = ?k, uncond_jumps = []\<rparr> # i, l, incl)"
    by (rule round_if [OF q0 e core n1(1)])
  let ?cb = "comp_nodes (length ?c1) b"
  have len1: "length ?c1 + length ?cb < no_jump" using len by (simp add: Let_def)
  obtain q2 where q2: "parse_into (rounds_all b + Suc n) inc path ?env q1 = parse_into (Suc n) inc path ?env q2"
    "between q2 (statement ''endif'' @ r)" "core q2 = (?c1 @ ?cb, \<lparr>prev_cond_jump = ?k, uncond_jumps = []\<rparr> # i, l, incl)"
    by (rule reads_codeD [OF b q1(2) _ q1(3) len1 n1(2)]) simp
  have k: "?k < length (?c1 @ ?cb)" "?k < no_jump" using len1 by simp_all
  obtain q3 where q3: "parse_round n inc path ?env q2 = Inr (False, q3)" "between q3 r"
    "core q3 = (patch ?k (length (?c1 @ ?cb)) (?c1 @ ?cb), i, l, incl)"
    by (rule round_endif [OF q2(2,3) k(1)]) (use k(2) in simp)
  have "patch ?k (length (?c1 @ ?cb)) (?c1 @ ?cb) = c @ comp_node (length c) (If_Then e b)"
    using patch_here [of "c @ comp_expr e" "length (?c1 @ ?cb)" "bc_plain Op_ConditionalJump 0" ?cb]
    by (simp add: Let_def add.assoc del: of_nat_add of_nat_Suc)
  moreover have "parse_into (rounds_of (If_Then e b) + n) inc path ?env q = parse_into n inc path ?env q3"
    using q1(1) q2(1) q3(1) by simp
  ultimately show "\<exists>q'. parse_into (rounds_of (If_Then e b) + n) inc path ?env q = parse_into n inc path ?env q'
      \<and> between q' r \<and> core q' = (c @ comp_node (length c) (If_Then e b), i, l, incl)"
    using q3(2,3) by metis
qed

lemma reads_if_else:
  assumes e: "expr_ok e" and b: "reads_nodes fin inc path b" and d: "reads_nodes fin inc path d"
  shows "reads_node fin inc path (If_Else e b d)"
proof (rule reads_codeI)
  fix q r i l incl n and c :: "bytecode list"
  let ?env = "default_env fin" and ?k = "length c + length (comp_expr e)"
  let ?c1 = "c @ comp_expr e @ [bc_plain Op_ConditionalJump 0]"
  assume q: "between q (print_node (If_Else e b d) @ r)" and core: "core q = (c, i, l, incl)"
    and len: "length c + length (comp_node (length c) (If_Else e b d)) < no_jump" and n: "need_of (If_Else e b d) \<le> n"
  have q0: "between q (statement (''if '' @ print_expr e) @ print_nodes b @ statement ''else'' @ print_nodes d @ statement ''endif'' @ r)"
    using q by simp
  have n1: "need e + 4 \<le> rounds_all b + (rounds_all d + (n + 2))" "need_all b \<le> rounds_all d + (n + 2)" "need_all d \<le> n + 1"
    using n by simp_all
  obtain q1 where q1: "parse_round (rounds_all b + (rounds_all d + (n + 2))) inc path ?env q = Inr (False, q1)"
    "between q1 (print_nodes b @ statement ''else'' @ print_nodes d @ statement ''endif'' @ r)"
    "core q1 = (?c1, \<lparr>prev_cond_jump = ?k, uncond_jumps = []\<rparr> # i, l, incl)"
    by (rule round_if [OF q0 e core n1(1)])
  let ?cb = "comp_nodes (length ?c1) b"
  let ?m = "length (?c1 @ ?cb)"
  let ?c2 = "c @ comp_expr e @ [bc_plain Op_ConditionalJump (?m + 1)] @ ?cb @ [bc_plain Op_Jump 0]"
  let ?cd = "comp_nodes (length ?c2) d"
  have len1: "length ?c1 + length ?cb < no_jump" "length ?c2 + length ?cd < no_jump" using len by (simp_all add: Let_def add.assoc)
  obtain q2 where q2: "parse_into (rounds_all b + (rounds_all d + (n + 2))) inc path ?env q1 = parse_into (rounds_all d + (n + 2)) inc path ?env q2"
    "between q2 (statement ''else'' @ print_nodes d @ statement ''endif'' @ r)"
    "core q2 = (?c1 @ ?cb, \<lparr>prev_cond_jump = ?k, uncond_jumps = []\<rparr> # i, l, incl)"
    by (rule reads_codeD [OF b q1(2) _ q1(3) len1(1) n1(2)]) simp
  have k: "?k < ?m" by simp
  obtain q3 where q3: "parse_round (rounds_all d + (n + 1)) inc path ?env q2 = Inr (False, q3)"
    "between q3 (print_nodes d @ statement ''endif'' @ r)"
    "core q3 = (patch ?k (?m + 1) (?c1 @ ?cb) @ [bc_plain Op_Jump 0], \<lparr>prev_cond_jump = no_jump, uncond_jumps = [?m]\<rparr> # i, l, incl)"
    by (rule round_else [OF q2(2,3) k])
  have "patch ?k (?m + 1) (?c1 @ ?cb) @ [bc_plain Op_Jump 0] = ?c2"
    using patch_here [of "c @ comp_expr e" "?m + 1" "bc_plain Op_ConditionalJump 0" ?cb]
    by (simp add: add.assoc del: of_nat_add of_nat_Suc)
  with q3(3) have c3: "core q3 = (?c2, \<lparr>prev_cond_jump = no_jump, uncond_jumps = [?m]\<rparr> # i, l, incl)" by simp
  obtain q4 where q4: "parse_into (rounds_all d + (n + 1)) inc path ?env q3 = parse_into (n + 1) inc path ?env q4"
    "between q4 (statement ''endif'' @ r)" "core q4 = (?c2 @ ?cd, \<lparr>prev_cond_jump = no_jump, uncond_jumps = [?m]\<rparr> # i, l, incl)"
    by (rule reads_codeD [OF d q3(2) _ c3 len1(2) n1(3)]) simp
  have m: "?m < length (?c2 @ ?cd)" by simp
  obtain q5 where q5: "parse_round n inc path ?env q4 = Inr (False, q5)" "between q5 r"
    "core q5 = (patch ?m (length (?c2 @ ?cd)) (?c2 @ ?cd), i, l, incl)"
    by (rule round_endif [OF q4(2,3) m]) simp
  have "patch ?m (length (?c2 @ ?cd)) (?c2 @ ?cd) = c @ comp_node (length c) (If_Else e b d)"
    using patch_here [of "c @ comp_expr e @ [bc_plain Op_ConditionalJump (?m + 1)] @ ?cb" "length (?c2 @ ?cd)" "bc_plain Op_Jump 0" ?cd]
    by (simp add: Let_def add.assoc del: of_nat_add of_nat_Suc)
  moreover have "parse_into (rounds_of (If_Else e b d) + n) inc path ?env q = parse_into n inc path ?env q5"
  proof -
    have "rounds_of (If_Else e b d) + n = Suc (rounds_all b + (rounds_all d + (n + 2)))" by simp
    moreover have "rounds_all d + (n + 2) = Suc (rounds_all d + (n + 1))" "n + 1 = Suc n" by simp_all
    ultimately show ?thesis
      using parse_into_round [OF q1(1)] q2(1) parse_into_round [OF q3(1)] q4(1) parse_into_round [OF q5(1)] by metis
  qed
  ultimately show "\<exists>q'. parse_into (rounds_of (If_Else e b d) + n) inc path ?env q = parse_into n inc path ?env q'
      \<and> between q' r \<and> core q' = (c @ comp_node (length c) (If_Else e b d), i, l, incl)"
    using q5(2,3) by metis
qed

lemma reads_for:
  assumes names: "key = [] \<or> name_ok key" "name_ok var" and e: "expr_ok e" and b: "reads_nodes fin inc path b"
  shows "reads_node fin inc path (For key var e b)"
proof (rule reads_codeI)
  fix q r i l incl n and c :: "bytecode list"
  let ?env = "default_env fin" and ?k = "length c + length (comp_expr e)"
  let ?c1 = "c @ comp_expr e @ [loop_start key var 0]"
  assume q: "between q (print_node (For key var e b) @ r)" and core: "core q = (c, i, l, incl)"
    and len: "length c + length (comp_node (length c) (For key var e b)) < no_jump" and n: "need_of (For key var e b) \<le> n"
  have q0: "between q (statement (''for '' @ loop_names key var @ '' in '' @ print_expr e) @ print_nodes b @ statement ''endfor'' @ r)"
    using q by (simp add: loop_names_def)
  have n1: "need e + 4 \<le> Suc (rounds_all b + n)" "need_all b \<le> Suc n" using n by simp_all
  obtain q1 where q1: "parse_round (Suc (rounds_all b + n)) inc path ?env q = Inr (False, q1)"
    "between q1 (print_nodes b @ statement ''endfor'' @ r)" "core q1 = (?c1, i, ?k # l, incl)"
    by (rule round_for [OF q0 names e core n1(1)])
  let ?cb = "comp_nodes (length ?c1) b"
  have len1: "length ?c1 + length ?cb < no_jump" using len by (simp add: Let_def)
  obtain q2 where q2: "parse_into (rounds_all b + Suc n) inc path ?env q1 = parse_into (Suc n) inc path ?env q2"
    "between q2 (statement ''endfor'' @ r)" "core q2 = (?c1 @ ?cb, i, ?k # l, incl)"
    by (rule reads_codeD [OF b q1(2) _ q1(3) len1 n1(2)]) simp
  have k: "?k < length (?c1 @ ?cb)" by simp
  obtain q3 where q3: "parse_round n inc path ?env q2 = Inr (False, q3)" "between q3 r"
    "core q3 = (patch ?k (length (?c1 @ ?cb)) (?c1 @ ?cb) @ [bc_plain Op_EndLoop (Suc ?k)], i, l, incl)"
    by (rule round_endfor [OF q2(2,3) k])
  have "(loop_start key var 0)\<lparr>bc_args := word_of_nat m\<rparr> = loop_start key var m" for m
    by (simp add: loop_start_def bc_plain_def)
  then have "patch ?k (length (?c1 @ ?cb)) (?c1 @ ?cb) @ [bc_plain Op_EndLoop (Suc ?k)] = c @ comp_node (length c) (For key var e b)"
    using patch_here [of "c @ comp_expr e" "length (?c1 @ ?cb)" "loop_start key var 0" ?cb]
    by (simp add: Let_def add.assoc del: of_nat_add of_nat_Suc)
  moreover have "parse_into (rounds_of (For key var e b) + n) inc path ?env q = parse_into n inc path ?env q3"
    using q1(1) q2(1) q3(1) by simp
  ultimately show "\<exists>q'. parse_into (rounds_of (For key var e b) + n) inc path ?env q = parse_into n inc path ?env q'
      \<and> between q' r \<and> core q' = (c @ comp_node (length c) (For key var e b), i, l, incl)"
    using q3(2,3) by metis
qed


lemma reads_Nil: "reads_nodes fin inc path []"
  by (rule reads_codeI) auto

lemma reads_Cons:
  assumes t: "reads_node fin inc path t" and ts: "reads_nodes fin inc path ts"
    and sep: "is_text t \<longrightarrow> ts = [] \<or> \<not> is_text (hd ts)"
  shows "reads_nodes fin inc path (t # ts)"
proof (rule reads_codeI)
  fix q r i l incl n and c :: "bytecode list"
  let ?env = "default_env fin" and ?c1 = "c @ comp_node (length c) t"
  assume q: "between q (print_nodes (t # ts) @ r)" and r: "True \<longrightarrow> stops r" and core: "core q = (c, i, l, incl)"
    and len: "length c + length (comp_nodes (length c) (t # ts)) < no_jump" and n: "need_all (t # ts) \<le> n"
  have q0: "between q (print_node t @ print_nodes ts @ r)" using q by simp
  have r0: "is_text t \<longrightarrow> stops (print_nodes ts @ r)" using stops_nodes r sep by blast
  have len1: "length c + length (comp_node (length c) t) < no_jump"
    "length ?c1 + length (comp_nodes (length ?c1) ts) < no_jump" using len by (simp_all add: Let_def)
  have n1: "need_of t \<le> rounds_all ts + n" "need_all ts \<le> n" using n by simp_all
  obtain q1 where q1: "parse_into (rounds_of t + (rounds_all ts + n)) inc path ?env q = parse_into (rounds_all ts + n) inc path ?env q1"
    "between q1 (print_nodes ts @ r)" "core q1 = (?c1, i, l, incl)"
    by (rule reads_codeD [OF t q0 r0 core len1(1) n1(1)])
  obtain q2 where q2: "parse_into (rounds_all ts + n) inc path ?env q1 = parse_into n inc path ?env q2"
    "between q2 r" "core q2 = (?c1 @ comp_nodes (length ?c1) ts, i, l, incl)"
    by (rule reads_codeD [OF ts q1(2) r q1(3) len1(2) n1(2)])
  show "\<exists>q'. parse_into (rounds_all (t # ts) + n) inc path ?env q = parse_into n inc path ?env q'
      \<and> between q' r \<and> core q' = (c @ comp_nodes (length c) (t # ts), i, l, incl)"
    by (rule exI [of _ q2]) (use q1 q2 in \<open>simp add: Let_def add.assoc\<close>)
qed

lemma reads_text_node: "text_ok s \<Longrightarrow> reads_node fin inc path (Text s)"
proof (rule reads_codeI)
  fix q r i l incl n and c :: "bytecode list"
  assume "text_ok s" "between q (print_node (Text s) @ r)" "is_text (Text s) \<longrightarrow> stops r" "core q = (c, i, l, incl)"
  then obtain q' where "parse_round n inc path (default_env fin) q = Inr (False, q')" "between q' r"
    "core q' = (c @ [bc_string Op_PrintText s ValuePop], i, l, incl)"
    by (auto simp: is_text_def intro: round_text)
  then show "\<exists>q'. parse_into (rounds_of (Text s) + n) inc path (default_env fin) q = parse_into n inc path (default_env fin) q'
      \<and> between q' r \<and> core q' = (c @ comp_node (length c) (Text s), i, l, incl)"
    by (intro exI [of _ q']) simp
qed

lemma reads_print_node: "expr_ok e \<Longrightarrow> reads_node fin inc path (Print e)"
proof (rule reads_codeI)
  fix q r i l incl n and c :: "bytecode list"
  assume e: "expr_ok e" and q: "between q (print_node (Print e) @ r)" and core: "core q = (c, i, l, incl)"
    and n: "need_of (Print e) \<le> n"
  have "between q (''{{ '' @ print_expr e @ '' }}'' @ r)" "need e + 4 \<le> n" using q n by simp_all
  then obtain q' where "parse_round n inc path (default_env fin) q = Inr (False, q')" "between q' r"
    "core q' = (c @ merge Op_PrintValue 1 (comp_expr e), i, l, incl)"
    using round_print [OF _ e core] by blast
  then show "\<exists>q'. parse_into (rounds_of (Print e) + n) inc path (default_env fin) q = parse_into n inc path (default_env fin) q'
      \<and> between q' r \<and> core q' = (c @ comp_node (length c) (Print e), i, l, incl)"
    by (intro exI [of _ q']) simp
qed

theorem nodes_read:
  "node_ok t \<Longrightarrow> reads_node fin inc path t"
  "nodes_ok ts \<Longrightarrow> reads_nodes fin inc path ts"
proof (induction t and ts rule: node_ok_nodes_ok.induct)
  case (1 s)
  then show ?case using reads_text_node by simp
next
  case (2 e)
  then show ?case using reads_print_node by simp
next
  case (3 e b)
  then show ?case using reads_if_then by simp
next
  case (4 e b c)
  then show ?case using reads_if_else by simp
next
  case (5 key var e b)
  then show ?case using reads_for by simp
next
  case 6
  show ?case by (rule reads_Nil)
next
  case (7 t ts)
  then show ?case using reads_Cons by simp
qed

section \<open>Enough fuel\<close>

lemma need_bound: "expr_ok e \<Longrightarrow> need e + 7 \<le> 8 * length (print_expr e)"
proof (induction e)
  case (Lookup name)
  then show ?case by (cases name) (auto simp: variable_ok_def name_ok_def)
next
  case (Literal v)
  then obtain c t where "print_literal v = c # t" using expr_first [of "Literal v"] by auto
  then show ?case by simp
next
  case (Unary op e)
  then show ?case by auto
next
  case (Binary op a b)
  then show ?case by (auto split: option.splits)
next
  case (Fallback name e)
  then show ?case by auto
qed

lemma length_statement [simp]: "length (statement s) = length s + 6"
  by (simp add: statement_def)

lemma fuel_bound:
  "node_ok t \<Longrightarrow> rounds_of t + need_of t \<le> 8 * length (print_node t)"
  "nodes_ok ts \<Longrightarrow> rounds_all ts + need_all ts \<le> 8 * length (print_nodes ts)"
proof (induction t and ts rule: node_ok_nodes_ok.induct)
  case (1 s)
  then show ?case by (cases s) (auto simp: text_ok_def)
next
  case (2 e)
  then show ?case using need_bound [of e] by simp
next
  case (3 e b)
  then show ?case using need_bound [of e] by simp
next
  case (4 e b c)
  then show ?case using need_bound [of e] by simp
next
  case (5 key var e b)
  then show ?case using need_bound [of e] by simp
qed auto

text \<open>A printed template is read as its code, and nothing is included.\<close>

theorem parse_printed:
  assumes "nodes_ok ts" "length (compile_template ts) < no_jump"
  obtains p where "parse_into (parse_fuel (print_nodes ts)) inc path (default_env fin) (parser_init (print_nodes ts) incl) = Inr p"
    "p_code p = compile_template ts" "m_included p = incl"
proof -
  let ?s = "print_nodes ts" and ?env = "default_env fin"
  let ?q = "parser_init ?s incl"
  have q: "between ?q (?s @ [])"
    by (rule between_text) (simp add: awaits_def parser_init_def at_text_def inja_start_def)
  have core: "core ?q = ([], [], [], incl)" by (simp add: core_def parser_init_def)
  have len: "length ([] :: bytecode list) + length (comp_nodes (length ([] :: bytecode list)) ts) < no_jump"
    using assms(2) by (simp add: compile_template_def)
  let ?n = "parse_fuel ?s - rounds_all ts"
  have n: "need_all ts \<le> ?n" "parse_fuel ?s = rounds_all ts + ?n" "0 < ?n"
    using fuel_bound(2) [OF assms(1)] by (simp_all add: parse_fuel_def)
  obtain q' where q': "parse_into (rounds_all ts + ?n) inc path ?env ?q = parse_into ?n inc path ?env q'"
    "between q' []" "core q' = ([] @ comp_nodes (length ([] :: bytecode list)) ts, [], [], incl)"
    by (rule reads_codeD [OF nodes_read(2) [OF assms(1)] q _ core len n(1)]) simp
  have "awaits q' L_Text []" using q'(2) by (auto simp: between_def resumes_def open_of_def split: if_splits)
  note t = next_token [OF this reads_end, of fin]
  obtain m where m: "?n = Suc m" using n(3) by (cases ?n) auto
  have c: "core (get_next_token ?env q') = (compile_template ts, [], [], incl)"
    using t(2) q'(3) by (simp add: compile_template_def)
  then have "parse_into ?n inc path ?env q' = Inr (get_next_token ?env q')"
    by (simp add: m parse_round_def Let_def tok_is_simps [OF t(1)] core_def)
  with that [of "get_next_token ?env q'"] c n(2) q'(1) show thesis by (simp add: core_def)
qed

end
