(* ===== verification/Inja_Machine.thy ===== *)
theory Inja_Machine
  imports Inja_Spec
begin

text \<open>
  Runs of the virtual machine on code that lies anywhere in a longer program: expressions leave their
  value on the stack, statements write their text, loops come back with the loops they found.
\<close>

section \<open>Runs\<close>

text \<open>From \<open>(i, st)\<close> the machine gets, in some number of steps, to what \<open>r\<close> says: a fault or a state.\<close>

definition leads ::
    "render_env \<Rightarrow> json \<Rightarrow> bytecode list \<Rightarrow> nat \<Rightarrow> render_state \<Rightarrow> (nat \<times> render_state) result \<Rightarrow> bool" where
  "leads env data code i st r \<longleftrightarrow>
     (\<exists>m. \<forall>n. render_run (m + n) env data code i st = and_then r (\<lambda>(i, st). render_run n env data code i st))"

lemma leads_refl: "leads env data code i st (Inr (i, st))"
  unfolding leads_def by (rule exI [of _ 0]) simp

lemma leads_trans:
  assumes "leads env data code i st r"
    and "\<And>j st'. r = Inr (j, st') \<Longrightarrow> leads env data code j st' (f (j, st'))"
  shows "leads env data code i st (and_then r f)"
proof (cases r)
  case (Inl e)
  with assms(1) show ?thesis by (simp add: leads_def)
next
  case (Inr x)
  obtain j st' where x: "x = (j, st')" by force
  obtain m where m: "\<And>n. render_run (m + n) env data code i st = render_run n env data code j st'"
    using assms(1) unfolding leads_def Inr x by auto
  obtain k where k: "\<And>n. render_run (k + n) env data code j st'
      = and_then (f (j, st')) (\<lambda>(i, st). render_run n env data code i st)"
    using assms(2) [OF Inr [unfolded x]] unfolding leads_def by auto
  show ?thesis
    unfolding leads_def Inr x using m k by (intro exI [of _ "m + k"]) (simp add: add.assoc)
qed

lemma leads_step:
  assumes "i < length code" "bc_op (code ! i) \<noteq> Op_Include"
  shows "leads env data code i st (render_step env data (code ! i) i st)"
  unfolding leads_def using assms by (intro exI [of _ 1]) simp

lemma leads_and_then:
  assumes "leads env data code i st (and_then r (\<lambda>v. Inr (j v, g v)))"
    and "\<And>v. r = Inr v \<Longrightarrow> leads env data code (j v) (g v) (f v)"
  shows "leads env data code i st (and_then r f)"
proof -
  have "leads env data code i st (and_then (and_then r (\<lambda>v. Inr (j v, g v))) (\<lambda>_. and_then r f))"
    by (rule leads_trans [OF assms(1)]) (auto simp: result_simps assms(2))
  moreover have "and_then (and_then r (\<lambda>v. Inr (j v, g v))) (\<lambda>_. and_then r f) = and_then r f"
    by (cases r) simp_all
  ultimately show ?thesis by simp
qed

section \<open>Code in a program\<close>

definition code_at :: "bytecode list \<Rightarrow> nat \<Rightarrow> bytecode list \<Rightarrow> bool" where
  "code_at code i c \<longleftrightarrow> (\<forall>k < length c. i + k < length code \<and> code ! (i + k) = c ! k)"

lemma code_at_self: "code_at code 0 code"
  by (simp add: code_at_def)

lemma code_at_append: "code_at code i (c @ d) \<longleftrightarrow> code_at code i c \<and> code_at code (i + length c) d"
  unfolding code_at_def
  by (auto simp: nth_append add.assoc) (metis add.assoc add_diff_inverse_nat nat_add_left_cancel_less)+

lemma code_at_Cons: "code_at code i (b # c) \<longleftrightarrow> i < length code \<and> code ! i = b \<and> code_at code (Suc i) c"
  using code_at_append [of code i "[b]" c] by (simp add: code_at_def)

lemma code_at_bound: "code_at code i c \<Longrightarrow> c \<noteq> [] \<Longrightarrow> i + length c \<le> length code"
  by (cases c rule: rev_cases) (auto simp: code_at_append code_at_Cons)

lemma code_at_Nil [simp]: "code_at code i []"
  by (simp add: code_at_def)

section \<open>Expressions\<close>

lemma bc_fields [simp]:
  "bc_op (bc_plain op n) = op" "bc_flags (bc_plain op n) = ValuePop"
  "bc_op (bc_string op s fl) = op" "bc_flags (bc_string op s fl) = fl" "bc_str (bc_string op s fl) = s"
  "bc_op (bc_json op v fl) = op" "bc_flags (bc_json op v fl) = fl" "bc_value (bc_json op v fl) = v"
  by (simp_all add: bc_plain_def bc_string_def bc_json_def)

lemma bc_target_plain [simp]: "n < 2 ^ 30 \<Longrightarrow> bc_target (bc_plain op n) = n"
  by (simp add: bc_target_def bc_plain_def)

text \<open>An expression is a push of one value, or ends with another instruction.\<close>

fun is_atom :: "expr \<Rightarrow> bool" where
  "is_atom (Lookup name) = True"
| "is_atom (Literal v) = True"
| "is_atom _ = False"

lemma merge_last: "bc_op (last (merge op n c)) = op" "merge op n c \<noteq> []"
  by (auto simp: merge_def)

lemma ops_not_push:
  "op \<in> set unary_ops \<Longrightarrow> op \<notin> {Op_Push, Op_Include, Op_Default}"
  "op \<in> set binary_ops \<Longrightarrow> op \<notin> {Op_Push, Op_Include, Op_Default}"
  by (auto simp: unary_ops_def binary_ops_def)

lemma last_comp_expr: "wf_expr e \<Longrightarrow> bc_op (last (comp_expr e)) = Op_Push \<longleftrightarrow> is_atom e"
  by (cases e) (auto simp: merge_last dest: ops_not_push)

lemma merge_atom:
  assumes "is_atom e"
  shows "merge op n (c @ comp_expr e) = c @ [(hd (comp_expr e))\<lparr>bc_op := op, bc_args := word_of_nat n\<rparr>]"
  using assms by (cases e) (simp_all add: merge_def butlast_append)

lemma merge_compound:
  assumes "wf_expr e" "\<not> is_atom e"
  shows "merge op n (c @ comp_expr e) = c @ comp_expr e @ [bc_plain op n]"
  using assms last_comp_expr [of e] by (simp add: merge_def)

lemma length_merge: "wf_expr e \<Longrightarrow>
  length (merge op n (c @ comp_expr e)) = length c + length (comp_expr e) + (if is_atom e then 0 else 1)"
  by (cases "is_atom e") (simp add: merge_atom, cases e, auto simp: merge_compound)

lemma get_imm_atom:
  assumes "is_atom e"
  shows "get_imm env cur ((hd (comp_expr e))\<lparr>bc_op := op, bc_args := w\<rparr>) = eval env root cur e"
    and "get_imm env cur (hd (comp_expr e)) = eval env root cur e"
    and "has_imm ((hd (comp_expr e))\<lparr>bc_op := op, bc_args := w\<rparr>)"
  using assms by (cases e; simp add: get_imm_def lookup_name_def bc_string_def bc_json_def has_imm_def)+

text \<open>What an instruction with arguments does once it has them.\<close>

definition finish ::
    "render_env \<Rightarrow> json \<Rightarrow> bytecode_op \<Rightarrow> json list \<Rightarrow> json list \<Rightarrow> render_state \<Rightarrow> render_state result" where
  "finish env data op args rest st =
     (if op = Op_PrintValue then
        and_then (array_get args 0) (\<lambda>v. and_then (print_value env v) (\<lambda>s. Inr (write_out s (st\<lparr>r_stack := rest\<rparr>))))
      else and_then (apply_op env data op args) (\<lambda>v. Inr (st\<lparr>r_stack := v # rest\<rparr>)))"

definition argument_ops :: "bytecode_op list" where
  "argument_ops = Op_PrintValue # unary_ops @ binary_ops"

lemma render_step_argument:
  assumes "bc_op bc \<in> set argument_ops"
  shows "render_step env data bc i st =
    and_then (get_args env (current_data data st) bc (r_stack st)) (\<lambda>args.
      and_then (finish env data (bc_op bc) args (pop_args bc (r_stack st)) st) (\<lambda>st. Inr (i + 1, st)))"
  using assms
  by (auto simp: argument_ops_def unary_ops_def binary_ops_def render_step_def finish_def and_then_assoc)


lemma get_args_plain:
  assumes "n < 2 ^ 30" "n \<le> length stack"
  shows "get_args env cur (bc_plain op n) stack = Inr (rev (take n stack))"
    and "pop_args (bc_plain op n) stack = drop n stack"
  using assms by (simp_all add: get_args_def pop_args_def has_imm_def)

lemma get_args_imm:
  assumes "has_imm bc" "bc_args bc = word_of_nat (Suc n)" "Suc n < 2 ^ 30" "n \<le> length stack"
  shows "get_args env cur bc stack = and_then (get_imm env cur bc) (\<lambda>v. Inr (rev (take n stack) @ [v]))"
    and "pop_args bc stack = drop n stack"
proof -
  have "bc_target bc = Suc n"
    using unat_args [OF assms(3)] assms(2) by (simp add: bc_target_def del: of_nat_Suc)
  then show "get_args env cur bc stack = and_then (get_imm env cur bc) (\<lambda>v. Inr (rev (take n stack) @ [v]))"
    and "pop_args bc stack = drop n stack"
    using assms by (simp_all add: get_args_def pop_args_def)
qed

text \<open>
  A function after the code of its last argument: the same result whether it was merged into the push
  of that argument or not.
\<close>

lemma leads_merge:
  assumes code: "code_at code i (merge op (Suc n) (c @ comp_expr e))"
    and wf: "wf_expr e" and op: "op \<in> set argument_ops" and n: "Suc n < 2 ^ 30"
    and before: "leads env data code i st
        (and_then r (\<lambda>vs. Inr (i + length c, st\<lparr>r_stack := rev vs @ r_stack st\<rparr>)))"
    and len: "\<And>vs. r = Inr vs \<Longrightarrow> length vs = n"
    and arg: "\<And>st. \<not> is_atom e \<Longrightarrow> leads env data code (i + length c) st (and_then (eval env data (current_data data st) e)
        (\<lambda>v. Inr (i + length c + length (comp_expr e), st\<lparr>r_stack := v # r_stack st\<rparr>)))"
  shows "leads env data code i st
    (and_then r (\<lambda>vs. and_then (eval env data (current_data data st) e) (\<lambda>v.
      and_then (finish env data op (vs @ [v]) (r_stack st) st) (\<lambda>st.
        Inr (i + length (merge op (Suc n) (c @ comp_expr e)), st)))))"
proof (rule leads_and_then [OF before])
  fix vs assume r: "r = Inr vs"
  let ?st = "st\<lparr>r_stack := rev vs @ r_stack st\<rparr>" and ?cur = "current_data data st"
  have cur [simp]: "current_data data (st\<lparr>r_stack := s\<rparr>) = ?cur" for s
    by (simp add: current_data_def)
  have fin [simp]: "finish env data op args rest (st\<lparr>r_stack := s\<rparr>) = finish env data op args rest st" for args rest s
    by (auto simp: finish_def write_out_def intro!: arg_cong [where f = "and_then _"])
  have inc: "op \<noteq> Op_Include" using op by (auto simp: argument_ops_def unary_ops_def binary_ops_def)
  have vs: "length vs = n" using len r by simp
  show "leads env data code (i + length c) ?st
      (and_then (eval env data ?cur e) (\<lambda>v. and_then (finish env data op (vs @ [v]) (r_stack st) st) (\<lambda>st.
        Inr (i + length (merge op (Suc n) (c @ comp_expr e)), st))))"
  proof (cases "is_atom e")
    case True
    let ?bc = "(hd (comp_expr e))\<lparr>bc_op := op, bc_args := word_of_nat (Suc n)\<rparr>"
    have at: "i + length c < length code" "code ! (i + length c) = ?bc"
      using code by (simp_all add: merge_atom [OF True] code_at_append code_at_Cons)
    have "leads env data code (i + length c) ?st (render_step env data ?bc (i + length c) ?st)"
      using leads_step [OF at(1)] at(2) inc by simp
    moreover have "render_step env data ?bc (i + length c) ?st
      = and_then (eval env data ?cur e) (\<lambda>v. and_then (finish env data op (vs @ [v]) (r_stack st) st) (\<lambda>st.
          Inr (i + length c + 1, st)))"
      using op n vs get_imm_atom [OF True]
      by (simp add: render_step_argument get_args_imm and_then_assoc take_append)
    ultimately show ?thesis by (simp add: merge_atom [OF True])
  next
    case False
    let ?j = "i + length c + length (comp_expr e)" and ?bc = "bc_plain op (Suc n)"
    have at: "?j < length code" "code ! ?j = ?bc"
      using code by (simp_all add: merge_compound [OF wf False] code_at_append code_at_Cons add.assoc)
    have "leads env data code (i + length c) ?st (and_then (eval env data ?cur e)
        (\<lambda>v. Inr (?j, ?st\<lparr>r_stack := v # r_stack ?st\<rparr>)))"
      using arg [OF False, of ?st] by simp
    then show ?thesis
    proof (rule leads_and_then)
      fix v assume "eval env data ?cur e = Inr v"
      let ?st' = "?st\<lparr>r_stack := v # r_stack ?st\<rparr>"
      have "render_step env data ?bc ?j ?st'
        = and_then (finish env data op (vs @ [v]) (r_stack st) st) (\<lambda>st. Inr (?j + 1, st))"
        using op n vs by (simp add: render_step_argument get_args_plain)
      then show "leads env data code ?j ?st' (and_then (finish env data op (vs @ [v]) (r_stack st) st) (\<lambda>st.
          Inr (i + length (merge op (Suc n) (c @ comp_expr e)), st)))"
        using leads_step [OF at(1), of env data ?st'] at(2) inc by (simp add: merge_compound [OF wf False] add.assoc)
    qed
  qed
qed


lemma current_data_stack [simp]:
  "current_data data (st\<lparr>r_stack := s\<rparr>) = current_data data st"
  "current_data data (st\<lparr>r_out := t\<rparr>) = current_data data st"
  by (simp_all add: current_data_def)

lemma finish_apply:
  "op \<in> set unary_ops \<Longrightarrow> finish env data op [v] rest st
     = and_then (apply_unary env data op v) (\<lambda>v. Inr (st\<lparr>r_stack := v # rest\<rparr>))"
  "op \<in> set binary_ops \<Longrightarrow> finish env data op [a, b] rest st
     = and_then (apply_binary env op a b) (\<lambda>v. Inr (st\<lparr>r_stack := v # rest\<rparr>))"
proof -
  show "op \<in> set unary_ops \<Longrightarrow> finish env data op [v] rest st
     = and_then (apply_unary env data op v) (\<lambda>v. Inr (st\<lparr>r_stack := v # rest\<rparr>))"
    by (auto simp: finish_def apply_op_def unary_ops_def)
  have "op \<in> set binary_ops \<Longrightarrow> op \<notin> set unary_ops \<and> op \<noteq> Op_PrintValue"
    by (auto simp: unary_ops_def binary_ops_def)
  then show "op \<in> set binary_ops \<Longrightarrow> finish env data op [a, b] rest st
     = and_then (apply_binary env op a b) (\<lambda>v. Inr (st\<lparr>r_stack := v # rest\<rparr>))"
    by (simp add: finish_def apply_op_def)
qed

lemma leads_push:
  assumes "i < length code" "code ! i = bc" "bc_op bc = Op_Push"
  shows "leads env data code i st
    (and_then (get_imm env (current_data data st) bc) (\<lambda>v. Inr (i + 1, st\<lparr>r_stack := v # r_stack st\<rparr>)))"
  using leads_step [OF assms(1), of env data st] assms(2,3) by (simp add: render_step_def Let_def)

text \<open>The code of an expression leaves its value on the stack.\<close>

lemma leads_expr:
  assumes "wf_expr e" "code_at code i (comp_expr e)"
  shows "leads env data code i st (and_then (eval env data (current_data data st) e)
    (\<lambda>v. Inr (i + length (comp_expr e), st\<lparr>r_stack := v # r_stack st\<rparr>)))"
  using assms
proof (induction e arbitrary: i st)
  case (Lookup name)
  with leads_push [of i code "bc_string Op_Push name ValueLookupDot" env data st] show ?case
    by (simp add: code_at_Cons get_imm_def lookup_name_def)
next
  case (Literal v)
  with leads_push [of i code "bc_json Op_Push v ValueImmediate" env data st] show ?case
    by (simp add: code_at_Cons get_imm_def)
next
  case (Unary op e)
  have wf: "wf_expr e" and op: "op \<in> set argument_ops" using Unary.prems by (auto simp: argument_ops_def)
  have "code_at code i (comp_expr e)" if "\<not> is_atom e"
    using Unary.prems merge_compound [OF wf that, of op 1 "[]"] by (simp add: code_at_append)
  then have "leads env data code i st (and_then (Inr []) (\<lambda>vs. and_then (eval env data (current_data data st) e) (\<lambda>v.
      and_then (finish env data op (vs @ [v]) (r_stack st) st) (\<lambda>st.
        Inr (i + length (merge op (Suc 0) ([] @ comp_expr e)), st)))))"
    using Unary.IH [OF wf] Unary.prems op
    by (intro leads_merge [OF _ wf op]) (auto intro: leads_refl)
  with Unary.prems show ?case by (simp add: finish_apply and_then_assoc)
next
  case (Binary op a b)
  have wf: "wf_expr a" "wf_expr b" and op: "op \<in> set argument_ops"
    using Binary.prems by (auto simp: argument_ops_def)
  have at: "code_at code i (comp_expr a)"
    using Binary.prems merge_compound [OF wf(2), of op 2 "comp_expr a"] merge_atom [of b op 2 "comp_expr a"]
    by (cases "is_atom b") (auto simp: code_at_append)
  have "code_at code (i + length (comp_expr a)) (comp_expr b)" if "\<not> is_atom b"
    using Binary.prems merge_compound [OF wf(2) that, of op 2 "comp_expr a"] by (simp add: code_at_append)
  moreover have "code_at code i (merge op (Suc 1) (comp_expr a @ comp_expr b))"
    using Binary.prems by (simp add: numeral_2_eq_2)
  ultimately have "leads env data code i st
      (and_then (and_then (eval env data (current_data data st) a) (\<lambda>x. Inr [x])) (\<lambda>vs.
        and_then (eval env data (current_data data st) b) (\<lambda>v.
          and_then (finish env data op (vs @ [v]) (r_stack st) st) (\<lambda>st.
            Inr (i + length (merge op (Suc 1) (comp_expr a @ comp_expr b)), st)))))"
    using Binary.IH(1) [OF wf(1) at, of st] Binary.IH(2) [OF wf(2)] Binary.prems
    by (intro leads_merge [OF _ wf(2) op]) (auto simp: and_then_assoc result_simps)
  with Binary.prems show ?case by (simp add: finish_apply and_then_assoc numeral_2_eq_2)
next
  case (Fallback name e)
  let ?bc = "(bc_string Op_Push name ValueLookupDot)\<lparr>bc_op := Op_Default, bc_args := word_of_nat 2\<rparr>"
  let ?j = "i + length (comp_expr e)" and ?cur = "current_data data st"
  have c: "comp_expr (Fallback name e) = comp_expr e @ [?bc]"
    using merge_atom [of "Lookup name" Op_Default 2 "comp_expr e"] by simp
  then have at: "code_at code i (comp_expr e)" "?j < length code" "code ! ?j = ?bc"
    using Fallback.prems by (simp_all add: code_at_append code_at_Cons)
  have "leads env data code i st (and_then (eval env data ?cur e) (\<lambda>v. Inr (?j, st\<lparr>r_stack := v # r_stack st\<rparr>)))"
    using Fallback at by simp
  then have "leads env data code i st (and_then (eval env data ?cur e) (\<lambda>v.
      and_then (case lookup_name env ?cur name of Inr x \<Rightarrow> Inr x | Inl f \<Rightarrow> if is_exception f then Inr v else Inl f)
        (\<lambda>v. Inr (?j + 1, st\<lparr>r_stack := v # r_stack st\<rparr>))))"
  proof (rule leads_and_then)
    fix v
    let ?st = "st\<lparr>r_stack := v # r_stack st\<rparr>"
    have imm: "get_imm env ?cur ?bc = lookup_name env ?cur name"
      by (simp add: get_imm_def lookup_name_def)
    show "leads env data code ?j ?st (and_then
        (case lookup_name env ?cur name of Inr x \<Rightarrow> Inr x | Inl f \<Rightarrow> if is_exception f then Inr v else Inl f)
        (\<lambda>v. Inr (?j + 1, st\<lparr>r_stack := v # r_stack st\<rparr>)))"
      using leads_step [OF at(2), of env data ?st] at(3) imm
      by (auto simp: render_step_def Let_def split: sum.splits if_splits)
  qed
  then show ?case by (simp add: c and_then_assoc del: comp_expr.simps)
qed

lemmas leads_expr_then = leads_and_then [OF leads_expr]

section \<open>Loops\<close>

text \<open>The rounds a level has left.\<close>

definition remaining :: "loop_level \<Rightarrow> (json \<Rightarrow> json result) list" where
  "remaining level =
     (case loop_type level of
        Loop_Array \<Rightarrow>
          map (\<lambda>i. array_round (value_name level) (loop_size level) i (json_elements (loop_values level) ! i))
            [loop_index level + 1..<loop_size level]
      | Loop_Map \<Rightarrow>
          map (map_round (key_name level) (value_name level)) (drop (map_it level + 1) (map_values level)))"

definition level_ok :: "loop_level \<Rightarrow> bool" where
  "level_ok level \<longleftrightarrow>
     (case loop_type level of
        Loop_Array \<Rightarrow> (case loop_values level of JArray vs \<Rightarrow> length vs = loop_size level | _ \<Rightarrow> False)
                        \<and> loop_index level < loop_size level
      | Loop_Map \<Rightarrow> map_it level < length (map_values level))"

lemma next_round_finished:
  "level_ok level \<Longrightarrow> snd (next_round level) \<longleftrightarrow> remaining level = []"
  by (auto simp: level_ok_def next_round_def remaining_def json_size_def split: loop_kind.splits json.splits)

lemma next_round_update:
  assumes "level_ok level" "remaining level = f # fs"
  obtains level' where "fst (next_round level) = level'" "level_ok level'" "loop_data level' = loop_data level"
    "update_loop_data level' = and_then (f (loop_data level)) (\<lambda>d. Inr (level'\<lparr>loop_data := d\<rparr>))"
    "remaining level' = fs"
proof -
  let ?l = "fst (next_round level)"
  have "level_ok ?l \<and> loop_data ?l = loop_data level \<and> remaining ?l = fs
    \<and> update_loop_data ?l = and_then (f (loop_data level)) (\<lambda>d. Inr (?l\<lparr>loop_data := d\<rparr>))"
  proof (cases "loop_type level")
    case Loop_Array
    with assms(1) obtain vs where vs: "loop_values level = JArray vs" "length vs = loop_size level"
      by (auto simp: level_ok_def split: json.splits)
    have lt: "loop_index level + 1 < loop_size level"
      using assms(2) by (auto simp: remaining_def Loop_Array upt_eq_Cons_conv)
    with assms(2) show ?thesis
      by (auto simp: level_ok_def next_round_def Loop_Array vs remaining_def update_loop_data_def
          update_array_data_def json_at_position_def upt_conv_Cons json_elements_def)
  next
    case Loop_Map
    have lt: "map_it level + 1 < length (map_values level)"
      using assms(2) by (cases "map_it level + 1 < length (map_values level)") (auto simp: remaining_def Loop_Map)
    with assms(2) show ?thesis
      by (auto simp: level_ok_def next_round_def Loop_Map remaining_def update_loop_data_def
          update_map_data_def Cons_nth_drop_Suc [symmetric])
  qed
  then show thesis using that by blast
qed

lemma level_ok_data [simp]:
  "level_ok (level\<lparr>loop_data := d\<rparr>) = level_ok level" "remaining (level\<lparr>loop_data := d\<rparr>) = remaining level"
  by (auto simp: level_ok_def remaining_def split: loop_kind.splits json.splits)

lemma sort_by_Nil [simp]: "sort_by lt xs = [] \<longleftrightarrow> xs = []"
proof -
  have "insert_by lt x ys \<noteq> []" for x ys by (cases ys) simp_all
  then show ?thesis by (cases xs) simp_all
qed

lemma new_level_start:
  "new_level (loop_start key value n) v data =
    (if key = [] then
       (case v of
          JArray vs \<Rightarrow> Inr \<lparr>loop_type = Loop_Array, key_name = [], value_name = value, loop_data = data, loop_values = v,
            loop_index = 0, loop_size = length vs, map_values = [], map_it = 0\<rparr>
        | _ \<Rightarrow> Inl Render_Error)
     else
       (case v of
          JObject kvs \<Rightarrow> Inr \<lparr>loop_type = Loop_Map, key_name = key, value_name = value, loop_data = data,
            loop_values = v, loop_index = 0, loop_size = 0,
            map_values = sort_by (\<lambda>a b. key_less (fst a) (fst b)) kvs, map_it = 0\<rparr>
        | _ \<Rightarrow> Inl Render_Error))"
  by (cases "key = []"; cases v) (simp_all add: new_level_def loop_start_def bc_plain_def)

text \<open>A loop starts with its first round, and has the others left.\<close>

lemma start_level_rounds:
  assumes "\<not> json_empty v" "r_stack st = v # stack" "length (r_loops st) < reserved_loops"
  shows "(\<exists>e. rounds key value v = Inl e \<and> start_level data (loop_start key value n) st = Inl e)
    \<or> (\<exists>f fs level. rounds key value v = Inr (f # fs) \<and> level_ok level \<and> remaining level = fs
        \<and> start_level data (loop_start key value n) st =
            and_then (link_parent (current_data data st)) (\<lambda>d. and_then (f d) (\<lambda>d.
              Inr (st\<lparr>r_stack := stack, r_loops := level\<lparr>loop_data := d\<rparr> # r_loops st\<rparr>))))"
proof (cases "key = []")
  case True
  show ?thesis
  proof (cases "\<exists>vs. v = JArray vs")
    case False
    then have "rounds key value v = Inl Render_Error" "new_level (loop_start key value n) v d = Inl Render_Error" for d
      using True by (simp_all add: new_level_start rounds_def split: json.split)
    with assms show ?thesis by (simp add: start_level_def)
  next
    case arr: True
    then obtain vs where v: "v = JArray vs" by blast
    with assms(1) have v: "v = JArray vs" "vs \<noteq> []" by (simp_all add: json_empty_def)
    let ?level = "\<lparr>loop_type = Loop_Array, key_name = [], value_name = value, loop_data = current_data data st,
      loop_values = v, loop_index = 0, loop_size = length vs, map_values = [], map_it = 0\<rparr>"
    have "rounds key value v = Inr (array_round value (length vs) 0 (vs ! 0) # remaining ?level)" "level_ok ?level"
      using v True by (simp_all add: rounds_def remaining_def level_ok_def json_elements_def upt_conv_Cons)
    moreover have "start_level data (loop_start key value n) st =
            and_then (link_parent (current_data data st)) (\<lambda>d. and_then (array_round value (length vs) 0 (vs ! 0) d) (\<lambda>d.
              Inr (st\<lparr>r_stack := stack, r_loops := ?level\<lparr>loop_data := d\<rparr> # r_loops st\<rparr>)))"
      using assms v True
      by (simp add: start_level_def new_level_start update_loop_data_def
          update_array_data_def json_at_position_def and_then_assoc)
    ultimately show ?thesis by blast
  qed
next
  case False
  show ?thesis
  proof (cases "\<exists>kvs. v = JObject kvs")
    case no: False
    then have "rounds key value v = Inl Render_Error" "new_level (loop_start key value n) v d = Inl Render_Error" for d
      using False by (simp_all add: new_level_start rounds_def split: json.split)
    with assms show ?thesis by (simp add: start_level_def)
  next
    case True
    then obtain kvs where v: "v = JObject kvs" by blast
    with assms(1) have v: "v = JObject kvs" "kvs \<noteq> []" by (simp_all add: json_empty_def)
    let ?kvs = "sort_by (\<lambda>a b. key_less (fst a) (fst b)) kvs"
    let ?level = "\<lparr>loop_type = Loop_Map, key_name = key, value_name = value, loop_data = current_data data st,
      loop_values = v, loop_index = 0, loop_size = 0, map_values = ?kvs, map_it = 0\<rparr>"
    obtain kv rest where kvs: "?kvs = kv # rest" using v by (cases ?kvs) auto
    have "rounds key value v = Inr (map_round key value kv # remaining ?level)" "level_ok ?level"
      using v False kvs by (simp_all add: rounds_def remaining_def level_ok_def)
    moreover have "start_level data (loop_start key value n) st =
            and_then (link_parent (current_data data st)) (\<lambda>d. and_then (map_round key value kv d) (\<lambda>d.
              Inr (st\<lparr>r_stack := stack, r_loops := ?level\<lparr>loop_data := d\<rparr> # r_loops st\<rparr>)))"
      using assms v False kvs
      by (simp add: start_level_def new_level_start update_loop_data_def
          update_map_data_def and_then_assoc)
    ultimately show ?thesis by blast
  qed
qed

lemma write_out_simps [simp]:
  "r_loops (write_out s st) = r_loops st" "r_stack (write_out s st) = r_stack st"
  "current_data data (write_out s st) = current_data data st"
  "write_out t (write_out s st) = write_out (s @ t) st" "write_out [] st = st"
  "(write_out s st)\<lparr>r_loops := l\<rparr> = write_out s (st\<lparr>r_loops := l\<rparr>)"
  by (simp_all add: write_out_def current_data_def)

text \<open>From the end of a round to the end of the loop.\<close>

lemma leads_rounds:
  assumes at: "e < length code" "code ! e = bc_plain Op_EndLoop p" "p < 2 ^ 30"
    and body: "\<And>st. length (r_loops st) = Suc (length loops) \<Longrightarrow>
      leads env data code p st (and_then (body (current_data data st)) (\<lambda>s. Inr (e, write_out s st)))"
    and level: "level_ok level" "r_loops st = level # loops"
  shows "leads env data code e st (and_then (run_rounds body (remaining level) (loop_data level))
    (\<lambda>s. Inr (e + 1, write_out s (st\<lparr>r_loops := loops\<rparr>))))"
  using level
proof (induction "remaining level" arbitrary: level st)
  case Nil
  then have "snd (next_round level)" by (simp add: next_round_finished)
  with leads_step [OF at(1), of env data st] Nil show ?case
    by (simp add: at render_step_def Let_def case_prod_beta flip: Nil.hyps)
next
  case (Cons f fs)
  from Cons have "\<not> snd (next_round level)" by (auto simp: next_round_finished [OF Cons.prems(1)])
  obtain level' where l: "fst (next_round level) = level'" "level_ok level'" "remaining level' = fs"
    "update_loop_data level' = and_then (f (loop_data level)) (\<lambda>d. Inr (level'\<lparr>loop_data := d\<rparr>))"
    using next_round_update [OF Cons.prems(1) Cons.hyps(2) [symmetric]] by metis
  let ?st = "\<lambda>d. st\<lparr>r_loops := level'\<lparr>loop_data := d\<rparr> # loops\<rparr>"
  have "leads env data code e st (and_then (f (loop_data level)) (\<lambda>d. Inr (p, ?st d)))"
    using leads_step [OF at(1), of env data st] Cons.prems \<open>\<not> _\<close> l at
    by (simp add: render_step_def Let_def case_prod_beta and_then_assoc)
  then have "leads env data code e st (and_then (f (loop_data level)) (\<lambda>d.
      and_then (body d) (\<lambda>s. and_then (run_rounds body fs d) (\<lambda>t.
        Inr (e + 1, write_out (s @ t) (st\<lparr>r_loops := loops\<rparr>))))))"
  proof (rule leads_and_then)
    fix d
    have "leads env data code p (?st d) (and_then (body d) (\<lambda>s. Inr (e, write_out s (?st d))))"
      using body [of "?st d"] by (simp add: current_data_def)
    then show "leads env data code p (?st d) (and_then (body d) (\<lambda>s. and_then (run_rounds body fs d) (\<lambda>t.
        Inr (e + 1, write_out (s @ t) (st\<lparr>r_loops := loops\<rparr>)))))"
    proof (rule leads_and_then)
      fix s
      show "leads env data code e (write_out s (?st d)) (and_then (run_rounds body fs d) (\<lambda>t.
        Inr (e + 1, write_out (s @ t) (st\<lparr>r_loops := loops\<rparr>))))"
        using Cons.hyps(1) [of "level'\<lparr>loop_data := d\<rparr>" "write_out s (?st d)"] l by simp
    qed
  qed
  then show ?case by (simp add: Cons.hyps(2) [symmetric] and_then_assoc)
qed


section \<open>Statements\<close>

lemma finish_print:
  "finish env data Op_PrintValue [v] rest st
     = and_then (print_value env v) (\<lambda>s. Inr (write_out s (st\<lparr>r_stack := rest\<rparr>)))"
  by (simp add: finish_def)

lemma leads_print:
  assumes wf: "wf_expr e" and at: "code_at code i (merge Op_PrintValue 1 (comp_expr e))"
  shows "leads env data code i st
    (and_then (eval env data (current_data data st) e) (\<lambda>v. and_then (print_value env v) (\<lambda>s.
      Inr (i + length (merge Op_PrintValue 1 (comp_expr e)), write_out s st))))"
proof -
  have "code_at code i (comp_expr e)" if "\<not> is_atom e"
    using at merge_compound [OF wf that, of Op_PrintValue 1 "[]"] by (simp add: code_at_append)
  then have "leads env data code i st (and_then (Inr []) (\<lambda>vs. and_then (eval env data (current_data data st) e) (\<lambda>v.
      and_then (finish env data Op_PrintValue (vs @ [v]) (r_stack st) st) (\<lambda>st.
        Inr (i + length (merge Op_PrintValue (Suc 0) ([] @ comp_expr e)), st)))))"
    using leads_expr [OF wf] at
    by (intro leads_merge [OF _ wf]) (auto intro: leads_refl simp: argument_ops_def)
  then show ?thesis by (simp add: finish_print and_then_assoc)
qed

text \<open>An expression and the conditional jump after it.\<close>

lemma leads_condition:
  assumes "wf_expr e" "code_at code i (comp_expr e @ [bc_plain Op_ConditionalJump k])" "k < 2 ^ 30"
  shows "leads env data code i st
    (and_then (and_then (eval env data (current_data data st) e) (truthy (re_double env)))
      (\<lambda>t. Inr (if t then i + length (comp_expr e) + 1 else k, st)))"
proof -
  let ?j = "i + length (comp_expr e)"
  have at: "code_at code i (comp_expr e)" "?j < length code" "code ! ?j = bc_plain Op_ConditionalJump k"
    using assms(2) by (simp_all add: code_at_append code_at_Cons)
  show ?thesis
    unfolding and_then_assoc
  proof (rule leads_expr_then [OF assms(1) at(1)])
    fix v
    show "leads env data code ?j (st\<lparr>r_stack := v # r_stack st\<rparr>) (and_then (truthy (re_double env) v)
        (\<lambda>t. Inr (if t then i + length (comp_expr e) + 1 else k, st)))"
      using leads_step [OF at(2), of env data "st\<lparr>r_stack := v # r_stack st\<rparr>"] at(3) assms(3)
      by (simp add: render_step_def Let_def cong: if_cong)
  qed
qed

lemma leads_jump:
  assumes "i < length code" "code ! i = bc_plain Op_Jump k" "k < 2 ^ 30"
  shows "leads env data code i st (Inr (k, st))"
  using leads_step [OF assms(1), of env data st] assms(2,3) by (simp add: render_step_def Let_def)

lemma leads_if_then:
  assumes small: "length code < 2 ^ 30" and wf: "wf_expr e" and at: "code_at code i (comp_node i (If_Then e b))"
    and body: "\<And>j. code_at code j (comp_nodes j b) \<Longrightarrow>
      leads env data code j st (and_then m (\<lambda>s. Inr (j + length (comp_nodes j b), write_out s st)))"
  shows "leads env data code i st
    (and_then (and_then (and_then (eval env data (current_data data st) e) (truthy (re_double env)))
      (\<lambda>t. if t then m else Inr [])) (\<lambda>s. Inr (i + length (comp_node i (If_Then e b)), write_out s st)))"
proof -
  let ?p = "i + length (comp_expr e) + 1"
  let ?stop = "?p + length (comp_nodes ?p b)"
  have len: "i + length (comp_node i (If_Then e b)) = ?stop" by (simp add: Let_def)
  have k: "?stop < 2 ^ 30" using code_at_bound [OF at] small by (simp add: Let_def)
  have c: "code_at code i (comp_expr e @ [bc_plain Op_ConditionalJump ?stop])" "code_at code ?p (comp_nodes ?p b)"
    using at by (simp_all add: code_at_append code_at_Cons Let_def add.assoc)
  show ?thesis
    unfolding len and_then_assoc [of _ "\<lambda>t. if t then m else Inr []"]
    by (rule leads_and_then [OF leads_condition [OF wf c(1) k]])
      (use body [OF c(2)] in \<open>auto intro: leads_refl\<close>)
qed

lemma leads_if_else:
  assumes small: "length code < 2 ^ 30" and wf: "wf_expr e" and at: "code_at code i (comp_node i (If_Else e b d))"
    and body: "\<And>j. code_at code j (comp_nodes j b) \<Longrightarrow>
      leads env data code j st (and_then m (\<lambda>s. Inr (j + length (comp_nodes j b), write_out s st)))"
    and other: "\<And>j. code_at code j (comp_nodes j d) \<Longrightarrow>
      leads env data code j st (and_then m' (\<lambda>s. Inr (j + length (comp_nodes j d), write_out s st)))"
  shows "leads env data code i st
    (and_then (and_then (and_then (eval env data (current_data data st) e) (truthy (re_double env)))
      (\<lambda>t. if t then m else m')) (\<lambda>s. Inr (i + length (comp_node i (If_Else e b d)), write_out s st)))"
proof -
  let ?p = "i + length (comp_expr e) + 1"
  let ?j = "?p + length (comp_nodes ?p b)"
  let ?stop = "?j + 1 + length (comp_nodes (?j + 1) d)"
  have len: "i + length (comp_node i (If_Else e b d)) = ?stop" by (simp add: Let_def)
  have k: "?stop < 2 ^ 30" using code_at_bound [OF at] small by (simp add: Let_def)
  have c: "code_at code i (comp_expr e @ [bc_plain Op_ConditionalJump (?j + 1)])" "code_at code ?p (comp_nodes ?p b)"
    "?j < length code" "code ! ?j = bc_plain Op_Jump ?stop" "code_at code (?j + 1) (comp_nodes (?j + 1) d)"
    using at by (simp_all add: code_at_append code_at_Cons Let_def add.assoc)
  have k': "?j + 1 < 2 ^ 30" using k by simp
  have "leads env data code ?p st (and_then m (\<lambda>s. Inr (?stop, write_out s st)))"
    by (rule leads_and_then [OF body [OF c(2)]]) (rule leads_jump [OF c(3,4) k])
  then show ?thesis
    unfolding len and_then_assoc [of _ "\<lambda>t. if t then m else m'"]
    by (intro leads_and_then [OF leads_condition [OF wf c(1) k']]) (use other [OF c(5)] in auto)
qed

lemma bc_target_loop_start: "n < 2 ^ 30 \<Longrightarrow> bc_target (loop_start key value n) = n"
  by (simp add: loop_start_def bc_target_def bc_plain_def)

lemma render_step_start:
  "bc_op bc = Op_StartLoop \<Longrightarrow> r_stack st = v # stack \<Longrightarrow> render_step env data bc i st =
     (if json_empty v then Inr (bc_target bc + 1, st\<lparr>r_stack := stack\<rparr>)
      else and_then (start_level data bc st) (\<lambda>st. Inr (i + 1, st)))"
  by (simp add: render_step_def)

lemma leads_for:
  assumes small: "length code < 2 ^ 30" and wf: "wf_expr e" and at: "code_at code i (comp_node i (For key value e b))"
    and body: "\<And>j st. code_at code j (comp_nodes j b) \<Longrightarrow>
      leads env data code j st (and_then (meanings env data (length (r_loops st)) (current_data data st) b)
        (\<lambda>s. Inr (j + length (comp_nodes j b), write_out s st)))"
  shows "leads env data code i st
    (and_then (meaning env data (length (r_loops st)) (current_data data st) (For key value e b))
      (\<lambda>s. Inr (i + length (comp_node i (For key value e b)), write_out s st)))"
proof -
  let ?s = "i + length (comp_expr e)" and ?cur = "current_data data st"
  let ?p = "?s + 1"
  let ?e = "?p + length (comp_nodes ?p b)"
  let ?m = "\<lambda>cur. meanings env data (Suc (length (r_loops st))) cur b"
  have len: "i + length (comp_node i (For key value e b)) = ?e + 1" by (simp add: Let_def)
  have k: "?e + 1 < 2 ^ 30" using code_at_bound [OF at] small by (simp add: Let_def)
  have c: "code_at code i (comp_expr e)" "?s < length code" "code ! ?s = loop_start key value ?e"
    "code_at code ?p (comp_nodes ?p b)" "?e < length code" "code ! ?e = bc_plain Op_EndLoop ?p"
    using at by (simp_all add: code_at_append code_at_Cons Let_def add.assoc)
  have start: "bc_target (loop_start key value ?e) = ?e" "bc_op (loop_start key value ?e) = Op_StartLoop"
    using k by (simp_all add: bc_target_loop_start) (simp add: loop_start_def)
  show ?thesis
    unfolding len meaning.simps and_then_assoc
  proof (rule leads_expr_then [OF wf c(1)])
    fix v
    let ?st = "st\<lparr>r_stack := v # r_stack st\<rparr>"
    let ?r = "if json_empty v then Inr (?e + 1, st)
      else and_then (start_level data (loop_start key value ?e) ?st) (\<lambda>st. Inr (?p, st))"
    have eq: "render_step env data (loop_start key value ?e) ?s ?st = ?r"
      using render_step_start [OF start(2), of ?st v "r_stack st" env data ?s] unfolding start(1) by simp
    have step: "leads env data code ?s ?st ?r"
      using leads_step [OF c(2), of env data ?st] unfolding c(3) eq start(2) by simp
    consider "json_empty v" | "\<not> json_empty v" "reserved_loops \<le> length (r_loops st)"
      | "\<not> json_empty v" "length (r_loops st) < reserved_loops" by linarith
    then show "leads env data code ?s ?st
      (and_then (if json_empty v then Inr []
          else if reserved_loops \<le> length (r_loops st) then Inl Use_After_Free
          else and_then (rounds key value v) (\<lambda>fs. and_then (link_parent ?cur) (run_rounds ?m fs)))
        (\<lambda>s. Inr (?e + 1, write_out s st)))"
    proof cases
      case 1
      with step show ?thesis by simp
    next
      case 2
      with step show ?thesis by (simp add: start_level_def)
    next
      case 3
      from start_level_rounds [OF 3(1), of ?st "r_stack st" key "value" data ?e] 3
      consider f where "rounds key value v = Inl f" "start_level data (loop_start key value ?e) ?st = Inl f"
        | f fs level where "rounds key value v = Inr (f # fs)" "level_ok level" "remaining level = fs"
          "start_level data (loop_start key value ?e) ?st = and_then (link_parent ?cur) (\<lambda>d. and_then (f d) (\<lambda>d.
            Inr (st\<lparr>r_loops := level\<lparr>loop_data := d\<rparr> # r_loops st\<rparr>)))"
        by auto
      then show ?thesis
      proof cases
        case 1
        with 3 step show ?thesis by simp
      next
        case 2
        have round_body: "leads env data code ?p st' (and_then (?m (current_data data st')) (\<lambda>s. Inr (?e, write_out s st')))"
          if "length (r_loops st') = Suc (length (r_loops st))" for st'
          using body [OF c(4), of st'] unfolding that .
        let ?lst = "\<lambda>d. st\<lparr>r_loops := level\<lparr>loop_data := d\<rparr> # r_loops st\<rparr>"
        have "leads env data code ?s ?st (and_then (and_then (link_parent ?cur) f) (\<lambda>d. Inr (?p, ?lst d)))"
          using step 3 2 by (simp add: and_then_assoc)
        then have "leads env data code ?s ?st (and_then (and_then (link_parent ?cur) f) (\<lambda>d.
          and_then (?m d) (\<lambda>s. and_then (run_rounds ?m fs d) (\<lambda>t. Inr (?e + 1, write_out (s @ t) st)))))"
        proof (rule leads_and_then)
          fix d
          have "leads env data code ?p (?lst d) (and_then (?m d) (\<lambda>s. Inr (?e, write_out s (?lst d))))"
            using body [OF c(4), of "?lst d"] by (simp add: current_data_def)
          then show "leads env data code ?p (?lst d) (and_then (?m d) (\<lambda>s.
            and_then (run_rounds ?m fs d) (\<lambda>t. Inr (?e + 1, write_out (s @ t) st))))"
          proof (rule leads_and_then)
            fix s
            have "leads env data code ?e (write_out s (?lst d)) (and_then (run_rounds ?m (remaining (level\<lparr>loop_data := d\<rparr>))
                (loop_data (level\<lparr>loop_data := d\<rparr>))) (\<lambda>t. Inr (?e + 1, write_out t ((write_out s (?lst d))\<lparr>r_loops := r_loops st\<rparr>))))"
              using 2 k by (intro leads_rounds [OF c(5,6) _ round_body]) auto
            then show "leads env data code ?e (write_out s (?lst d)) (and_then (run_rounds ?m fs d)
              (\<lambda>t. Inr (?e + 1, write_out (s @ t) st)))"
              using 2 by simp
          qed
        qed
        with 3 2 show ?thesis by (simp add: and_then_assoc)
      qed
    qed
  qed
qed

text \<open>Statements anywhere in a program write their meaning and leave the stacks as they were.\<close>

theorem leads_nodes:
  assumes small: "length code < 2 ^ 30"
  shows "wf_node t \<Longrightarrow> code_at code i (comp_node i t) \<Longrightarrow> leads env data code i st
      (and_then (meaning env data (length (r_loops st)) (current_data data st) t)
        (\<lambda>s. Inr (i + length (comp_node i t), write_out s st)))"
    and "wf_nodes ts \<Longrightarrow> code_at code i (comp_nodes i ts) \<Longrightarrow> leads env data code i st
      (and_then (meanings env data (length (r_loops st)) (current_data data st) ts)
        (\<lambda>s. Inr (i + length (comp_nodes i ts), write_out s st)))"
proof (induction t and ts arbitrary: i st and i st rule: wf_node_wf_nodes.induct)
  case (1 s)
  then have at: "i < length code" "code ! i = bc_string Op_PrintText s ValuePop" by (simp_all add: code_at_Cons)
  show ?case using leads_step [OF at(1), of env data st] at(2) by (simp add: render_step_def Let_def)
next
  case (2 e)
  with leads_print [of e code i env data st] show ?case by (simp add: and_then_assoc)
next
  case (3 e b)
  then have "leads env data code i st
    (and_then (and_then (and_then (eval env data (current_data data st) e) (truthy (re_double env)))
      (\<lambda>t. if t then meanings env data (length (r_loops st)) (current_data data st) b else Inr []))
      (\<lambda>s. Inr (i + length (comp_node i (If_Then e b)), write_out s st)))"
    by (intro leads_if_then [OF small]) auto
  then show ?case by (simp add: and_then_assoc del: comp_node.simps)
next
  case (4 e b d)
  then have "leads env data code i st
    (and_then (and_then (and_then (eval env data (current_data data st) e) (truthy (re_double env)))
      (\<lambda>t. if t then meanings env data (length (r_loops st)) (current_data data st) b
           else meanings env data (length (r_loops st)) (current_data data st) d))
      (\<lambda>s. Inr (i + length (comp_node i (If_Else e b d)), write_out s st)))"
    by (intro leads_if_else [OF small]) auto
  then show ?case by (simp add: and_then_assoc del: comp_node.simps)
next
  case (5 key val e b)
  then show ?case by (intro leads_for [OF small]) auto
next
  case 6
  show ?case by (simp add: leads_refl)
next
  case (7 t ts)
  let ?j = "i + length (comp_node i t)" and ?m = "meanings env data (length (r_loops st)) (current_data data st) ts"
  have at: "code_at code i (comp_node i t)" "code_at code ?j (comp_nodes ?j ts)"
    using 7 by (simp_all add: code_at_append Let_def)
  have "leads env data code i st (and_then (meaning env data (length (r_loops st)) (current_data data st) t)
      (\<lambda>s. and_then ?m (\<lambda>u. Inr (?j + length (comp_nodes ?j ts), write_out (s @ u) st))))"
  proof (rule leads_and_then)
    show "leads env data code i st (and_then (meaning env data (length (r_loops st)) (current_data data st) t)
        (\<lambda>s. Inr (?j, write_out s st)))"
      using 7 at by simp
    fix s
    show "leads env data code ?j (write_out s st) (and_then ?m (\<lambda>u. Inr (?j + length (comp_nodes ?j ts), write_out (s @ u) st)))"
      using 7(2) [OF _ at(2), of "write_out s st"] 7(3) by simp
  qed
  then show ?case by (simp add: and_then_assoc Let_def add.assoc)
qed

text \<open>
  With enough fuel the machine gives exactly the meaning of the template, its text or its fault.
\<close>

theorem render_compiled:
  assumes "wf_nodes ts" "length (compile_template ts) < 2 ^ 30" "bytecodes tmpl = compile_template ts"
  shows "\<exists>m. \<forall>n \<ge> m. render_template n env tmpl data = meanings env data 0 data ts"
proof -
  let ?code = "compile_template ts"
  have "leads env data ?code 0 render_init (and_then (meanings env data 0 data ts)
      (\<lambda>s. Inr (length ?code, write_out s render_init)))"
    using leads_nodes(2) [OF assms(2,1), of 0 env data render_init]
    by (simp add: compile_template_def code_at_self render_init_def current_data_def)
  then obtain m where m: "\<And>n. render_run (m + n) env data ?code 0 render_init
      = and_then (meanings env data 0 data ts) (\<lambda>s. render_run n env data ?code (length ?code) (write_out s render_init))"
    by (auto simp: leads_def and_then_assoc)
  have "render_template n env tmpl data = meanings env data 0 data ts" if "m + 1 \<le> n" for n
  proof -
    obtain k where n: "n = m + Suc k" using \<open>m + 1 \<le> n\<close> by (metis Suc_eq_plus1 add_Suc_shift le_add_diff_inverse)
    show ?thesis
      unfolding render_template_def assms(3) n m
      by (cases "meanings env data 0 data ts") (simp_all add: write_out_def render_init_def)
  qed
  then show ?thesis by blast
qed

end
