(* ===== verification/Eastl_String.thy ===== *)
theory Eastl_String
  imports Repo_Prelude "HOL-Library.Word"
begin

text \<open>
  The operations of \<^verbatim>\<open>eastl::basicString<char>\<close> the tool uses
  (\<^verbatim>\<open>src/extlibs/eastl/string.h\<close>). A string is its list of bytes; positions and
  lengths are \<open>size_type\<close> values, 64-bit words with wrap-around, because
  \<^verbatim>\<open>EASTL_SIZE_T_32BIT\<close> is 0. The scanning helpers return the offset of the pointer the
  C++ code returns. A position past the end, which the library does not check in the tool's
  build (exceptions off), is the fault \<open>Out_Of_Bounds\<close>.
\<close>

type_synonym size_type = "64 word"

definition npos :: size_type where
  "npos = - 1"

definition str_size :: "string \<Rightarrow> size_type" where
  "str_size s = word_of_nat (length s)"

text \<open>A string that fits in memory: its length is far below \<open>npos\<close>.\<close>

definition fits :: "'a list \<Rightarrow> bool" where
  "fits s \<longleftrightarrow> length s < 2 ^ 63"

section \<open>Scanning helpers\<close>

fun CharTypeStringFindFirstOf :: "string \<Rightarrow> string \<Rightarrow> nat" where
  "CharTypeStringFindFirstOf [] p = 0"
| "CharTypeStringFindFirstOf (c # s) p =
     (if c \<in> set p then 0 else Suc (CharTypeStringFindFirstOf s p))"

fun CharTypeStringRFindFirstOf :: "string \<Rightarrow> nat \<Rightarrow> string \<Rightarrow> nat" where
  "CharTypeStringRFindFirstOf s 0 p = 0"
| "CharTypeStringRFindFirstOf s (Suc k) p =
     (if s ! k \<in> set p then Suc k else CharTypeStringRFindFirstOf s k p)"

fun CharTypeStringFindFirstNotOf :: "string \<Rightarrow> string \<Rightarrow> nat" where
  "CharTypeStringFindFirstNotOf [] p = 0"
| "CharTypeStringFindFirstNotOf (c # s) p =
     (if c \<in> set p then Suc (CharTypeStringFindFirstNotOf s p) else 0)"

fun CharTypeStringRFindFirstNotOf :: "string \<Rightarrow> nat \<Rightarrow> string \<Rightarrow> nat" where
  "CharTypeStringRFindFirstNotOf s 0 p = 0"
| "CharTypeStringRFindFirstNotOf s (Suc k) p =
     (if s ! k \<in> set p then CharTypeStringRFindFirstNotOf s k p else Suc k)"

section \<open>Searches\<close>

definition findFirstOf :: "string \<Rightarrow> string \<Rightarrow> size_type \<Rightarrow> size_type" where
  "findFirstOf s p position =
     (if position < str_size s
      then let r = unat position + CharTypeStringFindFirstOf (drop (unat position) s) p
           in if r \<noteq> length s then word_of_nat r else npos
      else npos)"

definition findLastOf :: "string \<Rightarrow> string \<Rightarrow> size_type \<Rightarrow> size_type" where
  "findLastOf s p position =
     (let nLength = str_size s in
      if nLength \<noteq> 0
      then let pEnd = unat (min (nLength - 1) position + 1);
               r = CharTypeStringRFindFirstOf s pEnd p
           in if r \<noteq> 0 then word_of_nat (r - 1) else npos
      else npos)"

definition findFirstNotOf :: "string \<Rightarrow> string \<Rightarrow> size_type \<Rightarrow> size_type" where
  "findFirstNotOf s p position =
     (if position \<le> str_size s
      then let r = unat position + CharTypeStringFindFirstNotOf (drop (unat position) s) p
           in if r \<noteq> length s then word_of_nat r else npos
      else npos)"

definition findLastNotOf :: "string \<Rightarrow> string \<Rightarrow> size_type \<Rightarrow> size_type" where
  "findLastNotOf s p position =
     (let nLength = str_size s in
      if nLength \<noteq> 0
      then let pEnd = unat (min (nLength - 1) position + 1);
               r = CharTypeStringRFindFirstNotOf s pEnd p
           in if r \<noteq> 0 then word_of_nat (r - 1) else npos
      else npos)"

section \<open>Substrings, erasure, comparison, access\<close>

definition substr :: "string \<Rightarrow> size_type \<Rightarrow> size_type \<Rightarrow> string result" where
  "substr s position n =
     (if position > str_size s then Inl Out_Of_Bounds
      else Inr (take (unat (min n (str_size s - position))) (drop (unat position) s)))"

definition erase :: "string \<Rightarrow> size_type \<Rightarrow> size_type \<Rightarrow> string result" where
  "erase s position n =
     (if position > str_size s then Inl Out_Of_Bounds
      else let b = unat position; e = b + unat (min n (str_size s - position))
           in Inr (take b s @ drop e s))"

text \<open>The sign of \<open>memcmp\<close> on equally long buffers, then the shorter string first.\<close>

fun mem_compare :: "string \<Rightarrow> string \<Rightarrow> int" where
  "mem_compare (a # s) (b # t) =
     (if a = b then mem_compare s t
      else if (of_char a :: nat) < of_char b then - 1 else 1)"
| "mem_compare _ _ = 0"

definition compare :: "string \<Rightarrow> string \<Rightarrow> int" where
  "compare s t =
     (let nMin = min (length s) (length t);
          cmp = mem_compare (take nMin s) (take nMin t)
      in if cmp \<noteq> 0 then cmp
         else if length s < length t then - 1 else if length s > length t then 1 else 0)"

definition char_at :: "string \<Rightarrow> size_type \<Rightarrow> char result" where
  "char_at s n =
     (if n < str_size s then Inr (s ! unat n)
      else if n = str_size s then Inr NUL else Inl Out_Of_Bounds)"

definition str_back :: "string \<Rightarrow> char result" where
  "str_back s = (if s = [] then Inl Out_Of_Bounds else Inr (last s))"

section \<open>Lemmas\<close>

lemma unat_word_of_nat_fits: "fits s \<Longrightarrow> n \<le> length s \<Longrightarrow> unat (word_of_nat n :: size_type) = n"
  by (simp add: fits_def unsigned_of_nat take_bit_nat_eq_self)

lemma unat_str_size [simp]: "fits s \<Longrightarrow> unat (str_size s) = length s"
  by (simp add: str_size_def unat_word_of_nat_fits)

lemma unat_npos: "unat npos = 2 ^ 64 - 1"
  by (simp add: npos_def unsigned_minus_1_eq_mask mask_eq_exp_minus_1)

lemma min_npos [simp]: "min npos x = x" "min x npos = x"
  by (auto simp: npos_def min_def word_order.extremum_unique)

lemma fits_drop [simp]: "fits s \<Longrightarrow> fits (drop n s)"
  by (simp add: fits_def)

lemma fits_take [simp]: "fits s \<Longrightarrow> fits (take n s)"
  by (simp add: fits_def)

lemma fits_dropWhile [simp]: "fits s \<Longrightarrow> fits (dropWhile P s)"
  using length_dropWhile_le [of P s] by (simp add: fits_def)

lemma fits_rev [simp]: "fits (rev s) = fits s"
  by (simp add: fits_def)

lemma find_first_not_of_takeWhile:
  "CharTypeStringFindFirstNotOf s p = length (takeWhile (\<lambda>c. c \<in> set p) s)"
  by (induction s) auto

lemma find_first_of_takeWhile:
  "CharTypeStringFindFirstOf s p = length (takeWhile (\<lambda>c. c \<notin> set p) s)"
  by (induction s) auto

lemma rfind_first_not_of_dropWhile:
  "k \<le> length s \<Longrightarrow>
   CharTypeStringRFindFirstNotOf s k p = length (dropWhile (\<lambda>c. c \<in> set p) (rev (take k s)))"
  by (induction k) (auto simp: take_Suc_conv_app_nth)

lemma rfind_first_of_dropWhile:
  "k \<le> length s \<Longrightarrow>
   CharTypeStringRFindFirstOf s k p = length (dropWhile (\<lambda>c. c \<notin> set p) (rev (take k s)))"
  by (induction k) (auto simp: take_Suc_conv_app_nth)

lemma min_pred_npos:
  assumes "fits s" "s \<noteq> []"
  shows "unat (min (str_size s - 1) npos + 1) = length s"
proof -
  have "min (str_size s - 1) npos + 1 = str_size s"
    by simp
  then show ?thesis
    using assms by (metis unat_str_size)
qed

lemma str_size_zero_iff: "fits s \<Longrightarrow> str_size s = 0 \<longleftrightarrow> s = []"
  by (auto simp: str_size_def fits_def word_of_nat_eq_0_iff dest: nat_dvd_not_less)

lemma findLastNotOf_npos:
  assumes "fits s"
  shows "findLastNotOf s p npos + 1 = word_of_nat (length (dropWhile (\<lambda>c. c \<in> set p) (rev s)))"
proof (cases "s = []")
  case True
  then show ?thesis by (simp add: findLastNotOf_def str_size_def npos_def)
next
  case False
  let ?d = "dropWhile (\<lambda>c. c \<in> set p) (rev s)"
  have "findLastNotOf s p npos = (if ?d = [] then npos else word_of_nat (length ?d - 1))"
    using assms False
    by (simp add: findLastNotOf_def str_size_zero_iff min_pred_npos rfind_first_not_of_dropWhile
        Let_def)
  then show ?thesis
    by (cases ?d) (simp_all add: npos_def del: dropWhile_eq_Nil_conv)
qed

lemma findLastOf_npos:
  assumes "fits s"
  shows "findLastOf s p npos + 1 = word_of_nat (length (dropWhile (\<lambda>c. c \<notin> set p) (rev s)))"
proof (cases "s = []")
  case True
  then show ?thesis by (simp add: findLastOf_def str_size_def npos_def)
next
  case False
  let ?d = "dropWhile (\<lambda>c. c \<notin> set p) (rev s)"
  have "findLastOf s p npos = (if ?d = [] then npos else word_of_nat (length ?d - 1))"
    using assms False
    by (simp add: findLastOf_def str_size_zero_iff min_pred_npos rfind_first_of_dropWhile
        Let_def)
  then show ?thesis
    by (cases ?d) (simp_all add: npos_def del: dropWhile_eq_Nil_conv)
qed

lemma erase_prefix:
  assumes "fits s" "n \<le> length s"
  shows "erase s 0 (word_of_nat n) = Inr (drop n s)"
proof -
  have "unat (word_of_nat n :: size_type) = n"
    using assms by (rule unat_word_of_nat_fits)
  then have "unat (min (word_of_nat n) (str_size s)) = n"
    using assms by (simp add: min_def word_le_nat_alt)
  then show ?thesis by (simp add: erase_def word_not_simps)
qed

lemma erase_all: "fits s \<Longrightarrow> erase s 0 npos = Inr []"
  by (simp add: erase_def)

lemma erase_suffix:
  assumes "fits s" "n \<le> length s"
  shows "erase s (word_of_nat n) npos = Inr (take n s)"
proof -
  have n: "unat (word_of_nat n :: size_type) = n"
    using assms by (rule unat_word_of_nat_fits)
  then have le: "(word_of_nat n :: size_type) \<le> str_size s"
    using assms by (simp add: word_le_nat_alt)
  have "unat (str_size s - word_of_nat n) = length s - n"
    using le n assms by (simp add: unat_sub)
  then show ?thesis
    using le n assms by (simp add: erase_def not_less Let_def)
qed

lemma mem_compare_zero: "length s = length t \<Longrightarrow> mem_compare s t = 0 \<longleftrightarrow> s = t"
  by (induction s t rule: mem_compare.induct) auto

lemma compare_eq_0 [simp]: "compare s t = 0 \<longleftrightarrow> s = t"
proof
  assume "compare s t = 0"
  then have "length s = length t" and "mem_compare s t = 0"
    by (auto simp: compare_def Let_def split: if_splits)
  then show "s = t" by (simp add: mem_compare_zero)
next
  assume "s = t"
  then show "compare s t = 0" by (simp add: compare_def mem_compare_zero)
qed

lemma substr_ok:
  assumes "fits s" "p \<le> length s"
  shows "substr s (word_of_nat p) n = Inr (take (unat n) (drop p s))"
proof -
  have p: "unat (word_of_nat p :: size_type) = p"
    using assms by (rule unat_word_of_nat_fits)
  then have le: "(word_of_nat p :: size_type) \<le> str_size s"
    using assms by (simp add: word_le_nat_alt)
  have d: "unat (str_size s - word_of_nat p) = length s - p"
    using le p assms by (simp add: unat_sub)
  show ?thesis
    using le p d assms by (simp add: substr_def not_less min_def word_le_nat_alt)
qed

end
