(* ===== verification/Repo_World.thy ===== *)
theory Repo_World
  imports Json_Roundtrip Eastl_String
begin

text \<open>
  The part of the outside the tool's own code changes: the files it writes and the console. A
  step maps a world to a result and the world it leaves; a fault keeps the world reached so far,
  so that what a crash leaves behind can be stated. Files are maps from names to contents; which
  names can be opened for writing does not change during a run. File sizes are assumed to fit
  \<^verbatim>\<open>int\<close>, as the code does.
\<close>

record world =
  files :: "string \<Rightarrow> string option"
  writable :: "string \<Rightarrow> bool"
  console :: string

type_synonym 'a io = "world \<Rightarrow> 'a result \<times> world"

definition io_return :: "'a \<Rightarrow> 'a io" where
  "io_return x w = (Inr x, w)"

definition io_fail :: "fault \<Rightarrow> 'a io" where
  "io_fail f w = (Inl f, w)"

definition io_lift :: "'a result \<Rightarrow> 'a io" where
  "io_lift r w = (r, w)"

definition io_bind :: "'a io \<Rightarrow> ('a \<Rightarrow> 'b io) \<Rightarrow> 'b io" where
  "io_bind m f w =
     (case m w of
        (Inl e, w) \<Rightarrow> (Inl e, w)
      | (Inr x, w) \<Rightarrow> f x w)"

lemma io_simps [simp]:
  "io_return x w = (Inr x, w)" "io_fail e w = (Inl e, w)" "io_lift r w = (r, w)"
  "io_bind (io_return x) f = f x" "io_bind (io_fail e) f = io_fail e"
  "io_bind (io_lift (Inr x)) f = f x" "io_bind (io_lift (Inl e)) f = io_fail e"
  by (auto simp: io_return_def io_fail_def io_lift_def io_bind_def fun_eq_iff)

lemma io_bind_Inr: "m w = (Inr x, w') \<Longrightarrow> io_bind m f w = f x w'"
  by (simp add: io_bind_def)

lemma io_bind_Inl: "m w = (Inl e, w') \<Longrightarrow> io_bind m f w = (Inl e, w')"
  by (simp add: io_bind_def)

lemma io_bind_assoc: "io_bind (io_bind m f) g = io_bind m (\<lambda>x. io_bind (f x) g)"
  by (auto simp: io_bind_def fun_eq_iff split: prod.splits sum.splits)

section \<open>Library calls\<close>

definition printf :: "string \<Rightarrow> unit io" where
  "printf s w = (Inr (), w\<lparr>console := console w @ s\<rparr>)"

text \<open>
  Opening for reading gives the contents, for writing an empty file; a null name is a null
  pointer passed to \<^verbatim>\<open>fopen\<close>.
\<close>

definition fopen_read :: "string option \<Rightarrow> string option io" where
  "fopen_read name w =
     (case name of
        None \<Rightarrow> (Inl Null_Pointer, w)
      | Some n \<Rightarrow> (Inr (files w n), w))"

definition fopen_write :: "string option \<Rightarrow> bool io" where
  "fopen_write name w =
     (case name of
        None \<Rightarrow> (Inl Null_Pointer, w)
      | Some n \<Rightarrow>
          if writable w n then (Inr True, w\<lparr>files := (files w)(n := Some [])\<rparr>) else (Inr False, w))"

definition fwrite :: "string option \<Rightarrow> string \<Rightarrow> unit io" where
  "fwrite name s w =
     (case name of
        None \<Rightarrow> (Inl Null_Pointer, w)
      | Some n \<Rightarrow>
          (Inr (), w\<lparr>files := (files w)(n := Some ((case files w n of None \<Rightarrow> [] | Some t \<Rightarrow> t) @ s))\<rparr>))"

text \<open>Open for writing, and only then produce the text: a failing producer leaves an empty file.\<close>

definition write_file :: "string option \<Rightarrow> string result \<Rightarrow> bool io" where
  "write_file name contents =
     io_bind (fopen_write name) (\<lambda>ok.
       if \<not> ok then io_return False
       else io_bind (io_lift contents) (\<lambda>s. io_bind (fwrite name s) (\<lambda>_. io_return True)))"

lemma write_file_ok:
  "writable w n \<Longrightarrow>
   write_file (Some n) (Inr s) w = (Inr True, w\<lparr>files := (files w)(n \<mapsto> s)\<rparr>)"
  by (simp add: write_file_def io_bind_def fopen_write_def fwrite_def)

lemma write_file_fault:
  "writable w n \<Longrightarrow>
   write_file (Some n) (Inl e) w = (Inl e, w\<lparr>files := (files w)(n \<mapsto> [])\<rparr>)"
  by (simp add: write_file_def io_bind_def fopen_write_def)

lemma write_file_refused: "\<not> writable w n \<Longrightarrow> write_file (Some n) c w = (Inr False, w)"
  by (simp add: write_file_def io_bind_def fopen_write_def)

lemma write_file_null [simp]: "write_file None c w = (Inl Null_Pointer, w)"
  by (simp add: write_file_def io_bind_def fopen_write_def)

end
