(* ===== verification/Any_Option.thy ===== *)
theory Any_Option
  imports Repo_Prelude
begin

text \<open>
  The command line library (\<^verbatim>\<open>src/extlibs/anyoption/anyoption.cpp\<close>,
  \<^verbatim>\<open>anyoption.h\<close>): registration of options and flags in growing arrays, the shared
  value store, the scan of the command line and the accessors. Arrays are lists of their
  allocated length, a null pointer is \<open>None\<close>, and reading or writing outside an array is a
  fault. Allocation is assumed to succeed. Option files are in \<open>Any_Option_File\<close>.
\<close>

section \<open>State\<close>

abbreviation (input) COMMON_OPT :: nat where "COMMON_OPT \<equiv> 1"
abbreviation (input) COMMAND_OPT :: nat where "COMMAND_OPT \<equiv> 2"
abbreviation (input) FILE_OPT :: nat where "FILE_OPT \<equiv> 3"
abbreviation (input) COMMON_FLAG :: nat where "COMMON_FLAG \<equiv> 4"
abbreviation (input) COMMAND_FLAG :: nat where "COMMAND_FLAG \<equiv> 5"
abbreviation (input) FILE_FLAG :: nat where "FILE_FLAG \<equiv> 6"

definition TRUE_FLAG :: string where
  "TRUE_FLAG = ''true''"

record any_option =
  max_options :: nat
  options :: "string option list"
  optiontype :: "nat list"
  optionindex :: "int list"
  option_counter :: nat
  max_char_options :: nat
  optionchars :: "char list"
  optchartype :: "nat list"
  optcharindex :: "int list"
  optchar_counter :: nat
  max_usage_lines :: nat
  usage :: "string option list"
  usage_lines :: nat
  opt_values :: "string option list option"
  g_value_counter :: nat
  value_set :: bool
  argc :: nat
  argv :: "string list"
  new_argv :: "nat option list"
  new_argc :: nat
  max_legal_args :: nat
  command_set :: bool
  posix_style :: bool
  opt_prefix_char :: char
  long_opt_prefix :: string
  verbose :: bool
  autousage :: bool
  once :: bool
  hasoptions :: bool
  cout :: string
  option_filename :: "string option"
  file_set :: bool
  file_delimiter_char :: char
  file_comment_char :: char
  comment_char :: char
  delimiter_char :: char
  endofline :: char
  whitespace :: char

text \<open>\<^verbatim>\<open>init\<close> and \<^verbatim>\<open>alloc\<close>; the last cell of every array stays uninitialised.\<close>

definition init_option :: "nat \<Rightarrow> nat \<Rightarrow> any_option" where
  "init_option maxopt maxcharopt =
     \<lparr>max_options = maxopt, options = replicate (maxopt + 1) None,
      optiontype = replicate (maxopt + 1) 0, optionindex = replicate (maxopt + 1) (- 1),
      option_counter = 0,
      max_char_options = maxcharopt, optionchars = replicate (maxcharopt + 1) CHR ''0'',
      optchartype = replicate (maxcharopt + 1) 0, optcharindex = replicate (maxcharopt + 1) (- 1),
      optchar_counter = 0,
      max_usage_lines = 3, usage = replicate 4 None, usage_lines = 0,
      opt_values = None, g_value_counter = 0, value_set = False,
      argc = 0, argv = [], new_argv = [], new_argc = 0, max_legal_args = 0,
      command_set = False, posix_style = True, opt_prefix_char = CHR ''-'', long_opt_prefix = ''--'',
      verbose = False, autousage = False, once = True, hasoptions = False, cout = [],
      option_filename = None, file_set = False, file_delimiter_char = CHR '':'', file_comment_char = CHR ''#'',
      comment_char = CHR ''#'', delimiter_char = CHR '':'', endofline = CHR 0x0A, whitespace = CHR '' ''\<rparr>"

definition AnyOption :: any_option where
  "AnyOption = init_option 10 10"

section \<open>Growing the storage\<close>

definition doubleOptStorage :: "any_option \<Rightarrow> any_option" where
  "doubleOptStorage opt =
     (let n = max_options opt in
      opt\<lparr>options := take n (options opt) @ replicate n None @ [None],
          optiontype := take n (optiontype opt) @ replicate n 0 @ [0],
          optionindex := take n (optionindex opt) @ replicate n (- 1) @ [- 1],
          max_options := 2 * n\<rparr>)"

definition doubleCharStorage :: "any_option \<Rightarrow> any_option" where
  "doubleCharStorage opt =
     (let n = max_char_options opt in
      opt\<lparr>optionchars := take n (optionchars opt) @ replicate n CHR ''0'' @ [CHR ''0''],
          optchartype := take n (optchartype opt) @ replicate n 0 @ [0],
          optcharindex := take n (optcharindex opt) @ replicate n (- 1) @ [- 1],
          max_char_options := 2 * n\<rparr>)"

definition doubleUsageStorage :: "any_option \<Rightarrow> any_option" where
  "doubleUsageStorage opt =
     (let n = max_usage_lines opt in
      opt\<lparr>usage := take n (usage opt) @ replicate n None @ [None], max_usage_lines := 2 * n\<rparr>)"

section \<open>Registration\<close>

definition addUsage :: "string \<Rightarrow> any_option \<Rightarrow> any_option result" where
  "addUsage line opt =
     (let opt = (if max_usage_lines opt \<le> usage_lines opt then doubleUsageStorage opt else opt)
      in and_then (array_set (usage opt) (usage_lines opt) (Some line)) (\<lambda>us.
           Inr (opt\<lparr>usage := us, usage_lines := usage_lines opt + 1\<rparr>)))"

definition addOption :: "string \<Rightarrow> nat \<Rightarrow> any_option \<Rightarrow> any_option result" where
  "addOption name type opt =
     (let opt = (if max_options opt \<le> option_counter opt then doubleOptStorage opt else opt);
          n = option_counter opt
      in and_then (array_set (options opt) n (Some name)) (\<lambda>os.
         and_then (array_set (optiontype opt) n type) (\<lambda>ts.
         and_then (array_set (optionindex opt) n (int (g_value_counter opt))) (\<lambda>is.
           Inr (opt\<lparr>options := os, optiontype := ts, optionindex := is, option_counter := n + 1\<rparr>)))))"

definition print_verbose :: "string \<Rightarrow> any_option \<Rightarrow> any_option" where
  "print_verbose msg opt = (if verbose opt then opt\<lparr>cout := cout opt @ msg\<rparr> else opt)"

definition addCharOption :: "char \<Rightarrow> nat \<Rightarrow> any_option \<Rightarrow> any_option result" where
  "addCharOption ch type opt =
     (if \<not> posix_style opt then
        Inr (print_verbose (''Ignoring the option character '' @ [CHR 0x22, ch, CHR 0x22]
               @ '' ( POSIX options are turned off )'' @ [CHR 0x0A]) opt)
      else
        let opt = (if max_char_options opt \<le> optchar_counter opt then doubleCharStorage opt else opt);
            n = optchar_counter opt
        in and_then (array_set (optionchars opt) n ch) (\<lambda>os.
           and_then (array_set (optchartype opt) n type) (\<lambda>ts.
           and_then (array_set (optcharindex opt) n (int (g_value_counter opt))) (\<lambda>is.
             Inr (opt\<lparr>optionchars := os, optchartype := ts, optcharindex := is,
                      optchar_counter := n + 1\<rparr>)))))"

text \<open>
  The public setters: a long name, a character, or both, sharing one slot of the value store.
\<close>

definition count_value :: "any_option \<Rightarrow> any_option" where
  "count_value opt = opt\<lparr>g_value_counter := g_value_counter opt + 1\<rparr>"

definition set_entry :: "nat \<Rightarrow> string option \<Rightarrow> char option \<Rightarrow> any_option \<Rightarrow> any_option result" where
  "set_entry type name ch opt =
     and_then (case name of Some s \<Rightarrow> addOption s type opt | None \<Rightarrow> Inr opt) (\<lambda>opt.
     and_then (case ch of Some c \<Rightarrow> addCharOption c type opt | None \<Rightarrow> Inr opt) (\<lambda>opt.
       Inr (count_value opt)))"

definition setOption :: "string option \<Rightarrow> char option \<Rightarrow> any_option \<Rightarrow> any_option result" where
  "setOption = set_entry COMMON_OPT"

definition setFlag :: "string option \<Rightarrow> char option \<Rightarrow> any_option \<Rightarrow> any_option result" where
  "setFlag = set_entry COMMON_FLAG"

definition setCommandOption :: "string option \<Rightarrow> char option \<Rightarrow> any_option \<Rightarrow> any_option result" where
  "setCommandOption = set_entry COMMAND_OPT"

definition setCommandFlag :: "string option \<Rightarrow> char option \<Rightarrow> any_option \<Rightarrow> any_option result" where
  "setCommandFlag = set_entry COMMAND_FLAG"

definition setFileOption :: "string option \<Rightarrow> char option \<Rightarrow> any_option \<Rightarrow> any_option result" where
  "setFileOption = set_entry FILE_OPT"

definition setFileFlag :: "string option \<Rightarrow> char option \<Rightarrow> any_option \<Rightarrow> any_option result" where
  "setFileFlag = set_entry FILE_FLAG"

section \<open>Usage\<close>

fun usage_text :: "string option list \<Rightarrow> string result" where
  "usage_text [] = Inr []"
| "usage_text (None # us) = Inl Null_Pointer"
| "usage_text (Some s # us) = and_then (usage_text us) (\<lambda>t. Inr (s @ [CHR 0x0A] @ t))"

definition printUsage :: "any_option \<Rightarrow> any_option result" where
  "printUsage opt =
     (if once opt then
        (if length (usage opt) < usage_lines opt then Inl Out_Of_Bounds
         else and_then (usage_text (take (usage_lines opt) (usage opt))) (\<lambda>t.
           Inr (opt\<lparr>once := False, cout := cout opt @ [CHR 0x0A] @ t @ [CHR 0x0A]\<rparr>)))
      else Inr opt)"

definition printAutoUsage :: "any_option \<Rightarrow> any_option result" where
  "printAutoUsage opt = (if autousage opt then printUsage opt else Inr opt)"

definition unknown_argument :: "string \<Rightarrow> string \<Rightarrow> any_option \<Rightarrow> any_option result" where
  "unknown_argument msg arg opt = printAutoUsage (print_verbose (msg @ arg @ [CHR 0x0A]) opt)"

definition unknown_option :: "string \<Rightarrow> any_option \<Rightarrow> any_option result" where
  "unknown_option arg opt = unknown_argument ''Unknown command argument option : '' arg opt"

section \<open>The value store\<close>

definition valueStoreOK :: "any_option \<Rightarrow> bool \<times> any_option" where
  "valueStoreOK opt =
     (let opt = (if \<not> value_set opt \<and> 0 < g_value_counter opt
                 then opt\<lparr>opt_values := Some (replicate (g_value_counter opt) None), value_set := True\<rparr>
                 else opt)
      in (value_set opt, opt))"

definition value_at :: "int \<Rightarrow> any_option \<Rightarrow> string option result" where
  "value_at i opt =
     (case opt_values opt of
        None \<Rightarrow> Inl Null_Pointer
      | Some vs \<Rightarrow> if i < 0 then Inl Out_Of_Bounds else array_get vs (nat i))"

text \<open>\<^verbatim>\<open>allocValues\<close> and the copy into the new block.\<close>

definition store_value :: "int \<Rightarrow> string \<Rightarrow> any_option \<Rightarrow> any_option result" where
  "store_value i v opt =
     (case opt_values opt of
        None \<Rightarrow> Inl Null_Pointer
      | Some vs \<Rightarrow>
          if i < 0 then Inl Out_Of_Bounds
          else and_then (array_set vs (nat i) (Some v)) (\<lambda>vs. Inr (opt\<lparr>opt_values := Some vs\<rparr>)))"

definition name_is :: "any_option \<Rightarrow> string \<Rightarrow> nat \<Rightarrow> bool result" where
  "name_is opt name i =
     and_then (array_get (options opt) i) (\<lambda>e.
       case e of None \<Rightarrow> Inl Null_Pointer | Some s \<Rightarrow> Inr (s = name))"

definition char_is :: "any_option \<Rightarrow> char \<Rightarrow> nat \<Rightarrow> bool result" where
  "char_is opt ch i = and_then (array_get (optionchars opt) i) (\<lambda>c. Inr (c = ch))"

text \<open>The four accessors share their loops: find the first entry, then use its slot.\<close>

definition slot_of_name :: "string \<Rightarrow> any_option \<Rightarrow> int option result" where
  "slot_of_name name opt =
     and_then (search (name_is opt name) [0..<option_counter opt]) (\<lambda>r.
       case r of None \<Rightarrow> Inr None
       | Some i \<Rightarrow> and_then (array_get (optionindex opt) i) (\<lambda>k. Inr (Some k)))"

definition slot_of_char :: "char \<Rightarrow> any_option \<Rightarrow> int option result" where
  "slot_of_char ch opt =
     and_then (search (char_is opt ch) [0..<optchar_counter opt]) (\<lambda>r.
       case r of None \<Rightarrow> Inr None
       | Some i \<Rightarrow> and_then (array_get (optcharindex opt) i) (\<lambda>k. Inr (Some k)))"

definition get_slot ::
    "(any_option \<Rightarrow> int option result) \<Rightarrow> any_option \<Rightarrow> (string option \<times> any_option) result" where
  "get_slot slot opt =
     (let (ok, opt) = valueStoreOK opt in
      if \<not> ok then Inr (None, opt)
      else and_then (slot opt) (\<lambda>r.
        case r of None \<Rightarrow> Inr (None, opt)
        | Some k \<Rightarrow> and_then (value_at k opt) (\<lambda>v. Inr (v, opt))))"

definition put_slot ::
    "(any_option \<Rightarrow> int option result) \<Rightarrow> string \<Rightarrow> any_option \<Rightarrow> (bool \<times> any_option) result" where
  "put_slot slot v opt =
     (let (ok, opt) = valueStoreOK opt in
      if \<not> ok then Inr (False, opt)
      else and_then (slot opt) (\<lambda>r.
        case r of None \<Rightarrow> Inr (False, opt)
        | Some k \<Rightarrow> and_then (store_value k v opt) (\<lambda>opt. Inr (True, opt))))"

definition getValue :: "string \<Rightarrow> any_option \<Rightarrow> (string option \<times> any_option) result" where
  "getValue name = get_slot (slot_of_name name)"

definition getValueChar :: "char \<Rightarrow> any_option \<Rightarrow> (string option \<times> any_option) result" where
  "getValueChar ch = get_slot (slot_of_char ch)"

definition findFlag :: "string option \<Rightarrow> bool" where
  "findFlag v = (v = Some TRUE_FLAG)"

definition getFlag :: "string \<Rightarrow> any_option \<Rightarrow> (bool \<times> any_option) result" where
  "getFlag name opt = and_then (getValue name opt) (\<lambda>(v, opt). Inr (findFlag v, opt))"

definition getFlagChar :: "char \<Rightarrow> any_option \<Rightarrow> (bool \<times> any_option) result" where
  "getFlagChar ch opt = and_then (getValueChar ch opt) (\<lambda>(v, opt). Inr (findFlag v, opt))"

definition setValue :: "string \<Rightarrow> string \<Rightarrow> any_option \<Rightarrow> (bool \<times> any_option) result" where
  "setValue name = put_slot (slot_of_name name)"

definition setValueChar :: "char \<Rightarrow> string \<Rightarrow> any_option \<Rightarrow> (bool \<times> any_option) result" where
  "setValueChar ch = put_slot (slot_of_char ch)"

definition setFlagOn :: "string \<Rightarrow> any_option \<Rightarrow> (bool \<times> any_option) result" where
  "setFlagOn name = put_slot (slot_of_name name) TRUE_FLAG"

definition setFlagOnChar :: "char \<Rightarrow> any_option \<Rightarrow> (bool \<times> any_option) result" where
  "setFlagOnChar ch = put_slot (slot_of_char ch) TRUE_FLAG"

section \<open>Matching one argument\<close>

definition is_option_type :: "nat \<Rightarrow> bool" where
  "is_option_type t \<longleftrightarrow> t = COMMON_OPT \<or> t = COMMAND_OPT"

definition is_flag_type :: "nat \<Rightarrow> bool" where
  "is_flag_type t \<longleftrightarrow> t = COMMON_FLAG \<or> t = COMMAND_FLAG"

definition command_type :: "nat \<Rightarrow> bool" where
  "command_type t \<longleftrightarrow> is_option_type t \<or> is_flag_type t"

text \<open>The index of an option, or \<open>None\<close> for \<^verbatim>\<open>-1\<close>.\<close>

definition matchOpt :: "string \<Rightarrow> any_option \<Rightarrow> (nat option \<times> any_option) result" where
  "matchOpt name opt =
     and_then (search (\<lambda>i. and_then (name_is opt name i) (\<lambda>b.
                 if b then and_then (array_get (optiontype opt) i) (\<lambda>t. Inr (command_type t)) else Inr False))
               [0..<option_counter opt]) (\<lambda>r.
       case r of
         None \<Rightarrow> and_then (unknown_option name opt) (\<lambda>opt. Inr (None, opt))
       | Some i \<Rightarrow> and_then (array_get (optiontype opt) i) (\<lambda>t.
           if is_option_type t then Inr (Some i, opt)
           else and_then (setFlagOn name opt) (\<lambda>(b, opt). Inr (None, opt))))"

definition matchChar :: "char \<Rightarrow> any_option \<Rightarrow> (bool \<times> any_option) result" where
  "matchChar c opt =
     and_then (search (\<lambda>i. and_then (char_is opt c i) (\<lambda>b.
                 if b then and_then (array_get (optchartype opt) i) (\<lambda>t. Inr (command_type t)) else Inr False))
               [0..<optchar_counter opt]) (\<lambda>r.
       case r of
         None \<Rightarrow> and_then (unknown_option [c] opt) (\<lambda>opt. Inr (False, opt))
       | Some i \<Rightarrow> and_then (array_get (optchartype opt) i) (\<lambda>t.
           if is_option_type t then Inr (True, opt)
           else and_then (setFlagOnChar c opt) (\<lambda>(b, opt). Inr (False, opt))))"

text \<open>The characters after a dash: flags until an option, whose value is the rest.\<close>

fun parsePOSIX_from :: "string \<Rightarrow> string \<Rightarrow> any_option \<Rightarrow> (char \<times> any_option) result" where
  "parsePOSIX_from arg [] opt = and_then (unknown_option arg opt) (\<lambda>opt. Inr (CHR ''0'', opt))"
| "parsePOSIX_from arg (ch # rest) opt =
     and_then (matchChar ch opt) (\<lambda>(m, opt).
       if m then
         (if rest = [] then Inr (ch, opt)
          else and_then (setValueChar ch (dropWhile (\<lambda>c. c = CHR '' '' \<or> c = CHR ''='') rest) opt)
                 (\<lambda>(b, opt). Inr (CHR ''0'', opt)))
       else parsePOSIX_from arg rest opt)"

definition parsePOSIX :: "string \<Rightarrow> any_option \<Rightarrow> (char \<times> any_option) result" where
  "parsePOSIX arg opt = parsePOSIX_from arg arg opt"

text \<open>A long option; the position of the first equals sign, zero when there is none.\<close>

definition split_position :: "string \<Rightarrow> nat" where
  "split_position arg =
     (let k = length (takeWhile (\<lambda>c. c \<noteq> CHR ''='') arg) in if k < length arg then k else 0)"

definition option_name :: "nat \<Rightarrow> any_option \<Rightarrow> string result" where
  "option_name i opt =
     and_then (array_get (options opt) i) (\<lambda>e.
       case e of None \<Rightarrow> Inl Null_Pointer | Some s \<Rightarrow> Inr s)"

definition parseGNU :: "string \<Rightarrow> any_option \<Rightarrow> (nat option \<times> any_option) result" where
  "parseGNU arg opt =
     (let split_at = split_position arg in
      if 0 < split_at then
        (let tmp = take split_at arg in
         and_then (matchOpt tmp opt) (\<lambda>(m, opt).
           case m of
             Some _ \<Rightarrow>
               and_then (matchOpt tmp opt) (\<lambda>(m, opt).
                 case m of
                   None \<Rightarrow> Inl Out_Of_Bounds
                 | Some i \<Rightarrow> and_then (option_name i opt) (\<lambda>name.
                     and_then (setValue name (drop (split_at + 1) arg) opt) (\<lambda>(b, opt). Inr (None, opt))))
           | None \<Rightarrow> and_then (unknown_option arg opt) (\<lambda>opt. Inr (None, opt))))
      else matchOpt arg opt)"

section \<open>The command line\<close>

definition useCommandArgs :: "string list \<Rightarrow> any_option \<Rightarrow> any_option" where
  "useCommandArgs args opt =
     opt\<lparr>argc := length args, argv := args, command_set := True,
         hasoptions := hasoptions opt \<or> 1 < length args\<rparr>"

definition char_of_arg :: "string \<Rightarrow> nat \<Rightarrow> char" where
  "char_of_arg arg i = (if i < length arg then arg ! i else NUL)"

definition is_long :: "any_option \<Rightarrow> string \<Rightarrow> bool" where
  "is_long opt arg \<longleftrightarrow>
     char_of_arg arg 0 = char_of_arg (long_opt_prefix opt) 0
   \<and> char_of_arg arg 1 = char_of_arg (long_opt_prefix opt) 1"

text \<open>
  One argument that is not the last: whether the next argument was its value. \<open>next\<close> is
  \<open>None\<close> for the last argument.
\<close>

definition set_by_index :: "nat option \<Rightarrow> string option \<Rightarrow> any_option \<Rightarrow> (bool \<times> any_option) result" where
  "set_by_index m next_arg opt =
     (case (m, next_arg) of
        (Some i, Some v) \<Rightarrow>
          and_then (option_name i opt) (\<lambda>name.
          and_then (setValue name v opt) (\<lambda>(b, opt). Inr (True, opt)))
      | _ \<Rightarrow> Inr (False, opt))"

definition add_argument :: "nat \<Rightarrow> string \<Rightarrow> any_option \<Rightarrow> any_option result" where
  "add_argument i arg opt =
     and_then
       (if new_argc opt < max_legal_args opt
        then and_then (array_set (new_argv opt) (new_argc opt) (Some i)) (\<lambda>na.
               Inr (opt\<lparr>new_argv := na, new_argc := new_argc opt + 1\<rparr>))
        else unknown_argument ''Ignoring extra argument: '' arg opt)
       (unknown_option arg)"

definition process_one ::
    "nat \<Rightarrow> string \<Rightarrow> string option \<Rightarrow> any_option \<Rightarrow> (bool \<times> any_option) result" where
  "process_one i arg next_arg opt =
     (if is_long opt arg then
        and_then (parseGNU (drop 2 arg) opt) (\<lambda>(m, opt). set_by_index m next_arg opt)
      else if char_of_arg arg 0 = opt_prefix_char opt then
        (if posix_style opt then
           and_then (parsePOSIX (drop 1 arg) opt) (\<lambda>(ch, opt).
             case next_arg of
               Some v \<Rightarrow>
                 if ch \<noteq> CHR ''0'' then and_then (setValueChar ch v opt) (\<lambda>(b, opt). Inr (True, opt))
                 else Inr (False, opt)
             | None \<Rightarrow> Inr (False, opt))
         else and_then (parseGNU (drop 1 arg) opt) (\<lambda>(m, opt). set_by_index m next_arg opt))
      else and_then (add_argument i arg opt) (\<lambda>opt. Inr (False, opt)))"

fun process_from :: "nat \<Rightarrow> string list \<Rightarrow> any_option \<Rightarrow> any_option result" where
  "process_from i [] opt = Inr opt"
| "process_from i [arg] opt = and_then (process_one i arg None opt) (\<lambda>(taken, opt). Inr opt)"
| "process_from i (arg # v # args) opt =
     and_then (process_one i arg (Some v) opt) (\<lambda>(taken, opt).
       if taken then process_from (i + 2) args opt else process_from (i + 1) (v # args) opt)"

definition processCommandArgs :: "any_option \<Rightarrow> any_option result" where
  "processCommandArgs opt =
     (let (ok, opt) = valueStoreOK opt in
      if \<not> (ok \<and> command_set opt) then Inr opt
      else
        let opt = (if max_legal_args opt = 0 then opt\<lparr>max_legal_args := argc opt\<rparr> else opt);
            opt = opt\<lparr>new_argv := replicate (max_legal_args opt + 1) None\<rparr>
        in process_from 1 (tl (argv opt)) opt)"

definition processCommandArgs_argv :: "string list \<Rightarrow> any_option \<Rightarrow> any_option result" where
  "processCommandArgs_argv args opt = processCommandArgs (useCommandArgs args opt)"

definition getArgc :: "any_option \<Rightarrow> nat" where
  "getArgc opt = new_argc opt"

definition getArgv :: "int \<Rightarrow> any_option \<Rightarrow> string option result" where
  "getArgv index opt =
     (if index < int (new_argc opt) \<and> 0 \<le> index then
        and_then (array_get (new_argv opt) (nat index)) (\<lambda>e.
          case e of
            None \<Rightarrow> Inl Uninitialised
          | Some i \<Rightarrow> and_then (array_get (argv opt) i) (\<lambda>s. Inr (Some s)))
      else Inr None)"

end
