(* ===== verification/Any_Option_Spec.thy ===== *)
theory Any_Option_Spec
  imports Any_Option
begin

text \<open>
  What the command line library promises, without its arrays: registration is two tables of
  entries (name or character, type, slot of the value store), and a command line is a list of
  assignments to slots and a list of the positions of the plain arguments. The lemmas show that
  the library computes exactly that and never leaves its arrays.
\<close>

section \<open>Tables\<close>

type_synonym 'n entry = "'n \<times> nat \<times> nat"

definition long_entries :: "any_option \<Rightarrow> string entry list" where
  "long_entries opt =
     map (\<lambda>i. (the (options opt ! i), optiontype opt ! i, nat (optionindex opt ! i)))
       [0..<option_counter opt]"

definition char_entries :: "any_option \<Rightarrow> char entry list" where
  "char_entries opt =
     map (\<lambda>i. (optionchars opt ! i, optchartype opt ! i, nat (optcharindex opt ! i)))
       [0..<optchar_counter opt]"

definition lookup_slot :: "'n \<Rightarrow> 'n entry list \<Rightarrow> nat option" where
  "lookup_slot n es = map_option (\<lambda>(m, t, k). k) (find (\<lambda>(m, t, k). m = n) es)"

definition lookup_type :: "'n \<Rightarrow> 'n entry list \<Rightarrow> nat option" where
  "lookup_type n es = map_option (\<lambda>(m, t, k). t) (find (\<lambda>(m, t, k). m = n \<and> command_type t) es)"

section \<open>The invariant of the storage\<close>

definition storage_ok :: "any_option \<Rightarrow> bool" where
  "storage_ok opt \<longleftrightarrow>
     1 \<le> max_options opt \<and> option_counter opt \<le> max_options opt
   \<and> length (options opt) = max_options opt + 1 \<and> length (optiontype opt) = max_options opt + 1
   \<and> length (optionindex opt) = max_options opt + 1
   \<and> 1 \<le> max_char_options opt \<and> optchar_counter opt \<le> max_char_options opt
   \<and> length (optionchars opt) = max_char_options opt + 1
   \<and> length (optchartype opt) = max_char_options opt + 1
   \<and> length (optcharindex opt) = max_char_options opt + 1
   \<and> (\<forall>i<option_counter opt. options opt ! i \<noteq> None)
   \<and> (\<forall>i<option_counter opt. 0 \<le> optionindex opt ! i \<and> optionindex opt ! i \<le> int (g_value_counter opt))
   \<and> (\<forall>i<optchar_counter opt. 0 \<le> optcharindex opt ! i \<and> optcharindex opt ! i \<le> int (g_value_counter opt))"

definition slots_ok :: "any_option \<Rightarrow> bool" where
  "slots_ok opt \<longleftrightarrow>
     (\<forall>i<option_counter opt. optionindex opt ! i < int (g_value_counter opt))
   \<and> (\<forall>i<optchar_counter opt. optcharindex opt ! i < int (g_value_counter opt))"

definition usage_ok :: "any_option \<Rightarrow> bool" where
  "usage_ok opt \<longleftrightarrow>
     1 \<le> max_usage_lines opt \<and> usage_lines opt \<le> max_usage_lines opt
   \<and> length (usage opt) = max_usage_lines opt + 1 \<and> (\<forall>i<usage_lines opt. usage opt ! i \<noteq> None)"

lemma storage_ok_init: "1 \<le> n \<Longrightarrow> 1 \<le> m \<Longrightarrow> storage_ok (init_option n m) \<and> slots_ok (init_option n m)"
  by (simp add: storage_ok_def slots_ok_def init_option_def)

lemma all_less_Suc_nth:
  "(\<forall>i<Suc n. P i) \<longleftrightarrow> (\<forall>i<n. P i) \<and> P (n :: nat)"
  by (auto simp: less_Suc_eq)

lemma doubleOptStorage_ok:
  assumes "storage_ok opt" "option_counter opt = max_options opt"
  shows "storage_ok (doubleOptStorage opt)" "option_counter (doubleOptStorage opt) < max_options (doubleOptStorage opt)"
    "long_entries (doubleOptStorage opt) = long_entries opt"
    "char_entries (doubleOptStorage opt) = char_entries opt"
  using assms by (auto simp: storage_ok_def doubleOptStorage_def Let_def nth_append long_entries_def char_entries_def)

lemma doubleCharStorage_ok:
  assumes "storage_ok opt" "optchar_counter opt = max_char_options opt"
  shows "storage_ok (doubleCharStorage opt)"
    "optchar_counter (doubleCharStorage opt) < max_char_options (doubleCharStorage opt)"
    "long_entries (doubleCharStorage opt) = long_entries opt"
    "char_entries (doubleCharStorage opt) = char_entries opt"
  using assms by (auto simp: storage_ok_def doubleCharStorage_def Let_def nth_append long_entries_def char_entries_def)

text \<open>The fields registration leaves alone.\<close>

definition same_rest :: "any_option \<Rightarrow> any_option \<Rightarrow> bool" where
  "same_rest opt opt' \<longleftrightarrow>
     opt_values opt' = opt_values opt \<and> value_set opt' = value_set opt \<and> usage opt' = usage opt
   \<and> usage_lines opt' = usage_lines opt \<and> max_usage_lines opt' = max_usage_lines opt
   \<and> posix_style opt' = posix_style opt \<and> verbose opt' = verbose opt \<and> autousage opt' = autousage opt
   \<and> long_opt_prefix opt' = long_opt_prefix opt \<and> opt_prefix_char opt' = opt_prefix_char opt
   \<and> new_argc opt' = new_argc opt \<and> max_legal_args opt' = max_legal_args opt
   \<and> hasoptions opt' = hasoptions opt \<and> once opt' = once opt \<and> cout opt' = cout opt
   \<and> argc opt' = argc opt \<and> argv opt' = argv opt \<and> new_argv opt' = new_argv opt
   \<and> command_set opt' = command_set opt"

lemma addOption_ok:
  assumes "storage_ok opt"
  shows "\<exists>opt'. addOption name type opt = Inr opt' \<and> storage_ok opt' \<and> same_rest opt opt'
    \<and> g_value_counter opt' = g_value_counter opt
    \<and> long_entries opt' = long_entries opt @ [(name, type, g_value_counter opt)]
    \<and> char_entries opt' = char_entries opt"
proof -
  define opt1 where "opt1 = (if max_options opt \<le> option_counter opt then doubleOptStorage opt else opt)"
  have 1: "storage_ok opt1" "option_counter opt1 < max_options opt1" "long_entries opt1 = long_entries opt"
    "char_entries opt1 = char_entries opt" "same_rest opt opt1" "g_value_counter opt1 = g_value_counter opt"
    using assms doubleOptStorage_ok [OF assms]
    by (auto simp: opt1_def same_rest_def doubleOptStorage_def Let_def storage_ok_def)
  define opt2 where "opt2 = opt1\<lparr>options := (options opt1)[option_counter opt1 := Some name],
      optiontype := (optiontype opt1)[option_counter opt1 := type],
      optionindex := (optionindex opt1)[option_counter opt1 := int (g_value_counter opt1)],
      option_counter := option_counter opt1 + 1\<rparr>"
  have "addOption name type opt = Inr opt2"
    using 1(1,2) by (simp add: addOption_def opt1_def [symmetric] opt2_def storage_ok_def Let_def)
  moreover have "storage_ok opt2"
    using 1(1,2) by (auto simp: opt2_def storage_ok_def nth_list_update all_less_Suc_nth)
  moreover have "long_entries opt2 = long_entries opt1 @ [(name, type, g_value_counter opt1)]"
    using 1(1,2) by (auto simp: opt2_def long_entries_def storage_ok_def)
  moreover have "char_entries opt2 = char_entries opt"
    using 1(4) by (simp add: opt2_def char_entries_def)
  moreover have "same_rest opt opt2" "g_value_counter opt2 = g_value_counter opt"
    using 1(5,6) by (auto simp: opt2_def same_rest_def)
  ultimately show ?thesis
    using 1(3,4,6) by auto
qed

lemma addCharOption_ok:
  assumes "storage_ok opt" "posix_style opt"
  shows "\<exists>opt'. addCharOption ch type opt = Inr opt' \<and> storage_ok opt' \<and> same_rest opt opt'
    \<and> g_value_counter opt' = g_value_counter opt
    \<and> long_entries opt' = long_entries opt
    \<and> char_entries opt' = char_entries opt @ [(ch, type, g_value_counter opt)]"
proof -
  define opt1 where "opt1 = (if max_char_options opt \<le> optchar_counter opt then doubleCharStorage opt else opt)"
  have 1: "storage_ok opt1" "optchar_counter opt1 < max_char_options opt1" "long_entries opt1 = long_entries opt"
    "char_entries opt1 = char_entries opt" "same_rest opt opt1" "g_value_counter opt1 = g_value_counter opt"
    using assms doubleCharStorage_ok [OF assms(1)]
    by (auto simp: opt1_def same_rest_def doubleCharStorage_def Let_def storage_ok_def)
  define opt2 where "opt2 = opt1\<lparr>optionchars := (optionchars opt1)[optchar_counter opt1 := ch],
      optchartype := (optchartype opt1)[optchar_counter opt1 := type],
      optcharindex := (optcharindex opt1)[optchar_counter opt1 := int (g_value_counter opt1)],
      optchar_counter := optchar_counter opt1 + 1\<rparr>"
  have "addCharOption ch type opt = Inr opt2"
    using 1(1,2) assms(2)
    by (simp add: addCharOption_def opt1_def [symmetric] opt2_def storage_ok_def Let_def)
  moreover have "storage_ok opt2"
    using 1(1,2) by (auto simp: opt2_def storage_ok_def nth_list_update all_less_Suc_nth)
  moreover have "char_entries opt2 = char_entries opt1 @ [(ch, type, g_value_counter opt1)]"
    using 1(1,2) by (auto simp: opt2_def char_entries_def storage_ok_def)
  moreover have "long_entries opt2 = long_entries opt"
    using 1(3) by (simp add: opt2_def long_entries_def)
  moreover have "same_rest opt opt2" "g_value_counter opt2 = g_value_counter opt"
    using 1(5,6) by (auto simp: opt2_def same_rest_def)
  ultimately show ?thesis
    using 1(3,4,6) by auto
qed

definition new_long :: "string option \<Rightarrow> nat \<Rightarrow> nat \<Rightarrow> string entry list" where
  "new_long name type k = (case name of Some s \<Rightarrow> [(s, type, k)] | None \<Rightarrow> [])"

definition new_char :: "char option \<Rightarrow> nat \<Rightarrow> nat \<Rightarrow> char entry list" where
  "new_char ch type k = (case ch of Some c \<Rightarrow> [(c, type, k)] | None \<Rightarrow> [])"

lemma same_rest_refl [simp]: "same_rest opt opt"
  by (simp add: same_rest_def)

lemma same_rest_trans: "same_rest a b \<Longrightarrow> same_rest b c \<Longrightarrow> same_rest a c"
  by (simp add: same_rest_def)

lemma slots_ok_entries:
  "storage_ok opt \<Longrightarrow> slots_ok opt \<longleftrightarrow>
     (\<forall>e\<in>set (long_entries opt). snd (snd e) < g_value_counter opt)
   \<and> (\<forall>e\<in>set (char_entries opt). snd (snd e) < g_value_counter opt)"
  by (auto simp: slots_ok_def storage_ok_def long_entries_def char_entries_def nat_less_iff)

lemma set_entry_ok:
  assumes "storage_ok opt" "slots_ok opt" "posix_style opt"
  shows "\<exists>opt'. set_entry type name ch opt = Inr opt' \<and> storage_ok opt' \<and> slots_ok opt' \<and> same_rest opt opt'
    \<and> g_value_counter opt' = Suc (g_value_counter opt)
    \<and> long_entries opt' = long_entries opt @ new_long name type (g_value_counter opt)
    \<and> char_entries opt' = char_entries opt @ new_char ch type (g_value_counter opt)"
proof -
  obtain o1 where o1: "(case name of Some s \<Rightarrow> addOption s type opt | None \<Rightarrow> Inr opt) = Inr o1"
    "storage_ok o1" "same_rest opt o1" "g_value_counter o1 = g_value_counter opt"
    "long_entries o1 = long_entries opt @ new_long name type (g_value_counter opt)"
    "char_entries o1 = char_entries opt"
    using addOption_ok [OF assms(1)] assms(1) by (cases name) (auto simp: new_long_def)
  have p: "posix_style o1" using o1(3) assms(3) by (simp add: same_rest_def)
  obtain o2 where o2: "(case ch of Some c \<Rightarrow> addCharOption c type o1 | None \<Rightarrow> Inr o1) = Inr o2"
    "storage_ok o2" "same_rest o1 o2" "g_value_counter o2 = g_value_counter opt"
    "long_entries o2 = long_entries o1"
    "char_entries o2 = char_entries opt @ new_char ch type (g_value_counter opt)"
    using addCharOption_ok [OF o1(2) p] o1 by (cases ch) (auto simp: new_char_def)
  have e: "long_entries (count_value o2) = long_entries o2" "char_entries (count_value o2) = char_entries o2"
    by (simp_all add: count_value_def long_entries_def char_entries_def)
  have st: "storage_ok (count_value o2)"
    using o2(2) by (auto simp: count_value_def storage_ok_def)
  have "slots_ok (count_value o2)"
    unfolding slots_ok_entries [OF st] e
    using assms(1,2) o1(5) o2(4,5,6) slots_ok_entries [OF assms(1)]
    by (auto simp: count_value_def new_long_def new_char_def split: option.splits)
  moreover have "same_rest opt (count_value o2)"
    using same_rest_trans [OF o1(3) o2(3)] by (simp add: count_value_def same_rest_def)
  moreover have "g_value_counter (count_value o2) = Suc (g_value_counter opt)"
    using o2(4) by (simp add: count_value_def)
  ultimately show ?thesis
    using st e o1 o2 by (auto simp: set_entry_def)
qed

section \<open>The command line as assignments and positions\<close>

type_synonym assigns = "(nat \<times> string) list"

definition assign_slot :: "nat option \<Rightarrow> string \<Rightarrow> assigns" where
  "assign_slot slot v = (case slot of None \<Rightarrow> [] | Some k \<Rightarrow> [(k, v)])"

definition spec_name :: "string entry list \<Rightarrow> string \<Rightarrow> assigns \<times> string option" where
  "spec_name L s =
     (case lookup_type s L of
        None \<Rightarrow> ([], None)
      | Some t \<Rightarrow> if is_option_type t then ([], Some s) else (assign_slot (lookup_slot s L) TRUE_FLAG, None))"

definition spec_gnu :: "string entry list \<Rightarrow> string \<Rightarrow> assigns \<times> string option" where
  "spec_gnu L arg =
     (let k = split_position arg; name = take k arg in
      if 0 < k then
        (case spec_name L name of
           (as, None) \<Rightarrow> (as, None)
         | (as, Some s) \<Rightarrow> (assign_slot (lookup_slot s L) (drop (k + 1) arg), None))
      else spec_name L arg)"

fun spec_posix :: "char entry list \<Rightarrow> string \<Rightarrow> assigns \<times> char option" where
  "spec_posix C [] = ([], None)"
| "spec_posix C (c # rest) =
     (case lookup_type c C of
        None \<Rightarrow> spec_posix C rest
      | Some t \<Rightarrow>
          if is_option_type t then
            (if rest = [] then ([], Some c)
             else (assign_slot (lookup_slot c C) (dropWhile (\<lambda>c. c = CHR '' '' \<or> c = CHR ''='') rest), None))
          else (case spec_posix C rest of (as, r) \<Rightarrow> (assign_slot (lookup_slot c C) TRUE_FLAG @ as, r)))"

text \<open>
  One argument with the one after it: the assignments, whether that one is used up, and whether
  this one is a plain argument.
\<close>

definition spec_one ::
    "string entry list \<Rightarrow> char entry list \<Rightarrow> string \<Rightarrow> string option \<Rightarrow> assigns \<times> bool \<times> bool" where
  "spec_one L C arg next_arg =
     (if char_of_arg arg 0 = CHR ''-'' \<and> char_of_arg arg 1 = CHR ''-'' then
        (case (spec_gnu L (drop 2 arg), next_arg) of
           ((as, Some s), Some v) \<Rightarrow> (as @ assign_slot (lookup_slot s L) v, True, False)
         | ((as, _), _) \<Rightarrow> (as, False, False))
      else if char_of_arg arg 0 = CHR ''-'' then
        (case (spec_posix C (drop 1 arg), next_arg) of
           ((as, Some c), Some v) \<Rightarrow>
             if c = CHR ''0'' then (as, False, False)
             else (as @ assign_slot (lookup_slot c C) v, True, False)
         | ((as, _), _) \<Rightarrow> (as, False, False))
      else ([], False, True))"

fun spec_line ::
    "string entry list \<Rightarrow> char entry list \<Rightarrow> nat \<Rightarrow> string list \<Rightarrow> assigns \<times> nat list" where
  "spec_line L C i [] = ([], [])"
| "spec_line L C i [arg] =
     (case spec_one L C arg None of (as, taken, plain) \<Rightarrow> (as, if plain then [i] else []))"
| "spec_line L C i (arg # v # args) =
     (case spec_one L C arg (Some v) of (as, taken, plain) \<Rightarrow>
        (case (if taken then spec_line L C (i + 2) args else spec_line L C (i + 1) (v # args)) of
           (bs, ps) \<Rightarrow> (as @ bs, (if plain then [i] else []) @ ps)))"

definition apply_assigns :: "assigns \<Rightarrow> string option list \<Rightarrow> string option list" where
  "apply_assigns as vs = foldl (\<lambda>vs (k, v). vs[k := Some v]) vs as"

lemma apply_assigns_append [simp]: "apply_assigns (as @ bs) vs = apply_assigns bs (apply_assigns as vs)"
  by (simp add: apply_assigns_def)

lemma apply_assigns_Nil [simp]: "apply_assigns [] vs = vs"
  by (simp add: apply_assigns_def)

lemma length_apply_assigns [simp]: "length (apply_assigns as vs) = length vs"
  unfolding apply_assigns_def by (induction as arbitrary: vs) auto

section \<open>The library computes the specification\<close>

text \<open>The state while a command line is processed: storage in order, values allocated, no output.\<close>

definition ready :: "any_option \<Rightarrow> bool" where
  "ready opt \<longleftrightarrow>
     storage_ok opt \<and> slots_ok opt \<and> value_set opt \<and> \<not> verbose opt \<and> \<not> autousage opt
   \<and> posix_style opt \<and> opt_prefix_char opt = CHR ''-'' \<and> long_opt_prefix opt = ''--''
   \<and> (\<exists>vs. opt_values opt = Some vs \<and> length vs = g_value_counter opt)"

definition the_values :: "any_option \<Rightarrow> string option list" where
  "the_values opt = the (opt_values opt)"

definition assigning :: "assigns \<Rightarrow> any_option \<Rightarrow> any_option" where
  "assigning as opt = opt\<lparr>opt_values := Some (apply_assigns as (the_values opt))\<rparr>"

lemma ready_assigning [simp]: "ready opt \<Longrightarrow> ready (assigning as opt)"
  by (auto simp: ready_def assigning_def the_values_def storage_ok_def slots_ok_def)

lemma entries_assigning [simp]:
  "long_entries (assigning as opt) = long_entries opt" "char_entries (assigning as opt) = char_entries opt"
  by (simp_all add: assigning_def long_entries_def char_entries_def)

lemma assigning_append [simp]: "assigning bs (assigning as opt) = assigning (as @ bs) opt"
  by (simp add: assigning_def the_values_def)

lemma assigning_Nil [simp]: "ready opt \<Longrightarrow> assigning [] opt = opt"
  by (auto simp: assigning_def the_values_def ready_def)

lemma valueStoreOK_ready [simp]: "ready opt \<Longrightarrow> valueStoreOK opt = (True, opt)"
  by (simp add: valueStoreOK_def ready_def)

lemma unknown_argument_ready [simp]: "ready opt \<Longrightarrow> unknown_argument msg arg opt = Inr opt"
  by (simp add: unknown_argument_def printAutoUsage_def print_verbose_def ready_def)

lemma unknown_option_ready [simp]: "ready opt \<Longrightarrow> unknown_option arg opt = Inr opt"
  by (simp add: unknown_option_def)

lemma find_map: "find P (map f xs) = map_option f (find (\<lambda>x. P (f x)) xs)"
  by (induction xs) auto

lemma name_is_ok:
  "storage_ok opt \<Longrightarrow> i < option_counter opt \<Longrightarrow> name_is opt name i = Inr (the (options opt ! i) = name)"
  by (auto simp: name_is_def storage_ok_def)

lemma char_is_ok:
  "storage_ok opt \<Longrightarrow> i < optchar_counter opt \<Longrightarrow> char_is opt ch i = Inr (optionchars opt ! i = ch)"
  by (auto simp: char_is_def storage_ok_def)

lemma find_Some_mem: "find P xs = Some x \<Longrightarrow> x \<in> set xs \<and> P x"
  by (induction xs) (auto split: if_splits)

lemma slot_of_name_ok:
  assumes "storage_ok opt"
  shows "slot_of_name name opt = Inr (map_option int (lookup_slot name (long_entries opt)))"
proof -
  have s: "search (name_is opt name) [0..<option_counter opt]
      = Inr (find (\<lambda>i. the (options opt ! i) = name) [0..<option_counter opt])"
    by (rule search_find) (use assms name_is_ok in auto)
  show ?thesis
    using assms
    by (cases "find (\<lambda>i. the (options opt ! i) = name) [0..<option_counter opt]")
      (auto simp: slot_of_name_def s lookup_slot_def long_entries_def find_map storage_ok_def
        dest!: find_Some_mem)
qed

lemma slot_of_char_ok:
  assumes "storage_ok opt"
  shows "slot_of_char ch opt = Inr (map_option int (lookup_slot ch (char_entries opt)))"
proof -
  have s: "search (char_is opt ch) [0..<optchar_counter opt]
      = Inr (find (\<lambda>i. optionchars opt ! i = ch) [0..<optchar_counter opt])"
    by (rule search_find) (use assms char_is_ok in auto)
  show ?thesis
    using assms
    by (cases "find (\<lambda>i. optionchars opt ! i = ch) [0..<optchar_counter opt]")
      (auto simp: slot_of_char_def s lookup_slot_def char_entries_def find_map storage_ok_def
        dest!: find_Some_mem)
qed

lemma lookup_slot_less:
  assumes "ready opt"
  shows "lookup_slot name (long_entries opt) = Some k \<Longrightarrow> k < g_value_counter opt"
    and "lookup_slot ch (char_entries opt) = Some k \<Longrightarrow> k < g_value_counter opt"
  using assms slots_ok_entries [of opt]
  by (auto simp: ready_def lookup_slot_def dest!: find_Some_mem)

text \<open>Writing and reading through a slot.\<close>

definition good_slot :: "any_option \<Rightarrow> nat option \<Rightarrow> bool" where
  "good_slot opt r \<longleftrightarrow> (case r of None \<Rightarrow> True | Some k \<Rightarrow> k < g_value_counter opt)"

lemma put_slot_ok:
  assumes "ready opt" "slot opt = Inr (map_option int r)" "good_slot opt r"
  shows "put_slot slot v opt = Inr (r \<noteq> None, assigning (assign_slot r v) opt)"
  using assms
  by (cases r)
    (auto simp: put_slot_def store_value_def ready_def good_slot_def assign_slot_def assigning_def
      apply_assigns_def the_values_def valueStoreOK_def)

lemma get_slot_ok:
  assumes "ready opt" "slot opt = Inr (map_option int r)" "good_slot opt r"
  shows "get_slot slot opt = Inr (case r of None \<Rightarrow> None | Some k \<Rightarrow> the_values opt ! k, opt)"
  using assms
  by (cases r)
    (auto simp: get_slot_def value_at_def ready_def good_slot_def the_values_def valueStoreOK_def)

lemma ready_storage: "ready opt \<Longrightarrow> storage_ok opt"
  by (simp add: ready_def)

lemma good_slot_lookup:
  "ready opt \<Longrightarrow> good_slot opt (lookup_slot name (long_entries opt))"
  "ready opt \<Longrightarrow> good_slot opt (lookup_slot ch (char_entries opt))"
  using lookup_slot_less [of opt] by (auto simp: good_slot_def split: option.splits)

lemma setValue_ok:
  assumes "ready opt"
  shows "setValue name v opt = Inr (lookup_slot name (long_entries opt) \<noteq> None,
           assigning (assign_slot (lookup_slot name (long_entries opt)) v) opt)"
    and "setFlagOn name opt = Inr (lookup_slot name (long_entries opt) \<noteq> None,
           assigning (assign_slot (lookup_slot name (long_entries opt)) TRUE_FLAG) opt)"
    and "setValueChar ch v opt = Inr (lookup_slot ch (char_entries opt) \<noteq> None,
           assigning (assign_slot (lookup_slot ch (char_entries opt)) v) opt)"
    and "setFlagOnChar ch opt = Inr (lookup_slot ch (char_entries opt) \<noteq> None,
           assigning (assign_slot (lookup_slot ch (char_entries opt)) TRUE_FLAG) opt)"
  unfolding setValue_def setFlagOn_def setValueChar_def setFlagOnChar_def
  using assms ready_storage [OF assms] good_slot_lookup [OF assms]
  by (simp_all add: put_slot_ok [where slot = "slot_of_name name"] put_slot_ok [where slot = "slot_of_char ch"]
      slot_of_name_ok slot_of_char_ok)

lemma getValue_ok:
  assumes "ready opt"
  shows "getValue name opt = Inr (case lookup_slot name (long_entries opt) of
           None \<Rightarrow> None | Some k \<Rightarrow> the_values opt ! k, opt)"
    and "getValueChar ch opt = Inr (case lookup_slot ch (char_entries opt) of
           None \<Rightarrow> None | Some k \<Rightarrow> the_values opt ! k, opt)"
  unfolding getValue_def getValueChar_def
  using assms ready_storage [OF assms] good_slot_lookup [OF assms]
  by (simp_all add: get_slot_ok [where slot = "slot_of_name name"] get_slot_ok [where slot = "slot_of_char ch"]
      slot_of_name_ok slot_of_char_ok)

lemma find_index_type:
  "lookup_type n (map (\<lambda>i. (f i, g i, h i)) is) = map_option g (find (\<lambda>i. f i = n \<and> command_type (g i)) is)"
  by (simp add: lookup_type_def find_map option.map_comp comp_def)

lemma matchOpt_ok:
  assumes "ready opt"
  shows "\<exists>m. matchOpt name opt = Inr (m, assigning (fst (spec_name (long_entries opt) name)) opt)
    \<and> (case m of None \<Rightarrow> snd (spec_name (long_entries opt) name) = None
       | Some i \<Rightarrow> option_name i opt = Inr name \<and> snd (spec_name (long_entries opt) name) = Some name)"
proof -
  let ?q = "\<lambda>i. the (options opt ! i) = name \<and> command_type (optiontype opt ! i)"
  have st: "storage_ok opt" using assms by (rule ready_storage)
  have s: "search (\<lambda>i. and_then (name_is opt name i) (\<lambda>b.
         if b then and_then (array_get (optiontype opt) i) (\<lambda>t. Inr (command_type t)) else Inr False))
       [0..<option_counter opt] = Inr (find ?q [0..<option_counter opt])"
    by (rule search_find) (use st in \<open>auto simp: name_is_ok storage_ok_def\<close>)
  have lt: "lookup_type name (long_entries opt)
      = map_option (\<lambda>i. optiontype opt ! i) (find ?q [0..<option_counter opt])"
    by (simp add: long_entries_def find_index_type)
  show ?thesis
  proof (cases "find ?q [0..<option_counter opt]")
    case None
    with assms show ?thesis by (simp add: matchOpt_def s spec_name_def lt)
  next
    case (Some i)
    then have i: "i < option_counter opt" "the (options opt ! i) = name"
      by (auto dest!: find_Some_mem)
    have n: "option_name i opt = Inr name"
      using st i by (auto simp: option_name_def storage_ok_def)
    have t: "array_get (optiontype opt) i = Inr (optiontype opt ! i)"
      using st i by (simp add: storage_ok_def)
    show ?thesis
      using assms Some n t
      by (cases "is_option_type (optiontype opt ! i)")
        (auto simp: matchOpt_def s spec_name_def lt setValue_ok(2))
  qed
qed

lemma matchChar_ok:
  assumes "ready opt"
  shows "matchChar c opt = Inr
     (case lookup_type c (char_entries opt) of
        None \<Rightarrow> (False, opt)
      | Some t \<Rightarrow> if is_option_type t then (True, opt)
                  else (False, assigning (assign_slot (lookup_slot c (char_entries opt)) TRUE_FLAG) opt))"
proof -
  let ?q = "\<lambda>i. optionchars opt ! i = c \<and> command_type (optchartype opt ! i)"
  have st: "storage_ok opt" using assms by (rule ready_storage)
  have s: "search (\<lambda>i. and_then (char_is opt c i) (\<lambda>b.
         if b then and_then (array_get (optchartype opt) i) (\<lambda>t. Inr (command_type t)) else Inr False))
       [0..<optchar_counter opt] = Inr (find ?q [0..<optchar_counter opt])"
    by (rule search_find) (use st in \<open>auto simp: char_is_ok storage_ok_def\<close>)
  have lt: "lookup_type c (char_entries opt)
      = map_option (\<lambda>i. optchartype opt ! i) (find ?q [0..<optchar_counter opt])"
    by (simp add: char_entries_def find_index_type)
  show ?thesis
  proof (cases "find ?q [0..<optchar_counter opt]")
    case None
    with assms show ?thesis by (simp add: matchChar_def s lt)
  next
    case (Some i)
    then have "i < optchar_counter opt" by (auto dest!: find_Some_mem)
    then have "array_get (optchartype opt) i = Inr (optchartype opt ! i)"
      using st by (simp add: storage_ok_def)
    with assms Some show ?thesis by (auto simp: matchChar_def s lt setValue_ok(4))
  qed
qed

lemma parsePOSIX_ok:
  assumes "ready opt"
  shows "parsePOSIX_from arg rest opt = Inr
     (case snd (spec_posix (char_entries opt) rest) of None \<Rightarrow> CHR ''0'' | Some c \<Rightarrow> c,
      assigning (fst (spec_posix (char_entries opt) rest)) opt)"
  using assms
proof (induction rest arbitrary: opt)
  case (Cons c rest)
  show ?case
  proof (cases "lookup_type c (char_entries opt)")
    case None
    with Cons show ?thesis by (simp add: matchChar_ok)
  next
    case (Some t)
    show ?thesis
    proof (cases "is_option_type t")
      case True
      with Some Cons show ?thesis by (simp add: matchChar_ok setValue_ok(3))
    next
      case False
      let ?opt = "assigning (assign_slot (lookup_slot c (char_entries opt)) TRUE_FLAG) opt"
      have "parsePOSIX_from arg (c # rest) opt = parsePOSIX_from arg rest ?opt"
        using False Some Cons.prems by (simp add: matchChar_ok)
      also have "\<dots> = Inr
          (case snd (spec_posix (char_entries opt) rest) of None \<Rightarrow> CHR ''0'' | Some c \<Rightarrow> c,
           assigning (assign_slot (lookup_slot c (char_entries opt)) TRUE_FLAG
             @ fst (spec_posix (char_entries opt) rest)) opt)"
        using Cons.IH [of ?opt] Cons.prems by simp
      finally show ?thesis using False Some by (simp split: prod.split)
    qed
  qed
qed simp

lemma spec_name_found: "snd (spec_name L s) = Some r \<Longrightarrow> fst (spec_name L s) = [] \<and> r = s"
  by (auto simp: spec_name_def split: option.splits if_splits)

lemma parseGNU_ok:
  assumes "ready opt"
  shows "\<exists>m. parseGNU arg opt = Inr (m, assigning (fst (spec_gnu (long_entries opt) arg)) opt)
    \<and> (case m of None \<Rightarrow> snd (spec_gnu (long_entries opt) arg) = None
       | Some i \<Rightarrow> \<exists>name. option_name i opt = Inr name \<and> snd (spec_gnu (long_entries opt) arg) = Some name)"
proof (cases "0 < split_position arg")
  case False
  with matchOpt_ok [OF assms, of arg] show ?thesis
    by (auto simp: parseGNU_def spec_gnu_def split: option.splits)
next
  case True
  let ?name = "take (split_position arg) arg"
  obtain m where m: "matchOpt ?name opt = Inr (m, assigning (fst (spec_name (long_entries opt) ?name)) opt)"
    "case m of None \<Rightarrow> snd (spec_name (long_entries opt) ?name) = None
     | Some i \<Rightarrow> option_name i opt = Inr ?name \<and> snd (spec_name (long_entries opt) ?name) = Some ?name"
    using matchOpt_ok [OF assms, of ?name] by blast
  show ?thesis
  proof (cases m)
    case None
    obtain as r where sp: "spec_name (long_entries opt) ?name = (as, r)" by force
    with None m assms True show ?thesis by (simp add: parseGNU_def spec_gnu_def Let_def)
  next
    case (Some i)
    then have f: "spec_name (long_entries opt) ?name = ([], Some ?name)" "option_name i opt = Inr ?name"
      using m(2) spec_name_found [of "long_entries opt" ?name] by (auto simp: prod_eq_iff)
    with Some m(1) assms True show ?thesis
      by (simp add: parseGNU_def spec_gnu_def Let_def setValue_ok(1))
  qed
qed

text \<open>Room for the positions, and appending one.\<close>

definition positions :: "nat list \<Rightarrow> any_option \<Rightarrow> any_option" where
  "positions ps opt =
     opt\<lparr>new_argv := take (new_argc opt) (new_argv opt) @ map Some ps
           @ drop (new_argc opt + length ps) (new_argv opt),
         new_argc := new_argc opt + length ps\<rparr>"

definition room :: "nat \<Rightarrow> any_option \<Rightarrow> bool" where
  "room n opt \<longleftrightarrow> new_argc opt + n \<le> max_legal_args opt \<and> length (new_argv opt) = max_legal_args opt + 1"

lemma ready_positions [simp]: "ready (positions ps opt) = ready opt"
  by (simp add: ready_def positions_def storage_ok_def slots_ok_def)

lemma entries_positions [simp]:
  "long_entries (positions ps opt) = long_entries opt" "char_entries (positions ps opt) = char_entries opt"
  by (simp_all add: positions_def long_entries_def char_entries_def)

lemma positions_Nil [simp]: "positions [] opt = opt"
  by (simp add: positions_def)

lemma positions_append: "room (length ps) opt \<Longrightarrow> positions qs (positions ps opt) = positions (ps @ qs) opt"
  by (auto simp: positions_def room_def min_def ac_simps)

lemma assigning_positions: "assigning as (positions ps opt) = positions ps (assigning as opt)"
  by (simp add: assigning_def positions_def the_values_def)

lemma room_assigning [simp]: "room n (assigning as opt) = room n opt"
  by (simp add: room_def assigning_def)

lemma room_positions: "room (length ps + n) opt \<Longrightarrow> room n (positions ps opt)"
  by (simp add: room_def positions_def)

lemma room_mono: "room n opt \<Longrightarrow> m \<le> n \<Longrightarrow> room m opt"
  by (simp add: room_def)

lemma add_argument_ok:
  assumes "ready opt" "room (Suc n) opt"
  shows "add_argument i arg opt = Inr (positions [i] opt)"
proof -
  let ?k = "new_argc opt"
  have k: "?k < max_legal_args opt" "?k < length (new_argv opt)"
    using assms(2) by (simp_all add: room_def)
  have "(new_argv opt)[?k := Some i] = take ?k (new_argv opt) @ Some i # drop (Suc ?k) (new_argv opt)"
    using k(2) by (simp add: upd_conv_take_nth_drop)
  then have "opt\<lparr>new_argv := (new_argv opt)[?k := Some i], new_argc := ?k + 1\<rparr> = positions [i] opt"
    by (simp add: positions_def)
  with k assms(1) show ?thesis
    by (simp add: add_argument_def)
qed

lemma process_one_ok:
  assumes "ready opt" "room (Suc n) opt"
  shows "process_one i arg next_arg opt =
    (case spec_one (long_entries opt) (char_entries opt) arg next_arg of
       (as, taken, plain) \<Rightarrow> Inr (taken, positions (if plain then [i] else []) (assigning as opt)))"
proof -
  have style: "posix_style opt" "opt_prefix_char opt = CHR ''-''"
    "is_long opt arg \<longleftrightarrow> char_of_arg arg 0 = CHR ''-'' \<and> char_of_arg arg 1 = CHR ''-''"
    using assms(1) by (simp_all add: ready_def is_long_def char_of_arg_def)
  consider (long) "is_long opt arg" | (short) "\<not> is_long opt arg" "char_of_arg arg 0 = CHR ''-''"
    | (plain) "\<not> is_long opt arg" "char_of_arg arg 0 \<noteq> CHR ''-''" by blast
  then show ?thesis
  proof cases
    case long
    let ?g = "spec_gnu (long_entries opt) (drop 2 arg)"
    obtain m where m: "parseGNU (drop 2 arg) opt = Inr (m, assigning (fst ?g) opt)"
      "case m of None \<Rightarrow> snd ?g = None | Some i \<Rightarrow> \<exists>name. option_name i opt = Inr name \<and> snd ?g = Some name"
      using parseGNU_ok [OF assms(1), of "drop 2 arg"] by blast
    have on: "option_name i (assigning as opt) = option_name i opt" for i as
      by (simp add: option_name_def assigning_def)
    obtain as r where g: "?g = (as, r)" by force
    show ?thesis
      using m assms(1) long style
      by (cases m; cases next_arg; cases r)
        (auto simp: process_one_def set_by_index_def spec_one_def g on setValue_ok(1))
  next
    case short
    obtain as r where g: "spec_posix (char_entries opt) (drop (Suc 0) arg) = (as, r)" by force
    show ?thesis
      using assms(1) short style
      by (cases next_arg; cases r)
        (auto simp: process_one_def parsePOSIX_def parsePOSIX_ok spec_one_def g setValue_ok(3))
  next
    case plain
    with assms style show ?thesis
      by (auto simp: process_one_def spec_one_def add_argument_ok)
  qed
qed

lemma spec_one_positions: "spec_one L C arg next_arg = (as, taken, plain) \<Longrightarrow> plain \<Longrightarrow> \<not> taken"
  by (auto simp: spec_one_def split: if_splits prod.splits option.splits)

lemma spec_line_positions: "length (snd (spec_line L C i args)) \<le> length args"
proof (induction L C i args rule: spec_line.induct)
  case (3 L C i arg v args)
  obtain as taken plain where s: "spec_one L C arg (Some v) = (as, taken, plain)"
    using prod_cases3 by blast
  show ?case
    using "3.IH"(1) [OF s [symmetric] refl] "3.IH"(2) [OF s [symmetric] refl]
    by (cases taken) (auto simp: s split: prod.splits dest: spec_one_positions [OF s])
qed (auto split: prod.splits)

lemma process_from_ok:
  "ready opt \<Longrightarrow> room (length args) opt \<Longrightarrow>
   process_from i args opt =
     (case spec_line (long_entries opt) (char_entries opt) i args of
        (as, ps) \<Rightarrow> Inr (positions ps (assigning as opt)))"
proof (induction i args opt rule: process_from.induct)
  case (2 i arg opt)
  then show ?case
    using process_one_ok [of opt 0 i arg None] by (simp split: prod.splits)
next
  case (3 i arg v args opt)
  obtain as taken plain where s: "spec_one (long_entries opt) (char_entries opt) arg (Some v) = (as, taken, plain)"
    using prod_cases3 by blast
  let ?p = "if plain then [i] else []"
  let ?opt = "positions ?p (assigning as opt)"
  have one: "process_one i arg (Some v) opt = Inr (taken, ?opt)"
    using process_one_ok [of opt "Suc (length args)" i arg "Some v"] "3.prems" s by simp
  have r: "ready ?opt" "room (length ?p) (assigning as opt)"
    using "3.prems" by (auto intro: room_mono)
  have pp: "assigning bs ?opt = positions ?p (assigning (as @ bs) opt)" for bs
    by (simp add: assigning_positions)
  have join: "positions ps (positions ?p (assigning (as @ bs) opt)) = positions (?p @ ps) (assigning (as @ bs) opt)" for ps bs
    using r(2) by (intro positions_append) simp
  show ?case
  proof (cases taken)
    case True
    then have np: "\<not> plain" using spec_one_positions [OF s] by blast
    have "room (length args) ?opt" using "3.prems"(2) np by (auto intro: room_mono)
    from "3.IH"(1) [OF one refl True r(1) this] one True np show ?thesis
      by (simp add: s split: prod.splits)
  next
    case False
    have "room (length (v # args)) ?opt"
      using "3.prems"(2) by (auto intro: room_mono intro!: room_positions)
    from "3.IH"(2) [OF one refl False r(1) this] one False join show ?thesis
      by (auto simp add: s pp split: prod.splits)
  qed
qed simp

section \<open>A whole command line\<close>

lemma spec_line_range:
  "p \<in> set (snd (spec_line L C i args)) \<Longrightarrow> i \<le> p \<and> p < i + length args"
proof (induction L C i args arbitrary: p rule: spec_line.induct)
  case (3 L C i arg v args)
  obtain as taken plain where s: "spec_one L C arg (Some v) = (as, taken, plain)"
    using prod_cases3 by blast
  show ?case
    using "3.IH"(1) [OF s [symmetric] refl, of p] "3.IH"(2) [OF s [symmetric] refl, of p] "3.prems"
    by (cases taken) (auto simp: s split: prod.splits if_splits)
qed (auto split: prod.splits if_splits)

text \<open>An object with everything registered and nothing processed yet.\<close>

definition fresh :: "any_option \<Rightarrow> bool" where
  "fresh opt \<longleftrightarrow>
     storage_ok opt \<and> slots_ok opt \<and> usage_ok opt \<and> \<not> value_set opt \<and> opt_values opt = None
   \<and> \<not> verbose opt \<and> \<not> autousage opt \<and> posix_style opt \<and> opt_prefix_char opt = CHR ''-''
   \<and> long_opt_prefix opt = ''--'' \<and> new_argc opt = 0 \<and> max_legal_args opt = 0
   \<and> \<not> hasoptions opt \<and> once opt \<and> cout opt = []"

definition registered_usage :: "any_option \<Rightarrow> string list" where
  "registered_usage opt = map the (take (usage_lines opt) (usage opt))"

lemma fresh_AnyOption: "fresh AnyOption"
  using storage_ok_init [of 10 10]
  by (simp add: fresh_def AnyOption_def) (simp add: usage_ok_def init_option_def)

lemma fresh_set_entry:
  assumes "fresh opt"
  shows "\<exists>opt'. set_entry type name ch opt = Inr opt' \<and> fresh opt'
    \<and> g_value_counter opt' = Suc (g_value_counter opt)
    \<and> long_entries opt' = long_entries opt @ new_long name type (g_value_counter opt)
    \<and> char_entries opt' = char_entries opt @ new_char ch type (g_value_counter opt)
    \<and> registered_usage opt' = registered_usage opt"
  using set_entry_ok [of opt type name ch] assms
  by (auto simp: fresh_def same_rest_def usage_ok_def registered_usage_def)

lemma usage_text_Some: "usage_text (map Some ls) = Inr (concat (map (\<lambda>l. l @ [CHR 0x0A]) ls))"
  by (induction ls) auto

lemma printUsage_registered:
  assumes "usage_ok opt" "once opt"
  shows "printUsage opt = Inr (opt\<lparr>once := False,
    cout := cout opt @ [CHR 0x0A] @ concat (map (\<lambda>l. l @ [CHR 0x0A]) (registered_usage opt)) @ [CHR 0x0A]\<rparr>)"
proof -
  have "take (usage_lines opt) (usage opt) = map Some (registered_usage opt)"
    using assms by (auto simp: registered_usage_def usage_ok_def intro!: nth_equalityI)
  moreover have "\<not> length (usage opt) < usage_lines opt"
    using assms by (simp add: usage_ok_def)
  ultimately show ?thesis
    using assms by (simp add: printUsage_def usage_text_Some)
qed

lemma fresh_addUsage:
  assumes "fresh opt"
  shows "\<exists>opt'. addUsage line opt = Inr opt' \<and> fresh opt'
    \<and> g_value_counter opt' = g_value_counter opt \<and> long_entries opt' = long_entries opt
    \<and> char_entries opt' = char_entries opt
    \<and> registered_usage opt' = registered_usage opt @ [line]"
proof -
  define opt1 where "opt1 = (if max_usage_lines opt \<le> usage_lines opt then doubleUsageStorage opt else opt)"
  have 1: "fresh opt1" "usage_lines opt1 < max_usage_lines opt1" "usage_lines opt1 = usage_lines opt"
    "g_value_counter opt1 = g_value_counter opt" "long_entries opt1 = long_entries opt"
    "char_entries opt1 = char_entries opt" "registered_usage opt1 = registered_usage opt"
    using assms
    by (auto simp: opt1_def fresh_def usage_ok_def doubleUsageStorage_def Let_def storage_ok_def
        slots_ok_def nth_append long_entries_def char_entries_def registered_usage_def)
  define opt2 where "opt2 = opt1\<lparr>usage := (usage opt1)[usage_lines opt1 := Some line],
      usage_lines := usage_lines opt1 + 1\<rparr>"
  have "addUsage line opt = Inr opt2"
    using 1(1,2) by (simp add: addUsage_def opt1_def [symmetric] opt2_def fresh_def usage_ok_def Let_def)
  moreover have "fresh opt2"
    using 1(1,2) by (auto simp: opt2_def fresh_def usage_ok_def storage_ok_def slots_ok_def
        nth_list_update all_less_Suc_nth)
  moreover have "registered_usage opt2 = registered_usage opt1 @ [line]"
    using 1(1,2) by (simp add: registered_usage_def opt2_def fresh_def usage_ok_def take_Suc_conv_app_nth)
  ultimately show ?thesis
    using 1 by (auto simp: opt2_def long_entries_def char_entries_def)
qed

text \<open>What the tool sees of a processed command line.\<close>

definition processed :: "any_option \<Rightarrow> string list \<Rightarrow> assigns \<Rightarrow> nat list \<Rightarrow> bool" where
  "processed opt args as ps \<longleftrightarrow>
     ready opt \<and> usage_ok opt \<and> once opt
   \<and> the_values opt = apply_assigns as (replicate (g_value_counter opt) None)
   \<and> argv opt = args \<and> hasoptions opt = (1 < length args)
   \<and> new_argc opt = length ps
   \<and> (\<forall>k<length ps. new_argv opt ! k = Some (ps ! k)) \<and> length ps \<le> length (new_argv opt)
   \<and> (\<forall>p\<in>set ps. p < length args)"

lemma processCommandArgs_ok:
  assumes fr: "fresh opt" and g: "0 < g_value_counter opt" and args: "args \<noteq> []"
    and sp: "spec_line (long_entries opt) (char_entries opt) 1 (tl args) = (as, ps)"
  shows "\<exists>opt'. processCommandArgs_argv args opt = Inr opt' \<and> processed opt' args as ps
    \<and> g_value_counter opt' = g_value_counter opt
    \<and> long_entries opt' = long_entries opt \<and> char_entries opt' = char_entries opt
    \<and> registered_usage opt' = registered_usage opt \<and> cout opt' = cout opt"
proof -
  define opt0 where "opt0 = opt\<lparr>argc := length args, argv := args, command_set := True,
      hasoptions := 1 < length args, opt_values := Some (replicate (g_value_counter opt) None),
      value_set := True, max_legal_args := length args,
      new_argv := replicate (length args + 1) None\<rparr>"
  have r: "ready opt0"
    using fr g by (auto simp: opt0_def ready_def fresh_def storage_ok_def slots_ok_def)
  have e: "long_entries opt0 = long_entries opt" "char_entries opt0 = char_entries opt"
    by (simp_all add: opt0_def long_entries_def char_entries_def)
  have room: "room (length (tl args)) opt0"
    using fr by (simp add: room_def opt0_def fresh_def)
  have start: "processCommandArgs_argv args opt = process_from 1 (tl args) opt0"
    using fr g args
    by (simp add: processCommandArgs_argv_def processCommandArgs_def useCommandArgs_def valueStoreOK_def
        fresh_def opt0_def Let_def)
  have len: "length ps \<le> length args"
    using spec_line_positions [of "long_entries opt" "char_entries opt" 1 "tl args"] sp by simp
  let ?opt = "positions ps (assigning as opt0)"
  have run: "processCommandArgs_argv args opt = Inr ?opt"
    unfolding start process_from_ok [OF r room] e sp by simp
  have rng: "\<forall>p\<in>set ps. p < length args"
    using spec_line_range [of _ "long_entries opt" "char_entries opt" 1 "tl args"] sp args
    by (cases args) auto
  have "new_argv ?opt = map Some ps @ drop (length ps) (replicate (length args + 1) None)"
    "new_argc ?opt = length ps"
    using fr by (simp_all add: positions_def assigning_def opt0_def fresh_def)
  then have "processed ?opt args as ps"
    using r fr rng len
    by (auto simp: processed_def positions_def assigning_def opt0_def the_values_def fresh_def usage_ok_def
        nth_append ready_def storage_ok_def slots_ok_def)
  moreover have "g_value_counter ?opt = g_value_counter opt"
    "registered_usage ?opt = registered_usage opt" "cout ?opt = cout opt"
    by (simp_all add: positions_def assigning_def opt0_def registered_usage_def)
  ultimately show ?thesis using run e by auto
qed

lemma getArgv_processed:
  assumes "processed opt args as ps"
  shows "getArgv i opt = Inr (if 0 \<le> i \<and> i < int (length ps) then Some (args ! (ps ! nat i)) else None)"
  using assms
  by (auto simp: getArgv_def processed_def nat_less_iff less_le_trans)

lemma registered_usage_AnyOption: "registered_usage AnyOption = []" "cout AnyOption = []"
  by (simp_all add: registered_usage_def AnyOption_def init_option_def)

lemma getArgc_processed: "processed opt args as ps \<Longrightarrow> getArgc opt = length ps"
  by (simp add: getArgc_def processed_def)

end
