(* ===== verification/Report.thy ===== *)
theory Report
  imports Repo_World Any_Option_Spec
begin

text \<open>
  \<^verbatim>\<open>src/report.cpp\<close>: trimming of program output and the report templates. The
  template engine is a parameter: \<open>parse_template\<close> reads a template file into a template,
  \<open>template_empty\<close> tells whether its content is empty, \<open>render\<close> fills one with a document; each may
  throw. \<open>render\<close> takes and returns \<^verbatim>\<open>std::string\<close>; what is printed is the text up to
  its first zero byte.
\<close>

section \<open>Trimming\<close>

definition trim_chars :: string where
  "trim_chars = [CHR '' '', CHR 0x0A, CHR 0x0D, CHR 0x09]"

definition removeNewlines :: "string \<Rightarrow> string result" where
  "removeNewlines source =
     and_then (erase source 0 (findFirstNotOf source trim_chars 0)) (\<lambda>res.
       erase res (findLastNotOf res trim_chars npos + 1) npos)"

definition is_blank :: "char \<Rightarrow> bool" where
  "is_blank c \<longleftrightarrow> c \<in> set trim_chars"

definition trim :: "string \<Rightarrow> string" where
  "trim s = rev (dropWhile is_blank (rev (dropWhile is_blank s)))"

lemma erase_first_blank:
  assumes "fits s"
  shows "erase s 0 (findFirstNotOf s trim_chars 0) = Inr (dropWhile is_blank s)"
proof -
  let ?k = "length (takeWhile is_blank s)"
  have le: "?k \<le> length s" by (rule length_takeWhile_le)
  have k: "CharTypeStringFindFirstNotOf s trim_chars = ?k"
    by (simp add: find_first_not_of_takeWhile is_blank_def [abs_def])
  show ?thesis
  proof (cases "?k = length s")
    case True
    then have "takeWhile is_blank s = s"
      by (metis length_takeWhile_le takeWhile_eq_take take_all_iff order_refl)
    then have d: "dropWhile is_blank s = []"
      by (metis dropWhile_eq_Nil_conv takeWhile_eq_all_conv)
    show ?thesis
      unfolding d using True assms k by (simp add: findFirstNotOf_def erase_all)
  next
    case False
    then have "findFirstNotOf s trim_chars 0 = word_of_nat ?k"
      by (simp add: findFirstNotOf_def k)
    then show ?thesis
      using erase_prefix [OF assms le] by (simp add: drop_takeWhile_length)
  qed
qed

lemma removeNewlines_trim:
  assumes "fits s"
  shows "removeNewlines s = Inr (trim s)"
proof -
  let ?t = "dropWhile is_blank s"
  let ?k = "length (dropWhile is_blank (rev ?t))"
  have t: "fits ?t" using assms by simp
  have k: "?k \<le> length ?t"
    using length_dropWhile_le [of is_blank "rev ?t"] by simp
  have "findLastNotOf ?t trim_chars npos + 1 = word_of_nat ?k"
    using findLastNotOf_npos [OF t, of trim_chars] by (simp add: is_blank_def [abs_def])
  then have "erase ?t (findLastNotOf ?t trim_chars npos + 1) npos = Inr (take ?k ?t)"
    using erase_suffix [OF t k] by (simp only:)
  moreover have "take ?k ?t = trim s"
  proof -
    have "dropWhile is_blank (rev ?t) = drop (length (takeWhile is_blank (rev ?t))) (rev ?t)"
      by (simp add: drop_takeWhile_length)
    then have "rev (dropWhile is_blank (rev ?t)) = take (length ?t - length (takeWhile is_blank (rev ?t))) ?t"
      by (simp add: rev_drop)
    moreover have "?k = length ?t - length (takeWhile is_blank (rev ?t))"
      by (metis drop_takeWhile_length length_drop length_rev)
    ultimately show ?thesis by (simp add: trim_def)
  qed
  ultimately show ?thesis
    by (simp add: removeNewlines_def erase_first_blank [OF assms])
qed

lemma trim_ends:
  "trim s \<noteq> [] \<Longrightarrow> \<not> is_blank (hd (trim s)) \<and> \<not> is_blank (last (trim s))"
proof -
  assume ne: "trim s \<noteq> []"
  let ?t = "dropWhile is_blank s"
  have "?t \<noteq> []" using ne by (auto simp: trim_def simp del: dropWhile_eq_Nil_conv)
  have l: "\<not> is_blank (last (trim s))"
    using ne hd_dropWhile [of is_blank "rev ?t"] by (simp add: trim_def last_rev del: dropWhile_eq_Nil_conv)
  obtain u where u: "?t = trim s @ u"
    by (metis rev_append rev_rev_ident takeWhile_dropWhile_id trim_def)
  have "hd ?t = hd (trim s)" using ne by (subst u) simp
  with hd_dropWhile [OF \<open>?t \<noteq> []\<close>] l show ?thesis by simp
qed

lemma trim_idem: "trim (trim s) = trim s"
proof (cases "trim s = []")
  case True
  show ?thesis unfolding True by (simp add: trim_def)
next
  case False
  then have "dropWhile is_blank (trim s) = trim s" "dropWhile is_blank (rev (trim s)) = rev (trim s)"
    using trim_ends [OF False] by (auto simp: dropWhile_eq_self_iff hd_rev)
  then show ?thesis by (simp add: trim_def [of "trim s"])
qed

lemma nul_free_trim: "nul_free s \<Longrightarrow> nul_free (trim s)"
  by (auto simp: nul_free_def trim_def dest!: set_dropWhileD)

lemma length_trim: "length (trim s) \<le> length s"
  using length_dropWhile_le [of is_blank s] length_dropWhile_le [of is_blank "rev (dropWhile is_blank s)"]
  by (simp add: trim_def)

section \<open>Templates\<close>

text \<open>
  A lookup of an option that may not be registered; the accessors only allocate the value store
  the first time, which the command line has already done, so the option object is not threaded.
\<close>

definition option_value :: "string \<Rightarrow> any_option \<Rightarrow> string option result" where
  "option_value name opt = map_sum id fst (getValue name opt)"

definition option_char :: "char \<Rightarrow> any_option \<Rightarrow> string option result" where
  "option_char ch opt = map_sum id fst (getValueChar ch opt)"

definition report_filename :: "any_option \<Rightarrow> string \<Rightarrow> string result" where
  "report_filename opt reportFilename =
     and_then (option_char CHR ''t'' opt) (\<lambda>extOption.
     and_then (if extOption = None then option_value ''type'' opt else Inr extOption) (\<lambda>extOption.
     let reportExtension = (case extOption of None \<Rightarrow> ''txt'' | Some e \<Rightarrow> e) in
     and_then (option_char CHR ''p'' opt) (\<lambda>p.
     and_then (option_value ''path'' opt) (\<lambda>path.
     let pathToTemplFolder = (case p of None \<Rightarrow> ''.'' | Some q \<Rightarrow> q);
         pathToTemplFolder = (case path of None \<Rightarrow> pathToTemplFolder | Some q \<Rightarrow> q);
         pathToTemplFolder = pathToTemplFolder @ ''/''
     in Inr (pathToTemplFolder @ ''reporttemplates/'' @ reportFilename @ ''.'' @ reportExtension)))))"

record 't engine =
  parse_template :: "(string \<Rightarrow> string option) \<Rightarrow> string \<Rightarrow> 't result"
  template_empty :: "'t \<Rightarrow> bool"
  render :: "'t \<Rightarrow> json \<Rightarrow> string result"

definition prepareOutputReport :: "'t engine \<Rightarrow> any_option \<Rightarrow> string \<Rightarrow> 't io" where
  "prepareOutputReport eng opt reportFilename =
     io_bind (io_lift (report_filename opt reportFilename)) (\<lambda>fullReportFilename.
     io_bind (\<lambda>w. (parse_template eng (files w) (c_str fullReportFilename), w)) (\<lambda>templ.
     if template_empty eng templ
     then io_bind (printf ''WARNING: your template seems to be empty!'') (\<lambda>_. io_return templ)
     else io_return templ))"

definition output_filename :: "any_option \<Rightarrow> string option result" where
  "output_filename opt =
     and_then (option_char CHR ''o'' opt) (\<lambda>o1.
       case o1 of Some f \<Rightarrow> Inr (Some f) | None \<Rightarrow> option_value ''output'' opt)"

text \<open>The file is not checked after it is opened: writing to a null file is a fault.\<close>

definition generateAndOutputReport :: "'t engine \<Rightarrow> any_option \<Rightarrow> 't \<Rightarrow> json \<Rightarrow> unit io" where
  "generateAndOutputReport eng opt templ reportData =
     io_bind (io_lift (render eng templ reportData)) (\<lambda>renderedReport.
     io_bind (io_lift (output_filename opt)) (\<lambda>target.
     case target of
       None \<Rightarrow> printf (c_str renderedReport)
     | Some filename \<Rightarrow>
         io_bind (fopen_write (Some filename)) (\<lambda>ok.
           if ok then fwrite (Some filename) (c_str renderedReport) else io_fail Null_Pointer)))"

lemma report_to_file:
  assumes "render eng templ data = Inr s" "output_filename opt = Inr (Some f)" "writable w f"
  shows "generateAndOutputReport eng opt templ data w = (Inr (), w\<lparr>files := (files w)(f \<mapsto> c_str s)\<rparr>)"
  using assms by (simp add: generateAndOutputReport_def io_bind_def fopen_write_def fwrite_def)

lemma report_to_console:
  assumes "render eng templ data = Inr s" "output_filename opt = Inr None"
  shows "generateAndOutputReport eng opt templ data w = (Inr (), w\<lparr>console := console w @ c_str s\<rparr>)"
  using assms by (simp add: generateAndOutputReport_def printf_def)

lemma report_refused:
  assumes "render eng templ data = Inr s" "output_filename opt = Inr (Some f)" "\<not> writable w f"
  shows "generateAndOutputReport eng opt templ data w = (Inl Null_Pointer, w)"
  using assms by (simp add: generateAndOutputReport_def io_bind_def fopen_write_def io_fail_def)

end
