(* ===== verification/Inja_Engine.thy ===== *)
theory Inja_Engine
  imports Inja_Parse_Nodes Inja_Machine Report
begin

text \<open>
  The template engine the reports run on: \<^verbatim>\<open>parse_template\<close> and
  \<^verbatim>\<open>render\<close> of \<^verbatim>\<open>class Environment\<close> as \<^verbatim>\<open>src/report.cpp\<close>
  calls them, with default delimiters, dot notation and no callbacks. A printed template is rendered to
  its meaning.
\<close>

section \<open>The environment of the reports\<close>

text \<open>
  The storage of included templates is that of the environment; each report starts with an empty
  one, a template an earlier report of the same run included would be read again.
\<close>

definition render_default :: "double_ops \<Rightarrow> (string \<Rightarrow> string) \<Rightarrow> template_storage \<Rightarrow> render_env" where
  "render_default d float_text included =
     \<lparr>re_double = d, re_float = float_text, re_callbacks = (\<lambda>name n. None), re_included = included\<rparr>"

definition inja_engine ::
    "nat \<Rightarrow> nat \<Rightarrow> double_ops \<Rightarrow> (string \<Rightarrow> string) \<Rightarrow> (string \<Rightarrow> bool) \<Rightarrow> (inja_template \<times> template_storage) engine" where
  "inja_engine depth fuel d float_text fin =
     \<lparr>parse_template = (\<lambda>fs filename. inja_parse_template depth fs (default_env fin) filename []),
      template_empty = (\<lambda>(templ, included). content templ = []),
      render = (\<lambda>(templ, included) data. render_template fuel (render_default d float_text included) templ data)\<rparr>"

section \<open>Parsing, then rendering\<close>

definition template_of :: "node list \<Rightarrow> inja_template" where
  "template_of ts = \<lparr>bytecodes = compile_template ts, content = print_nodes ts\<rparr>"

lemma parse_template_printed:
  assumes "fs filename = Some (print_nodes ts)" "nodes_ok ts" "length (compile_template ts) < no_jump"
  shows "inja_parse_template (Suc depth) fs (default_env fin) filename included = Inr (template_of ts, included)"
proof -
  obtain p where "parse_into (parse_fuel (print_nodes ts)) (inja_parse_template depth fs (default_env fin))
      (directory_part filename) (default_env fin) (parser_init (print_nodes ts) included) = Inr p"
    "p_code p = compile_template ts" "m_included p = included"
    by (rule parse_printed [OF assms(2,3)])
  then show ?thesis by (simp add: assms(1) template_of_def)
qed

text \<open>What a template denotes for a document: the text, or the fault.\<close>

definition document_text :: "double_ops \<Rightarrow> (string \<Rightarrow> string) \<Rightarrow> node list \<Rightarrow> json \<Rightarrow> string result" where
  "document_text d float_text ts data = meanings (render_default d float_text []) data 0 data ts"

lemma code_below_jump: "length (compile_template ts) < 2 ^ 30 \<Longrightarrow> length (compile_template ts) < no_jump"
  by (simp add: no_jump_def)

theorem engine_renders:
  assumes "nodes_ok ts" "length (compile_template ts) < 2 ^ 30"
  shows "\<exists>m. \<forall>fuel \<ge> m. \<forall>fs filename. fs filename = Some (print_nodes ts) \<longrightarrow>
    and_then (parse_template (inja_engine (Suc depth) fuel d float_text fin) fs filename)
      (\<lambda>templ. render (inja_engine (Suc depth) fuel d float_text fin) templ data)
    = document_text d float_text ts data"
proof -
  have "bytecodes (template_of ts) = compile_template ts" by (simp add: template_of_def)
  from render_compiled [OF wf_nodes_ok [OF assms(1)] assms(2) this, of "render_default d float_text []" data]
  obtain m where "\<forall>fuel \<ge> m. render_template fuel (render_default d float_text []) (template_of ts) data
      = document_text d float_text ts data"
    by (auto simp: document_text_def)
  then show ?thesis
    using parse_template_printed [OF _ assms(1) code_below_jump [OF assms(2)]]
    by (intro exI [of _ m]) (simp add: inja_engine_def)
qed

text \<open>A report, from the template file to where it goes.\<close>

definition delivered :: "string option \<Rightarrow> string \<Rightarrow> world \<Rightarrow> world" where
  "delivered target s w =
     (case target of
        None \<Rightarrow> w\<lparr>console := console w @ s\<rparr>
      | Some f \<Rightarrow> w\<lparr>files := (files w)(f \<mapsto> s)\<rparr>)"

definition can_deliver :: "string option \<Rightarrow> world \<Rightarrow> bool" where
  "can_deliver target w \<longleftrightarrow> (case target of None \<Rightarrow> True | Some f \<Rightarrow> writable w f)"

lemma report_delivered:
  assumes "render eng templ data = Inr s" "output_filename opt = Inr target" "can_deliver target w"
  shows "generateAndOutputReport eng opt templ data w = (Inr (), delivered target (c_str s) w)"
  using assms report_to_console [of eng templ data s opt w] report_to_file [of eng templ data s opt _ w]
  by (auto simp: can_deliver_def delivered_def split: option.splits)

lemma prepare_printed:
  assumes "parse_template eng (files w) (c_str f) = Inr templ" "\<not> template_empty eng templ"
    and "report_filename opt name = Inr f"
  shows "prepareOutputReport eng opt name w = (Inr templ, w)"
  using assms by (simp add: prepareOutputReport_def io_bind_def)

text \<open>With the template \<open>source\<close> on disk, a command delivers the text \<open>s\<close> for \<open>data\<close>.\<close>

definition reports_as :: "'t engine \<Rightarrow> string \<Rightarrow> json \<Rightarrow> string \<Rightarrow> bool" where
  "reports_as eng source data s \<longleftrightarrow>
     (\<forall>opt name f target w.
        report_filename opt name = Inr f \<and> files w (c_str f) = Some source
      \<and> output_filename opt = Inr target \<and> can_deliver target w
      \<longrightarrow> io_bind (prepareOutputReport eng opt name) (\<lambda>templ. generateAndOutputReport eng opt templ data) w
          = (Inr (), delivered target (c_str s) w))"

theorem report_printed:
  assumes "nodes_ok ts" "length (compile_template ts) < 2 ^ 30" "print_nodes ts \<noteq> []"
    and doc: "document_text d float_text ts data = Inr s"
  shows "\<exists>m. \<forall>fuel \<ge> m. reports_as (inja_engine (Suc depth) fuel d float_text fin) (print_nodes ts) data s"
proof -
  from engine_renders [OF assms(1,2), of depth d float_text fin data] obtain m where
    m: "\<And>fuel fs filename. m \<le> fuel \<Longrightarrow> fs filename = Some (print_nodes ts) \<Longrightarrow>
      and_then (parse_template (inja_engine (Suc depth) fuel d float_text fin) fs filename)
        (\<lambda>templ. render (inja_engine (Suc depth) fuel d float_text fin) templ data) = Inr s"
    by (auto simp: doc)
  have "reports_as (inja_engine (Suc depth) fuel d float_text fin) (print_nodes ts) data s" if "m \<le> fuel" for fuel
    unfolding reports_as_def
  proof (intro allI impI, elim conjE)
    let ?eng = "inja_engine (Suc depth) fuel d float_text fin"
    fix opt name f target w
    assume f: "report_filename opt name = Inr f" "files w (c_str f) = Some (print_nodes ts)"
      and out: "output_filename opt = Inr target" "can_deliver target w"
    have p: "parse_template ?eng (files w) (c_str f) = Inr (template_of ts, [])"
      using parse_template_printed [where fs = "files w", OF f(2) assms(1) code_below_jump [OF assms(2)]]
      by (simp add: inja_engine_def)
    have "\<not> template_empty ?eng (template_of ts, [])"
      using assms(3) by (simp add: inja_engine_def template_of_def)
    from io_bind_Inr [where m = "prepareOutputReport ?eng opt name", OF prepare_printed [OF p this f(1)]]
    have "io_bind (prepareOutputReport ?eng opt name) (\<lambda>templ. generateAndOutputReport ?eng opt templ data) w
        = generateAndOutputReport ?eng opt (template_of ts, []) data w" .
    with report_delivered [where w = w, OF _ out] m [where fs = "files w", OF that f(2)] p
    show "io_bind (prepareOutputReport ?eng opt name) (\<lambda>templ. generateAndOutputReport ?eng opt templ data) w
        = (Inr (), delivered target (c_str s) w)" by simp
  qed
  then show ?thesis by blast
qed

end
