(* ===== verification/Inja_Loops.thy ===== *)
theory Inja_Loops
  imports Inja_Machine
begin

text \<open>
  Names and loops of a template in a document whose members are known: a name reaches a member, a name
  with a slash a member of a member, a loop over an array is the concatenation of its rounds, and too
  many loops inside each other are undefined behaviour.
\<close>

section \<open>Names in templates\<close>

definition simple_name :: "string \<Rightarrow> bool" where
  "simple_name s \<longleftrightarrow> plain_name s \<and> nul_free s \<and> CHR ''.'' \<notin> set s"

lemma pointer_of_name: "CHR ''.'' \<notin> set s \<Longrightarrow> convert_dot_to_json_pointer s = CHR ''/'' # s"
proof -
  assume "CHR ''.'' \<notin> set s"
  then have "takeWhile (\<lambda>c. c \<noteq> CHR ''.'') s = s"
    unfolding takeWhile_eq_all_conv by auto
  then show "convert_dot_to_json_pointer s = CHR ''/'' # s"
    unfolding convert_dot_to_json_pointer.simps [of s] by (simp only: Let_def) simp
qed

lemma lookup_simple:
  assumes "simple_name s" "obj_lookup kvs s = Some v"
  shows "lookup_name env (JObject kvs) s = Inr v"
proof -
  have "json_pointer (c_str (CHR ''/'' # s)) = Inr [s]"
    using assms(1) json_pointer_plain [of s] by (simp add: simple_name_def)
  then show ?thesis
    using assms by (simp add: lookup_name_def lookup_value_def simple_name_def pointer_of_name pointer_step_def
        json_at_key_def)
qed

text \<open>A slash in a name reaches a member of a member.\<close>

lemma lookup_member:
  assumes "simple_name s" "simple_name t" "obj_lookup kvs s = Some (JObject ms)" "obj_lookup ms t = Some v"
  shows "lookup_name env (JObject kvs) (s @ CHR ''/'' # t) = Inr v"
proof -
  have "json_pointer (c_str (CHR ''/'' # s @ CHR ''/'' # t)) = Inr [s, t]"
    using assms(1,2) json_pointer_two [of s t] by (simp add: simple_name_def)
  then show ?thesis
    using assms by (simp add: lookup_name_def lookup_value_def simple_name_def pointer_of_name pointer_step_def
        json_at_key_def)
qed

section \<open>Loops over an array\<close>

text \<open>What a round sees: its value, and all other members of the document as they are.\<close>

definition in_round :: "string \<Rightarrow> (string \<times> json) list \<Rightarrow> json \<Rightarrow> (string \<times> json) list \<Rightarrow> bool" where
  "in_round var kvs v cur \<longleftrightarrow>
     obj_lookup cur var = Some v
   \<and> (\<forall>k. k \<noteq> var \<and> k \<noteq> ''loop'' \<longrightarrow> obj_lookup cur k = obj_lookup kvs k)"

definition loop_free :: "(string \<times> json) list \<Rightarrow> bool" where
  "loop_free kvs \<longleftrightarrow> (case obj_lookup kvs ''loop'' of None \<Rightarrow> True | Some (JObject l) \<Rightarrow> True | _ \<Rightarrow> False)"

lemma loop_member_object:
  assumes "loop_free kvs" "var \<noteq> ''loop''"
  shows "\<exists>l kvs'. json_at ''loop'' (JObject (obj_insert var v kvs)) = Inr (l, JObject kvs')
    \<and> (l = JNull \<or> (\<exists>ms. l = JObject ms))
    \<and> (\<forall>k. k \<noteq> ''loop'' \<longrightarrow> obj_lookup kvs' k = (if k = var then Some v else obj_lookup kvs k))"
proof (cases "obj_lookup kvs ''loop''")
  case None
  then show ?thesis using assms by (auto simp: json_at_def obj_lookup_insert)
next
  case (Some l)
  with assms show ?thesis
    by (auto simp: json_at_def obj_lookup_insert loop_free_def split: json.splits)
qed

lemma set_object: "l = JNull \<or> (\<exists>ms. l = JObject ms) \<Longrightarrow> \<exists>ms. json_set k v l = Inr (JObject ms)"
  by auto

lemma array_round_object:
  assumes "loop_free kvs" "var \<noteq> ''loop''"
  shows "\<exists>cur. array_round var n i v (JObject kvs) = Inr (JObject cur) \<and> in_round var kvs v cur \<and> loop_free cur"
proof -
  obtain l kvs' where l: "json_at ''loop'' (JObject (obj_insert var v kvs)) = Inr (l, JObject kvs')"
    "l = JNull \<or> (\<exists>ms. l = JObject ms)"
    "\<forall>k. k \<noteq> ''loop'' \<longrightarrow> obj_lookup kvs' k = (if k = var then Some v else obj_lookup kvs k)"
    using loop_member_object [OF assms] by blast
  from set_object [OF l(2)] obtain ms where "json_set ''index'' (JUnsigned (word_of_nat i)) l = Inr (JObject ms)"
    by blast
  then show ?thesis
    using l(1,3) assms(2)
    by (auto simp: array_round_def in_round_def loop_free_def obj_lookup_insert)
qed

lemma run_rounds_array:
  assumes "\<And>x cur. x \<in> set (map snd xs) \<Longrightarrow> in_round var kvs (f x) cur \<Longrightarrow> body (JObject cur) = Inr (g x)"
    and "loop_free cur" "\<forall>k. k \<noteq> var \<and> k \<noteq> ''loop'' \<longrightarrow> obj_lookup cur k = obj_lookup kvs k" "var \<noteq> ''loop''"
  shows "run_rounds body (map (\<lambda>(i, x). array_round var n i (f x)) xs) (JObject cur) = Inr (concat (map (\<lambda>(i, x). g x) xs))"
  using assms(1-3)
proof (induction xs arbitrary: cur)
  case (Cons ix xs)
  obtain i x where ix: "ix = (i, x)" by force
  obtain cur' where cur': "array_round var n i (f x) (JObject cur) = Inr (JObject cur')"
    "in_round var cur (f x) cur'" "loop_free cur'"
    using array_round_object [OF Cons.prems(2) assms(4)] by blast
  then have "in_round var kvs (f x) cur'" using Cons.prems(3) by (simp add: in_round_def)
  then have "body (JObject cur') = Inr (g x)" using Cons.prems(1) by (simp add: ix)
  moreover have "run_rounds body (map (\<lambda>(i, x). array_round var n i (f x)) xs) (JObject cur')
      = Inr (concat (map (\<lambda>(i, x). g x) xs))"
    using \<open>in_round var kvs (f x) cur'\<close> Cons.prems(1) cur'(3) by (intro Cons.IH) (auto simp: in_round_def)
  ultimately show ?case by (simp add: ix cur')
qed simp

text \<open>A loop whose body is the same function of every element.\<close>

lemma meaning_loop:
  assumes "lookup_name env (JObject kvs) lst = Inr (JArray (map f xs))" "obj_lookup kvs ''loop'' = None"
    and "var \<noteq> ''loop''" "depth < reserved_loops"
    and "\<And>x cur. x \<in> set xs \<Longrightarrow> in_round var kvs (f x) cur \<Longrightarrow> meanings env root (Suc depth) (JObject cur) b = Inr (g x)"
  shows "meaning env root depth (JObject kvs) (For [] var (Lookup lst) b) = Inr (concat (map g xs))"
proof -
  let ?xs = "map (\<lambda>i. (i, xs ! i)) [0..<length xs]"
  have "map snd ?xs = xs" by (simp add: comp_def map_nth)
  have "rounds [] var (JArray (map f xs)) = Inr (map (\<lambda>(i, x). array_round var (length xs) i (f x)) ?xs)"
    by (simp add: rounds_def)
  moreover have "run_rounds (\<lambda>cur. meanings env root (Suc depth) cur b)
      (map (\<lambda>(i, x). array_round var (length xs) i (f x)) ?xs) (JObject kvs) = Inr (concat (map (\<lambda>(i, x). g x) ?xs))"
    using assms(2,3,5) by (intro run_rounds_array) (auto simp: loop_free_def)
  moreover have "map (\<lambda>(i, x). g x) ?xs = map g xs"
    by (rule nth_equalityI) simp_all
  ultimately show ?thesis
    using assms(1,2,4) by (auto simp: json_empty_def link_parent_def json_find_def)
qed

section \<open>Too many loops\<close>

text \<open>\<open>k\<close> loops over the same array, each in the one before.\<close>

fun nested :: "nat \<Rightarrow> node list \<Rightarrow> node list" where
  "nested 0 b = b"
| "nested (Suc k) b = [For [] ''x'' (Lookup ''xs'') (nested k b)]"

lemma link_parent_object:
  assumes "loop_free kvs"
  shows "\<exists>kvs'. link_parent (JObject kvs) = Inr (JObject kvs') \<and> loop_free kvs'
    \<and> (\<forall>k. k \<noteq> ''loop'' \<longrightarrow> obj_lookup kvs' k = obj_lookup kvs k)"
  using assms
  by (auto simp: loop_free_def link_parent_def json_find_def obj_lookup_insert split: option.splits json.splits)

lemma nested_loops_fault:
  assumes "obj_lookup kvs ''xs'' = Some (JArray (v # vs))" "loop_free kvs" "reserved_loops < depth + k" "depth \<le> reserved_loops"
  shows "meanings env root depth (JObject kvs) (nested k b) = Inl Use_After_Free"
  using assms
proof (induction k arbitrary: depth kvs)
  case 0
  then show ?case by simp
next
  case (Suc k)
  have lst: "eval env root (JObject kvs) (Lookup ''xs'') = Inr (JArray (v # vs))"
    using lookup_simple [of "''xs''" kvs, OF _ Suc.prems(1)] by (simp add: simple_name_def plain_name_def)
  show ?case
  proof (cases "reserved_loops \<le> depth")
    case True
    then show ?thesis using lst by (simp add: json_empty_def)
  next
    case False
    obtain kvs1 where k1: "link_parent (JObject kvs) = Inr (JObject kvs1)" "loop_free kvs1"
      "\<forall>k. k \<noteq> ''loop'' \<longrightarrow> obj_lookup kvs1 k = obj_lookup kvs k"
      using link_parent_object [OF Suc.prems(2)] by blast
    obtain cur where cur: "array_round ''x'' (Suc (length vs)) 0 v (JObject kvs1) = Inr (JObject cur)"
      "in_round ''x'' kvs1 v cur" "loop_free cur"
      using array_round_object [OF k1(2), of "''x''" "Suc (length vs)" 0 v] by blast
    have "obj_lookup cur ''xs'' = Some (JArray (v # vs))"
      using cur(2) k1(3) Suc.prems(1) by (simp add: in_round_def)
    then have "meanings env root (Suc depth) (JObject cur) (nested k b) = Inl Use_After_Free"
      using Suc.prems(3) False cur(3) by (intro Suc.IH) auto
    moreover have "rounds [] ''x'' (JArray (v # vs)) = Inr (array_round ''x'' (Suc (length vs)) 0 v #
        map (\<lambda>i. array_round ''x'' (Suc (length vs)) i ((v # vs) ! i)) [1..<Suc (length vs)])"
      by (simp add: rounds_def upt_conv_Cons del: upt_Suc)
    ultimately show ?thesis
      using False lst k1(1) cur(1) by (simp add: json_empty_def)
  qed
qed

lemma wf_nested: "wf_nodes b \<Longrightarrow> wf_nodes (nested k b)"
  by (induction k) auto

theorem nested_render:
  assumes "wf_nodes b" "16 < k" "length (compile_template (nested k b)) < 2 ^ 30"
    and "bytecodes tmpl = compile_template (nested k b)"
    and "obj_lookup kvs ''xs'' = Some (JArray (v # vs))" "obj_lookup kvs ''loop'' = None"
  shows "\<exists>m. \<forall>n \<ge> m. render_template n env tmpl (JObject kvs) = Inl Use_After_Free"
proof -
  have "meanings env (JObject kvs) 0 (JObject kvs) (nested k b) = Inl Use_After_Free"
    using assms(2,6) by (intro nested_loops_fault [OF assms(5)]) (simp_all add: loop_free_def reserved_loops_def)
  with render_compiled [OF wf_nested [OF assms(1)] assms(3,4), of env "JObject kvs"] show ?thesis by simp
qed

end
