(* ===== verification/File_Path.thy ===== *)
theory File_Path
  imports Eastl_String
begin

text \<open>
  Paths and directory listings (\<^verbatim>\<open>src/extlibs/eastl/extra/path.h\<close>) as compiled for
  POSIX: a path is its components and whether it is absolute. What \<^verbatim>\<open>opendir\<close> and
  \<^verbatim>\<open>readdir\<close> return is the parameter \<open>listing\<close>: \<open>None\<close> when the directory cannot be
  opened, which the iterator does not check.
\<close>

record path =
  m_path :: "string list"
  m_absolute :: bool

section \<open>Splitting\<close>

text \<open>The loop of \<^verbatim>\<open>tokenize\<close>; positions are \<^verbatim>\<open>size_type\<close>. The fuel bounds the rounds.\<close>

fun tokenize_from ::
    "nat \<Rightarrow> string \<Rightarrow> string \<Rightarrow> size_type \<Rightarrow> size_type \<Rightarrow> string list \<Rightarrow> string list result option" where
  "tokenize_from 0 s delim lastPos pos tokens = None"
| "tokenize_from (Suc n) s delim lastPos pos tokens =
     (if lastPos = npos then Some (Inr tokens)
      else
        case (if pos \<noteq> lastPos
              then and_then (substr s lastPos (pos - lastPos)) (\<lambda>t. Inr (tokens @ [t]))
              else Inr tokens) of
          Inl f \<Rightarrow> Some (Inl f)
        | Inr tokens \<Rightarrow>
            (let lastPos = pos in
             if lastPos = npos \<or> lastPos + 1 = str_size s then Some (Inr tokens)
             else tokenize_from n s delim (lastPos + 1) (findFirstOf s delim (lastPos + 1)) tokens))"

definition tokenize :: "string \<Rightarrow> string \<Rightarrow> string list result option" where
  "tokenize s delim = tokenize_from (length s + 2) s delim 0 (findFirstOf s delim 0) []"

text \<open>The reference: the components between slashes; an empty text has one empty component.\<close>

fun split_on :: "char \<Rightarrow> string \<Rightarrow> string list" where
  "split_on d [] = [[]]"
| "split_on d (c # s) =
     (if c = d then [] # split_on d s
      else (case split_on d s of [] \<Rightarrow> [[c]] | t # ts \<Rightarrow> (c # t) # ts))"

definition components :: "string \<Rightarrow> string list" where
  "components s = (if s = [] then [[]] else filter (\<lambda>t. t \<noteq> []) (split_on CHR ''/'' s))"

lemma split_on_nonempty [simp]: "split_on d s \<noteq> []"
  by (cases s) (auto split: list.splits)

lemma split_on_unfold:
  "split_on d s = takeWhile (\<lambda>c. c \<noteq> d) s #
     (case dropWhile (\<lambda>c. c \<noteq> d) s of [] \<Rightarrow> [] | _ # u \<Rightarrow> split_on d u)"
  by (induction s) (auto split: list.splits)

lemma findFirstOf_from:
  assumes "fits s" "p < length s"
  shows "findFirstOf s [d] (word_of_nat p) =
    (let k = length (takeWhile (\<lambda>c. c \<noteq> d) (drop p s))
     in if p + k < length s then word_of_nat (p + k) else npos)"
proof -
  have u: "unat (word_of_nat p :: size_type) = p"
    using assms by (intro unat_word_of_nat_fits) auto
  have lt: "(word_of_nat p :: size_type) < str_size s"
    using assms by (simp add: word_less_nat_alt u)
  have le: "p + length (takeWhile (\<lambda>c. c \<noteq> d) (drop p s)) \<le> length s"
    using length_takeWhile_le [of "\<lambda>c. c \<noteq> d" "drop p s"] assms(2) by simp
  show ?thesis
    using lt u le by (auto simp: findFirstOf_def find_first_of_takeWhile Let_def)
qed

lemma word_of_nat_inj:
  "fits s \<Longrightarrow> i \<le> length s \<Longrightarrow> j \<le> length s \<Longrightarrow> (word_of_nat i :: size_type) = word_of_nat j \<longleftrightarrow> i = j"
  using unat_word_of_nat_fits by metis

lemma word_of_nat_npos: "fits s \<Longrightarrow> i \<le> length s \<Longrightarrow> (word_of_nat i :: size_type) \<noteq> npos"
  using unat_word_of_nat_fits [of s i] unat_npos by (auto simp: fits_def)

text \<open>The loop from a position inside the text.\<close>

lemma tokenize_from_ok:
  "fits s \<Longrightarrow> p < length s \<Longrightarrow> length s - p < n \<Longrightarrow>
   tokenize_from n s [d] (word_of_nat p) (findFirstOf s [d] (word_of_nat p)) tokens
     = Some (Inr (tokens @ filter (\<lambda>t. t \<noteq> []) (split_on d (drop p s))))"
proof (induction n arbitrary: p tokens)
  case (Suc n)
  let ?k = "length (takeWhile (\<lambda>c. c \<noteq> d) (drop p s))"
  let ?tok = "takeWhile (\<lambda>c. c \<noteq> d) (drop p s)"
  note p = word_of_nat_npos [OF Suc.prems(1), of p]
  have sub: "substr s (word_of_nat p) m = Inr (take (unat m) (drop p s))" for m
    using substr_ok [OF Suc.prems(1), of p m] Suc.prems(2) by simp
  show ?case
  proof (cases "p + ?k < length s")
    case False
    then have "length ?tok = length (drop p s)"
      using length_takeWhile_le [of "\<lambda>c. c \<noteq> d" "drop p s"] Suc.prems(2) by simp
    then have "?tok = drop p s"
      by (metis takeWhile_eq_take take_all order_refl)
    then have "split_on d (drop p s) = [drop p s]"
      by (subst split_on_unfold) (metis dropWhile_eq_Nil_conv list.simps(4) takeWhile_eq_all_conv)
    moreover have "unat (npos - word_of_nat p) = 2 ^ 64 - 1 - p"
      using Suc.prems(1,2) unat_word_of_nat_fits [of s p] unat_npos
      by (subst unat_sub) (auto simp: word_le_nat_alt fits_def)
    moreover have "take (2 ^ 64 - 1 - p) (drop p s) = drop p s"
      using Suc.prems(1) by (simp add: fits_def)
    ultimately show ?thesis
      using Suc.prems p False by (simp add: findFirstOf_from Let_def sub)
  next
    case True
    let ?q = "p + ?k"
    have f: "findFirstOf s [d] (word_of_nat p) = word_of_nat ?q"
      using True Suc.prems by (simp add: findFirstOf_from)
    have dw: "dropWhile (\<lambda>c. c \<noteq> d) (drop p s) = s ! ?q # drop (Suc ?q) s"
      using True by (simp add: drop_takeWhile_length [symmetric] Cons_nth_drop_Suc add.commute)
    have sp: "split_on d (drop p s) = ?tok # split_on d (drop (Suc ?q) s)"
      by (subst split_on_unfold) (simp add: dw)
    have np: "(word_of_nat ?q :: size_type) \<noteq> npos" "(word_of_nat p :: size_type) \<noteq> npos"
      using word_of_nat_npos [OF Suc.prems(1), of ?q] True p Suc.prems(2) by simp_all
    have eq: "(word_of_nat ?q :: size_type) = word_of_nat p \<longleftrightarrow> ?k = 0"
      using word_of_nat_inj [OF Suc.prems(1), of ?q p] True Suc.prems(2) by simp
    have "(word_of_nat ?q :: size_type) - word_of_nat p = word_of_nat ?k"
      by simp
    moreover have "unat (word_of_nat ?k :: size_type) = ?k"
      using Suc.prems(1) True by (intro unat_word_of_nat_fits) auto
    ultimately have tok: "substr s (word_of_nat p) (word_of_nat ?q - word_of_nat p) = Inr ?tok"
      using sub by (simp add: take_takeWhile_length)
    have step: "(if word_of_nat ?q \<noteq> (word_of_nat p :: size_type)
         then and_then (substr s (word_of_nat p) (word_of_nat ?q - word_of_nat p)) (\<lambda>t. Inr (tokens @ [t]))
         else Inr tokens) = Inr (tokens @ filter (\<lambda>t. t \<noteq> []) [?tok])"
      using eq tok by auto
    have next_pos: "(word_of_nat ?q :: size_type) + 1 = word_of_nat (Suc ?q)" by simp
    have last: "(word_of_nat ?q :: size_type) + 1 = str_size s \<longleftrightarrow> Suc ?q = length s"
      unfolding next_pos str_size_def
      using word_of_nat_inj [OF Suc.prems(1), of "Suc ?q" "length s"] True by simp
    show ?thesis
    proof (cases "Suc ?q = length s")
      case end_slash: True
      then have "drop (Suc ?q) s = []" by simp
      with end_slash show ?thesis
        using np last by (simp only: tokenize_from.simps f step) (simp add: sp Let_def)
    next
      case False
      with True have "Suc ?q < length s" by simp
      have ih: "tokenize_from n s [d] (word_of_nat (Suc ?q)) (findFirstOf s [d] (word_of_nat (Suc ?q)))
          (tokens @ filter (\<lambda>t. t \<noteq> []) [?tok])
          = Some (Inr ((tokens @ filter (\<lambda>t. t \<noteq> []) [?tok]) @ filter (\<lambda>t. t \<noteq> []) (split_on d (drop (Suc ?q) s))))"
        by (rule Suc.IH) (use Suc.prems(1,3) \<open>Suc ?q < length s\<close> in auto)
      have "tokenize_from (Suc n) s [d] (word_of_nat p) (findFirstOf s [d] (word_of_nat p)) tokens
          = tokenize_from n s [d] (word_of_nat ?q + 1) (findFirstOf s [d] (word_of_nat ?q + 1))
              (tokens @ filter (\<lambda>t. t \<noteq> []) [?tok])"
        using np last False by (simp only: tokenize_from.simps f step Let_def sum.case if_False simp_thms)
      then show ?thesis unfolding next_pos ih by (simp add: sp)
    qed
  qed
qed simp

lemma tokenize_components:
  assumes "fits s"
  shows "tokenize s ''/'' = Some (Inr (components s))"
proof (cases "s = []")
  case True
  then show ?thesis
    by (simp add: tokenize_def components_def findFirstOf_def str_size_def npos_def numeral_2_eq_2
        substr_def)
next
  case False
  with tokenize_from_ok [OF assms, of 0 "length s + 2" "CHR ''/''" "[]"] show ?thesis
    by (simp add: tokenize_def components_def)
qed

section \<open>Paths\<close>

definition path_set :: "string \<Rightarrow> path result option" where
  "path_set s =
     map_option (map_sum id (\<lambda>ts. \<lparr>m_path = ts, m_absolute = (s \<noteq> [] \<and> hd s = CHR ''/'')\<rparr>))
       (tokenize s ''/'')"

fun join_slash :: "string list \<Rightarrow> string" where
  "join_slash [] = []"
| "join_slash [t] = t"
| "join_slash (t # u # ts) = t @ ''/'' @ join_slash (u # ts)"

definition path_str :: "path \<Rightarrow> string" where
  "path_str p = (if m_absolute p then ''/'' else []) @ join_slash (map c_str (m_path p))"

definition path_append :: "path \<Rightarrow> path \<Rightarrow> path result" where
  "path_append p other =
     (if m_absolute other then Inl Std_Terminate
      else Inr (p\<lparr>m_path := m_path p @ m_path other\<rparr>))"

definition path_of :: "string \<Rightarrow> path" where
  "path_of s = \<lparr>m_path = components s, m_absolute = (s \<noteq> [] \<and> hd s = CHR ''/'')\<rparr>"

lemma path_set_ok: "fits s \<Longrightarrow> path_set s = Some (Inr (path_of s))"
  by (simp add: path_set_def path_of_def tokenize_components)

section \<open>Iterating over a directory\<close>

text \<open>
  The names a loop over \<^verbatim>\<open>directory_iterator\<close> sees: \<^verbatim>\<open>increment\<close> passes over
  every name that starts with a dot. A directory that cannot be opened leaves a null
  \<^verbatim>\<open>DIR\<close> pointer, which \<^verbatim>\<open>readdir\<close> is given.
\<close>

definition visible :: "string \<Rightarrow> bool" where
  "visible d_name \<longleftrightarrow> (d_name = [] \<or> hd d_name \<noteq> CHR ''.'')"

definition directory_entries :: "(string \<Rightarrow> string list option) \<Rightarrow> path \<Rightarrow> path list result" where
  "directory_entries listing p =
     (case listing (path_str p) of
        None \<Rightarrow> Inl Null_Pointer
      | Some names \<Rightarrow>
          map_result (\<lambda>d_name.
              case path_set d_name of
                Some r \<Rightarrow> and_then r (path_append p)
              | None \<Rightarrow> Inl Std_Terminate)
            (filter visible names))"

end
