(* ===== verification/Repo_Files.thy ===== *)
theory Repo_Files
  imports Repo_World
begin

text \<open>
  The files the tool keeps (\<^verbatim>\<open>src/cachedrepositoryio.cpp\<close>,
  \<^verbatim>\<open>src/repostateio.cpp\<close>): the cache of repository paths and saved states. The
  parameters \<open>fin\<close> and \<open>dump_float\<close> are those of the JSON library; no file of the tool contains a
  floating-point number.
\<close>

definition cache_file :: string where
  "cache_file = ''.repotool.cache''"

section \<open>The cache of repositories\<close>

text \<open>One element of the list, as a C string.\<close>

definition load_entry :: "json \<Rightarrow> string result" where
  "load_entry it = and_then (get_string it) (\<lambda>s. Inr (c_str s))"

definition loadGitRepositoriesFromFile :: "(string \<Rightarrow> bool) \<Rightarrow> string \<Rightarrow> string list io" where
  "loadGitRepositoriesFromFile fin filename =
     io_bind (fopen_read (Some filename)) (\<lambda>fp.
       case fp of
         None \<Rightarrow> io_return []
       | Some filebuffer \<Rightarrow>
           io_lift (and_then (json_parse_c fin filebuffer) (\<lambda>j.
             and_then (json_at ''repos'' j) (\<lambda>(arr, j).
               map_result load_entry (json_elements arr)))))"

definition string_array :: "string list \<Rightarrow> json result" where
  "string_array ss = push_all (map (\<lambda>s. JString (c_str s)) ss) (JArray [])"

definition saveGitRepositoriesToFile :: "(string \<Rightarrow> string) \<Rightarrow> string list \<Rightarrow> unit io" where
  "saveGitRepositoriesToFile dump_float gitRepositories =
     io_bind (io_lift (and_then (string_array gitRepositories) (\<lambda>listArray.
                json_set ''repos'' listArray JNull))) (\<lambda>j.
     io_bind (write_file (Some cache_file) (dump dump_float j)) (\<lambda>_. io_return ()))"

section \<open>Saved states\<close>

definition saveStateFile :: "(string \<Rightarrow> string) \<Rightarrow> string option \<Rightarrow> json \<Rightarrow> unit io" where
  "saveStateFile dump_float filename jsondata =
     io_bind (write_file filename (dump dump_float jsondata)) (\<lambda>ok.
       if ok then io_return ()
       else printf (''could not open output file to save the state!'' @ [CHR 0x0A]))"

definition loadState :: "(string \<Rightarrow> bool) \<Rightarrow> string option \<Rightarrow> json io" where
  "loadState fin filename =
     io_bind (fopen_read filename) (\<lambda>fp.
       case fp of
         None \<Rightarrow>
           io_bind (printf (''could not open input file to load state'' @ [CHR 0x0A])) (\<lambda>_. io_return JNull)
       | Some filebuffer \<Rightarrow> io_lift (json_parse_c fin filebuffer))"

section \<open>Lemmas\<close>

definition repo_list_json :: "string list \<Rightarrow> json" where
  "repo_list_json rs = JObject [(''repos'', JArray (map (\<lambda>s. JString (c_str s)) rs))]"

lemma string_array_eq: "string_array ss = Inr (JArray (map (\<lambda>s. JString (c_str s)) ss))"
  by (simp add: string_array_def)

lemma save_eq:
  "saveGitRepositoriesToFile df rs =
     io_bind (write_file (Some cache_file) (dump df (repo_list_json rs))) (\<lambda>_. io_return ())"
  by (simp add: saveGitRepositoriesToFile_def string_array_eq repo_list_json_def)

lemma values_plain_strings:
  "values_plain (map (\<lambda>s. JString (f s)) ss) \<longleftrightarrow> list_all (\<lambda>s. valid_utf8 (f s)) ss"
  by (induction ss) auto

lemma values_utf8_strings:
  "values_utf8 (map (\<lambda>s. JString (f s)) ss) \<longleftrightarrow> list_all (\<lambda>s. valid_utf8 (f s)) ss"
  by (induction ss) auto

lemma valid_utf8_key [simp]: "valid_utf8 ''repos''"
  by (rule valid_utf8_ascii) simp

lemma repo_list_plain:
  "json_plain (repo_list_json rs) \<longleftrightarrow> list_all (\<lambda>s. valid_utf8 (c_str s)) rs"
  by (simp add: repo_list_json_def values_plain_strings obj_sorted_def)

lemma repo_list_utf8:
  "json_utf8 (repo_list_json rs) \<longleftrightarrow> list_all (\<lambda>s. valid_utf8 (c_str s)) rs"
  by (simp add: repo_list_json_def values_utf8_strings)

lemma load_entries:
  "map_result load_entry (map (\<lambda>s. JString (c_str s)) rs) = Inr (map c_str rs)"
  by (induction rs) (auto simp: load_entry_def get_string_def)

lemma save_load:
  assumes "list_all (\<lambda>s. valid_utf8 (c_str s)) rs" "writable w cache_file"
  shows "\<exists>w'. saveGitRepositoriesToFile df rs w = (Inr (), w') \<and> console w' = console w
    \<and> (\<forall>n. n \<noteq> cache_file \<longrightarrow> files w' n = files w n)
    \<and> loadGitRepositoriesFromFile fin cache_file w' = (Inr (map c_str rs), w')"
proof -
  have plain: "json_plain (repo_list_json rs)"
    using assms(1) by (simp add: repo_list_plain)
  then obtain doc where doc: "dump df (repo_list_json rs) = Inr doc"
    using dump_plain by blast
  define w' where "w' = w\<lparr>files := (files w)(cache_file \<mapsto> doc)\<rparr>"
  have "saveGitRepositoriesToFile df rs w = (Inr (), w')"
    using assms(2) by (simp add: save_eq doc io_bind_Inr [OF write_file_ok] w'_def)
  moreover have "json_parse_c fin doc = Inr (repo_list_json rs)"
    by (rule json_parse_dump [OF plain doc])
  then have "loadGitRepositoriesFromFile fin cache_file w' = (Inr (map c_str rs), w')"
    by (simp add: loadGitRepositoriesFromFile_def io_bind_def fopen_read_def w'_def
        repo_list_json_def json_at_def json_elements_def load_entries)
  ultimately show ?thesis by (auto simp: w'_def)
qed

lemma save_not_utf8:
  assumes "\<not> list_all (\<lambda>s. valid_utf8 (c_str s)) rs" "writable w cache_file"
  shows "saveGitRepositoriesToFile df rs w
    = (Inl (Type_Error 316), w\<lparr>files := (files w)(cache_file \<mapsto> [])\<rparr>)"
proof -
  have "dump df (repo_list_json rs) = Inl (Type_Error 316)"
    using assms(1) by (simp add: dump_json_text(1) repo_list_utf8)
  then show ?thesis
    using assms(2) by (simp add: save_eq io_bind_Inl [OF write_file_fault])
qed

lemma load_missing:
  "files w n = None \<Longrightarrow> loadGitRepositoriesFromFile fin n w = (Inr [], w)"
  by (simp add: loadGitRepositoriesFromFile_def io_bind_def fopen_read_def)

lemma load_empty_file:
  "files w n = Some [] \<Longrightarrow> loadGitRepositoriesFromFile fin n w = (Inl Parse_Error, w)"
  by (simp add: loadGitRepositoriesFromFile_def io_bind_def fopen_read_def json_parse_c_def json_parse_def
      c_str_def scan_first_def skip_bom_def parse_value.simps)

lemma saveState_loadState:
  assumes "json_plain j" "writable w n"
  shows "\<exists>w'. saveStateFile df (Some n) j w = (Inr (), w') \<and> console w' = console w \<and> writable w' = writable w
    \<and> (\<forall>m. m \<noteq> n \<longrightarrow> files w' m = files w m)
    \<and> loadState fin (Some n) w' = (Inr j, w')"
proof -
  obtain doc where doc: "dump df j = Inr doc"
    using dump_plain [OF assms(1)] by blast
  define w' where "w' = w\<lparr>files := (files w)(n \<mapsto> doc)\<rparr>"
  have "saveStateFile df (Some n) j w = (Inr (), w')"
    using assms(2) by (simp add: saveStateFile_def doc io_bind_Inr [OF write_file_ok] w'_def)
  moreover have "loadState fin (Some n) w' = (Inr j, w')"
    using json_parse_dump [OF assms(1) doc]
    by (simp add: loadState_def io_bind_def fopen_read_def w'_def)
  ultimately show ?thesis by (auto simp: w'_def)
qed

end
