(* ===== verification/Scan_Directories.thy ===== *)
theory Scan_Directories
  imports File_Path Repo_Files Report
begin

text \<open>
  The \<^verbatim>\<open>scan\<close> command (\<^verbatim>\<open>src/commands/scandirectories.cpp\<close>): a
  breadth-first walk from the working directory, the comparison with the cached list for the
  detailed report, and the new cache. The walk follows directories the file system reports, so
  it may not end; its fuel bounds the directories visited, and \<open>scan_loop_ends\<close> gives enough for a
  finite tree. The bit vectors of the source are lists of booleans.
\<close>

section \<open>One directory\<close>

datatype folder_kind = Is_Repository | Is_Default | Is_Subfolder

definition classify_folder :: "string \<Rightarrow> folder_kind result" where
  "classify_folder folder =
     and_then (substr folder (str_size folder - 5) 5) (\<lambda>last4Characters.
       if c_str last4Characters = [CHR 0x5C] @ ''.git'' then Inr Is_Repository
       else
         and_then (substr folder (str_size folder - 2) 2) (\<lambda>last2Characters.
         and_then (substr folder (str_size folder - 3) 3) (\<lambda>last3Characters.
           if c_str last2Characters = [CHR 0x5C] @ ''.'' \<or> c_str last3Characters = [CHR 0x5C] @ ''..''
           then Inr Is_Default else Inr Is_Subfolder)))"

text \<open>The entries of a directory that are directories, in order: repositories and subfolders.\<close>

fun scan_entries ::
    "(string \<Rightarrow> bool) \<Rightarrow> string \<Rightarrow> path list \<Rightarrow> (string list \<times> string list) result" where
  "scan_entries is_dir currentDirectory [] = Inr ([], [])"
| "scan_entries is_dir currentDirectory (p # ps) =
     and_then (if is_dir (path_str p) then map_sum id Some (classify_folder (path_str p)) else Inr None) (\<lambda>kind.
     and_then (scan_entries is_dir currentDirectory ps) (\<lambda>(repos, subs).
       Inr (if kind = Some Is_Repository then currentDirectory # repos else repos,
            if kind = Some Is_Subfolder then path_str p # subs else subs)))"

definition with_slash :: "string \<Rightarrow> string result" where
  "with_slash d = and_then (str_back d) (\<lambda>c. Inr (if c \<noteq> CHR ''/'' then d @ ''/'' else d))"

definition scan_one ::
    "(string \<Rightarrow> string list option) \<Rightarrow> (string \<Rightarrow> bool) \<Rightarrow> string \<Rightarrow> (string list \<times> string list) result" where
  "scan_one listing is_dir d =
     and_then (with_slash d) (\<lambda>currentDirectory.
       case path_set (c_str currentDirectory) of
         None \<Rightarrow> Inl Std_Terminate
       | Some r \<Rightarrow>
           and_then r (\<lambda>p.
           and_then (directory_entries listing p) (scan_entries is_dir currentDirectory)))"

section \<open>The walk\<close>

fun scan_loop ::
    "nat \<Rightarrow> (string \<Rightarrow> string list option) \<Rightarrow> (string \<Rightarrow> bool) \<Rightarrow> string list \<Rightarrow> string list
     \<Rightarrow> string list result option" where
  "scan_loop n listing is_dir [] newGitRepositories = Some (Inr newGitRepositories)"
| "scan_loop 0 listing is_dir (d # directories) newGitRepositories = None"
| "scan_loop (Suc n) listing is_dir (d # directories) newGitRepositories =
     (case scan_one listing is_dir d of
        Inl f \<Rightarrow> Some (Inl f)
      | Inr (repos, subs) \<Rightarrow>
          scan_loop n listing is_dir (directories @ subs) (newGitRepositories @ repos))"

section \<open>The comparison with the cached list\<close>

fun first_match :: "string \<Rightarrow> string list \<Rightarrow> nat \<Rightarrow> nat option" where
  "first_match r [] j = None"
| "first_match r (s # ss) j = (if compare r s = 0 then Some j else first_match r ss (Suc j))"

fun mark_repos ::
    "string list \<Rightarrow> string list \<Rightarrow> nat \<Rightarrow> bool list \<times> bool list \<Rightarrow> bool list \<times> bool list" where
  "mark_repos [] new i (newBits, oldBits) = (newBits, oldBits)"
| "mark_repos (r # rs) new i (newBits, oldBits) =
     (case first_match r new 0 of
        None \<Rightarrow> mark_repos rs new (Suc i) (newBits, oldBits)
      | Some j \<Rightarrow> mark_repos rs new (Suc i) (newBits[j := True], oldBits[i := True]))"

definition unmarked :: "string list \<Rightarrow> bool list \<Rightarrow> string list" where
  "unmarked rs bits = map fst (filter (\<lambda>(r, b). \<not> b) (zip rs bits))"

definition trimmed_array :: "string list \<Rightarrow> json result" where
  "trimmed_array rs =
     and_then (map_result (\<lambda>r. and_then (removeNewlines r) (\<lambda>t. Inr (JString (c_str t)))) rs) (\<lambda>vs.
       push_all vs (JArray []))"

definition scan_report :: "string list \<Rightarrow> string list \<Rightarrow> json result" where
  "scan_report newGitRepositories gitRepositories =
     and_then (trimmed_array newGitRepositories) (\<lambda>reposArray.
     and_then (json_set ''repositories'' reposArray JNull) (\<lambda>reportData.
     let (newBits, oldBits) =
           mark_repos gitRepositories newGitRepositories 0
             (replicate (length newGitRepositories) False, replicate (length gitRepositories) False)
     in and_then (trimmed_array (unmarked newGitRepositories newBits)) (\<lambda>addedArray.
        and_then (json_set ''addedRepositories'' addedArray reportData) (\<lambda>reportData.
        and_then (trimmed_array (unmarked gitRepositories oldBits)) (\<lambda>deletedArray.
          json_set ''deletedRepositories'' deletedArray reportData)))))"

section \<open>The command\<close>

definition working_directory :: "any_option \<Rightarrow> string result" where
  "working_directory opt =
     and_then (option_value ''work'' opt) (\<lambda>v.
       case v of
         Some d \<Rightarrow> Inr d
       | None \<Rightarrow> and_then (option_char CHR ''w'' opt) (\<lambda>v.
           Inr (case v of Some d \<Rightarrow> d | None \<Rightarrow> ''.'')))"

definition wants_details :: "any_option \<Rightarrow> bool result" where
  "wants_details opt =
     and_then (option_char CHR ''d'' opt) (\<lambda>v.
       if findFlag v then Inr True
       else and_then (option_value ''details'' opt) (\<lambda>v. Inr (findFlag v)))"

definition scan_output ::
    "'t engine \<Rightarrow> (string \<Rightarrow> string) \<Rightarrow> any_option \<Rightarrow> string list \<Rightarrow> string list \<Rightarrow> unit io" where
  "scan_output eng dump_float opt gitRepositories newGitRepositories =
     io_bind (io_lift (wants_details opt)) (\<lambda>details.
     io_bind (if details then
                io_bind (prepareOutputReport eng opt ''repoupdate'') (\<lambda>templ.
                io_bind (io_lift (scan_report newGitRepositories gitRepositories)) (\<lambda>reportData.
                  generateAndOutputReport eng opt templ reportData))
              else io_return ()) (\<lambda>_.
       saveGitRepositoriesToFile dump_float newGitRepositories))"

definition scanDirectories ::
    "nat \<Rightarrow> (string \<Rightarrow> string list option) \<Rightarrow> (string \<Rightarrow> bool) \<Rightarrow> 't engine \<Rightarrow> (string \<Rightarrow> string)
     \<Rightarrow> any_option \<Rightarrow> string list \<Rightarrow> unit io option" where
  "scanDirectories n listing is_dir eng dump_float opt gitRepositories =
     (case working_directory opt of
        Inl f \<Rightarrow> Some (io_fail f)
      | Inr d \<Rightarrow>
          (case scan_loop n listing is_dir [d] [] of
             None \<Rightarrow> None
           | Some (Inl f) \<Rightarrow> Some (io_fail f)
           | Some (Inr newGitRepositories) \<Rightarrow>
               Some (scan_output eng dump_float opt gitRepositories newGitRepositories)))"

section \<open>The walk ends on a finite tree\<close>

definition subfolders ::
    "(string \<Rightarrow> string list option) \<Rightarrow> (string \<Rightarrow> bool) \<Rightarrow> string \<Rightarrow> string list" where
  "subfolders listing is_dir d = (case scan_one listing is_dir d of Inl _ \<Rightarrow> [] | Inr (r, s) \<Rightarrow> s)"

text \<open>\<open>size_of d\<close> bounds the directories of the subtree at \<open>d\<close>.\<close>

definition finite_tree ::
    "(string \<Rightarrow> nat) \<Rightarrow> (string \<Rightarrow> string list option) \<Rightarrow> (string \<Rightarrow> bool) \<Rightarrow> bool" where
  "finite_tree size_of listing is_dir \<longleftrightarrow>
     (\<forall>d. 1 + sum_list (map size_of (subfolders listing is_dir d)) \<le> size_of d)"

lemma scan_loop_ends:
  "finite_tree size_of listing is_dir \<Longrightarrow> sum_list (map size_of ds) \<le> n \<Longrightarrow>
   \<exists>r. scan_loop n listing is_dir ds acc = Some r"
proof (induction n arbitrary: ds acc)
  case 0
  show ?case
  proof (cases ds)
    case (Cons d ds')
    with 0 have "1 \<le> size_of d" "size_of d = 0"
      by (auto simp: finite_tree_def dest: spec [of _ d])
    then show ?thesis by simp
  qed simp
next
  case (Suc n)
  show ?case
  proof (cases ds)
    case (Cons d ds')
    show ?thesis
    proof (cases "scan_one listing is_dir d")
      case (Inr p)
      then obtain repos subs where p: "scan_one listing is_dir d = Inr (repos, subs)" by (cases p) auto
      then have "1 + sum_list (map size_of subs) \<le> size_of d"
        using Suc.prems(1) by (auto simp: finite_tree_def subfolders_def dest: spec [of _ d])
      with Suc.prems(2) have "sum_list (map size_of (ds' @ subs)) \<le> n" by (simp add: Cons)
      from Suc.IH [OF Suc.prems(1) this, of "acc @ repos"] show ?thesis by (simp add: Cons p)
    qed (simp add: Cons)
  qed simp
qed

section \<open>What is found\<close>

lemma str_size_minus:
  assumes "fits s"
  shows "k \<le> length s \<Longrightarrow> str_size s - word_of_nat k = word_of_nat (length s - k)"
    and "length s < k \<Longrightarrow> k \<le> 5 \<Longrightarrow> str_size s < str_size s - word_of_nat k"
proof -
  show "k \<le> length s \<Longrightarrow> str_size s - word_of_nat k = word_of_nat (length s - k)"
    by (simp add: str_size_def of_nat_diff)
  assume k: "length s < k" "k \<le> 5"
  have u: "unat (str_size s) = length s" "unat (word_of_nat k :: size_type) = k"
    using assms k(2) by (simp_all add: unsigned_of_nat take_bit_nat_eq_self)
  then have "str_size s < word_of_nat k" using k(1) by (simp add: word_less_nat_alt)
  then show "str_size s < str_size s - word_of_nat k"
    using u k by (simp add: word_less_nat_alt unat_sub_if_size word_size)
qed

lemma substr_tail:
  assumes "fits s" "k \<le> 5"
  shows "substr s (str_size s - word_of_nat k) (word_of_nat k)
    = (if length s < k then Inl Out_Of_Bounds else Inr (drop (length s - k) s))"
proof (cases "length s < k")
  case True
  with str_size_minus(2) [OF assms(1) True assms(2)] show ?thesis by (simp add: substr_def)
next
  case False
  have "unat (word_of_nat k :: size_type) = k"
    using assms(2) by (simp add: unsigned_of_nat take_bit_nat_eq_self)
  with False show ?thesis
    using substr_ok [OF assms(1), of "length s - k"] str_size_minus(1) [OF assms(1), of k] by simp
qed

lemma classify_short: "fits folder \<Longrightarrow> length folder < 5 \<Longrightarrow> classify_folder folder = Inl Out_Of_Bounds"
  using substr_tail [of folder 5] by (simp add: classify_folder_def)

lemma classify_no_backslash:
  assumes "fits folder" "CHR 0x5C \<notin> set folder" "5 \<le> length folder"
  shows "classify_folder folder = Inr Is_Subfolder"
proof -
  have no: "c_str (drop k folder) \<noteq> CHR 0x5C # t" for k t
  proof
    assume "c_str (drop k folder) = CHR 0x5C # t"
    then have "CHR 0x5C \<in> set (c_str (drop k folder))" by simp
    then show False
      using assms(2) by (auto simp: c_str_def dest!: set_takeWhileD in_set_dropD)
  qed
  show ?thesis
    using assms(3) no substr_tail [OF assms(1), of 5] substr_tail [OF assms(1), of 2]
      substr_tail [OF assms(1), of 3]
    by (simp add: classify_folder_def)
qed

definition no_backslash :: "string \<Rightarrow> bool" where
  "no_backslash s \<longleftrightarrow> CHR 0x5C \<notin> set s"

lemma classify_not_repository:
  "fits folder \<Longrightarrow> no_backslash folder \<Longrightarrow> classify_folder folder \<noteq> Inr Is_Repository"
  using classify_short [of folder] classify_no_backslash [of folder]
  by (cases "length folder < 5") (auto simp: no_backslash_def)

lemma scan_entries_no_repos:
  "(\<forall>p\<in>set ps. fits (path_str p) \<and> no_backslash (path_str p)) \<Longrightarrow>
   scan_entries is_dir d ps = Inr (repos, subs) \<Longrightarrow>
   repos = [] \<and> set subs \<subseteq> path_str ` set ps"
proof (induction ps arbitrary: repos subs)
  case (Cons p ps)
  from Cons.prems(2) obtain kind repos' subs' where
    k: "(if is_dir (path_str p) then map_sum id Some (classify_folder (path_str p)) else Inr None) = Inr kind"
    and r: "scan_entries is_dir d ps = Inr (repos', subs')"
    and e: "repos = (if kind = Some Is_Repository then d # repos' else repos')"
      "subs = (if kind = Some Is_Subfolder then path_str p # subs' else subs')"
    by (auto simp: result_simps)
  have "kind \<noteq> Some Is_Repository"
    using k Cons.prems(1) classify_not_repository [of "path_str p"]
    by (cases "classify_folder (path_str p)") (auto split: if_splits)
  with Cons.IH [OF _ r] Cons.prems(1) e show ?case by auto
qed simp

text \<open>What \<^verbatim>\<open>readdir\<close> guarantees of the names, and a bound on the length of paths.\<close>

definition posix_listing :: "(string \<Rightarrow> string list option) \<Rightarrow> bool" where
  "posix_listing listing \<longleftrightarrow>
     (\<forall>p ns n. listing p = Some ns \<longrightarrow> n \<in> set ns \<longrightarrow>
        n \<noteq> [] \<and> CHR ''/'' \<notin> set n \<and> nul_free n \<and> length p + length n < 2 ^ 62)"

definition names_without_backslash :: "(string \<Rightarrow> string list option) \<Rightarrow> bool" where
  "names_without_backslash listing \<longleftrightarrow>
     (\<forall>p ns n. listing p = Some ns \<longrightarrow> n \<in> set ns \<longrightarrow> no_backslash n)"

lemma set_join_slash: "set (join_slash ts) \<subseteq> insert CHR ''/'' (\<Union>t\<in>set ts. set t)"
  by (induction ts rule: join_slash.induct) auto

lemma set_c_str: "set (c_str s) \<subseteq> set s"
  by (auto simp: c_str_def dest: set_takeWhileD)

lemma no_backslash_path_str:
  "(\<forall>t\<in>set (m_path p). no_backslash t) \<Longrightarrow> no_backslash (path_str p)"
  using set_join_slash [of "map c_str (m_path p)"] set_c_str
  by (fastforce simp: no_backslash_def path_str_def)

lemma split_on_chars: "t \<in> set (split_on d s) \<Longrightarrow> set t \<subseteq> set s"
proof (induction s arbitrary: t)
  case (Cons c s)
  then show ?case by (cases "split_on d s") (fastforce split: if_splits)+
qed simp

lemma components_chars: "t \<in> set (components s) \<Longrightarrow> set t \<subseteq> set s"
  using split_on_chars by (fastforce simp: components_def split: if_splits)

lemma split_on_none: "d \<notin> set s \<Longrightarrow> split_on d s = [s]"
  by (induction s) auto

lemma path_of_name:
  "n \<noteq> [] \<Longrightarrow> CHR ''/'' \<notin> set n \<Longrightarrow> path_of n = \<lparr>m_path = [n], m_absolute = False\<rparr>"
  by (auto simp: path_of_def components_def split_on_none hd_in_set) (metis hd_in_set)

lemma join_slash_snoc:
  "join_slash (ts @ [t]) = (if ts = [] then t else join_slash ts @ ''/'' @ t)"
  by (induction ts rule: join_slash.induct) auto

lemma entry_str:
  "nul_free n \<Longrightarrow> path_str (p\<lparr>m_path := m_path p @ [n]\<rparr>) =
     (if m_path p = [] then path_str p @ n else path_str p @ ''/'' @ n)"
  by (simp add: path_str_def join_slash_snoc)

lemma directory_entries_ok:
  assumes "posix_listing listing" "directory_entries listing p = Inr es"
  shows "\<exists>ns. listing (path_str p) = Some ns
    \<and> es = map (\<lambda>n. p\<lparr>m_path := m_path p @ [n]\<rparr>) (filter visible ns)"
proof -
  from assms(2) obtain ns where ns: "listing (path_str p) = Some ns"
    by (auto simp: directory_entries_def split: option.splits)
  have one: "(case path_set n of Some r \<Rightarrow> and_then r (path_append p) | None \<Rightarrow> Inl Std_Terminate)
      = Inr (p\<lparr>m_path := m_path p @ [n]\<rparr>)" if "n \<in> set (filter visible ns)" for n
  proof -
    have n: "n \<noteq> []" "CHR ''/'' \<notin> set n" "length n < 2 ^ 62"
      using that assms(1) ns by (fastforce simp: posix_listing_def)+
    then have "path_set n = Some (Inr (path_of n))"
      by (intro path_set_ok) (simp add: fits_def)
    then show ?thesis using n by (simp add: path_of_name path_append_def)
  qed
  have "map_result (\<lambda>n. case path_set n of Some r \<Rightarrow> and_then r (path_append p) | None \<Rightarrow> Inl Std_Terminate)
      (filter visible ns) = Inr (map (\<lambda>n. p\<lparr>m_path := m_path p @ [n]\<rparr>) (filter visible ns))"
    by (rule map_result_all_ok) (rule one)
  then show ?thesis
    using assms(2) ns by (simp add: directory_entries_def)
qed

definition walk_ok :: "string \<Rightarrow> bool" where
  "walk_ok d \<longleftrightarrow> no_backslash d \<and> length d \<le> 2 ^ 62"

lemma scan_one_no_repos:
  assumes l: "posix_listing listing" "names_without_backslash listing" and d: "walk_ok d"
    and s: "scan_one listing is_dir d = Inr (repos, subs)"
  shows "repos = [] \<and> (\<forall>f\<in>set subs. walk_ok f)"
proof -
  from s obtain cur where cur: "with_slash d = Inr cur"
    by (auto simp: scan_one_def result_simps)
  have nb: "no_backslash cur" and len: "length cur \<le> 2 ^ 62 + 1"
    using cur d by (auto simp: with_slash_def walk_ok_def no_backslash_def result_simps split: if_splits)
  let ?p = "path_of (c_str cur)"
  have "length (c_str cur) \<le> length cur" by (simp add: c_str_def length_takeWhile_le)
  then have ps: "path_set (c_str cur) = Some (Inr ?p)"
    using len by (intro path_set_ok) (simp add: fits_def)
  from s obtain es where es: "directory_entries listing ?p = Inr es"
    and sc: "scan_entries is_dir cur es = Inr (repos, subs)"
    by (auto simp: scan_one_def cur ps result_simps)
  from directory_entries_ok [OF l(1) es] obtain ns where ns: "listing (path_str ?p) = Some ns"
    and e: "es = map (\<lambda>n. ?p\<lparr>m_path := m_path ?p @ [n]\<rparr>) (filter visible ns)" by blast
  have nbp: "no_backslash t" if "t \<in> set (m_path ?p)" for t
    using components_chars [of t "c_str cur"] set_c_str [of cur] nb that
    by (auto simp: path_of_def no_backslash_def)
  have each: "walk_ok (path_str q)" if "q \<in> set es" for q
  proof -
    from that e obtain n where n: "n \<in> set ns" "q = ?p\<lparr>m_path := m_path ?p @ [n]\<rparr>" by auto
    then have nn: "nul_free n" "length (path_str ?p) + length n < 2 ^ 62" "no_backslash n"
      using l ns by (auto simp: posix_listing_def names_without_backslash_def)
    have "length (path_str q) \<le> Suc (length (path_str ?p) + length n)"
      unfolding n(2) entry_str [OF nn(1)] by simp
    moreover have "no_backslash (path_str q)"
      by (rule no_backslash_path_str) (use nbp nn(3) n(2) in auto)
    ultimately show ?thesis using nn(2) by (simp add: walk_ok_def)
  qed
  have "\<forall>q\<in>set es. fits (path_str q) \<and> no_backslash (path_str q)"
    using each by (fastforce simp: walk_ok_def fits_def)
  from scan_entries_no_repos [OF this sc] each show ?thesis by auto
qed

lemma scan_loop_no_repos:
  assumes "posix_listing listing" "names_without_backslash listing"
  shows "\<forall>d\<in>set ds. walk_ok d \<Longrightarrow> scan_loop n listing is_dir ds acc = Some (Inr new) \<Longrightarrow> new = acc"
proof (induction n arbitrary: ds acc)
  case 0
  then show ?case by (cases ds) auto
next
  case (Suc n)
  show ?case
  proof (cases ds)
    case Nil
    with Suc.prems show ?thesis by simp
  next
    case (Cons d ds')
    with Suc.prems(2) obtain repos subs where p: "scan_one listing is_dir d = Inr (repos, subs)"
      and n: "scan_loop n listing is_dir (ds' @ subs) (acc @ repos) = Some (Inr new)"
      by (auto split: sum.splits)
    from scan_one_no_repos [OF assms _ p] Suc.prems(1) Cons
    have "repos = []" "\<forall>f\<in>set (ds' @ subs). walk_ok f" by auto
    with Suc.IH [OF this(2)] n show ?thesis by simp
  qed
qed

lemma scan_entries_short:
  "p \<in> set ps \<Longrightarrow> is_dir (path_str p) \<Longrightarrow> length (path_str p) < 5 \<Longrightarrow>
   \<exists>f. scan_entries is_dir d ps = Inl f"
proof (induction ps)
  case (Cons q ps)
  show ?case
  proof (cases "p = q")
    case True
    with Cons.prems classify_short [of "path_str p"] show ?thesis by (simp add: fits_def)
  next
    case False
    with Cons obtain f where f: "scan_entries is_dir d ps = Inl f" by auto
    then show ?thesis
      by (cases "if is_dir (path_str q) then map_sum id Some (classify_folder (path_str q)) else Inr None") auto
  qed
qed simp

section \<open>The comparison\<close>

lemma first_match_Some:
  "first_match r ss j = Some k \<longleftrightarrow> j \<le> k \<and> k < j + length ss \<and> ss ! (k - j) = r \<and> r \<notin> set (take (k - j) ss)"
proof (induction ss arbitrary: j)
  case (Cons s ss)
  show ?case
  proof (cases "r = s")
    case True
    then show ?thesis
      by (cases "k = j") (auto simp: take_Cons')
  next
    case False
    have "(j \<le> k \<and> k < j + length (s # ss) \<and> (s # ss) ! (k - j) = r \<and> r \<notin> set (take (k - j) (s # ss)))
        \<longleftrightarrow> Suc j \<le> k \<and> k < Suc j + length ss \<and> ss ! (k - Suc j) = r \<and> r \<notin> set (take (k - Suc j) ss)"
      using False by (cases "k = j") (auto simp: nth_Cons' take_Cons')
    then show ?thesis using Cons.IH [of "Suc j"] False by simp
  qed
qed simp

lemma first_match_None: "first_match r ss j = None \<longleftrightarrow> r \<notin> set ss"
  by (induction ss arbitrary: j) auto

lemma mark_repos_length:
  "mark_repos rs new i (a, b) = (a', b') \<Longrightarrow> length a' = length a \<and> length b' = length b"
  by (induction rs new i "(a, b)" arbitrary: a b rule: mark_repos.induct) (auto split: option.splits)

lemma mark_repos_old:
  "mark_repos rs new i (a, b) = (a', b') \<Longrightarrow> i + length rs \<le> length b \<Longrightarrow>
   b' = take i b @ map2 (\<lambda>r x. x \<or> r \<in> set new) rs (drop i b) @ drop (i + length rs) b"
proof (induction rs arbitrary: i a b)
  case (Cons r rs)
  have i: "i < length b" using Cons.prems(2) by simp
  define c where "c = (if r \<in> set new then b[i := True] else b)"
  obtain a2 where step: "mark_repos (r # rs) new i (a, b) = mark_repos rs new (Suc i) (a2, c)"
    by (cases "first_match r new 0") (auto simp: c_def first_match_None first_match_Some intro: that)
  have "b' = take (Suc i) c @ map2 (\<lambda>r x. x \<or> r \<in> set new) rs (drop (Suc i) c) @ drop (Suc i + length rs) c"
    using Cons.IH [of "Suc i" a2 c] Cons.prems step by (simp add: c_def)
  moreover have "take (Suc i) c = take i b @ [b ! i \<or> r \<in> set new]"
    using i by (auto simp: c_def take_Suc_conv_app_nth)
  moreover have "drop (Suc i) c = drop (Suc i) b" "drop (Suc i + length rs) c = drop (Suc i + length rs) b"
    by (auto simp: c_def)
  ultimately show ?case
    using i by (simp add: Cons_nth_drop_Suc [symmetric])
qed simp

lemma unmarked_map2:
  "unmarked rs (map2 (\<lambda>r x. x \<or> P r) rs (replicate (length rs) False)) = filter (\<lambda>r. \<not> P r) rs"
  by (induction rs) (auto simp: unmarked_def)

lemma mark_repos_new:
  "distinct new \<Longrightarrow> mark_repos rs new i (a, b) = (a', b') \<Longrightarrow> length a = length new \<Longrightarrow>
   j < length new \<Longrightarrow> a' ! j \<longleftrightarrow> a ! j \<or> new ! j \<in> set rs"
proof (induction rs arbitrary: i a b)
  case (Cons r rs)
  show ?case
  proof (cases "first_match r new 0")
    case None
    with Cons.prems(4) have "new ! j \<noteq> r" by (auto simp: first_match_None)
    with None Cons.IH [of "Suc i" a b] Cons.prems show ?thesis by auto
  next
    case (Some k)
    then have k: "k < length new" "new ! k = r" by (auto simp: first_match_Some)
    with Cons.prems(1,4) have "new ! j = r \<longleftrightarrow> j = k" by (metis nth_eq_iff_index_eq)
    with Some Cons.IH [of "Suc i" "a[k := True]" "b[i := True]"] Cons.prems k show ?thesis
      by (auto simp: nth_list_update)
  qed
qed simp

lemma unmarked_nth:
  "length bits = length rs \<Longrightarrow> (\<And>j. j < length rs \<Longrightarrow> bits ! j \<longleftrightarrow> P (rs ! j)) \<Longrightarrow>
   unmarked rs bits = filter (\<lambda>r. \<not> P r) rs"
proof (induction rs arbitrary: bits)
  case (Cons r rs)
  then obtain b bs where b: "bits = b # bs" by (cases bits) auto
  have "unmarked rs bs = filter (\<lambda>r. \<not> P r) rs"
    using Cons.prems b by (intro Cons.IH) force+
  moreover have "b \<longleftrightarrow> P r" using Cons.prems(2) [of 0] b by simp
  ultimately show ?case by (simp add: b unmarked_def)
qed (simp add: unmarked_def)

lemma marked_lists:
  assumes "mark_repos old new 0 (replicate (length new) False, replicate (length old) False) = (a, b)"
  shows "unmarked old b = filter (\<lambda>r. r \<notin> set new) old"
    and "distinct new \<Longrightarrow> unmarked new a = filter (\<lambda>r. r \<notin> set old) new"
proof -
  have "b = map2 (\<lambda>r x. x \<or> r \<in> set new) old (replicate (length old) False)"
    using mark_repos_old [OF assms] by simp
  then show "unmarked old b = filter (\<lambda>r. r \<notin> set new) old"
    by (simp add: unmarked_map2)
  assume "distinct new"
  then show "unmarked new a = filter (\<lambda>r. r \<notin> set old) new"
    using mark_repos_length [OF assms] mark_repos_new [OF _ assms]
    by (intro unmarked_nth) simp_all
qed

lemma trimmed_array_ok:
  "list_all fits rs \<Longrightarrow> trimmed_array rs = Inr (JArray (map (\<lambda>r. JString (c_str (trim r))) rs))"
proof -
  assume "list_all fits rs"
  then have "map_result (\<lambda>r. and_then (removeNewlines r) (\<lambda>t. Inr (JString (c_str t)))) rs
      = Inr (map (\<lambda>r. JString (c_str (trim r))) rs)"
    by (intro map_result_all_ok) (simp add: removeNewlines_trim list_all_iff)
  then show ?thesis by (simp add: trimmed_array_def)
qed

lemma scan_report_ok:
  assumes "list_all fits new" "list_all fits old" "distinct new"
  shows "scan_report new old = Inr (JObject
    [(''addedRepositories'', JArray (map (\<lambda>r. JString (c_str (trim r))) (filter (\<lambda>r. r \<notin> set old) new))),
     (''deletedRepositories'', JArray (map (\<lambda>r. JString (c_str (trim r))) (filter (\<lambda>r. r \<notin> set new) old))),
     (''repositories'', JArray (map (\<lambda>r. JString (c_str (trim r))) new))])"
proof -
  obtain a b where m: "mark_repos old new 0 (replicate (length new) False, replicate (length old) False) = (a, b)"
    by force
  have f: "list_all fits (filter P xs)" if "list_all fits xs" for P and xs :: "string list"
    using that by (auto simp: list_all_iff)
  show ?thesis
    using assms f marked_lists [OF m]
    by (simp add: scan_report_def m trimmed_array_ok)
qed

end
