(* ===== verification/Reproc_Posix.thy ===== *)
theory Reproc_Posix
  imports Repo_Prelude "HOL-Library.Word"
begin

text \<open>
  The child-process library the tool runs \<^verbatim>\<open>git\<close> with
  (\<^verbatim>\<open>src/extlibs/reproc/src/c/posix\<close>), as far as \<^verbatim>\<open>callExecutable\<close> uses it.
  The answers of the operating system to one start, its reads and its wait are the record
  \<open>os_trace\<close>, a parameter; the library's own control flow is modelled.
\<close>

datatype reproc_error =
    REPROC_SUCCESS | REPROC_WAIT_TIMEOUT | REPROC_STREAM_CLOSED | REPROC_PARTIAL_WRITE
  | REPROC_NOT_ENOUGH_MEMORY | REPROC_PIPE_LIMIT_REACHED | REPROC_INTERRUPTED
  | REPROC_PROCESS_LIMIT_REACHED | REPROC_INVALID_UNICODE | REPROC_PERMISSION_DENIED
  | REPROC_SYMLINK_LOOP | REPROC_FILE_NOT_FOUND | REPROC_NAME_TOO_LONG | REPROC_UNKNOWN_ERROR

datatype errno =
    ENFILE | EINTR | EAGAIN | ENOMEM | EACCES | EPERM | ELOOP | ENOENT | ENOTDIR | EMFILE
  | ENAMETOOLONG | EOTHER

section \<open>Answers of the operating system\<close>

text \<open>
  \<open>read\<close> returns the bytes it read (none at end of file) or fails; \<open>waitpid\<close> returns a status
  or fails; \<open>fork\<close> returns the child's id or fails. \<open>child_calls\<close> are the outcomes of the calls
  of the child before and at \<^verbatim>\<open>execvp\<close>, in order: \<open>None\<close> is success. Reads of the child's output beyond the recorded ones
  find the end of the stream.
\<close>

datatype read_result = Read_Bytes string | Read_Fails errno

datatype wait_status = Exited "8 word" | Signaled "8 word"

record os_trace =
  pipe_calls :: "(errno + nat \<times> nat) list"
  fork_call :: "errno + int"
  error_pipe_read :: read_result
  child_calls :: "errno option list"
  reap_ok :: bool
  stdout_reads :: "read_result list"
  waitpid_call :: "errno + wait_status"

text \<open>The parent's pipe ends; \<open>None\<close> is a field nothing was written to yet.\<close>

record reproc_type =
  parent_stdin :: "nat option"
  parent_stdout :: "nat option"
  parent_stderr :: "nat option"
  child_pid :: "int option"

definition uninitialised :: reproc_type where
  "uninitialised =
     \<lparr>parent_stdin = None, parent_stdout = None, parent_stderr = None, child_pid = None\<rparr>"

section \<open>Pipes\<close>

definition pipe_init :: "errno + nat \<times> nat \<Rightarrow> reproc_error" where
  "pipe_init r = (case r of
     Inl ENFILE \<Rightarrow> REPROC_PIPE_LIMIT_REACHED
   | Inl _ \<Rightarrow> REPROC_UNKNOWN_ERROR
   | Inr _ \<Rightarrow> REPROC_SUCCESS)"

definition pipe_read :: "read_result \<Rightarrow> reproc_error \<times> string" where
  "pipe_read r = (case r of
     Read_Bytes [] \<Rightarrow> (REPROC_STREAM_CLOSED, [])
   | Read_Bytes bytes \<Rightarrow> (REPROC_SUCCESS, bytes)
   | Read_Fails EINTR \<Rightarrow> (REPROC_INTERRUPTED, [])
   | Read_Fails _ \<Rightarrow> (REPROC_UNKNOWN_ERROR, []))"

text \<open>Closing reads the field; 0 is the null pipe and stays 0.\<close>

definition pipe_close :: "nat option \<Rightarrow> nat option result" where
  "pipe_close p = (case p of None \<Rightarrow> Inl Uninitialised | Some _ \<Rightarrow> Inr (Some 0))"

definition reproc_destroy :: "reproc_type \<Rightarrow> reproc_type result" where
  "reproc_destroy p =
     and_then (pipe_close (parent_stdin p)) (\<lambda>i.
     and_then (pipe_close (parent_stdout p)) (\<lambda>out.
     and_then (pipe_close (parent_stderr p)) (\<lambda>err.
       Inr (p\<lparr>parent_stdin := i, parent_stdout := out, parent_stderr := err\<rparr>))))"

section \<open>Starting the child\<close>

definition fork_error :: "errno \<Rightarrow> reproc_error" where
  "fork_error e = (case e of
     EAGAIN \<Rightarrow> REPROC_PROCESS_LIMIT_REACHED
   | ENOMEM \<Rightarrow> REPROC_NOT_ENOUGH_MEMORY
   | _ \<Rightarrow> REPROC_UNKNOWN_ERROR)"

definition exec_error_code :: "errno \<Rightarrow> reproc_error" where
  "exec_error_code e = (case e of
     EACCES \<Rightarrow> REPROC_PERMISSION_DENIED
   | EPERM \<Rightarrow> REPROC_PERMISSION_DENIED
   | ELOOP \<Rightarrow> REPROC_SYMLINK_LOOP
   | ENOMEM \<Rightarrow> REPROC_NOT_ENOUGH_MEMORY
   | ENOENT \<Rightarrow> REPROC_FILE_NOT_FOUND
   | ENOTDIR \<Rightarrow> REPROC_FILE_NOT_FOUND
   | EMFILE \<Rightarrow> REPROC_PIPE_LIMIT_REACHED
   | ENAMETOOLONG \<Rightarrow> REPROC_NAME_TOO_LONG
   | _ \<Rightarrow> REPROC_UNKNOWN_ERROR)"

text \<open>
  The child: \<^verbatim>\<open>setpgid\<close>, \<^verbatim>\<open>chdir\<close>, three times \<^verbatim>\<open>dup2\<close>,
  \<^verbatim>\<open>execvp\<close>. The first that fails writes its \<^verbatim>\<open>errno\<close> to the error pipe
  and ends the child; \<open>None\<close> is the zero the parent starts with.
\<close>

fun first_error :: "errno option list \<Rightarrow> errno option" where
  "first_error [] = None"
| "first_error (None # cs) = first_error cs"
| "first_error (Some e # cs) = Some e"

definition exec_error :: "os_trace \<Rightarrow> errno option" where
  "exec_error os = first_error (take 6 (child_calls os))"

text \<open>What the parent concludes from reading the error pipe.\<close>

definition parent_error :: "os_trace \<Rightarrow> reproc_error" where
  "parent_error os =
     (case pipe_read (error_pipe_read os) of (error, bytes) \<Rightarrow>
        if error = REPROC_INTERRUPTED then REPROC_UNKNOWN_ERROR
        else if error \<noteq> REPROC_SUCCESS \<and> error \<noteq> REPROC_STREAM_CLOSED then error
        else if error = REPROC_SUCCESS \<and> length bytes \<noteq> 4 then REPROC_UNKNOWN_ERROR
        else (case exec_error os of Some e \<Rightarrow> exec_error_code e | None \<Rightarrow> error))"

text \<open>
  The whole of \<^verbatim>\<open>fork_exec_redirect\<close> in the parent, its \<^verbatim>\<open>cleanup\<close> label
  included: the error is returned only when a child exists (\<open>exec_pid > 0\<close>).
\<close>

definition fork_exec_redirect :: "os_trace \<Rightarrow> errno + nat \<times> nat \<Rightarrow> reproc_error \<times> int" where
  "fork_exec_redirect os error_pipe =
     (let (error, exec_pid) =
        (if pipe_init error_pipe \<noteq> REPROC_SUCCESS then (pipe_init error_pipe, 0)
         else case fork_call os of
           Inl e \<Rightarrow> (fork_error e, - 1)
         | Inr pid \<Rightarrow> (parent_error os, pid))
      in if error \<noteq> REPROC_SUCCESS \<and> error \<noteq> REPROC_STREAM_CLOSED \<and> exec_pid > 0
         then (if reap_ok os then error else REPROC_UNKNOWN_ERROR, exec_pid)
         else (REPROC_SUCCESS, exec_pid))"

definition pipe_at :: "os_trace \<Rightarrow> nat \<Rightarrow> errno + nat \<times> nat" where
  "pipe_at os i = (if i < length (pipe_calls os) then pipe_calls os ! i else Inl EOTHER)"

text \<open>
  \<^verbatim>\<open>reproc_start\<close>: three pipes, then the fork; on an error every parent end is closed,
  also the ones no call has filled in.
\<close>

definition reproc_start :: "os_trace \<Rightarrow> reproc_type \<Rightarrow> (reproc_error \<times> reproc_type) result" where
  "reproc_start os p =
     (let fail = (\<lambda>error q. and_then (reproc_destroy q) (\<lambda>q'. Inr (error, q'))) in
      case pipe_at os 0 of Inl e \<Rightarrow> fail (pipe_init (Inl e)) p
    | Inr (child_in, parent_in) \<Rightarrow>
        let p1 = p\<lparr>parent_stdin := Some parent_in\<rparr> in
        case pipe_at os 1 of Inl e \<Rightarrow> fail (pipe_init (Inl e)) p1
      | Inr (parent_out, child_out) \<Rightarrow>
          let p2 = p1\<lparr>parent_stdout := Some parent_out\<rparr> in
          case pipe_at os 2 of Inl e \<Rightarrow> fail (pipe_init (Inl e)) p2
        | Inr (parent_err, child_err) \<Rightarrow>
            let p3 = p2\<lparr>parent_stderr := Some parent_err\<rparr>;
                (error, pid) = fork_exec_redirect os (pipe_at os 3)
            in if error \<noteq> REPROC_SUCCESS then fail error p3
               else Inr (REPROC_SUCCESS, p3\<lparr>child_pid := Some pid\<rparr>))"

section \<open>Reading and stopping\<close>

text \<open>One \<^verbatim>\<open>reproc_read\<close> of the output: the outcome and the reads still to come.\<close>

fun reproc_read :: "read_result list \<Rightarrow> (reproc_error \<times> string) \<times> read_result list" where
  "reproc_read [] = (pipe_read (Read_Bytes []), [])"
| "reproc_read (r # rs) = (pipe_read r, rs)"

definition parse_exit_status :: "wait_status \<Rightarrow> 32 word" where
  "parse_exit_status s = (case s of Exited n \<Rightarrow> ucast n | Signaled n \<Rightarrow> ucast n)"

definition wait_infinite :: "os_trace \<Rightarrow> reproc_error \<times> 32 word option" where
  "wait_infinite os = (case waitpid_call os of
     Inl EINTR \<Rightarrow> (REPROC_INTERRUPTED, None)
   | Inl _ \<Rightarrow> (REPROC_UNKNOWN_ERROR, None)
   | Inr s \<Rightarrow> (REPROC_SUCCESS, Some (parse_exit_status s)))"

text \<open>\<^verbatim>\<open>reproc_stop\<close> with \<^verbatim>\<open>REPROC_WAIT\<close> and \<^verbatim>\<open>REPROC_INFINITE\<close>.\<close>

definition reproc_stop :: "os_trace \<Rightarrow> reproc_type \<Rightarrow>
    ((reproc_error \<times> 32 word option) \<times> reproc_type) result" where
  "reproc_stop os p = and_then (reproc_destroy p) (\<lambda>q. Inr (wait_infinite os, q))"

section \<open>Lemmas\<close>

definition pipes_open :: "reproc_type \<Rightarrow> bool" where
  "pipes_open p \<longleftrightarrow> parent_stdin p \<noteq> None \<and> parent_stdout p \<noteq> None \<and> parent_stderr p \<noteq> None"

definition pipes_closed :: "reproc_type \<Rightarrow> bool" where
  "pipes_closed p \<longleftrightarrow> parent_stdin p = Some 0 \<and> parent_stdout p = Some 0 \<and> parent_stderr p = Some 0"

lemma reproc_destroy_ok:
  "pipes_open p \<Longrightarrow> \<exists>q. reproc_destroy p = Inr q \<and> pipes_closed q \<and> child_pid q = child_pid p"
  by (auto simp: reproc_destroy_def pipe_close_def pipes_open_def pipes_closed_def)

lemma reproc_destroy_Inr: "reproc_destroy p = Inr q \<Longrightarrow> pipes_closed q"
  by (auto simp: reproc_destroy_def pipe_close_def pipes_closed_def result_simps split: option.splits)

lemma reproc_start_success:
  "reproc_start os p = Inr (REPROC_SUCCESS, q) \<Longrightarrow> \<exists>a b c pid. q = p\<lparr>parent_stdin := Some a, parent_stdout := Some b,
     parent_stderr := Some c, child_pid := Some pid\<rparr> \<and> fork_exec_redirect os (pipe_at os 3) = (REPROC_SUCCESS, pid)"
  by (auto simp: reproc_start_def Let_def result_simps pipe_init_def
      split: sum.splits prod.splits if_splits errno.splits)

lemma reproc_start_pipes_open:
  "reproc_start os p = Inr (REPROC_SUCCESS, q) \<Longrightarrow> pipes_open q"
  by (auto dest!: reproc_start_success simp: pipes_open_def)

lemma reproc_start_failure_closes:
  "reproc_start os p = Inr (e, q) \<Longrightarrow> e \<noteq> REPROC_SUCCESS \<Longrightarrow> pipes_closed q"
  by (auto simp: reproc_start_def Let_def result_simps
      split: sum.splits prod.splits if_splits dest: reproc_destroy_Inr)

text \<open>A failing fork is not reported: the id of the child is -1.\<close>

lemma failed_fork_succeeds:
  assumes "fork_call os = Inl e" "pipe_at os 0 = Inr (ci, pi)" "pipe_at os 1 = Inr (po, co)"
    and "pipe_at os 2 = Inr (pe, ce)" "pipe_at os 3 = Inr r"
  shows "reproc_start os p = Inr (REPROC_SUCCESS,
    p\<lparr>parent_stdin := Some pi, parent_stdout := Some po, parent_stderr := Some pe, child_pid := Some (- 1)\<rparr>)"
  using assms by (simp add: reproc_start_def fork_exec_redirect_def pipe_init_def Let_def)

lemma reproc_stop_ok:
  "pipes_open p \<Longrightarrow> \<exists>q. reproc_stop os p = Inr (wait_infinite os, q) \<and> pipes_closed q"
  using reproc_destroy_ok [of p] by (auto simp: reproc_stop_def)

end
