(* ===== verification/Call_Executable.thy ===== *)
theory Call_Executable
  imports Reproc_Posix
begin

text \<open>
  \<^verbatim>\<open>callExecutable\<close> (\<^verbatim>\<open>src/callexecutable.cpp\<close>): run a program in a directory
  and collect its standard output. The output buffer is a heap block with a liveness flag,
  because the error path releases it and the code after it goes on using it. What the
  operating system answers for a working directory and an argument vector is the parameter
  \<open>spawn\<close>. Allocation is assumed to succeed.
\<close>

record call_params =
  workingDir :: string
  process :: string
  arguments :: "string list"
  returnValue :: "32 word"
  call_output :: string

definition call_params_init :: call_params where
  "call_params_init = \<lparr>workingDir = [], process = [], arguments = [], returnValue = 0, call_output = []\<rparr>"

text \<open>The null-terminated vector: the program, its arguments, the end marker.\<close>

definition make_argv :: "call_params \<Rightarrow> string option list" where
  "make_argv params =
     Some (c_str (process params)) # map (\<lambda>a. Some (c_str a)) (arguments params) @ [None]"

fun argv_strings :: "string option list \<Rightarrow> string list" where
  "argv_strings (Some s # rest) = s # argv_strings rest"
| "argv_strings _ = []"

text \<open>The heap block \<open>output\<close>: its bytes and whether it has been released.\<close>

record heap_block =
  bytes :: string
  freed :: bool

definition free_block :: "heap_block \<Rightarrow> heap_block result" where
  "free_block b = (if freed b then Inl Use_After_Free else Inr (b\<lparr>freed := True\<rparr>))"

definition block_string :: "heap_block \<Rightarrow> string result" where
  "block_string b = (if freed b then Inl Use_After_Free else Inr (c_str (bytes b)))"

text \<open>The read loop: append every chunk until a read does not succeed.\<close>

fun read_loop :: "read_result list \<Rightarrow> string \<Rightarrow> reproc_error \<times> string" where
  "read_loop [] out = (fst (fst (reproc_read [])), out)"
| "read_loop (r # rs) out =
     (case pipe_read r of (error, chunk) \<Rightarrow>
        if error \<noteq> REPROC_SUCCESS then (error, out) else read_loop rs (out @ chunk))"

text \<open>The answers for one call: the working directory and the vector are all that is passed.\<close>

definition spawned :: "(string \<Rightarrow> string list \<Rightarrow> os_trace) \<Rightarrow> call_params \<Rightarrow> os_trace" where
  "spawned spawn params = spawn (c_str (workingDir params)) (argv_strings (make_argv params))"

definition callExecutable ::
    "(string \<Rightarrow> string list \<Rightarrow> os_trace) \<Rightarrow> call_params \<Rightarrow> (call_params \<times> bool) result" where
  "callExecutable spawn params =
     (let os = spawned spawn params in
      and_then (reproc_start os uninitialised) (\<lambda>(error, status).
        if error = REPROC_FILE_NOT_FOUND then Inr (params, False)
        else if error \<noteq> REPROC_SUCCESS then Inr (params, False)
        else
          let (error, out) = read_loop (stdout_reads os) [];
              block = \<lparr>bytes = out, freed = False\<rparr>
          in and_then (if error \<noteq> REPROC_STREAM_CLOSED then free_block block else Inr block) (\<lambda>block.
             and_then (block_string block) (\<lambda>text.
             and_then (free_block block) (\<lambda>block.
             and_then (reproc_stop os status) (\<lambda>((error, exitStatus), status).
               Inr (params\<lparr>call_output := text\<rparr>,
                    (case exitStatus of Some s \<Rightarrow> s | None \<Rightarrow> 0) \<noteq> 0)))))))"

section \<open>Lemmas\<close>

lemma argv_strings_make_argv:
  "argv_strings (make_argv params) = map c_str (process params # arguments params)"
proof -
  have "argv_strings (map (\<lambda>a. Some (c_str a)) as @ [None]) = map c_str as" for as
    by (induction as) auto
  then show ?thesis by (simp add: make_argv_def)
qed

lemma spawned_eq:
  "spawned spawn p = spawn (c_str (workingDir p)) (map c_str (process p # arguments p))"
  by (simp add: spawned_def argv_strings_make_argv)

text \<open>A child that runs to the end of its output: only data, then end of file.\<close>

definition clean_reads :: "read_result list \<Rightarrow> bool" where
  "clean_reads rs = list_all (\<lambda>r. case r of Read_Bytes _ \<Rightarrow> True | Read_Fails _ \<Rightarrow> False) rs"

text \<open>The bytes of a read sequence up to the first empty read, which is the end of file.\<close>

fun stream_bytes :: "read_result list \<Rightarrow> string" where
  "stream_bytes [] = []"
| "stream_bytes (Read_Bytes b # rs) = (if b = [] then [] else b @ stream_bytes rs)"
| "stream_bytes (Read_Fails e # rs) = []"

lemma read_loop_clean:
  "clean_reads rs \<Longrightarrow> read_loop rs out = (REPROC_STREAM_CLOSED, out @ stream_bytes rs)"
proof (induction rs arbitrary: out)
  case Nil
  then show ?case by (simp add: pipe_read_def)
next
  case (Cons r rs)
  from Cons.prems obtain b where r: "r = Read_Bytes b" and "clean_reads rs"
    by (cases r) (auto simp: clean_reads_def)
  then show ?case using Cons.IH by (cases b) (auto simp: pipe_read_def)
qed

lemma read_loop_bytes: "snd (read_loop rs out) = out @ stream_bytes rs"
proof (induction rs arbitrary: out)
  case (Cons r rs)
  then show ?case
    by (cases r; cases "case r of Read_Bytes b \<Rightarrow> b | _ \<Rightarrow> []")
      (auto simp: pipe_read_def split: errno.splits)
qed simp

text \<open>
  What a caller sees of one call when nothing goes wrong in the process library: the output,
  or an empty output when the child could not be started.
\<close>

definition starts :: "os_trace \<Rightarrow> bool" where
  "starts os \<longleftrightarrow> (\<exists>q. reproc_start os uninitialised = Inr (REPROC_SUCCESS, q))"

lemma starts_code [code]:
  "starts os = (case reproc_start os uninitialised of Inr (e, q) \<Rightarrow> e = REPROC_SUCCESS | Inl _ \<Rightarrow> False)"
  by (auto simp: starts_def split: sum.splits)

lemma call_ok:
  assumes os: "os = spawned spawn p"
    and st: "starts os" and rs: "fst (read_loop (stdout_reads os) []) = REPROC_STREAM_CLOSED"
  shows "callExecutable spawn p
     = Inr (p\<lparr>call_output := c_str (stream_bytes (stdout_reads os))\<rparr>,
            (case waitpid_call os of Inr s \<Rightarrow> parse_exit_status s \<noteq> 0 | Inl _ \<Rightarrow> False))"
proof -
  from st obtain q where q: "reproc_start os uninitialised = Inr (REPROC_SUCCESS, q)"
    by (auto simp: starts_def)
  from reproc_stop_ok [OF reproc_start_pipes_open [OF q]] obtain q' where
    "reproc_stop os q = Inr (wait_infinite os, q')" by blast
  moreover have "read_loop (stdout_reads os) [] = (REPROC_STREAM_CLOSED, stream_bytes (stdout_reads os))"
    using rs read_loop_bytes [of "stdout_reads os" "[]"] by (metis append_Nil prod.collapse)
  ultimately show ?thesis
    using q by (simp add: callExecutable_def os [symmetric] block_string_def free_block_def
        wait_infinite_def split: sum.split errno.split)
qed

lemma call_not_started:
  assumes "os = spawned spawn p"
    and "reproc_start os uninitialised = Inr (e, q)" "e \<noteq> REPROC_SUCCESS"
  shows "callExecutable spawn p = Inr (p, False)"
  using assms by (simp add: callExecutable_def Let_def)

lemma call_read_error:
  assumes os: "os = spawned spawn p"
    and st: "starts os" and rs: "fst (read_loop (stdout_reads os) []) \<noteq> REPROC_STREAM_CLOSED"
  shows "callExecutable spawn p = Inl Use_After_Free"
  using assms by (auto simp: starts_def callExecutable_def block_string_def free_block_def Let_def
      split: prod.splits)

end
