(* ===== verification/Worker_System.thy ===== *)
theory Worker_System
  imports Repo_Prelude "HOL-Library.Word"
begin

text \<open>
  The job system of \<^verbatim>\<open>src/workersystem.cpp\<close>: a pool of worker threads, the shared job
  queue, the atomic counter of pending jobs, the quit flag and the main thread's calls
  \<^verbatim>\<open>addJob\<close>, \<^verbatim>\<open>waitForAllJobsFinished\<close> and \<^verbatim>\<open>shutdownJobSystem\<close>. The
  threads interleave; every atomic operation, dequeue and job execution of the source is one
  step. The queue (moodycamel's, used through its documented contract) may hand out any
  element and may report empty at any time, so no order is assumed of it.
\<close>

section \<open>The queue contract and its model\<close>

locale job_queue =
  fixes enq :: "'j \<Rightarrow> 'q \<Rightarrow> 'q"
    and deq :: "nat \<Rightarrow> 'q \<Rightarrow> ('j \<times> 'q) option"
    and bag :: "'q \<Rightarrow> 'j multiset"
  assumes bag_enq: "bag (enq j q) = add_mset j (bag q)"
    and bag_deq: "deq k q = Some (j, q') \<Longrightarrow> bag q = add_mset j (bag q')"
    and deq_progress: "bag q \<noteq> {#} \<Longrightarrow> \<exists>k j q'. deq k q = Some (j, q')"
begin

lemma size_enq: "size (bag (enq j q)) = Suc (size (bag q))"
  by (simp add: bag_enq)

lemma size_deq: "deq k q = Some (j, q') \<Longrightarrow> size (bag q) = Suc (size (bag q'))"
  by (simp add: bag_deq)

lemma deq_mem: "deq k q = Some (j, q') \<Longrightarrow> j \<in># bag q"
  by (simp add: bag_deq)

lemma deq_enq_conserves:
  "deq k (enq i q) = Some (j, q') \<Longrightarrow> add_mset j (bag q') = add_mset i (bag q)"
  using bag_deq bag_enq by metis

end

text \<open>The queue as the bag of its waiting elements; the index is the scheduler's choice.\<close>

definition enqueue :: "'j \<Rightarrow> 'j list \<Rightarrow> 'j list" where
  "enqueue j q = q @ [j]"

definition try_dequeue :: "nat \<Rightarrow> 'j list \<Rightarrow> ('j \<times> 'j list) option" where
  "try_dequeue k q = (if k < length q then Some (q ! k, take k q @ drop (Suc k) q) else None)"

lemma mset_remove_nth: "k < length q \<Longrightarrow> mset q = add_mset (q ! k) (mset (take k q @ drop (Suc k) q))"
  by (metis add_mset_add_single append_take_drop_id Cons_nth_drop_Suc mset.simps(2) mset_append
      union_mset_add_mset_right)

interpretation jq: job_queue enqueue try_dequeue mset
proof
  show "mset (enqueue j q) = add_mset j (mset q)" for j :: 'a and q
    by (simp add: enqueue_def)
next
  fix k q and j :: 'a and q'
  assume "try_dequeue k q = Some (j, q')"
  then have k: "k < length q" and j: "j = q ! k" and q': "q' = take k q @ drop (Suc k) q"
    by (auto simp: try_dequeue_def split: if_splits)
  show "mset q = add_mset j (mset q')"
    unfolding j q' by (rule mset_remove_nth [OF k])
next
  fix q :: "'a list"
  assume "mset q \<noteq> {#}"
  then have "try_dequeue 0 q = Some (q ! 0, take 0 q @ drop (Suc 0) q)"
    by (simp add: try_dequeue_def)
  then show "\<exists>k j q'. try_dequeue k q = Some (j, q')" by blast
qed

lemma length_try_dequeue: "try_dequeue k q = Some (j, q') \<Longrightarrow> length q = Suc (length q')"
  by (metis jq.size_deq size_mset)

lemma try_dequeue_None [simp]: "try_dequeue k [] = None"
  by (simp add: try_dequeue_def)

section \<open>State and steps\<close>

datatype 'j worker_pc = W_Test | W_Dequeue | W_Run 'j | W_Dec | W_Exit

datatype 'j main_pc =
    M_Idle | M_Enqueue 'j | M_Wait | M_Try | M_Run 'j | M_Dec | M_Join nat | M_Down

record 'j jobsys =
  threadPool :: "'j worker_pc list"
  workerJobQueue :: "'j list"
  pendingJobs :: "32 word"
  quit :: bool
  main_pc :: "'j main_pc"
  submitted :: "'j list"
  executed :: "'j list"

definition initJobSystem :: "nat \<Rightarrow> 'j jobsys" where
  "initJobSystem numberThreads =
     \<lparr>threadPool = replicate numberThreads W_Test, workerJobQueue = [], pendingJobs = 0,
      quit = False, main_pc = M_Idle, submitted = [], executed = []\<rparr>"

datatype 'j event =
    Call_Add 'j | Call_Wait | Call_Shutdown | Main_Step "nat option" | Worker_Step nat "nat option"

text \<open>\<^verbatim>\<open>workerThreadFunc\<close>: one step of worker \<open>i\<close>.\<close>

definition set_worker :: "nat \<Rightarrow> 'j worker_pc \<Rightarrow> 'j jobsys \<Rightarrow> 'j jobsys" where
  "set_worker i pc s = s\<lparr>threadPool := (threadPool s)[i := pc]\<rparr>"

definition workerThreadFunc :: "nat \<Rightarrow> nat option \<Rightarrow> 'j jobsys \<Rightarrow> 'j jobsys option" where
  "workerThreadFunc i choice s =
     (if i < length (threadPool s) then
        (case threadPool s ! i of
           W_Test \<Rightarrow> Some (set_worker i (if quit s then W_Exit else W_Dequeue) s)
         | W_Dequeue \<Rightarrow>
             (case choice of
                None \<Rightarrow> Some (set_worker i W_Test s)
              | Some k \<Rightarrow>
                  (case try_dequeue k (workerJobQueue s) of
                     None \<Rightarrow> None
                   | Some (j, q) \<Rightarrow> Some (set_worker i (W_Run j) (s\<lparr>workerJobQueue := q\<rparr>))))
         | W_Run j \<Rightarrow> Some (set_worker i W_Dec (s\<lparr>executed := executed s @ [j]\<rparr>))
         | W_Dec \<Rightarrow> Some (set_worker i W_Test (s\<lparr>pendingJobs := pendingJobs s + - 1\<rparr>))
         | W_Exit \<Rightarrow> None)
      else None)"

text \<open>
  \<^verbatim>\<open>addJob\<close> raises the counter, then enqueues (\<open>addJob\<close>, \<open>addJob_enqueue\<close>);
  \<^verbatim>\<open>waitForAllJobsFinished\<close> tests the counter, tries to take a job and runs it itself;
  \<^verbatim>\<open>shutdownJobSystem\<close> sets the flag and joins the workers one by one.
\<close>

definition addJob :: "'j \<Rightarrow> 'j jobsys \<Rightarrow> 'j jobsys option" where
  "addJob j s =
     (if main_pc s = M_Idle
      then Some (s\<lparr>pendingJobs := pendingJobs s + 1, main_pc := M_Enqueue j,
                   submitted := submitted s @ [j]\<rparr>)
      else None)"

definition waitForAllJobsFinished :: "'j jobsys \<Rightarrow> 'j jobsys option" where
  "waitForAllJobsFinished s = (if main_pc s = M_Idle then Some (s\<lparr>main_pc := M_Wait\<rparr>) else None)"

definition shutdownJobSystem :: "'j jobsys \<Rightarrow> 'j jobsys option" where
  "shutdownJobSystem s =
     (if main_pc s = M_Idle then Some (s\<lparr>quit := True, main_pc := M_Join 0\<rparr>) else None)"

definition main_step :: "nat option \<Rightarrow> 'j jobsys \<Rightarrow> 'j jobsys option" where
  "main_step choice s =
     (case main_pc s of
        M_Idle \<Rightarrow> None
      | M_Enqueue j \<Rightarrow>
          Some (s\<lparr>workerJobQueue := enqueue j (workerJobQueue s), main_pc := M_Idle\<rparr>)
      | M_Wait \<Rightarrow> Some (s\<lparr>main_pc := (if pendingJobs s \<noteq> 0 then M_Try else M_Idle)\<rparr>)
      | M_Try \<Rightarrow>
          (case choice of
             None \<Rightarrow> Some (s\<lparr>main_pc := M_Wait\<rparr>)
           | Some k \<Rightarrow>
               (case try_dequeue k (workerJobQueue s) of
                  None \<Rightarrow> None
                | Some (j, q) \<Rightarrow> Some (s\<lparr>workerJobQueue := q, main_pc := M_Run j\<rparr>)))
      | M_Run j \<Rightarrow> Some (s\<lparr>executed := executed s @ [j], main_pc := M_Dec\<rparr>)
      | M_Dec \<Rightarrow> Some (s\<lparr>pendingJobs := pendingJobs s + - 1, main_pc := M_Wait\<rparr>)
      | M_Join i \<Rightarrow>
          (if i < length (threadPool s)
           then if threadPool s ! i = W_Exit then Some (s\<lparr>main_pc := M_Join (Suc i)\<rparr>) else None
           else Some (s\<lparr>main_pc := M_Down\<rparr>))
      | M_Down \<Rightarrow> None)"

fun exec_event :: "'j event \<Rightarrow> 'j jobsys \<Rightarrow> 'j jobsys option" where
  "exec_event (Call_Add j) s = addJob j s"
| "exec_event Call_Wait s = waitForAllJobsFinished s"
| "exec_event Call_Shutdown s = shutdownJobSystem s"
| "exec_event (Main_Step c) s = main_step c s"
| "exec_event (Worker_Step i c) s = workerThreadFunc i c s"

fun exec_events :: "'j event list \<Rightarrow> 'j jobsys \<Rightarrow> 'j jobsys option" where
  "exec_events [] s = Some s"
| "exec_events (e # es) s = (case exec_event e s of None \<Rightarrow> None | Some t \<Rightarrow> exec_events es t)"

text \<open>The states of the system started with \<open>n\<close> workers, under every interleaving.\<close>

inductive reachable :: "nat \<Rightarrow> 'j jobsys \<Rightarrow> bool" for n where
  reachable_init: "reachable n (initJobSystem n)"
| reachable_step: "reachable n s \<Longrightarrow> exec_event e s = Some t \<Longrightarrow> reachable n t"

lemma exec_events_append:
  "exec_events (es @ fs) s = (case exec_events es s of None \<Rightarrow> None | Some t \<Rightarrow> exec_events fs t)"
  by (induction es arbitrary: s) (auto split: option.splits)

lemma reachable_exec_events: "reachable n s \<Longrightarrow> exec_events es s = Some t \<Longrightarrow> reachable n t"
  by (induction es arbitrary: s) (auto split: option.splits intro: reachable_step)

section \<open>The counter invariant\<close>

text \<open>Jobs taken but not yet run, and completed jobs not yet subtracted from the counter.\<close>

fun worker_holds :: "'j worker_pc \<Rightarrow> 'j multiset" where
  "worker_holds (W_Run j) = {#j#}"
| "worker_holds _ = {#}"

fun main_holds :: "'j main_pc \<Rightarrow> 'j multiset" where
  "main_holds (M_Enqueue j) = {#j#}"
| "main_holds (M_Run j) = {#j#}"
| "main_holds _ = {#}"

definition in_flight :: "'j jobsys \<Rightarrow> 'j multiset" where
  "in_flight s = (\<Sum>pc\<leftarrow>threadPool s. worker_holds pc) + main_holds (main_pc s)"

definition undecremented :: "'j jobsys \<Rightarrow> nat" where
  "undecremented s =
     length (filter (\<lambda>pc. pc = W_Dec) (threadPool s)) + (if main_pc s = M_Dec then 1 else 0)"

definition open_jobs :: "'j jobsys \<Rightarrow> nat" where
  "open_jobs s = length (workerJobQueue s) + size (in_flight s) + undecremented s"

definition job_inv :: "'j jobsys \<Rightarrow> bool" where
  "job_inv s \<longleftrightarrow>
     pendingJobs s = word_of_nat (open_jobs s)
   \<and> mset (submitted s) = mset (workerJobQueue s) + in_flight s + mset (executed s)
   \<and> undecremented s \<le> length (executed s)
   \<and> (quit s \<longleftrightarrow> (case main_pc s of M_Join _ \<Rightarrow> True | M_Down \<Rightarrow> True | _ \<Rightarrow> False))
   \<and> (\<forall>k. main_pc s = M_Join k \<longrightarrow>
          k \<le> length (threadPool s) \<and> (\<forall>i<k. threadPool s ! i = W_Exit))
   \<and> (main_pc s = M_Down \<longrightarrow> (\<forall>i<length (threadPool s). threadPool s ! i = W_Exit))"


section \<open>Every step keeps the invariant\<close>

lemma sum_list_update:
  fixes f :: "'a \<Rightarrow> 'b::cancel_comm_monoid_add"
  shows "i < length xs \<Longrightarrow> sum_list (map f (xs[i := y])) + f (xs ! i) = sum_list (map f xs) + f y"
  by (induction xs arbitrary: i) (auto simp: ac_simps split: nat.splits)

lemma length_filter_sum_list:
  "length (filter P xs) = (\<Sum>x\<leftarrow>xs. if P x then 1 else (0::nat))"
  by (induction xs) auto

text \<open>What a worker's move adds to and removes from the two bookkeeping sums.\<close>

lemma held_set_worker:
  assumes "i < length (threadPool s)"
  shows "in_flight (set_worker i pc s) + worker_holds (threadPool s ! i) = in_flight s + worker_holds pc"
  using sum_list_update [OF assms, of worker_holds pc]
  by (simp add: in_flight_def set_worker_def ac_simps)

lemma dec_set_worker:
  assumes "i < length (threadPool s)"
  shows "undecremented (set_worker i pc s) + (if threadPool s ! i = W_Dec then 1 else 0)
       = undecremented s + (if pc = W_Dec then 1 else 0)"
  using sum_list_update [OF assms, of "\<lambda>p. if p = W_Dec then 1 else 0" pc]
  by (simp add: undecremented_def set_worker_def length_filter_sum_list)

lemma worker_fields [simp]:
  "workerJobQueue (set_worker i pc s) = workerJobQueue s"
  "pendingJobs (set_worker i pc s) = pendingJobs s"
  "quit (set_worker i pc s) = quit s"
  "main_pc (set_worker i pc s) = main_pc s"
  "submitted (set_worker i pc s) = submitted s"
  "executed (set_worker i pc s) = executed s"
  "threadPool (set_worker i pc s) = (threadPool s)[i := pc]"
  by (simp_all add: set_worker_def)

lemma held_frame [simp]:
  "in_flight (s\<lparr>workerJobQueue := q\<rparr>) = in_flight s"
  "in_flight (s\<lparr>executed := e\<rparr>) = in_flight s"
  "in_flight (s\<lparr>pendingJobs := p\<rparr>) = in_flight s"
  "undecremented (s\<lparr>workerJobQueue := q\<rparr>) = undecremented s"
  "undecremented (s\<lparr>executed := e\<rparr>) = undecremented s"
  "undecremented (s\<lparr>pendingJobs := p\<rparr>) = undecremented s"
  by (simp_all add: in_flight_def undecremented_def)

lemma sum_list_replicate_empty [simp]: "sum_list (replicate n {#}) = {#}"
  by (induction n) auto

lemma job_inv_init: "job_inv (initJobSystem n)"
  by (auto simp: job_inv_def initJobSystem_def open_jobs_def in_flight_def undecremented_def)

text \<open>A worker that leaves the run loop does so only after the flag is set.\<close>

lemma exit_kept_by_update:
  "(\<forall>i<k. xs ! i = W_Exit) \<Longrightarrow> xs ! j \<noteq> W_Exit \<Longrightarrow> j < length xs \<Longrightarrow> (\<forall>i<k. xs[j := pc] ! i = W_Exit)"
  by (metis nth_list_update_neq)

lemma job_inv_worker:
  assumes inv: "job_inv s" and step: "workerThreadFunc i c s = Some t"
  shows "job_inv t"
proof -
  from step have i: "i < length (threadPool s)" and ne: "threadPool s ! i \<noteq> W_Exit"
    by (auto simp: workerThreadFunc_def split: if_splits worker_pc.splits)
  have joined: "(\<forall>k. main_pc s = M_Join k \<longrightarrow>
        k \<le> length ((threadPool s)[i := pc]) \<and> (\<forall>j<k. (threadPool s)[i := pc] ! j = W_Exit))"
     and down: "(main_pc s = M_Down \<longrightarrow> (\<forall>j<length (threadPool s). (threadPool s)[i := pc] ! j = W_Exit))" for pc
    using inv i ne exit_kept_by_update [OF _ ne i] by (auto simp: job_inv_def)
  note sums = held_set_worker [OF i] dec_set_worker [OF i]
  show ?thesis
  proof (cases "threadPool s ! i")
    case W_Test
    with step sums(1,2) [of "if quit s then W_Exit else W_Dequeue"] inv joined down show ?thesis
      by (auto simp: workerThreadFunc_def i job_inv_def open_jobs_def split: if_splits)
  next
    case W_Dequeue
    show ?thesis
    proof (cases c)
      case None
      with step W_Dequeue sums(1,2) [of W_Test] inv joined down show ?thesis
        by (auto simp: workerThreadFunc_def i job_inv_def open_jobs_def)
    next
      case (Some k)
      with step W_Dequeue obtain j q where q: "try_dequeue k (workerJobQueue s) = Some (j, q)"
        and t: "t = set_worker i (W_Run j) (s\<lparr>workerJobQueue := q\<rparr>)"
        by (auto simp: workerThreadFunc_def i split: option.splits)
      have b: "mset (workerJobQueue s) = add_mset j (mset q)" "length (workerJobQueue s) = Suc (length q)"
        using jq.bag_deq [OF q] length_try_dequeue [OF q] by simp_all
      have "in_flight t = add_mset j (in_flight s)" "undecremented t = undecremented s"
        using held_set_worker [of i "s\<lparr>workerJobQueue := q\<rparr>" "W_Run j"]
          dec_set_worker [of i "s\<lparr>workerJobQueue := q\<rparr>" "W_Run j"] i W_Dequeue
        by (simp_all add: t)
      with inv b joined down t show ?thesis
        by (auto simp: job_inv_def open_jobs_def)
    qed
  next
    case (W_Run j)
    with step have t: "t = set_worker i W_Dec (s\<lparr>executed := executed s @ [j]\<rparr>)"
      by (simp add: workerThreadFunc_def i)
    have "in_flight s = add_mset j (in_flight t)" "undecremented t = Suc (undecremented s)"
      using held_set_worker [of i "s\<lparr>executed := executed s @ [j]\<rparr>" W_Dec]
        dec_set_worker [of i "s\<lparr>executed := executed s @ [j]\<rparr>" W_Dec] i W_Run
      by (simp_all add: t)
    with inv joined down t show ?thesis
      by (auto simp: job_inv_def open_jobs_def)
  next
    case W_Dec
    with step have t: "t = set_worker i W_Test (s\<lparr>pendingJobs := pendingJobs s + - 1\<rparr>)"
      by (simp add: workerThreadFunc_def i)
    have "in_flight t = in_flight s" "undecremented s = Suc (undecremented t)"
      using held_set_worker [of i "s\<lparr>pendingJobs := pendingJobs s + - 1\<rparr>" W_Test]
        dec_set_worker [of i "s\<lparr>pendingJobs := pendingJobs s + - 1\<rparr>" W_Test] i W_Dec
      by (simp_all add: t)
    moreover have f: "workerJobQueue t = workerJobQueue s" "pendingJobs t = pendingJobs s - 1"
        "submitted t = submitted s" "executed t = executed s" "quit t = quit s"
        "main_pc t = main_pc s" "threadPool t = (threadPool s)[i := W_Test]"
      by (simp_all add: t)
    ultimately have "open_jobs s = Suc (open_jobs t)"
      by (simp add: open_jobs_def)
    then have "pendingJobs t = word_of_nat (open_jobs t)"
      using inv by (simp add: f job_inv_def)
    then show ?thesis
      using inv joined down \<open>in_flight t = in_flight s\<close> \<open>undecremented s = Suc (undecremented t)\<close>
      by (simp add: job_inv_def f)
  qed (use ne in simp)
qed

lemma job_inv_main:
  assumes inv: "job_inv s" and step: "main_step c s = Some t"
  shows "job_inv t"
proof (cases "main_pc s")
  case M_Idle
  with step show ?thesis by (simp add: main_step_def)
next
  case (M_Enqueue j)
  with step inv show ?thesis
    by (auto simp: main_step_def job_inv_def open_jobs_def in_flight_def undecremented_def
        enqueue_def)
next
  case M_Wait
  with step inv show ?thesis
    by (cases "pendingJobs s = 0")
      (auto simp: main_step_def job_inv_def open_jobs_def in_flight_def undecremented_def)
next
  case M_Try
  show ?thesis
  proof (cases c)
    case None
    with M_Try step inv show ?thesis
      by (auto simp: main_step_def job_inv_def open_jobs_def in_flight_def undecremented_def)
  next
    case (Some k)
    with M_Try step obtain j q where q: "try_dequeue k (workerJobQueue s) = Some (j, q)"
      and t: "t = s\<lparr>workerJobQueue := q, main_pc := M_Run j\<rparr>"
      by (auto simp: main_step_def split: option.splits)
    have "mset (workerJobQueue s) = add_mset j (mset q)" "length (workerJobQueue s) = Suc (length q)"
      using jq.bag_deq [OF q] length_try_dequeue [OF q] by simp_all
    with M_Try inv t show ?thesis
      by (auto simp: job_inv_def open_jobs_def in_flight_def undecremented_def)
  qed
next
  case (M_Run j)
  with step inv show ?thesis
    by (auto simp: main_step_def job_inv_def open_jobs_def in_flight_def undecremented_def)
next
  case M_Dec
  with step inv show ?thesis
    by (auto simp: main_step_def job_inv_def open_jobs_def in_flight_def undecremented_def)
next
  case (M_Join k)
  with step inv show ?thesis
    by (auto simp: main_step_def job_inv_def open_jobs_def in_flight_def undecremented_def
        less_Suc_eq split: if_splits)
next
  case M_Down
  with step show ?thesis by (simp add: main_step_def)
qed

lemma job_inv_call:
  assumes inv: "job_inv s"
  shows "addJob j s = Some t \<Longrightarrow> job_inv t"
    and "waitForAllJobsFinished s = Some t \<Longrightarrow> job_inv t"
    and "shutdownJobSystem s = Some t \<Longrightarrow> job_inv t"
  using inv
  by (auto simp: addJob_def waitForAllJobsFinished_def shutdownJobSystem_def job_inv_def
      open_jobs_def in_flight_def undecremented_def split: if_splits)

lemma job_inv_event: "job_inv s \<Longrightarrow> exec_event e s = Some t \<Longrightarrow> job_inv t"
  by (cases e) (auto intro: job_inv_call job_inv_main job_inv_worker)

lemma reachable_job_inv: "reachable n s \<Longrightarrow> job_inv s"
  by (induction rule: reachable.induct) (auto intro: job_inv_init job_inv_event)


section \<open>What waiting guarantees\<close>

lemma sum_list_empty_iff: "sum_list ms = {#} \<longleftrightarrow> (\<forall>m\<in>set ms. m = {#})"
  by (induction ms) auto

fun is_call :: "'j event \<Rightarrow> bool" where
  "is_call (Main_Step _) = False"
| "is_call (Worker_Step _ _) = False"
| "is_call _ = True"

fun added_job :: "'j event \<Rightarrow> 'j list" where
  "added_job (Call_Add j) = [j]"
| "added_job _ = []"

lemma submitted_event: "exec_event e s = Some t \<Longrightarrow> submitted t = submitted s @ added_job e"
  by (cases e)
    (auto simp: addJob_def waitForAllJobsFinished_def shutdownJobSystem_def main_step_def
      workerThreadFunc_def split: if_splits main_pc.splits worker_pc.splits option.splits)

lemma submitted_events:
  "exec_events es s = Some t \<Longrightarrow> submitted t = submitted s @ concat (map added_job es)"
  by (induction es arbitrary: s) (auto simp: submitted_event split: option.splits)

lemma open_jobs_le: "job_inv s \<Longrightarrow> open_jobs s \<le> length (submitted s)"
proof -
  assume inv: "job_inv s"
  then have "length (submitted s) = length (workerJobQueue s) + size (in_flight s) + length (executed s)"
    by (metis job_inv_def size_mset size_union)
  with inv show ?thesis by (simp add: job_inv_def open_jobs_def)
qed

lemma pending_zero_iff:
  assumes "job_inv s" "length (submitted s) < 2 ^ 32"
  shows "pendingJobs s = 0 \<longleftrightarrow> open_jobs s = 0"
proof -
  have "open_jobs s < 2 ^ 32" using open_jobs_le [OF assms(1)] assms(2) by simp
  moreover have "pendingJobs s = word_of_nat (open_jobs s)" using assms(1) by (simp add: job_inv_def)
  ultimately show ?thesis
    by (auto simp: word_of_nat_eq_0_iff dest: nat_dvd_not_less)
qed

lemma no_open_jobs:
  assumes "job_inv s" "open_jobs s = 0"
  shows "workerJobQueue s = []" "mset (executed s) = mset (submitted s)"
    "\<And>pc. pc \<in> set (threadPool s) \<Longrightarrow> pc = W_Test \<or> pc = W_Dequeue \<or> pc = W_Exit"
proof -
  show "workerJobQueue s = []" "mset (executed s) = mset (submitted s)"
    using assms by (auto simp: job_inv_def open_jobs_def)
  fix pc assume pc: "pc \<in> set (threadPool s)"
  have "(\<Sum>pc\<leftarrow>threadPool s. worker_holds pc) = {#}"
    using assms(2) by (simp add: open_jobs_def in_flight_def)
  with pc have "worker_holds pc = {#}" by (auto simp: sum_list_empty_iff)
  moreover have "pc \<noteq> W_Dec"
    using pc assms(2) by (auto simp: open_jobs_def undecremented_def filter_empty_conv split: if_splits)
  ultimately show "pc = W_Test \<or> pc = W_Dequeue \<or> pc = W_Exit" by (cases pc) auto
qed


text \<open>Inside a wait, or after it with nothing left open.\<close>

definition in_wait :: "'j jobsys \<Rightarrow> bool" where
  "in_wait s \<longleftrightarrow> (case main_pc s of
      M_Wait \<Rightarrow> True | M_Try \<Rightarrow> True | M_Run _ \<Rightarrow> True | M_Dec \<Rightarrow> True | _ \<Rightarrow> False)"

definition wait_phase :: "'j jobsys \<Rightarrow> bool" where
  "wait_phase s \<longleftrightarrow> in_wait s \<or> (main_pc s = M_Idle \<and> open_jobs s = 0)"

lemma open_jobs_worker:
  assumes "job_inv s" "open_jobs s = 0" "workerThreadFunc i c s = Some t"
  shows "open_jobs t = 0"
proof -
  have i: "i < length (threadPool s)"
    using assms(3) by (simp add: workerThreadFunc_def split: if_splits)
  then have pc: "threadPool s ! i = W_Test \<or> threadPool s ! i = W_Dequeue \<or> threadPool s ! i = W_Exit"
    using no_open_jobs(3) [OF assms(1,2)] by simp
  have q: "workerJobQueue s = []" using no_open_jobs(1) [OF assms(1,2)] .
  obtain pc' where t: "t = set_worker i pc' s" and pc': "pc' = W_Test \<or> pc' = W_Dequeue \<or> pc' = W_Exit"
    using pc q i assms(3) by (auto simp: workerThreadFunc_def split: if_splits option.splits)
  show ?thesis
    using held_set_worker [OF i, of pc'] dec_set_worker [OF i, of pc'] pc pc' assms(2)
    by (auto simp: open_jobs_def t)
qed

lemma wait_phase_event:
  assumes inv: "job_inv s" and small: "length (submitted s) < 2 ^ 32"
    and w: "wait_phase s" and e: "\<not> is_call e" and step: "exec_event e s = Some t"
  shows "wait_phase t"
proof (cases e)
  case (Worker_Step i c)
  with step have st: "workerThreadFunc i c s = Some t" by simp
  then have "main_pc t = main_pc s"
    by (auto simp: workerThreadFunc_def split: if_splits worker_pc.splits option.splits)
  with w open_jobs_worker [OF inv _ st] show ?thesis by (auto simp: wait_phase_def in_wait_def)
next
  case (Main_Step c)
  show ?thesis
  proof (cases "main_pc s = M_Wait")
    case True
    show ?thesis
    proof (cases "pendingJobs s = 0")
      case zero: True
      then have "open_jobs s = 0" using pending_zero_iff [OF inv small] by simp
      moreover have "t = s\<lparr>main_pc := M_Idle\<rparr>"
        using True zero Main_Step step by (simp add: main_step_def)
      ultimately show ?thesis
        using True by (simp add: wait_phase_def open_jobs_def in_flight_def undecremented_def)
    next
      case False
      with True Main_Step step show ?thesis by (auto simp: main_step_def wait_phase_def in_wait_def)
    qed
  next
    case False
    with Main_Step step w show ?thesis
      by (auto simp: main_step_def wait_phase_def in_wait_def split: main_pc.splits option.splits)
  qed
qed (use e in simp_all)

lemma wait_phase_events:
  assumes "reachable n s" "wait_phase s" "\<forall>e\<in>set es. \<not> is_call e" "exec_events es s = Some t"
    "length (submitted s) < 2 ^ 32"
  shows "wait_phase t"
  using assms
proof (induction es arbitrary: s)
  case (Cons e es)
  from Cons.prems obtain u where u: "exec_event e s = Some u" "exec_events es u = Some t"
    by (auto split: option.splits)
  have "submitted u = submitted s"
    using submitted_event [OF u(1)] Cons.prems(3) by (cases e) auto
  moreover have "wait_phase u"
    using wait_phase_event [OF reachable_job_inv [OF Cons.prems(1)] _ _ _ u(1)] Cons.prems by auto
  ultimately show ?case
    using Cons.IH [OF reachable_step [OF Cons.prems(1) u(1)] _ _ u(2)] Cons.prems by auto
qed simp

text \<open>
  One batch as every command issues it: an \<open>addJob\<close> per job in order, then a wait, with
  steps of main and workers in between in any order. It is complete when main is idle again.
\<close>

definition batch_calls :: "'j list \<Rightarrow> 'j event list" where
  "batch_calls js = map Call_Add js @ [Call_Wait]"

definition is_batch :: "'j list \<Rightarrow> 'j event list \<Rightarrow> 'j jobsys \<Rightarrow> 'j jobsys \<Rightarrow> bool" where
  "is_batch js es s t \<longleftrightarrow>
     exec_events es s = Some t \<and> filter is_call es = batch_calls js
   \<and> main_pc s = M_Idle \<and> main_pc t = M_Idle"

lemma added_jobs_calls: "concat (map added_job es) = concat (map added_job (filter is_call es))"
proof (induction es)
  case (Cons e es)
  then show ?case by (cases e) auto
qed simp

lemma added_jobs_batch: "concat (map added_job (batch_calls js)) = js"
  by (induction js) (simp_all add: batch_calls_def)

lemma split_last_call:
  assumes "filter is_call es = batch_calls js"
  obtains es1 es2 where "es = es1 @ Call_Wait # es2" "filter is_call es1 = map Call_Add js"
    "\<forall>e\<in>set es2. \<not> is_call e"
proof -
  from assms have "rev (filter is_call es) = Call_Wait # rev (map Call_Add js)"
    by (simp add: batch_calls_def)
  then have "filter is_call (rev es) = Call_Wait # rev (map Call_Add js)"
    by (simp add: rev_filter)
  then obtain us vs where "rev es = us @ Call_Wait # vs" "\<forall>u\<in>set us. \<not> is_call u"
    "filter is_call vs = rev (map Call_Add js)"
    by (auto simp: filter_eq_Cons_iff)
  then have "es = rev vs @ Call_Wait # rev us" "filter is_call (rev vs) = map Call_Add js"
    "\<forall>e\<in>set (rev us). \<not> is_call e"
    by (simp_all add: rev_swap rev_filter [symmetric])
  then show thesis by (rule that)
qed

lemma batch_done:
  assumes r: "reachable n s" and b: "is_batch js es s t"
    and small: "length (submitted s) + length js < 2 ^ 32"
  shows "submitted t = submitted s @ js" "open_jobs t = 0" "job_inv t"
proof -
  from b have run: "exec_events es s = Some t" and calls: "filter is_call es = batch_calls js"
    and idle: "main_pc t = M_Idle" by (simp_all add: is_batch_def)
  show sub: "submitted t = submitted s @ js"
    using submitted_events [OF run] calls by (simp add: added_jobs_calls [of es] added_jobs_batch)
  show "job_inv t" using reachable_exec_events [OF r run] by (rule reachable_job_inv)
  from split_last_call [OF calls] obtain es1 es2 where es: "es = es1 @ Call_Wait # es2"
    and calls1: "filter is_call es1 = map Call_Add js" and rest: "\<forall>e\<in>set es2. \<not> is_call e" .
  from run obtain u v where u: "exec_events es1 s = Some u" and v: "waitForAllJobsFinished u = Some v"
    and t: "exec_events es2 v = Some t"
    by (auto simp: es exec_events_append split: option.splits)
  have rv: "reachable n v"
    using reachable_step [OF reachable_exec_events [OF r u], of Call_Wait] v by simp
  have "concat (map added_job es1) = js"
    using calls1 added_jobs_batch [of js] by (simp add: added_jobs_calls [of es1] batch_calls_def)
  then have "submitted v = submitted s @ js"
    using submitted_events [OF u] submitted_event [of Call_Wait u v] v by simp
  moreover have "wait_phase v"
    using v by (auto simp: waitForAllJobsFinished_def wait_phase_def in_wait_def split: if_splits)
  ultimately have "wait_phase t"
    using wait_phase_events [OF rv _ rest t] small by simp
  with idle show "open_jobs t = 0" by (simp add: wait_phase_def in_wait_def)
qed


section \<open>Draining the result queue\<close>

text \<open>
  The commands take their results with \<^verbatim>\<open>while(results.try_dequeue(result))\<close> once the
  batch is complete: every result, in an order the queue chooses (the choice function).
\<close>

function drain :: "(nat \<Rightarrow> nat) \<Rightarrow> 'r list \<Rightarrow> 'r list" where
  "drain choice q =
     (case try_dequeue (choice (length q) mod length q) q of
        None \<Rightarrow> []
      | Some (r, q') \<Rightarrow> r # drain choice q')"
  by pat_completeness auto
termination
  by (relation "measure (\<lambda>(c, q). length q)") (auto dest: length_try_dequeue)

declare drain.simps [simp del]

lemma mset_drain: "mset (drain choice q) = mset q"
proof (induction choice q rule: drain.induct)
  case (1 choice q)
  show ?case
  proof (cases "try_dequeue (choice (length q) mod length q) q")
    case None
    then have "\<not> choice (length q) mod length q < length q"
      by (auto simp: try_dequeue_def split: if_splits)
    then have "q = []" by (cases q) auto
    then show ?thesis by (subst drain.simps) simp
  next
    case (Some p)
    then obtain r q' where p: "try_dequeue (choice (length q) mod length q) q = Some (r, q')"
      by (cases p) auto
    with 1 [OF p refl] jq.bag_deq [OF p] show ?thesis
      by (subst drain.simps) simp
  qed
qed

text \<open>The results a command sees after one batch on the job system.\<close>

definition batch_results ::
    "(nat \<Rightarrow> nat) \<Rightarrow> ('j \<Rightarrow> 'r) \<Rightarrow> 'j jobsys \<Rightarrow> 'j jobsys \<Rightarrow> 'r list" where
  "batch_results choice run s t = drain choice (map run (drop (length (executed s)) (executed t)))"

lemma executed_event: "exec_event e s = Some t \<Longrightarrow> \<exists>js. executed t = executed s @ js"
  by (cases e)
    (auto simp: addJob_def waitForAllJobsFinished_def shutdownJobSystem_def main_step_def
      workerThreadFunc_def split: if_splits main_pc.splits worker_pc.splits option.splits)

lemma executed_events: "exec_events es s = Some t \<Longrightarrow> \<exists>js. executed t = executed s @ js"
proof (induction es arbitrary: s)
  case (Cons e es)
  from Cons.prems obtain u where "exec_event e s = Some u" "exec_events es u = Some t"
    by (auto split: option.splits)
  then show ?case using executed_event [of e s u] Cons.IH [of u] by auto
qed simp

lemma batch_results_mset:
  assumes "reachable n s" "open_jobs s = 0" "is_batch js es s t"
    "length (submitted s) + length js < 2 ^ 32"
  shows "mset (batch_results choice run s t) = mset (map run js)"
proof -
  note dn = batch_done [OF assms(1,3,4)]
  obtain ks where ks: "executed t = executed s @ ks"
    using executed_events [of es s t] assms(3) by (auto simp: is_batch_def)
  have "mset (executed t) = mset (submitted s @ js)"
    using no_open_jobs(2) [OF dn(3,2)] dn(1) by simp
  moreover have "mset (executed s) = mset (submitted s)"
    using no_open_jobs(2) [OF reachable_job_inv [OF assms(1)] assms(2)] .
  ultimately have "mset ks = mset js" by (simp add: ks)
  then show ?thesis by (simp add: batch_results_def ks mset_drain)
qed

section \<open>A wait can always be completed\<close>

text \<open>
  The helping schedule: workers first finish what they hold; then main runs what is queued.
  Each of its steps lowers \<open>wait_rank\<close>.
\<close>

fun worker_rank :: "'j worker_pc \<Rightarrow> nat" where
  "worker_rank (W_Run j) = 2"
| "worker_rank W_Dec = 1"
| "worker_rank _ = 0"

definition main_rank :: "'j jobsys \<Rightarrow> nat" where
  "main_rank s = (case main_pc s of
     M_Run _ \<Rightarrow> 4 | M_Dec \<Rightarrow> 3 | M_Wait \<Rightarrow> 2
   | M_Try \<Rightarrow> if workerJobQueue s = [] then 3 else 1 | _ \<Rightarrow> 0)"

definition wait_rank :: "'j jobsys \<Rightarrow> nat" where
  "wait_rank s = 5 * length (workerJobQueue s) + (\<Sum>pc\<leftarrow>threadPool s. worker_rank pc) + main_rank s"

lemma rank_set_worker:
  assumes "i < length (threadPool s)"
  shows "(\<Sum>p\<leftarrow>(threadPool s)[i := pc]. worker_rank p) + worker_rank (threadPool s ! i)
       = (\<Sum>p\<leftarrow>threadPool s. worker_rank p) + worker_rank pc"
  by (rule sum_list_update [OF assms])

definition advances :: "'j jobsys \<Rightarrow> 'j jobsys \<Rightarrow> bool" where
  "advances s t \<longleftrightarrow> main_pc t = M_Idle \<or> in_wait t \<and> wait_rank t < wait_rank s"

lemma worker_advances:
  assumes "in_wait s" "i < length (threadPool s)" "worker_rank (threadPool s ! i) \<noteq> 0"
  shows "\<exists>t. workerThreadFunc i None s = Some t \<and> advances s t"
proof (cases "threadPool s ! i")
  case (W_Run j)
  with rank_set_worker [OF assms(2), of W_Dec] assms show ?thesis
    by (auto simp: workerThreadFunc_def in_wait_def wait_rank_def main_rank_def advances_def)
next
  case W_Dec
  with rank_set_worker [OF assms(2), of W_Test] assms show ?thesis
    by (auto simp: workerThreadFunc_def in_wait_def wait_rank_def main_rank_def advances_def)
qed (use assms in auto)

lemma quiet_workers:
  assumes "\<forall>pc\<in>set (threadPool s). worker_rank pc = 0"
  shows "(\<Sum>pc\<leftarrow>threadPool s. worker_holds pc) = {#}" "filter (\<lambda>pc. pc = W_Dec) (threadPool s) = []"
proof -
  have "worker_holds pc = {#}" if "worker_rank pc = 0" for pc :: "'a worker_pc"
    using that by (cases pc) auto
  with assms show "(\<Sum>pc\<leftarrow>threadPool s. worker_holds pc) = {#}" by (auto simp: sum_list_empty_iff)
  show "filter (\<lambda>pc. pc = W_Dec) (threadPool s) = []"
    using assms by (auto simp: filter_empty_conv)
qed

lemma main_advances:
  assumes inv: "job_inv s" and w: "in_wait s"
    and quiet: "\<forall>pc\<in>set (threadPool s). worker_rank pc = 0"
  shows "\<exists>c t. main_step c s = Some t \<and> advances s t"
proof (cases "main_pc s")
  case M_Wait
  have "pendingJobs s = 0 \<or> workerJobQueue s \<noteq> []"
    using inv quiet_workers [OF quiet] M_Wait
    by (auto simp: job_inv_def open_jobs_def in_flight_def undecremented_def)
  with M_Wait show ?thesis
    by (auto simp: main_step_def advances_def in_wait_def wait_rank_def main_rank_def)
next
  case M_Try
  show ?thesis
  proof (cases "workerJobQueue s")
    case Nil
    with M_Try have "main_step None s = Some (s\<lparr>main_pc := M_Wait\<rparr>)"
      "advances s (s\<lparr>main_pc := M_Wait\<rparr>)"
      by (simp_all add: main_step_def advances_def in_wait_def wait_rank_def main_rank_def)
    then show ?thesis by blast
  next
    case (Cons j q)
    with M_Try have "main_step (Some 0) s = Some (s\<lparr>workerJobQueue := q, main_pc := M_Run j\<rparr>)"
      "advances s (s\<lparr>workerJobQueue := q, main_pc := M_Run j\<rparr>)"
      by (simp_all add: main_step_def try_dequeue_def advances_def in_wait_def wait_rank_def main_rank_def)
    then show ?thesis by blast
  qed
qed (use w in \<open>auto simp: main_step_def advances_def in_wait_def wait_rank_def main_rank_def\<close>)

lemma helping_step:
  assumes "job_inv s" "in_wait s"
  shows "\<exists>e t. \<not> is_call e \<and> exec_event e s = Some t \<and> advances s t"
proof (cases "\<forall>pc\<in>set (threadPool s). worker_rank pc = 0")
  case True
  from main_advances [OF assms this] obtain c t
    where "exec_event (Main_Step c) s = Some t" "advances s t" by auto
  then show ?thesis by (metis is_call.simps(1))
next
  case False
  then obtain i where "i < length (threadPool s)" "worker_rank (threadPool s ! i) \<noteq> 0"
    by (metis in_set_conv_nth)
  from worker_advances [OF assms(2) this] obtain t
    where "exec_event (Worker_Step i None) s = Some t" "advances s t" by auto
  then show ?thesis by (metis is_call.simps(2))
qed

lemma wait_completes:
  assumes "reachable n s" "in_wait s"
  shows "\<exists>es t. (\<forall>e\<in>set es. \<not> is_call e) \<and> exec_events es s = Some t \<and> main_pc t = M_Idle"
  using assms
proof (induction "wait_rank s" arbitrary: s rule: less_induct)
  case less
  from helping_step [OF reachable_job_inv [OF less.prems(1)] less.prems(2)] obtain e t
    where e: "\<not> is_call e" "exec_event e s = Some t" and adv: "advances s t" by blast
  show ?case
  proof (cases "main_pc t = M_Idle")
    case True
    then have "exec_events [e] s = Some t" "main_pc t = M_Idle" using e by simp_all
    with e(1) show ?thesis by (intro exI [of _ "[e]"] exI [of _ t]) simp
  next
    case False
    with adv less.hyps [of t] reachable_step [OF less.prems(1) e(2)] obtain es u
      where "\<forall>e\<in>set es. \<not> is_call e" "exec_events es t = Some u" "main_pc u = M_Idle"
      by (auto simp: advances_def)
    with e show ?thesis by (intro exI [of _ "e # es"] exI [of _ u]) simp
  qed
qed

text \<open>Hence every batch of jobs has a complete run, with any number of workers, none included.\<close>

lemma batch_exists:
  assumes "reachable n s" "main_pc s = M_Idle"
  shows "\<exists>es t. is_batch js es s t"
proof -
  have adds: "\<exists>es t. filter is_call es = map Call_Add js \<and> exec_events es s = Some t \<and> main_pc t = M_Idle"
    if "main_pc s = M_Idle" for s :: "'a jobsys"
    using that
  proof (induction js arbitrary: s)
    case Nil
    then show ?case by (intro exI [of _ "[]"]) simp
  next
    case (Cons j js)
    let ?u = "s\<lparr>pendingJobs := pendingJobs s + 1, main_pc := M_Enqueue j, submitted := submitted s @ [j]\<rparr>"
    let ?v = "?u\<lparr>workerJobQueue := enqueue j (workerJobQueue s), main_pc := M_Idle\<rparr>"
    obtain es t where es: "filter is_call es = map Call_Add js" "exec_events es ?v = Some t" "main_pc t = M_Idle"
      using Cons.IH [of ?v] by auto
    have "exec_events (Call_Add j # Main_Step None # es) s = Some t"
      using Cons.prems es(2) by (simp add: addJob_def main_step_def)
    with es show ?case by (intro exI [of _ "Call_Add j # Main_Step None # es"] exI [of _ t]) simp
  qed
  obtain es u where es: "filter is_call es = map Call_Add js" "exec_events es s = Some u" "main_pc u = M_Idle"
    using adds [OF assms(2)] by blast
  let ?w = "u\<lparr>main_pc := M_Wait\<rparr>"
  have w: "exec_event Call_Wait u = Some ?w" using es(3) by (simp add: waitForAllJobsFinished_def)
  have "reachable n ?w"
    using reachable_step [OF reachable_exec_events [OF assms(1) es(2)] w] .
  from wait_completes [OF this] obtain fs t where fs: "\<forall>e\<in>set fs. \<not> is_call e"
    "exec_events fs ?w = Some t" "main_pc t = M_Idle"
    by (auto simp: in_wait_def)
  have "is_batch js (es @ Call_Wait # fs) s t"
    using es fs w assms(2)
    by (simp add: is_batch_def batch_calls_def exec_events_append filter_empty_conv)
  then show ?thesis by blast
qed


section \<open>A shutdown can always be completed\<close>

fun exit_rank :: "'j worker_pc \<Rightarrow> nat" where
  "exit_rank (W_Run j) = 4"
| "exit_rank W_Dec = 3"
| "exit_rank W_Dequeue = 3"
| "exit_rank W_Test = 2"
| "exit_rank W_Exit = 0"

definition join_rank :: "'j jobsys \<Rightarrow> nat" where
  "join_rank s = (\<Sum>pc\<leftarrow>threadPool s. exit_rank pc)
     + (case main_pc s of M_Join k \<Rightarrow> Suc (length (threadPool s)) - k | _ \<Rightarrow> 0)"

definition joining :: "'j jobsys \<Rightarrow> bool" where
  "joining s \<longleftrightarrow> (\<exists>k. main_pc s = M_Join k)"

lemma worker_exits:
  assumes "joining s" "quit s" "i < length (threadPool s)" "threadPool s ! i \<noteq> W_Exit"
  shows "\<exists>t. workerThreadFunc i None s = Some t \<and> joining t \<and> join_rank t < join_rank s"
proof -
  have lower: "(\<Sum>p\<leftarrow>(threadPool s)[i := pc]. exit_rank p) < (\<Sum>p\<leftarrow>threadPool s. exit_rank p)"
    if "exit_rank pc < exit_rank (threadPool s ! i)" for pc
    using sum_list_update [OF assms(3), of exit_rank pc] that by simp
  show ?thesis
    using assms lower [of W_Exit] lower [of W_Test] lower [of W_Dec]
    by (cases "threadPool s ! i") (auto simp: workerThreadFunc_def joining_def join_rank_def)
qed

lemma join_step:
  assumes inv: "job_inv s" and j: "joining s"
  shows "\<exists>e t. exec_event e s = Some t \<and> (main_pc t = M_Down \<or> joining t \<and> join_rank t < join_rank s)"
proof (cases "\<forall>i<length (threadPool s). threadPool s ! i = W_Exit")
  case True
  from j obtain k where k: "main_pc s = M_Join k" by (auto simp: joining_def)
  have "k \<le> length (threadPool s)" using inv k by (simp add: job_inv_def)
  with True k have "\<exists>t. main_step None s = Some t \<and> (main_pc t = M_Down \<or> joining t \<and> join_rank t < join_rank s)"
    by (auto simp: main_step_def joining_def join_rank_def)
  then show ?thesis by (metis exec_event.simps(4))
next
  case False
  then obtain i where i: "i < length (threadPool s)" "threadPool s ! i \<noteq> W_Exit" by blast
  have "quit s" using inv j by (auto simp: job_inv_def joining_def)
  from worker_exits [OF j this i] show ?thesis by (metis exec_event.simps(5))
qed

lemma join_completes:
  assumes "reachable n s" "joining s"
  shows "\<exists>es t. exec_events es s = Some t \<and> main_pc t = M_Down"
  using assms
proof (induction "join_rank s" arbitrary: s rule: less_induct)
  case less
  from join_step [OF reachable_job_inv [OF less.prems(1)] less.prems(2)] obtain e t
    where e: "exec_event e s = Some t"
      and c: "main_pc t = M_Down \<or> joining t \<and> join_rank t < join_rank s" by blast
  from c show ?case
  proof
    assume "main_pc t = M_Down"
    then show ?thesis using e by (intro exI [of _ "[e]"] exI [of _ t]) simp
  next
    assume "joining t \<and> join_rank t < join_rank s"
    with less.hyps [of t] reachable_step [OF less.prems(1) e] obtain es u
      where "exec_events es t = Some u" "main_pc u = M_Down" by auto
    with e show ?thesis by (intro exI [of _ "e # es"] exI [of _ u]) simp
  qed
qed

lemma shutdown_joins_all:
  "reachable n s \<Longrightarrow> main_pc s = M_Down \<Longrightarrow> \<forall>pc\<in>set (threadPool s). pc = W_Exit"
  using reachable_job_inv [of n s] by (auto simp: job_inv_def in_set_conv_nth)

end
