(* ===== verification/Command_Batch.thy ===== *)
theory Command_Batch
  imports Call_Executable Worker_System Repo_Files Report
begin

text \<open>
  What the commands share: one call of git in a repository, a batch of such jobs run by the job
  system, and arrays of objects built from the results. A batch is observed through the results
  a command drains from its queue after \<^verbatim>\<open>waitForAllJobsFinished\<close>: the interface
  \<open>batch_schedule\<close> asks only that every job gives exactly one result, in any order. The job system
  provides it (\<open>batch_results_mset\<close> of \<open>Worker_System\<close>), and so does draining a queue. A
  fault in a job ends the whole program.
\<close>

section \<open>One call of git\<close>

text \<open>The answers of the operating system to a working directory and an argument vector.\<close>

type_synonym spawner = "string \<Rightarrow> string list \<Rightarrow> os_trace"

definition git_params :: "string \<Rightarrow> string list \<Rightarrow> call_params" where
  "git_params dir args =
     call_params_init\<lparr>workingDir := c_str dir, process := ''git'', arguments := args\<rparr>"

text \<open>Run git and trim its output; the value \<^verbatim>\<open>callExecutable\<close> returns is ignored.\<close>

definition git_output :: "spawner \<Rightarrow> string \<Rightarrow> string list \<Rightarrow> string result" where
  "git_output spawn dir args =
     and_then (callExecutable spawn (git_params dir args)) (\<lambda>(params, ok).
       removeNewlines (call_output params))"

text \<open>A call whose reads end with end of file, with output of ordinary size, or that fails to start.\<close>

definition git_ok :: "spawner \<Rightarrow> string \<Rightarrow> string list \<Rightarrow> bool" where
  "git_ok spawn dir args \<longleftrightarrow>
     (let os = spawn (c_str dir) (''git'' # map c_str args) in
      (case reproc_start os uninitialised of
         Inl _ \<Rightarrow> False
       | Inr (e, q) \<Rightarrow> e = REPROC_SUCCESS \<longrightarrow>
           fst (read_loop (stdout_reads os) []) = REPROC_STREAM_CLOSED
           \<and> fits (stream_bytes (stdout_reads os))))"

definition git_text :: "spawner \<Rightarrow> string \<Rightarrow> string list \<Rightarrow> string" where
  "git_text spawn dir args =
     (let os = spawn (c_str dir) (''git'' # map c_str args) in
      if starts os then trim (c_str (stream_bytes (stdout_reads os))) else [])"

lemma spawned_git:
  "spawned spawn (git_params dir args) = spawn (c_str dir) (''git'' # map c_str args)"
  by (simp add: spawned_eq git_params_def)

lemma fits_c_str: "fits s \<Longrightarrow> fits (c_str s)"
  using length_takeWhile_le [of "\<lambda>c. c \<noteq> NUL" s] by (simp add: fits_def c_str_def)

lemma git_output_ok:
  assumes "git_ok spawn dir args"
  shows "git_output spawn dir args = Inr (git_text spawn dir args)"
proof -
  let ?p = "git_params dir args" and ?os = "spawn (c_str dir) (''git'' # map c_str args)"
  obtain e q where st: "reproc_start ?os uninitialised = Inr (e, q)"
    and rd: "e = REPROC_SUCCESS \<Longrightarrow> fst (read_loop (stdout_reads ?os) []) = REPROC_STREAM_CLOSED"
      "e = REPROC_SUCCESS \<Longrightarrow> fits (stream_bytes (stdout_reads ?os))"
    using assms by (auto simp: git_ok_def Let_def split: sum.splits)
  show ?thesis
  proof (cases "e = REPROC_SUCCESS")
    case True
    then have "starts ?os" using st by (auto simp: starts_def)
    from call_ok [OF spawned_git [of spawn dir args, symmetric] this rd(1) [OF True]] \<open>starts ?os\<close> rd(2) [OF True]
    show ?thesis
      by (simp add: git_output_def git_text_def removeNewlines_trim fits_c_str)
  next
    case False
    then have "\<not> starts ?os" using st by (auto simp: starts_def)
    with call_not_started [OF spawned_git [of spawn dir args, symmetric] st False] show ?thesis
      by (simp add: git_output_def git_text_def git_params_def call_params_init_def removeNewlines_trim
          fits_def) (simp add: trim_def)
  qed
qed

lemma git_output_read_error:
  assumes "starts (spawn (c_str dir) (''git'' # map c_str args))"
    "fst (read_loop (stdout_reads (spawn (c_str dir) (''git'' # map c_str args))) []) \<noteq> REPROC_STREAM_CLOSED"
  shows "git_output spawn dir args = Inl Use_After_Free"
  using call_read_error [OF spawned_git [of spawn dir args, symmetric] assms] by (simp add: git_output_def)

lemma nul_free_git_text: "nul_free (git_text spawn dir args)"
  by (simp add: git_text_def Let_def nul_free_trim)

section \<open>A batch of jobs\<close>

locale batch_schedule =
  fixes sched :: "('j \<Rightarrow> 'r) \<Rightarrow> 'j list \<Rightarrow> 'r list"
  assumes complete: "mset (sched run js) = mset (map run js)"
begin

lemma set_sched: "set (sched run js) = run ` set js"
  using complete [of run js] by (metis list.set_map set_mset_mset)

lemma length_sched: "length (sched run js) = length js"
  using complete [of run js] by (metis length_map size_mset)

lemma count_sched: "size (filter_mset P (mset (sched run js))) = length (filter (P \<circ> run) js)"
  by (simp add: complete mset_filter [symmetric] filter_map del: mset_map mset_filter)

end

interpretation drained: batch_schedule "\<lambda>run js. drain choice (map run js)" for choice
  by unfold_locales (simp add: mset_drain del: mset_map)

text \<open>Every run of a batch on the job system is such a schedule for its own jobs.\<close>

definition fair_batch :: "(('j \<Rightarrow> 'r) \<Rightarrow> 'j list \<Rightarrow> 'r list) \<Rightarrow> ('j \<Rightarrow> 'r) \<Rightarrow> 'j list \<Rightarrow> bool" where
  "fair_batch sched run js \<longleftrightarrow> mset (sched run js) = mset (map run js)"

lemma fair_drain: "fair_batch (\<lambda>run js. drain choice (map run js)) run js"
  unfolding fair_batch_def by (rule drained.complete)

lemma fair_job_system:
  assumes "reachable n s" "open_jobs s = 0" "is_batch js es s t" "length (submitted s) + length js < 2 ^ 32"
  shows "fair_batch (\<lambda>run js. batch_results choice run s t) run js"
  unfolding fair_batch_def by (rule batch_results_mset [OF assms])

definition run_batch ::
    "(('j \<Rightarrow> 'r result) \<Rightarrow> 'j list \<Rightarrow> 'r result list) \<Rightarrow> ('j \<Rightarrow> 'r result) \<Rightarrow> 'j list \<Rightarrow> 'r list result" where
  "run_batch sched job js = map_result id (sched job js)"

lemma run_batch_ok:
  assumes fair: "fair_batch sched job js" and ok: "\<And>j. j \<in> set js \<Longrightarrow> job j = Inr (g j)"
  shows "\<exists>rs. run_batch sched job js = Inr rs \<and> mset rs = mset (map g js)"
proof -
  let ?get = "\<lambda>r. case r of Inr x \<Rightarrow> x | Inl _ \<Rightarrow> undefined"
  have m: "mset (sched job js) = mset (map (Inr \<circ> g) js)"
    using fair ok unfolding fair_batch_def by (metis comp_apply map_cong)
  then have "set (sched job js) = (Inr \<circ> g) ` set js"
    by (metis list.set_map set_mset_mset)
  then have "map_result id (sched job js) = Inr (map ?get (sched job js))"
    by (intro map_result_all_ok) auto
  moreover have "mset (map ?get (sched job js)) = mset (map g js)"
    by (simp add: m image_mset.compositionality comp_def)
  ultimately show ?thesis by (auto simp: run_batch_def)
qed

lemma run_batch_fault:
  assumes fair: "fair_batch sched job js" and j: "j \<in> set js" "job j = Inl f"
  shows "\<exists>f. run_batch sched job js = Inl f"
proof -
  have "set (sched job js) = job ` set js"
    using fair by (metis fair_batch_def list.set_map set_mset_mset)
  then have "Inl f \<in> set (sched job js)" using j by force
   moreover have "\<exists>f. map_result id rs = Inl f" if "Inl f \<in> set rs" for rs :: "'b result list"
    using that
  proof (induction rs)
    case (Cons r rs)
    then show ?case by (cases r) auto
  qed simp
  ultimately show ?thesis using \<open>Inl f \<in> set (sched job js)\<close> by (auto simp: run_batch_def)
qed

section \<open>Arguments and documents\<close>

text \<open>\<^verbatim>\<open>options.getArgv(options.getArgc()-k)\<close>\<close>

definition arg_from_end :: "nat \<Rightarrow> any_option \<Rightarrow> string option result" where
  "arg_from_end k opt = getArgv (int (getArgc opt) - int k) opt"

text \<open>An object with two string members, set in the order the code sets them.\<close>

definition string_pair :: "string \<Rightarrow> string \<Rightarrow> string \<times> string \<Rightarrow> json result" where
  "string_pair k1 k2 p =
     set_all [(k1, JString (c_str (fst p))), (k2, JString (c_str (snd p)))] JNull"

definition pair_array :: "string \<Rightarrow> string \<Rightarrow> (string \<times> string) list \<Rightarrow> json result" where
  "pair_array k1 k2 ps = and_then (map_result (string_pair k1 k2) ps) (\<lambda>vs. push_all vs (JArray []))"

definition pair_json :: "string \<Rightarrow> string \<Rightarrow> string \<times> string \<Rightarrow> json" where
  "pair_json k1 k2 p =
     JObject (obj_insert k2 (JString (c_str (snd p))) [(k1, JString (c_str (fst p)))])"

lemma pair_array_eq: "pair_array k1 k2 ps = Inr (JArray (map (pair_json k1 k2) ps))"
proof -
  have "map_result (string_pair k1 k2) ps = Inr (map (pair_json k1 k2) ps)"
    by (rule map_result_all_ok) (simp add: string_pair_def pair_json_def)
  then show ?thesis by (simp add: pair_array_def)
qed

lemma pair_json_plain:
  assumes "k1 \<noteq> k2" "valid_utf8 k1" "valid_utf8 k2" "valid_utf8 (c_str (fst p))" "valid_utf8 (c_str (snd p))"
  shows "json_plain (pair_json k1 k2 p)"
proof -
  have "obj_sorted (obj_insert k2 (JString (c_str (snd p))) [(k1, JString (c_str (fst p)))])"
    by (rule obj_sorted_insert) (simp add: obj_sorted_def)
  then show ?thesis using assms by (auto simp: pair_json_def)
qed

lemma values_plain_iff: "values_plain vs \<longleftrightarrow> list_all json_plain vs"
  by (induction vs) auto

lemma pair_json_at:
  "k1 \<noteq> k2 \<Longrightarrow> json_at k1 (pair_json k1 k2 p) = Inr (JString (c_str (fst p)), pair_json k1 k2 p)"
  "k1 \<noteq> k2 \<Longrightarrow> json_at k2 (pair_json k1 k2 p) = Inr (JString (c_str (snd p)), pair_json k1 k2 p)"
  by (simp_all add: pair_json_def json_at_def)

end
