(* ===== verification/Command_Pull_Check.thy ===== *)
theory Command_Pull_Check
  imports Command_Batch C_Scan
begin

text \<open>
  \<^verbatim>\<open>pull\<close> and \<^verbatim>\<open>checkForUpdates\<close>
  (\<^verbatim>\<open>src/commands/pullrepositories.cpp\<close>,
  \<^verbatim>\<open>checkforupdatesonserver.cpp\<close>): every repository ends in exactly one list of the
  report. The two counts of \<^verbatim>\<open>git rev-list\<close> are read with
  \<^verbatim>\<open>sscanf("%d %d")\<close>, modelled as glibc does it.
\<close>

section \<open>Pull\<close>

definition pullSingleRepo :: "spawner \<Rightarrow> string \<Rightarrow> (string \<times> string) result" where
  "pullSingleRepo spawn repositoryToPull =
     and_then (git_output spawn repositoryToPull [''pull'']) (\<lambda>res. Inr (repositoryToPull, res))"

text \<open>One round of the loop over the results; the two arrays are filled as they come.\<close>

definition pull_step :: "string \<times> string \<Rightarrow> json \<times> json \<Rightarrow> (json \<times> json) result" where
  "pull_step r arrays =
     (case arrays of (pulledRepos, alreadyUpToDateRepos) \<Rightarrow>
        if compare (snd r) ''Already up to date.'' = 0 then
          and_then (json_push_back (JString (c_str (fst r))) alreadyUpToDateRepos) (\<lambda>a. Inr (pulledRepos, a))
        else
          and_then (string_pair ''repository'' ''output'' r) (\<lambda>pullDescr.
          and_then (json_push_back pullDescr pulledRepos) (\<lambda>p. Inr (p, alreadyUpToDateRepos))))"

fun pull_collect :: "(string \<times> string) list \<Rightarrow> json \<times> json \<Rightarrow> (json \<times> json) result" where
  "pull_collect [] arrays = Inr arrays"
| "pull_collect (r # rs) arrays = and_then (pull_step r arrays) (pull_collect rs)"

definition pullRepositories ::
    "((string \<Rightarrow> (string \<times> string) result) \<Rightarrow> string list \<Rightarrow> (string \<times> string) result list)
     \<Rightarrow> spawner \<Rightarrow> 't engine \<Rightarrow> any_option \<Rightarrow> string list \<Rightarrow> unit io" where
  "pullRepositories sched spawn eng opt repos =
     io_bind (prepareOutputReport eng opt ''pullrepositories'') (\<lambda>templ.
     io_bind (io_lift (run_batch sched (pullSingleRepo spawn) repos)) (\<lambda>results.
     io_bind (io_lift (pull_collect results (JArray [], JArray []))) (\<lambda>(pulledRepos, alreadyUpToDateRepos).
     io_bind (io_lift (set_all [(''pulledRepos'', pulledRepos),
                                (''alreadyUpToDateRepos'', alreadyUpToDateRepos)] JNull)) (\<lambda>reportData.
       generateAndOutputReport eng opt templ reportData))))"

definition up_to_date :: "string \<times> string \<Rightarrow> bool" where
  "up_to_date r \<longleftrightarrow> snd r = ''Already up to date.''"

lemma pull_collect_ok:
  "pull_collect rs (JArray ps, JArray as) =
     Inr (JArray (ps @ map (pair_json ''repository'' ''output'') (filter (\<lambda>r. \<not> up_to_date r) rs)),
          JArray (as @ map (\<lambda>r. JString (c_str (fst r))) (filter up_to_date rs)))"
proof (induction rs arbitrary: ps as)
  case (Cons r rs)
  have "string_pair ''repository'' ''output'' r = Inr (pair_json ''repository'' ''output'' r)"
    by (simp add: string_pair_def pair_json_def)
  with Cons show ?case
    by (simp add: pull_step_def up_to_date_def json_push_back_def)
qed simp

definition pull_result :: "spawner \<Rightarrow> string \<Rightarrow> string \<times> string" where
  "pull_result spawn r = (r, git_text spawn r [''pull''])"

lemma pull_batch:
  assumes "fair_batch sched (pullSingleRepo spawn) repos" "\<forall>r\<in>set repos. git_ok spawn r [''pull'']"
  shows "\<exists>results. run_batch sched (pullSingleRepo spawn) repos = Inr results
    \<and> mset results = mset (map (pull_result spawn) repos)"
proof -
  have "pullSingleRepo spawn r = Inr (pull_result spawn r)" if "r \<in> set repos" for r
    using that assms(2) by (simp add: pullSingleRepo_def git_output_ok pull_result_def)
  from run_batch_ok [OF assms(1) this] show ?thesis by blast
qed

definition pull_report :: "(string \<times> string) list \<Rightarrow> json" where
  "pull_report results = JObject
     [(''alreadyUpToDateRepos'', JArray (map (\<lambda>r. JString (c_str (fst r))) (filter up_to_date results))),
      (''pulledRepos'', JArray (map (pair_json ''repository'' ''output'') (filter (\<lambda>r. \<not> up_to_date r) results)))]"

lemma pullRepositories_results:
  assumes "run_batch sched (pullSingleRepo spawn) repos = Inr results"
  shows "pullRepositories sched spawn eng opt repos =
    io_bind (prepareOutputReport eng opt ''pullrepositories'') (\<lambda>templ.
      generateAndOutputReport eng opt templ (pull_report results))"
  using assms by (simp add: pullRepositories_def pull_collect_ok pull_report_def)

lemma pull_report_ok:
  assumes "fair_batch sched (pullSingleRepo spawn) repos" "\<forall>r\<in>set repos. git_ok spawn r [''pull'']"
  shows "\<exists>results. mset results = mset (map (pull_result spawn) repos)
    \<and> pullRepositories sched spawn eng opt repos =
        io_bind (prepareOutputReport eng opt ''pullrepositories'') (\<lambda>templ.
          generateAndOutputReport eng opt templ (pull_report results))"
  using pull_batch [OF assms] pullRepositories_results by metis

section \<open>Reading two integers\<close>

text \<open>\<^verbatim>\<open>sscanf(s, "%d %d", &remote, &local)\<close>: the count and the two variables.\<close>

definition sscanf_d_d :: "string \<Rightarrow> 32 word \<Rightarrow> 32 word \<Rightarrow> int \<times> 32 word \<times> 32 word" where
  "sscanf_d_d s remote local =
     (case scan_d s of
        None \<Rightarrow> (if dropWhile is_c_space s = [] then - 1 else 0, remote, local)
      | Some (r, s) \<Rightarrow>
          (case scan_d (dropWhile is_c_space s) of
             None \<Rightarrow> (1, r, local)
           | Some (l, s) \<Rightarrow> (2, r, l)))"

section \<open>Checking for updates\<close>

definition checkSingleRepo :: "spawner \<Rightarrow> string \<Rightarrow> string result" where
  "checkSingleRepo spawn repositoryToCheck =
     and_then (git_output spawn repositoryToCheck
                 [''rev-list'', ''--count'', ''--left-right'', CHR ''@'' # ''{upstream}...HEAD'']) (\<lambda>out.
       case sscanf_d_d (c_str out) (- 1) (- 1) of (numberArgsFound, remote, local) \<Rightarrow>
         Inr ((if numberArgsFound = 2 then
                 (if remote = 0 \<and> local = 0 then CHR ''u''
                  else if remote \<noteq> 0 \<and> local = 0 then CHR ''n''
                  else if remote = 0 \<and> local \<noteq> 0 then CHR ''a''
                  else CHR ''d'')
               else CHR ''f'') # repositoryToCheck))"

record status_arrays =
  reposUpToDate :: json
  reposNeedUpdate :: json
  reposAhead :: json
  reposDiverged :: json
  reposFailed :: json

definition status_init :: status_arrays where
  "status_init = \<lparr>reposUpToDate = JArray [], reposNeedUpdate = JArray [], reposAhead = JArray [],
     reposDiverged = JArray [], reposFailed = JArray []\<rparr>"

definition check_step :: "string \<Rightarrow> status_arrays \<Rightarrow> status_arrays result" where
  "check_step r a =
     (let push = (\<lambda>j. and_then (substr r 1 npos) (\<lambda>name. json_push_back (JString (c_str name)) j)) in
      and_then (char_at r 0) (\<lambda>m.
        if m = CHR ''u'' then and_then (push (reposUpToDate a)) (\<lambda>j. Inr (a\<lparr>reposUpToDate := j\<rparr>))
        else if m = CHR ''n'' then and_then (push (reposNeedUpdate a)) (\<lambda>j. Inr (a\<lparr>reposNeedUpdate := j\<rparr>))
        else if m = CHR ''a'' then and_then (push (reposAhead a)) (\<lambda>j. Inr (a\<lparr>reposAhead := j\<rparr>))
        else if m = CHR ''d'' then and_then (push (reposDiverged a)) (\<lambda>j. Inr (a\<lparr>reposDiverged := j\<rparr>))
        else if m = CHR ''f'' then and_then (push (reposFailed a)) (\<lambda>j. Inr (a\<lparr>reposFailed := j\<rparr>))
        else Inr a))"

fun check_collect :: "string list \<Rightarrow> status_arrays \<Rightarrow> status_arrays result" where
  "check_collect [] a = Inr a"
| "check_collect (r # rs) a = and_then (check_step r a) (check_collect rs)"

definition checkForUpdatesOnServer ::
    "((string \<Rightarrow> string result) \<Rightarrow> string list \<Rightarrow> string result list)
     \<Rightarrow> spawner \<Rightarrow> 't engine \<Rightarrow> any_option \<Rightarrow> string list \<Rightarrow> unit io" where
  "checkForUpdatesOnServer sched spawn eng opt repos =
     io_bind (prepareOutputReport eng opt ''checkforupdatesonserver'') (\<lambda>templ.
     io_bind (io_lift (run_batch sched (checkSingleRepo spawn) repos)) (\<lambda>results.
     io_bind (io_lift (check_collect results status_init)) (\<lambda>a.
     io_bind (io_lift (set_all [(''reposUpToDate'', reposUpToDate a), (''reposNeedUpdate'', reposNeedUpdate a),
                (''reposAhead'', reposAhead a), (''reposDiverged'', reposDiverged a),
                (''reposFailed'', reposFailed a)] JNull)) (\<lambda>reportData.
       generateAndOutputReport eng opt templ reportData))))"

section \<open>Lemmas\<close>

definition status_of :: "spawner \<Rightarrow> string \<Rightarrow> char" where
  "status_of spawn r =
     (let out = git_text spawn r [''rev-list'', ''--count'', ''--left-right'', CHR ''@'' # ''{upstream}...HEAD'']
      in case sscanf_d_d out (- 1) (- 1) of (n, remote, local) \<Rightarrow>
           if n = 2 then
             (if remote = 0 \<and> local = 0 then CHR ''u'' else if remote \<noteq> 0 \<and> local = 0 then CHR ''n''
              else if remote = 0 \<and> local \<noteq> 0 then CHR ''a'' else CHR ''d'')
           else CHR ''f'')"

lemma checkSingleRepo_ok:
  "git_ok spawn r [''rev-list'', ''--count'', ''--left-right'', CHR ''@'' # ''{upstream}...HEAD''] \<Longrightarrow>
   checkSingleRepo spawn r = Inr (status_of spawn r # r)"
  by (simp add: checkSingleRepo_def git_output_ok status_of_def nul_free_git_text Let_def split: prod.split)

lemma status_mem: "status_of spawn r \<in> set ''unadf''"
  by (cases "sscanf_d_d (git_text spawn r [''rev-list'', ''--count'', ''--left-right'', CHR ''@'' # ''{upstream}...HEAD'']) (- 1) (- 1)")
    (simp add: status_of_def Let_def)

definition named :: "char \<Rightarrow> string list \<Rightarrow> json" where
  "named m rs = JArray (map (\<lambda>r. JString (c_str (tl r))) (filter (\<lambda>r. r \<noteq> [] \<and> hd r = m) rs))"

lemma check_step_ok:
  assumes "fits (m # r)" "m \<in> set ''unadf''"
    "a = \<lparr>reposUpToDate = JArray u, reposNeedUpdate = JArray n, reposAhead = JArray h,
          reposDiverged = JArray d, reposFailed = JArray f\<rparr>"
  shows "check_step (m # r) a = Inr
    \<lparr>reposUpToDate = JArray (u @ (if m = CHR ''u'' then [JString (c_str r)] else [])),
     reposNeedUpdate = JArray (n @ (if m = CHR ''n'' then [JString (c_str r)] else [])),
     reposAhead = JArray (h @ (if m = CHR ''a'' then [JString (c_str r)] else [])),
     reposDiverged = JArray (d @ (if m = CHR ''d'' then [JString (c_str r)] else [])),
     reposFailed = JArray (f @ (if m = CHR ''f'' then [JString (c_str r)] else []))\<rparr>"
proof -
  have sz: "unat (str_size (m # r)) = Suc (length r)" using assms(1) by simp
  then have c: "char_at (m # r) 0 = Inr m"
    by (simp add: char_at_def word_less_nat_alt)
  have "substr (m # r) (word_of_nat 1) npos = Inr (take (unat npos) (drop 1 (m # r)))"
    using substr_ok [OF assms(1), of 1 npos] by simp
  moreover have "take (unat npos) r = r"
    using assms(1) by (simp add: unat_npos fits_def)
  ultimately have "substr (m # r) 1 npos = Inr r" by simp
  with c assms(2,3) show ?thesis
    by (auto simp: check_step_def json_push_back_def)
qed

lemma check_collect_ok:
  "\<forall>r\<in>set rs. fits r \<and> r \<noteq> [] \<and> hd r \<in> set ''unadf'' \<Longrightarrow>
   check_collect rs \<lparr>reposUpToDate = JArray u, reposNeedUpdate = JArray n, reposAhead = JArray h,
          reposDiverged = JArray d, reposFailed = JArray f\<rparr> = Inr
    \<lparr>reposUpToDate = JArray (u @ json_elements (named CHR ''u'' rs)),
     reposNeedUpdate = JArray (n @ json_elements (named CHR ''n'' rs)),
     reposAhead = JArray (h @ json_elements (named CHR ''a'' rs)),
     reposDiverged = JArray (d @ json_elements (named CHR ''d'' rs)),
     reposFailed = JArray (f @ json_elements (named CHR ''f'' rs))\<rparr>"
proof (induction rs arbitrary: u n h d f)
  case Nil
  then show ?case by (simp add: named_def json_elements_def)
next
  case (Cons r rs)
  then obtain m s where r: "r = m # s" by (cases r) auto
  have "check_step r \<lparr>reposUpToDate = JArray u, reposNeedUpdate = JArray n, reposAhead = JArray h,
          reposDiverged = JArray d, reposFailed = JArray f\<rparr> = Inr
    \<lparr>reposUpToDate = JArray (u @ (if m = CHR ''u'' then [JString (c_str s)] else [])),
     reposNeedUpdate = JArray (n @ (if m = CHR ''n'' then [JString (c_str s)] else [])),
     reposAhead = JArray (h @ (if m = CHR ''a'' then [JString (c_str s)] else [])),
     reposDiverged = JArray (d @ (if m = CHR ''d'' then [JString (c_str s)] else [])),
     reposFailed = JArray (f @ (if m = CHR ''f'' then [JString (c_str s)] else []))\<rparr>"
    unfolding r by (rule check_step_ok) (use Cons.prems r in auto)
  with Cons show ?case
    by (simp add: r named_def json_elements_def)
qed

definition status_report :: "string list \<Rightarrow> json" where
  "status_report rs = JObject
     [(''reposAhead'', named CHR ''a'' rs), (''reposDiverged'', named CHR ''d'' rs),
      (''reposFailed'', named CHR ''f'' rs), (''reposNeedUpdate'', named CHR ''n'' rs),
      (''reposUpToDate'', named CHR ''u'' rs)]"

lemma check_batch:
  assumes "fair_batch sched (checkSingleRepo spawn) repos"
    and "\<forall>r\<in>set repos. git_ok spawn r [''rev-list'', ''--count'', ''--left-right'', CHR ''@'' # ''{upstream}...HEAD'']"
  shows "\<exists>results. run_batch sched (checkSingleRepo spawn) repos = Inr results
    \<and> mset results = mset (map (\<lambda>r. status_of spawn r # r) repos)"
proof -
  have "checkSingleRepo spawn r = Inr (status_of spawn r # r)" if "r \<in> set repos" for r
    using that assms(2) by (simp add: checkSingleRepo_ok)
  from run_batch_ok [OF assms(1) this] show ?thesis by blast
qed

lemma checkForUpdates_results:
  assumes "run_batch sched (checkSingleRepo spawn) repos = Inr results"
    and "mset results = mset (map (\<lambda>r. status_of spawn r # r) repos)" "\<forall>r\<in>set repos. length r < 2 ^ 62"
  shows "checkForUpdatesOnServer sched spawn eng opt repos =
    io_bind (prepareOutputReport eng opt ''checkforupdatesonserver'') (\<lambda>templ.
      generateAndOutputReport eng opt templ (status_report results))"
proof -
  have "set results = (\<lambda>r. status_of spawn r # r) ` set repos"
    using assms(2) by (metis list.set_map set_mset_mset)
  moreover note status_mem [of spawn]
  ultimately have "\<forall>r\<in>set results. fits r \<and> r \<noteq> [] \<and> hd r \<in> set ''unadf''"
    using assms(3) by (fastforce simp: fits_def)
  from check_collect_ok [OF this, of "[]" "[]" "[]" "[]" "[]"] assms(1) show ?thesis
    by (simp add: checkForUpdatesOnServer_def status_init_def status_report_def named_def json_elements_def)
qed

lemma check_report_ok:
  assumes "fair_batch sched (checkSingleRepo spawn) repos"
    and "\<forall>r\<in>set repos. length r < 2 ^ 62 \<and>
      git_ok spawn r [''rev-list'', ''--count'', ''--left-right'', CHR ''@'' # ''{upstream}...HEAD'']"
  shows "\<exists>results. mset results = mset (map (\<lambda>r. status_of spawn r # r) repos)
    \<and> checkForUpdatesOnServer sched spawn eng opt repos =
        io_bind (prepareOutputReport eng opt ''checkforupdatesonserver'') (\<lambda>templ.
          generateAndOutputReport eng opt templ (status_report results))"
proof -
  obtain rs where rs: "run_batch sched (checkSingleRepo spawn) repos = Inr rs"
    "mset rs = mset (map (\<lambda>r. status_of spawn r # r) repos)"
    using check_batch [OF assms(1)] assms(2) by blast
  then show ?thesis
    using checkForUpdates_results [OF rs, of eng opt] assms(2) by (intro exI [of _ rs]) simp
qed

text \<open>The counts git prints: two decimal numbers with a tab between them.\<close>

lemma sscanf_counts:
  assumes "m < 2 ^ 31" "n < 2 ^ 31"
  shows "sscanf_d_d (show_nat m @ [CHR 0x09] @ show_nat n) r l = (2, word_of_nat m, word_of_nat n)"
proof -
  have "scan_d (show_nat m @ [CHR 0x09] @ show_nat n) = Some (word_of_nat m, [CHR 0x09] @ show_nat n)"
    using assms by (intro scan_d_nat) (auto simp: is_digit_def)
  moreover have "dropWhile is_c_space ([CHR 0x09] @ show_nat n) = show_nat n"
  proof -
    obtain c cs where "show_nat n = c # cs" "is_digit c"
      using show_nat_digits [of n] show_nat_nonempty [of n] by (cases "show_nat n") auto
    moreover have "is_c_space (CHR 0x09)" by (simp add: is_c_space_def)
    ultimately show ?thesis using digit_not_space [of c] by simp
  qed
  moreover have "scan_d (show_nat n) = Some (word_of_nat n, [])"
    using scan_d_nat [of n "[]"] assms by simp
  ultimately show ?thesis by (simp add: sscanf_d_d_def)
qed

lemma status_of_counts:
  assumes "git_text spawn r [''rev-list'', ''--count'', ''--left-right'', CHR ''@'' # ''{upstream}...HEAD'']
      = show_nat m @ [CHR 0x09] @ show_nat n"
    and "m < 2 ^ 31" "n < 2 ^ 31"
  shows "status_of spawn r =
    (if m = 0 then if n = 0 then CHR ''u'' else CHR ''a''
     else if n = 0 then CHR ''n'' else CHR ''d'')"
proof -
  have z: "(word_of_nat k :: 32 word) = 0 \<longleftrightarrow> k = 0" if "k < 2 ^ 31" for k
    using that by (auto simp: word_of_nat_eq_0_iff dest: nat_dvd_not_less)
  have "sscanf_d_d (git_text spawn r [''rev-list'', ''--count'', ''--left-right'', CHR ''@'' # ''{upstream}...HEAD'']) (- 1) (- 1)
      = (2, word_of_nat m, word_of_nat n)"
    unfolding assms(1) by (rule sscanf_counts [OF assms(2,3)])
  then show ?thesis
    using assms(2,3) by (simp add: status_of_def z)
qed

end
