(* ===== verification/Command_Save_Export.thy ===== *)
theory Command_Save_Export
  imports Command_Batch
begin

text \<open>
  \<^verbatim>\<open>savestate\<close> and \<^verbatim>\<open>exportList\<close>
  (\<^verbatim>\<open>src/commands/savestate.cpp\<close>, \<^verbatim>\<open>exportrepositories.cpp\<close>): one git
  call per repository, and a JSON list of pairs written to the file named by the last argument.
\<close>

definition saveStateSingleRepo :: "spawner \<Rightarrow> string \<Rightarrow> (string \<times> string) result" where
  "saveStateSingleRepo spawn repositoryToCheck =
     and_then (git_output spawn repositoryToCheck [''rev-parse'', CHR ''@'' # ''{0}'']) (\<lambda>revision.
       Inr (repositoryToCheck, revision))"

definition saveState ::
    "((string \<Rightarrow> (string \<times> string) result) \<Rightarrow> string list \<Rightarrow> (string \<times> string) result list)
     \<Rightarrow> spawner \<Rightarrow> (string \<Rightarrow> string) \<Rightarrow> any_option \<Rightarrow> string list \<Rightarrow> unit io" where
  "saveState sched spawn dump_float opt repos =
     io_bind (io_lift (run_batch sched (saveStateSingleRepo spawn) repos)) (\<lambda>results.
     io_bind (io_lift (pair_array ''repoPath'' ''revision'' results)) (\<lambda>reportData.
     io_bind (io_lift (arg_from_end 1 opt)) (\<lambda>filename.
       saveStateFile dump_float filename reportData)))"

definition exportSingleRepo :: "spawner \<Rightarrow> string \<Rightarrow> (string \<times> string) result" where
  "exportSingleRepo spawn repositoryToCheck =
     and_then (git_output spawn repositoryToCheck [''config'', ''--get'', ''remote.origin.url'']) (\<lambda>sourceUrl.
       Inr (repositoryToCheck, sourceUrl))"

definition exportRepositories ::
    "((string \<Rightarrow> (string \<times> string) result) \<Rightarrow> string list \<Rightarrow> (string \<times> string) result list)
     \<Rightarrow> spawner \<Rightarrow> (string \<Rightarrow> string) \<Rightarrow> any_option \<Rightarrow> string list \<Rightarrow> unit io" where
  "exportRepositories sched spawn dump_float opt repos =
     io_bind (io_lift (run_batch sched (exportSingleRepo spawn) repos)) (\<lambda>results.
     io_bind (io_lift (pair_array ''directory'' ''sourceurl'' results)) (\<lambda>repolist.
     io_bind (io_lift (arg_from_end 1 opt)) (\<lambda>filename.
     io_bind (write_file filename (dump dump_float repolist)) (\<lambda>ok.
       if ok then io_return ()
       else printf (''could not open output file to export the list!'' @ [CHR 0x0A])))))"

section \<open>Lemmas\<close>

abbreviation (input) rev_parse :: "string list" where "rev_parse \<equiv> [''rev-parse'', CHR ''@'' # ''{0}'']"
abbreviation (input) get_origin :: "string list" where "get_origin \<equiv> [''config'', ''--get'', ''remote.origin.url'']"

definition repo_state :: "spawner \<Rightarrow> string \<Rightarrow> string \<times> string" where
  "repo_state spawn r = (r, git_text spawn r rev_parse)"

definition repo_origin :: "spawner \<Rightarrow> string \<Rightarrow> string \<times> string" where
  "repo_origin spawn r = (r, git_text spawn r get_origin)"

lemma saveStateSingleRepo_ok:
  "git_ok spawn r rev_parse \<Longrightarrow> saveStateSingleRepo spawn r = Inr (repo_state spawn r)"
  by (simp add: saveStateSingleRepo_def git_output_ok repo_state_def)

lemma exportSingleRepo_ok:
  "git_ok spawn r get_origin \<Longrightarrow> exportSingleRepo spawn r = Inr (repo_origin spawn r)"
  by (simp add: exportSingleRepo_def git_output_ok repo_origin_def)

lemma valid_utf8_keys [simp]:
  "valid_utf8 ''repoPath''" "valid_utf8 ''revision''" "valid_utf8 ''directory''" "valid_utf8 ''sourceurl''"
  by (rule valid_utf8_ascii, simp)+

definition pair_utf8 :: "string \<times> string \<Rightarrow> bool" where
  "pair_utf8 p \<longleftrightarrow> valid_utf8 (c_str (fst p)) \<and> valid_utf8 (c_str (snd p))"

lemma pair_list_plain:
  assumes "k1 \<noteq> k2" "valid_utf8 k1" "valid_utf8 k2" "mset ps = mset (map g rs)"
    "\<forall>r\<in>set rs. pair_utf8 (g r)"
  shows "json_plain (JArray (map (pair_json k1 k2) ps))"
proof -
  have "set ps = g ` set rs" using assms(4) by (metis list.set_map set_mset_mset)
  then have "\<forall>p\<in>set ps. pair_utf8 p" using assms(5) by auto
  then show ?thesis
    using assms(1-3) by (auto simp: values_plain_iff list_all_iff pair_utf8_def intro!: pair_json_plain)
qed

lemma saveState_ok:
  assumes fair: "fair_batch sched (saveStateSingleRepo spawn) repos"
    and ok: "\<forall>r\<in>set repos. git_ok spawn r rev_parse \<and> pair_utf8 (repo_state spawn r)"
    and arg: "arg_from_end 1 opt = Inr (Some f)" and w: "writable w f"
  shows "\<exists>results w'. saveState sched spawn df opt repos w = (Inr (), w')
    \<and> mset results = mset (map (repo_state spawn) repos) \<and> console w' = console w \<and> writable w' = writable w
    \<and> (\<forall>m. m \<noteq> f \<longrightarrow> files w' m = files w m)
    \<and> loadState fin (Some f) w' = (Inr (JArray (map (pair_json ''repoPath'' ''revision'') results)), w')"
proof -
  obtain rs where rs: "run_batch sched (saveStateSingleRepo spawn) repos = Inr rs"
    "mset rs = mset (map (repo_state spawn) repos)"
    using run_batch_ok [OF fair, of "repo_state spawn"] ok saveStateSingleRepo_ok by blast
  have plain: "json_plain (JArray (map (pair_json ''repoPath'' ''revision'') rs))"
    using pair_list_plain [OF _ _ _ rs(2)] ok by simp
  from saveState_loadState [OF plain w, of df fin] obtain w' where
    "saveStateFile df (Some f) (JArray (map (pair_json ''repoPath'' ''revision'') rs)) w = (Inr (), w')"
    "console w' = console w" "writable w' = writable w" "\<forall>m. m \<noteq> f \<longrightarrow> files w' m = files w m"
    "loadState fin (Some f) w' = (Inr (JArray (map (pair_json ''repoPath'' ''revision'') rs)), w')" by blast
  with rs arg show ?thesis
    by (auto simp: saveState_def pair_array_eq)
qed

lemma exportRepositories_ok:
  assumes fair: "fair_batch sched (exportSingleRepo spawn) repos"
    and ok: "\<forall>r\<in>set repos. git_ok spawn r get_origin \<and> pair_utf8 (repo_origin spawn r)"
    and arg: "arg_from_end 1 opt = Inr (Some f)" and w: "writable w f"
  shows "\<exists>results doc. exportRepositories sched spawn df opt repos w
      = (Inr (), w\<lparr>files := (files w)(f \<mapsto> doc)\<rparr>)
    \<and> mset results = mset (map (repo_origin spawn) repos)
    \<and> json_parse_c fin doc = Inr (JArray (map (pair_json ''directory'' ''sourceurl'') results))"
proof -
  obtain rs where rs: "run_batch sched (exportSingleRepo spawn) repos = Inr rs"
    "mset rs = mset (map (repo_origin spawn) repos)"
    using run_batch_ok [OF fair, of "repo_origin spawn"] ok exportSingleRepo_ok by blast
  have plain: "json_plain (JArray (map (pair_json ''directory'' ''sourceurl'') rs))"
    using pair_list_plain [OF _ _ _ rs(2)] ok by simp
  then obtain doc where doc: "dump df (JArray (map (pair_json ''directory'' ''sourceurl'') rs)) = Inr doc"
    using dump_plain by blast
  with rs arg w json_parse_dump [OF plain doc] show ?thesis
    by (auto simp: exportRepositories_def pair_array_eq io_bind_Inr [OF write_file_ok])
qed

end
