(* ===== verification/Command_Update_Report.thy ===== *)
theory Command_Update_Report
  imports Command_Save_Export
begin

text \<open>
  \<^verbatim>\<open>genUpdateReport\<close> (\<^verbatim>\<open>src/commands/generateupdatereport.cpp\<close>): for every
  repository the log between the revision of an old state and a new one, or the head. The flag
  \<open>ndebug\<close> says whether \<^verbatim>\<open>assert\<close> is compiled out.
\<close>

definition state_indices :: "any_option \<Rightarrow> (nat \<times> nat option) result" where
  "state_indices opt =
     and_then (arg_from_end 3 opt) (\<lambda>a.
       case a of
         None \<Rightarrow> Inl Null_Pointer
       | Some s \<Rightarrow> Inr (if strcaseeq ''genUpdateReport'' s then (2, Some 1) else (1, None)))"

text \<open>The loop over the elements of a state; \<open>None\<close> when no element has the path.\<close>

definition string_member :: "string \<Rightarrow> json \<Rightarrow> (string \<times> json) result" where
  "string_member k element =
     and_then (json_at k element) (\<lambda>(v, element). and_then (get_string v) (\<lambda>s. Inr (c_str s, element)))"

fun find_revision :: "string \<Rightarrow> json list \<Rightarrow> string option result" where
  "find_revision repo [] = Inr None"
| "find_revision repo (element # es) =
     and_then (string_member ''repoPath'' element) (\<lambda>(p, element).
       if compare repo p = 0
       then and_then (string_member ''revision'' element) (\<lambda>(r, element). Inr (Some r))
       else find_revision repo es)"

definition asserted :: "bool \<Rightarrow> string option \<Rightarrow> string result" where
  "asserted ndebug found =
     (case found of Some r \<Rightarrow> Inr r | None \<Rightarrow> if ndebug then Inr [] else Inl Assertion_Failed)"

definition update_params ::
    "bool \<Rightarrow> json \<Rightarrow> json option \<Rightarrow> string \<Rightarrow> (string \<times> string \<times> string) result" where
  "update_params ndebug oldState newState repo =
     and_then (find_revision repo (json_elements oldState)) (\<lambda>found.
     and_then (asserted ndebug found) (\<lambda>oldRevision.
     and_then (case newState of
                 None \<Rightarrow> Inr ''HEAD''
               | Some st \<Rightarrow> and_then (find_revision repo (json_elements st)) (asserted ndebug)) (\<lambda>newRevision.
       Inr (repo, oldRevision, newRevision))))"

definition updateReportSingleRepo ::
    "spawner \<Rightarrow> string \<times> string \<times> string \<Rightarrow> (string \<times> string) result" where
  "updateReportSingleRepo spawn params =
     (case params of (repositoryToCheck, oldRevision, newRevision) \<Rightarrow>
        and_then (git_output spawn repositoryToCheck
                   [''log'', ''--oneline'', oldRevision @ ''..'' @ newRevision]) (\<lambda>updateLog.
          Inr (repositoryToCheck, updateLog)))"

definition update_report_data :: "(string \<times> string) list \<Rightarrow> json result" where
  "update_report_data results =
     and_then (pair_array ''repoPath'' ''updateLog'' (filter (\<lambda>r. length (snd r) \<noteq> 0) results)) (\<lambda>updateLogs.
       json_set ''updatelogs'' updateLogs JNull)"

definition generateUpdateReport ::
    "((string \<times> string \<times> string \<Rightarrow> (string \<times> string) result) \<Rightarrow> (string \<times> string \<times> string) list
       \<Rightarrow> (string \<times> string) result list)
     \<Rightarrow> bool \<Rightarrow> (string \<Rightarrow> bool) \<Rightarrow> spawner \<Rightarrow> 't engine \<Rightarrow> any_option \<Rightarrow> string list \<Rightarrow> unit io" where
  "generateUpdateReport sched ndebug fin spawn eng opt repos =
     io_bind (io_lift (state_indices opt)) (\<lambda>(old_index, new_index).
     io_bind (io_lift (arg_from_end old_index opt)) (\<lambda>old_name.
     io_bind (loadState fin old_name) (\<lambda>oldState.
     io_bind (case new_index of
                None \<Rightarrow> io_return None
              | Some k \<Rightarrow>
                  io_bind (io_lift (arg_from_end k opt)) (\<lambda>new_name.
                  io_bind (loadState fin new_name) (\<lambda>j. io_return (Some j)))) (\<lambda>newState.
     io_bind (prepareOutputReport eng opt ''updatereport'') (\<lambda>templ.
     io_bind (io_lift (map_result (update_params ndebug oldState newState) repos)) (\<lambda>params.
     io_bind (io_lift (run_batch sched (updateReportSingleRepo spawn) params)) (\<lambda>results.
     io_bind (io_lift (update_report_data results)) (\<lambda>reportData.
       generateAndOutputReport eng opt templ reportData))))))))"

section \<open>Lemmas\<close>

text \<open>Looking a repository up in a saved state.\<close>

lemma find_revision_pairs:
  "find_revision repo (map (pair_json ''repoPath'' ''revision'') ps) =
     Inr (map_option (\<lambda>p. c_str (snd p)) (find (\<lambda>p. repo = c_str (fst p)) ps))"
proof (induction ps)
  case (Cons p ps)
  have "string_member ''repoPath'' (pair_json ''repoPath'' ''revision'' p)
      = Inr (c_str (fst p), pair_json ''repoPath'' ''revision'' p)"
    "string_member ''revision'' (pair_json ''repoPath'' ''revision'' p)
      = Inr (c_str (snd p), pair_json ''repoPath'' ''revision'' p)"
    by (simp_all add: string_member_def pair_json_at get_string_def)
  with Cons show ?case by simp
qed simp

lemma find_state_of_repo:
  assumes "mset results = mset (map (repo_state spawn) repos)" "r \<in> set repos" "nul_free r"
    "\<forall>r\<in>set repos. nul_free r"
  shows "find_revision r (json_elements (JArray (map (pair_json ''repoPath'' ''revision'') results)))
    = Inr (Some (git_text spawn r rev_parse))"
proof -
  have st: "set results = repo_state spawn ` set repos"
    using assms(1) by (metis list.set_map set_mset_mset)
  have "\<exists>p. find (\<lambda>p. r = c_str (fst p)) results = Some p"
  proof (rule ccontr)
    assume "\<not> ?thesis"
    then have "find (\<lambda>p. r = c_str (fst p)) results = None" by (metis not_None_eq)
    moreover have "repo_state spawn r \<in> set results" using st assms(2) by simp
    ultimately show False using assms(3) by (auto simp: find_None_iff repo_state_def)
  qed
  then obtain p where p: "find (\<lambda>p. r = c_str (fst p)) results = Some p" by blast
  then have "p \<in> set results" "r = c_str (fst p)" by (auto dest: find_Some_mem)
  with st assms(4) have "p = repo_state spawn r"
    by (auto simp: repo_state_def)
  with p show ?thesis
    by (simp add: json_elements_def find_revision_pairs repo_state_def nul_free_git_text)
qed

lemma state_indices_two:
  "processed opt args as ps \<Longrightarrow> length ps \<le> 2 \<Longrightarrow> state_indices opt = Inl Null_Pointer"
  by (simp add: state_indices_def arg_from_end_def getArgv_processed getArgc_processed)

lemma generateUpdateReport_one_state:
  assumes "processed opt args as ps" "length ps \<le> 2"
  shows "generateUpdateReport sched ndebug fin spawn eng opt repos w = (Inl Null_Pointer, w)"
  by (simp add: generateUpdateReport_def state_indices_two [OF assms])

text \<open>With two states, all jobs answered: the report has the logs that are not empty.\<close>

definition update_log :: "spawner \<Rightarrow> string \<times> string \<times> string \<Rightarrow> string \<times> string" where
  "update_log spawn p =
     (case p of (r, old, new) \<Rightarrow> (r, git_text spawn r [''log'', ''--oneline'', old @ ''..'' @ new]))"

lemma update_report_data_eq:
  "update_report_data results = Inr (JObject [(''updatelogs'',
     JArray (map (pair_json ''repoPath'' ''updateLog'') (filter (\<lambda>r. snd r \<noteq> []) results)))])"
  by (simp add: update_report_data_def pair_array_eq)

lemma update_params_states:
  assumes "mset olds = mset (map (repo_state s1) repos)" "mset news = mset (map (repo_state s2) repos)"
    "\<forall>r\<in>set repos. nul_free r"
  shows "map_result (update_params ndebug (JArray (map (pair_json ''repoPath'' ''revision'') olds))
      (Some (JArray (map (pair_json ''repoPath'' ''revision'') news)))) repos
    = Inr (map (\<lambda>r. (r, git_text s1 r rev_parse, git_text s2 r rev_parse)) repos)"
proof (rule map_result_all_ok)
  fix r assume r: "r \<in> set repos"
  then have "nul_free r" using assms(3) by blast
  from find_state_of_repo [OF assms(1) r this assms(3)] find_state_of_repo [OF assms(2) r this assms(3)]
  show "update_params ndebug (JArray (map (pair_json ''repoPath'' ''revision'') olds))
      (Some (JArray (map (pair_json ''repoPath'' ''revision'') news))) r
    = Inr (r, git_text s1 r rev_parse, git_text s2 r rev_parse)"
    by (simp add: update_params_def asserted_def)
qed

definition revisions :: "spawner \<Rightarrow> spawner \<Rightarrow> string \<Rightarrow> string \<times> string \<times> string" where
  "revisions s1 s2 r = (r, git_text s1 r rev_parse, git_text s2 r rev_parse)"

lemma update_batch:
  assumes fair: "\<And>js. fair_batch sched (updateReportSingleRepo spawn) js"
    and ok: "\<forall>r\<in>set repos. git_ok spawn r [''log'', ''--oneline'',
               git_text s1 r rev_parse @ ''..'' @ git_text s2 r rev_parse]"
  shows "\<exists>results. run_batch sched (updateReportSingleRepo spawn) (map (revisions s1 s2) repos) = Inr results
    \<and> mset results = mset (map (\<lambda>r. update_log spawn (revisions s1 s2 r)) repos)"
proof -
  have "updateReportSingleRepo spawn p = Inr (update_log spawn p)" if "p \<in> set (map (revisions s1 s2) repos)" for p
    using that ok by (auto simp: updateReportSingleRepo_def update_log_def git_output_ok revisions_def)
  from run_batch_ok [OF fair [of "map (revisions s1 s2) repos"] this] show ?thesis by (simp add: comp_def)
qed

definition logs_report :: "(string \<times> string) list \<Rightarrow> json" where
  "logs_report results = JObject [(''updatelogs'',
     JArray (map (pair_json ''repoPath'' ''updateLog'') (filter (\<lambda>r. snd r \<noteq> []) results)))]"

lemma generateUpdateReport_states:
  assumes idx: "state_indices opt = Inr (2, Some 1)"
    and a2: "arg_from_end 2 opt = Inr (Some f)" and a1: "arg_from_end 1 opt = Inr (Some g)"
    and lf: "loadState fin (Some f) w = (Inr (JArray (map (pair_json ''repoPath'' ''revision'') olds)), w)"
    and lg: "loadState fin (Some g) w = (Inr (JArray (map (pair_json ''repoPath'' ''revision'') news)), w)"
    and olds: "mset olds = mset (map (repo_state s1) repos)"
    and news: "mset news = mset (map (repo_state s2) repos)"
    and nf: "\<forall>r\<in>set repos. nul_free r"
    and rs: "run_batch sched (updateReportSingleRepo spawn) (map (revisions s1 s2) repos) = Inr results"
  shows "generateUpdateReport sched ndebug fin spawn eng opt repos w =
    io_bind (prepareOutputReport eng opt ''updatereport'') (\<lambda>templ.
      generateAndOutputReport eng opt templ (logs_report results)) w"
  by (simp add: generateUpdateReport_def idx a2 a1 [simplified] io_bind_Inr [where m = "loadState fin (Some f)", OF lf] io_bind_assoc
        io_bind_Inr [where m = "loadState fin (Some g)", OF lg] update_params_states [OF olds news nf]
        rs [unfolded revisions_def] update_report_data_eq logs_report_def)

end
