(* ===== verification/Report_Texts.thy ===== *)
theory Report_Texts
  imports Inja_Engine Inja_Loops Scan_Directories Command_Pull_Check Command_Update_Report
begin

text \<open>
  The templates the tool ships (\<^verbatim>\<open>src/reporttemplates/\<close>) and the texts they give for the
  documents of the commands.
\<close>

section \<open>The shipped templates\<close>

definition nl :: string where
  "nl = [CHR 0x0A]"

definition in_lines :: "string list \<Rightarrow> string" where
  "in_lines ls = concat (map (\<lambda>l. l @ nl) ls)"

text \<open>The files, line by line.\<close>

definition repoupdate_txt :: string where
  "repoupdate_txt = in_lines
     [[], ''repositories found:'',
      ''{% for name in repositories %}'', ''   {{ name }}'', ''{% endfor %}'',
      [], ''==================================='', ''repositories deleted from last run:'',
      ''{% for name in deletedRepositories %}'', ''   {{ name }}'', ''{% endfor %}'',
      [], ''==================================='', ''repositories added in this run:'',
      ''{% for name in addedRepositories %}'', ''   {{ name }}'', ''{% endfor %}'']"

definition checkforupdatesonserver_txt :: string where
  "checkforupdatesonserver_txt = in_lines
     [[], ''=== Repos need updates:'',
      ''{% for name in reposNeedUpdate %}'', ''   repo needs update: {{ name }}'', ''{% endfor %}'',
      [], ''=== Repos ahead:'',
      ''{% for name in reposAhead %}'', ''   repo ahead: {{ name }}'', ''{% endfor %}'',
      [], ''=== Repos diverged:'',
      ''{% for name in reposDiverged %}'', ''   repo diverged: {{ name }}'', ''{% endfor %}'',
      [], ''=== Repos failed to get status:'',
      ''{% for name in reposFailed %}'', ''   repo failed to get status: {{ name }}'', ''{% endfor %}'',
      []]"

definition pullrepositories_txt :: string where
  "pullrepositories_txt = in_lines
     [[], ''repositories already up to date:'',
      ''{% for name in alreadyUpToDateRepos %}'', ''   {{ name }}'', ''{% endfor %}'',
      [], ''==================================='', ''repositories pulled:'',
      ''{% for obj in pulledRepos %}'', ''   {{ obj/repository }}'', ''{% endfor %}'',
      [], ''==================================='', ''repositories pulled with detailed report:'',
      ''{% for obj in pulledRepos %}'', ''   {{ obj/repository }}'', ''   ===================='',
      ''   {{ obj/output }}'', ''----   '', ''{% endfor %}'']"

definition updatereport_txt :: string where
  "updatereport_txt = in_lines
     [[], [], ''{% for item in updatelogs %}'', ''{{ item/repoPath }}:'', ''{{ item/updateLog }}'',
      ''=========='', ''{% endfor %}'', []]"

text \<open>Their statements.\<close>

definition name_loop :: "string \<Rightarrow> string \<Rightarrow> node" where
  "name_loop lst label =
     For [] ''name'' (Lookup lst) [Text (nl @ ''   '' @ label), Print (Lookup ''name''), Text nl]"

definition repoupdate_nodes :: "node list" where
  "repoupdate_nodes =
     [Text (in_lines [[], ''repositories found:'']), name_loop ''repositories'' [],
      Text (in_lines [[], [], ''==================================='', ''repositories deleted from last run:'']),
      name_loop ''deletedRepositories'' [],
      Text (in_lines [[], [], ''==================================='', ''repositories added in this run:'']),
      name_loop ''addedRepositories'' [], Text nl]"

definition checkforupdatesonserver_nodes :: "node list" where
  "checkforupdatesonserver_nodes =
     [Text (in_lines [[], ''=== Repos need updates:'']), name_loop ''reposNeedUpdate'' ''repo needs update: '',
      Text (in_lines [[], [], ''=== Repos ahead:'']), name_loop ''reposAhead'' ''repo ahead: '',
      Text (in_lines [[], [], ''=== Repos diverged:'']), name_loop ''reposDiverged'' ''repo diverged: '',
      Text (in_lines [[], [], ''=== Repos failed to get status:'']),
      name_loop ''reposFailed'' ''repo failed to get status: '', Text (in_lines [[], []])]"

definition pullrepositories_nodes :: "node list" where
  "pullrepositories_nodes =
     [Text (in_lines [[], ''repositories already up to date:'']), name_loop ''alreadyUpToDateRepos'' [],
      Text (in_lines [[], [], ''==================================='', ''repositories pulled:'']),
      For [] ''obj'' (Lookup ''pulledRepos'')
        [Text (nl @ ''   ''), Print (Lookup ''obj/repository''), Text nl],
      Text (in_lines [[], [], ''==================================='', ''repositories pulled with detailed report:'']),
      For [] ''obj'' (Lookup ''pulledRepos'')
        [Text (nl @ ''   ''), Print (Lookup ''obj/repository''), Text (in_lines [[], ''   ====================''] @ ''   ''),
         Print (Lookup ''obj/output''), Text (in_lines [[], ''----   ''])],
      Text nl]"

definition updatereport_nodes :: "node list" where
  "updatereport_nodes =
     [Text (in_lines [[], []]),
      For [] ''item'' (Lookup ''updatelogs'')
        [Text nl, Print (Lookup ''item/repoPath''), Text (in_lines ['':'']), Print (Lookup ''item/updateLog''),
         Text (in_lines [[], ''=========='' ])],
      Text (in_lines [[], []])]"

lemma templates_printed:
  "print_nodes repoupdate_nodes = repoupdate_txt"
  "print_nodes checkforupdatesonserver_nodes = checkforupdatesonserver_txt"
  "print_nodes pullrepositories_nodes = pullrepositories_txt"
  "print_nodes updatereport_nodes = updatereport_txt"
  by code_simp+

lemma templates_ok:
  "nodes_ok repoupdate_nodes" "nodes_ok checkforupdatesonserver_nodes" "nodes_ok pullrepositories_nodes"
  "nodes_ok updatereport_nodes"
  by code_simp+

lemma templates_short:
  "length (compile_template repoupdate_nodes) < 2 ^ 30"
  "length (compile_template checkforupdatesonserver_nodes) < 2 ^ 30"
  "length (compile_template pullrepositories_nodes) < 2 ^ 30"
  "length (compile_template updatereport_nodes) < 2 ^ 30"
proof -
  have "length (compile_template repoupdate_nodes) < 64" "length (compile_template checkforupdatesonserver_nodes) < 64"
    "length (compile_template pullrepositories_nodes) < 64" "length (compile_template updatereport_nodes) < 64"
    by code_simp+
  then show "length (compile_template repoupdate_nodes) < 2 ^ 30"
    "length (compile_template checkforupdatesonserver_nodes) < 2 ^ 30"
    "length (compile_template pullrepositories_nodes) < 2 ^ 30"
    "length (compile_template updatereport_nodes) < 2 ^ 30"
    by simp_all
qed

lemma templates_not_Nil:
  "print_nodes repoupdate_nodes \<noteq> []" "print_nodes checkforupdatesonserver_nodes \<noteq> []"
  "print_nodes pullrepositories_nodes \<noteq> []" "print_nodes updatereport_nodes \<noteq> []"
  by code_simp+

section \<open>Texts of the reports\<close>

definition name_lines :: "string \<Rightarrow> string list \<Rightarrow> string" where
  "name_lines label ss = concat (map (\<lambda>s. in_lines [[], ''   '' @ label @ s]) ss)"

lemma simple_names:
  "simple_name ''name''" "simple_name ''obj''" "simple_name ''item''" "simple_name ''repository''"
  "simple_name ''output''" "simple_name ''repoPath''" "simple_name ''updateLog''" "simple_name ''repositories''"
  "simple_name ''deletedRepositories''" "simple_name ''addedRepositories''" "simple_name ''reposNeedUpdate''"
  "simple_name ''reposAhead''" "simple_name ''reposDiverged''" "simple_name ''reposFailed''"
  "simple_name ''alreadyUpToDateRepos''" "simple_name ''pulledRepos''" "simple_name ''updatelogs''"
  by code_simp+

lemma name_loop_text:
  assumes "obj_lookup kvs lst = Some (JArray (map (\<lambda>x. JString (f x)) xs))" "simple_name lst"
    and "obj_lookup kvs ''loop'' = None" "depth < reserved_loops"
  shows "meaning env root depth (JObject kvs) (name_loop lst label) = Inr (name_lines label (map f xs))"
proof -
  have "meaning env root depth (JObject kvs) (name_loop lst label)
      = Inr (concat (map (\<lambda>x. in_lines [[], ''   '' @ label @ f x]) xs))"
    unfolding name_loop_def using assms
    by (intro meaning_loop [where f = "\<lambda>x. JString (f x)"])
      (simp_all add: lookup_simple in_round_def simple_names print_value_def in_lines_def)
  then show ?thesis by (simp add: name_lines_def comp_def)
qed

text \<open>A loop over pairs, whose members are reached with a slash.\<close>

lemma lookup_pair:
  assumes "in_round var kvs (pair_json k1 k2 p) cur" "simple_name var" "simple_name k1" "simple_name k2" "k1 \<noteq> k2"
  shows "lookup_name env (JObject cur) (var @ CHR ''/'' # k1) = Inr (JString (c_str (fst p)))"
    "lookup_name env (JObject cur) (var @ CHR ''/'' # k2) = Inr (JString (c_str (snd p)))"
  using assms by (auto simp: pair_json_def in_round_def intro!: lookup_member)

definition scan_text :: "string list \<Rightarrow> string list \<Rightarrow> string list \<Rightarrow> string" where
  "scan_text found deleted added =
     in_lines [[], ''repositories found:''] @ name_lines [] found
   @ in_lines [[], [], ''==================================='', ''repositories deleted from last run:''] @ name_lines [] deleted
   @ in_lines [[], [], ''==================================='', ''repositories added in this run:''] @ name_lines [] added @ nl"

definition check_text :: "string list \<Rightarrow> string list \<Rightarrow> string list \<Rightarrow> string list \<Rightarrow> string" where
  "check_text behind ahead diverged failed =
     in_lines [[], ''=== Repos need updates:''] @ name_lines ''repo needs update: '' behind
   @ in_lines [[], [], ''=== Repos ahead:''] @ name_lines ''repo ahead: '' ahead
   @ in_lines [[], [], ''=== Repos diverged:''] @ name_lines ''repo diverged: '' diverged
   @ in_lines [[], [], ''=== Repos failed to get status:''] @ name_lines ''repo failed to get status: '' failed
   @ in_lines [[], []]"

definition pull_text :: "string list \<Rightarrow> (string \<times> string) list \<Rightarrow> string" where
  "pull_text current pulled =
     in_lines [[], ''repositories already up to date:''] @ name_lines [] current
   @ in_lines [[], [], ''==================================='', ''repositories pulled:''] @ name_lines [] (map fst pulled)
   @ in_lines [[], [], ''==================================='', ''repositories pulled with detailed report:'']
   @ concat (map (\<lambda>(r, out). in_lines [[], ''   '' @ r, ''   ===================='', ''   '' @ out, ''----   '']) pulled) @ nl"

definition update_text :: "(string \<times> string) list \<Rightarrow> string" where
  "update_text logs =
     in_lines [[], []] @ concat (map (\<lambda>(r, log). in_lines [[], r @ '':'', log, ''==========''] ) logs) @ in_lines [[], []]"

definition c_strs :: "string \<times> string \<Rightarrow> string \<times> string" where
  "c_strs p = (c_str (fst p), c_str (snd p))"

lemma scan_document:
  assumes "obj_lookup kvs ''repositories'' = Some (JArray (map (\<lambda>x. JString (f x)) xs))"
    and "obj_lookup kvs ''deletedRepositories'' = Some (JArray (map (\<lambda>x. JString (f x)) ys))"
    and "obj_lookup kvs ''addedRepositories'' = Some (JArray (map (\<lambda>x. JString (f x)) zs))"
    and "obj_lookup kvs ''loop'' = None"
  shows "document_text d float_text repoupdate_nodes (JObject kvs) = Inr (scan_text (map f xs) (map f ys) (map f zs))"
  using assms
  by (simp add: document_text_def repoupdate_nodes_def name_loop_text simple_names reserved_loops_def scan_text_def)

lemma check_document:
  assumes "obj_lookup kvs ''reposNeedUpdate'' = Some (JArray (map (\<lambda>x. JString (f x)) xs))"
    and "obj_lookup kvs ''reposAhead'' = Some (JArray (map (\<lambda>x. JString (f x)) ys))"
    and "obj_lookup kvs ''reposDiverged'' = Some (JArray (map (\<lambda>x. JString (f x)) zs))"
    and "obj_lookup kvs ''reposFailed'' = Some (JArray (map (\<lambda>x. JString (f x)) us))"
    and "obj_lookup kvs ''loop'' = None"
  shows "document_text d float_text checkforupdatesonserver_nodes (JObject kvs)
    = Inr (check_text (map f xs) (map f ys) (map f zs) (map f us))"
  using assms
  by (simp add: document_text_def checkforupdatesonserver_nodes_def name_loop_text simple_names reserved_loops_def
      check_text_def)

lemma pair_loop_body:
  assumes "in_round var kvs (pair_json k1 k2 p) cur" "simple_name var" "simple_name k1" "simple_name k2" "k1 \<noteq> k2"
  shows "meaning env root depth (JObject cur) (Print (Lookup (var @ CHR ''/'' # k1))) = Inr (c_str (fst p))"
    "meaning env root depth (JObject cur) (Print (Lookup (var @ CHR ''/'' # k2))) = Inr (c_str (snd p))"
  using lookup_pair [OF assms, of env] by (simp_all add: print_value_def)

lemmas pulled_body = pair_loop_body [where var = "''obj''" and ?k1.0 = "''repository''" and ?k2.0 = "''output''", unfolded append_Cons append_Nil, OF _ simple_names(2,4,5)]

lemmas updated_body = pair_loop_body [where var = "''item''" and ?k1.0 = "''repoPath''" and ?k2.0 = "''updateLog''", unfolded append_Cons append_Nil, OF _ simple_names(3,6,7)]

lemma pull_document:
  assumes "obj_lookup kvs ''alreadyUpToDateRepos'' = Some (JArray (map (\<lambda>x. JString (f x)) xs))"
    and pulled: "obj_lookup kvs ''pulledRepos'' = Some (JArray (map (pair_json ''repository'' ''output'') ps))"
    and "obj_lookup kvs ''loop'' = None"
  shows "document_text d float_text pullrepositories_nodes (JObject kvs) = Inr (pull_text (map f xs) (map c_strs ps))"
proof -
  let ?env = "render_default d float_text []" and ?root = "JObject kvs"
  note lst = lookup_simple [OF _ pulled, of ?env]
  have short: "meaning ?env ?root 0 (JObject kvs) (For [] ''obj'' (Lookup ''pulledRepos'')
      [Text (nl @ ''   ''), Print (Lookup ''obj/repository''), Text nl]) = Inr (name_lines [] (map (c_str \<circ> fst) ps))"
    (is "meaning _ _ _ _ (For _ _ _ ?b) = _")
  proof -
    have "meaning ?env ?root 0 (JObject kvs) (For [] ''obj'' (Lookup ''pulledRepos'') ?b)
        = Inr (concat (map (\<lambda>p. in_lines [[], ''   '' @ c_str (fst p)]) ps))"
      using assms(3) by (intro meaning_loop [where f = "pair_json ''repository'' ''output''"])
        (simp_all add: lst simple_names reserved_loops_def pulled_body in_lines_def del: meaning.simps(2))
    then show ?thesis by (simp add: name_lines_def comp_def)
  qed
  have long: "meaning ?env ?root 0 (JObject kvs) (For [] ''obj'' (Lookup ''pulledRepos'')
      [Text (nl @ ''   ''), Print (Lookup ''obj/repository''), Text (in_lines [[], ''   ====================''] @ ''   ''),
         Print (Lookup ''obj/output''), Text (in_lines [[], ''----   ''])])
      = Inr (concat (map (\<lambda>p. in_lines [[], ''   '' @ c_str (fst p), ''   ===================='',
          ''   '' @ c_str (snd p), ''----   '']) ps))"
    using assms(3) by (intro meaning_loop [where f = "pair_json ''repository'' ''output''"])
      (simp_all add: lst simple_names reserved_loops_def pulled_body in_lines_def del: meaning.simps(2))
  show ?thesis
    unfolding document_text_def pullrepositories_nodes_def
    by (simp add: name_loop_text [OF assms(1)] assms(3) simple_names reserved_loops_def short long
        pull_text_def c_strs_def comp_def del: meaning.simps(5))
qed

lemma update_document:
  assumes logs: "obj_lookup kvs ''updatelogs'' = Some (JArray (map (pair_json ''repoPath'' ''updateLog'') ps))"
    and "obj_lookup kvs ''loop'' = None"
  shows "document_text d float_text updatereport_nodes (JObject kvs) = Inr (update_text (map c_strs ps))"
proof -
  let ?env = "render_default d float_text []" and ?root = "JObject kvs"
  have "meaning ?env ?root 0 (JObject kvs) (For [] ''item'' (Lookup ''updatelogs'')
      [Text nl, Print (Lookup ''item/repoPath''), Text (in_lines ['':'']), Print (Lookup ''item/updateLog''),
         Text (in_lines [[], ''=========='' ])])
      = Inr (concat (map (\<lambda>p. in_lines [[], c_str (fst p) @ '':'', c_str (snd p), ''==========''] ) ps))"
    using assms(2) by (intro meaning_loop [where f = "pair_json ''repoPath'' ''updateLog''"])
      (simp_all add: lookup_simple [OF _ logs, of ?env] simple_names reserved_loops_def updated_body in_lines_def
        del: meaning.simps(2))
  then show ?thesis
    unfolding document_text_def updatereport_nodes_def
    by (simp add: update_text_def c_strs_def comp_def del: meaning.simps(5))
qed

end
