(* ===== verification/Loguru_Args.thy ===== *)
theory Loguru_Args
  imports C_Scan
begin

text \<open>
  The argument parsing of the logging library (\<^verbatim>\<open>parse_args\<close> of
  \<^verbatim>\<open>src/extlibs/loguru/loguru.hpp\<close>), called by \<^verbatim>\<open>main\<close> when the option
  \<^verbatim>\<open>v\<close> has a value. It walks over the same argument vector as the option library, with
  rules of its own, and a failed check aborts the process. The vector itself is not changed (the
  two lines that would are commented out); the logging output on \<^verbatim>\<open>stderr\<close> is not
  modelled.
\<close>

section \<open>Levels\<close>

definition Verbosity_OFF :: int where "Verbosity_OFF = - 9"
definition Verbosity_FATAL :: int where "Verbosity_FATAL = - 3"
definition Verbosity_ERROR :: int where "Verbosity_ERROR = - 2"
definition Verbosity_WARNING :: int where "Verbosity_WARNING = - 1"
definition Verbosity_INFO :: int where "Verbosity_INFO = 0"

definition verbosity_value :: "string \<Rightarrow> int result" where
  "verbosity_value value_str =
     (let value_str = (if value_str \<noteq> [] \<and> hd value_str = CHR ''='' then tl value_str else value_str) in
      if value_str = ''OFF'' then Inr Verbosity_OFF
      else if value_str = ''INFO'' then Inr Verbosity_INFO
      else if value_str = ''WARNING'' then Inr Verbosity_WARNING
      else if value_str = ''ERROR'' then Inr Verbosity_ERROR
      else if value_str = ''FATAL'' then Inr Verbosity_FATAL
      else case strtol_int value_str of (n, end_str) \<Rightarrow>
        if end_str = [] then Inr (sint n) else Inl Assertion_Failed)"

section \<open>The walk over the arguments\<close>

definition is_verbosity_flag :: "string \<Rightarrow> bool" where
  "is_verbosity_flag cmd \<longleftrightarrow>
     take 2 cmd = ''-v'' \<and> \<not> (2 < length cmd \<and> is_alpha (cmd ! 2))"

text \<open>The arguments after the program name, the level so far and \<^verbatim>\<open>out_argc\<close>.\<close>

fun parse_args_from :: "string list \<Rightarrow> int \<times> int \<Rightarrow> (int \<times> int) result" where
  "parse_args_from [] st = Inr st"
| "parse_args_from (cmd # args) (level, out_argc) =
     (if is_verbosity_flag cmd then
        (if drop 2 cmd = [] then
           (case args of
              [] \<Rightarrow> Inl Assertion_Failed
            | value_str # args \<Rightarrow>
                and_then (verbosity_value value_str) (\<lambda>level. parse_args_from args (level, out_argc - 2)))
         else
           and_then (verbosity_value (drop 2 cmd)) (\<lambda>level. parse_args_from args (level, out_argc - 1)))
      else parse_args_from args (level, out_argc))"

definition parse_args :: "string list \<Rightarrow> (int \<times> int) result" where
  "parse_args argv = parse_args_from (tl argv) (Verbosity_INFO, int (length argv))"

section \<open>Lemmas\<close>

lemma verbosity_value_nat:
  assumes "n < 2 ^ 31"
  shows "verbosity_value (show_nat n) = Inr (int n)"
proof -
  obtain c cs where c: "show_nat n = c # cs" "is_digit c"
    using show_nat_digits [of n] show_nat_nonempty [of n] by (cases "show_nat n") auto
  then have "c \<notin> set ''=OIWEF''" by (auto simp: is_digit_def)
  moreover have "sint (word_of_nat n :: 32 word) = int n"
    using assms by (simp add: signed_of_nat signed_take_bit_int_eq_self)
  ultimately show ?thesis
    using strtol_nat [of n] assms c(1) by (auto simp: verbosity_value_def Let_def)
qed

text \<open>Arguments that are not verbosity flags do not change the level.\<close>

lemma parse_args_from_none:
  "list_all (\<lambda>a. \<not> is_verbosity_flag a) args \<Longrightarrow> parse_args_from args st = Inr st"
  by (induction args) (cases st; auto)+

lemma parse_args_from_skip:
  "list_all (\<lambda>a. \<not> is_verbosity_flag a) as \<Longrightarrow>
   parse_args_from (as @ args) st = parse_args_from args st"
  by (induction as) (cases st; auto)+

lemma parse_args_trailing_flag:
  assumes "list_all (\<lambda>a. \<not> is_verbosity_flag a) as"
  shows "parse_args_from (as @ [''-v'']) st = Inl Assertion_Failed"
  using assms by (cases st) (simp add: parse_args_from_skip is_verbosity_flag_def)

end
