(* ===== verification/Command_Merge.thy ===== *)
theory Command_Merge
  imports Command_Save_Export Scan_Directories
begin

text \<open>
  \<^verbatim>\<open>mergeList\<close> (\<^verbatim>\<open>src/commands/mergelist.cpp\<close>): clone every repository of
  an exported list whose directory is not in the cached list. The jobs print while they run, so
  the order of their lines is that of the schedule.
\<close>

section \<open>The clone destination\<close>

definition project_name :: "string \<Rightarrow> string result" where
  "project_name sourceUrl =
     (let lastFolderSymbol = findLastOf sourceUrl ''/'' npos;
          extensionStart = str_size sourceUrl - lastFolderSymbol - 4
      in substr sourceUrl (lastFolderSymbol + 1) (extensionStart - 1))"

definition clone_params :: "string \<Rightarrow> string \<Rightarrow> call_params" where
  "clone_params sourceUrl destDir =
     call_params_init\<lparr>workingDir := ''.'', process := ''git'',
       arguments := [''clone'', sourceUrl, c_str destDir]\<rparr>"

text \<open>One job: the line it prints, unless the call of git faults.\<close>

definition createRepo :: "spawner \<Rightarrow> string \<times> string \<Rightarrow> string result" where
  "createRepo spawn params =
     (case params of (directory, sourceUrl) \<Rightarrow>
        and_then (project_name sourceUrl) (\<lambda>projectName.
        and_then (callExecutable spawn (clone_params sourceUrl (directory @ projectName))) (\<lambda>_.
          Inr (''syncing '' @ c_str projectName @ '' ('' @ c_str sourceUrl @ '')'' @ [CHR 0x0A]))))"

section \<open>The command\<close>

definition merge_item :: "json \<Rightarrow> (string \<times> string) result" where
  "merge_item it =
     and_then (json_at ''directory'' it) (\<lambda>(d, it).
     and_then (get_string d) (\<lambda>directory.
     and_then (json_at ''sourceurl'' it) (\<lambda>(u, it).
     and_then (get_string u) (\<lambda>sourceUrl.
       Inr (c_str directory, c_str sourceUrl)))))"

fun new_repo_bits :: "(string \<times> string) list \<Rightarrow> string list \<Rightarrow> bool list" where
  "new_repo_bits [] repos = []"
| "new_repo_bits (i # is) repos = (first_match (fst i) repos 0 = None) # new_repo_bits is repos"

definition selected :: "'a list \<Rightarrow> bool list \<Rightarrow> 'a list" where
  "selected xs bits = map fst (filter snd (zip xs bits))"

definition mergeList ::
    "((string \<times> string \<Rightarrow> string result) \<Rightarrow> (string \<times> string) list \<Rightarrow> string result list)
     \<Rightarrow> (string \<Rightarrow> bool) \<Rightarrow> spawner \<Rightarrow> any_option \<Rightarrow> string list \<Rightarrow> string list io" where
  "mergeList sched fin spawn opt repos =
     io_bind (io_lift (arg_from_end 1 opt)) (\<lambda>filename.
     io_bind (fopen_read filename) (\<lambda>fp.
       case fp of
         None \<Rightarrow>
           io_bind (printf (''could not open input file to merge the list!'' @ [CHR 0x0A])) (\<lambda>_.
             io_return repos)
       | Some content \<Rightarrow>
           io_bind (io_lift (json_parse_c fin content)) (\<lambda>toMergeList.
           io_bind (io_lift (map_result merge_item (json_elements toMergeList))) (\<lambda>items.
           let new = selected items (new_repo_bits items repos) in
           io_bind (io_lift (run_batch sched (createRepo spawn) new)) (\<lambda>printed.
           io_bind (printf (concat printed)) (\<lambda>_.
             io_return (repos @ map fst new)))))))"

section \<open>Lemmas\<close>

text \<open>The last component of a URL, and what is left of it.\<close>

definition last_component :: "string \<Rightarrow> string" where
  "last_component s = rev (takeWhile (\<lambda>c. c \<noteq> CHR ''/'') (rev s))"

lemma length_last_component: "length (last_component s) \<le> length s"
  using length_takeWhile_le [of _ "rev s"] by (simp add: last_component_def)

lemma last_component_drop: "last_component s = drop (length s - length (last_component s)) s"
proof -
  have "s = rev (takeWhile (\<lambda>c. c \<noteq> CHR ''/'') (rev s) @ dropWhile (\<lambda>c. c \<noteq> CHR ''/'') (rev s))"
    by (simp only: takeWhile_dropWhile_id rev_rev_ident)
  then have "s = rev (dropWhile (\<lambda>c. c \<noteq> CHR ''/'') (rev s)) @ last_component s"
    by (simp only: rev_append last_component_def)
  then obtain u where u: "s = u @ last_component s" ..
  then have "length s = length u + length (last_component s)"
    by (metis length_append)
  with u show ?thesis by (metis add_diff_cancel_right' append_eq_conv_conj)
qed

lemma findLastOf_slash:
  assumes "fits s"
  shows "findLastOf s ''/'' npos + 1 = word_of_nat (length s - length (last_component s))"
proof -
  have "length (takeWhile (\<lambda>c. c \<notin> set ''/'') (rev s)) + length (dropWhile (\<lambda>c. c \<notin> set ''/'') (rev s))
      = length s"
    by (metis length_append length_rev takeWhile_dropWhile_id)
  moreover have "length (last_component s) = length (takeWhile (\<lambda>c. c \<notin> set ''/'') (rev s))"
    by (simp add: last_component_def)
  ultimately have "length (dropWhile (\<lambda>c. c \<notin> set ''/'') (rev s)) = length s - length (last_component s)"
    by simp
  then show ?thesis by (simp only: findLastOf_npos [OF assms])
qed

lemma project_name_eq:
  assumes "fits s"
  shows "project_name s = Inr (let n = last_component s in
    if length n < 4 then n else take (length n - 4) n)"
proof -
  let ?n = "last_component s"
  let ?p = "length s - length ?n"
  have p: "findLastOf s ''/'' npos + 1 = word_of_nat ?p" by (rule findLastOf_slash [OF assms])
  have n: "?n = drop ?p s" by (rule last_component_drop)
  have e: "str_size s - findLastOf s ''/'' npos - 4 - 1 = word_of_nat (length ?n) - 4"
  proof -
    have "str_size s - findLastOf s ''/'' npos - 4 - 1 = str_size s - (findLastOf s ''/'' npos + 1) - 4"
      by (simp add: algebra_simps)
    also have "str_size s - (findLastOf s ''/'' npos + 1) = word_of_nat (length ?n)"
      using length_last_component [of s] by (simp add: p str_size_def of_nat_diff)
    finally show ?thesis .
  qed
  have u: "unat (word_of_nat (length ?n) - 4 :: size_type)
      = (if length ?n < 4 then length ?n + 2 ^ 64 - 4 else length ?n - 4)"
  proof -
    have "unat (word_of_nat (length ?n) :: size_type) = length ?n"
      by (rule unat_word_of_nat_fits [OF assms length_last_component])
    then show ?thesis by (auto simp: unat_sub_if_size word_size)
  qed
  have "project_name s = substr s (word_of_nat ?p) (word_of_nat (length ?n) - 4)"
    unfolding project_name_def Let_def by (simp only: e p)
  also have "\<dots> = Inr (take (unat (word_of_nat (length ?n) - 4 :: size_type)) (drop ?p s))"
    by (rule substr_ok [OF assms]) simp
  finally have "project_name s = Inr (take (unat (word_of_nat (length ?n) - 4 :: size_type)) ?n)"
    by (simp only: n [symmetric])
  moreover have "length ?n < 2 ^ 64"
    using assms length_last_component [of s] by (simp add: fits_def)
  ultimately show ?thesis by (simp only: u Let_def) simp
qed

lemma selected_new:
  "selected items (new_repo_bits items repos) = filter (\<lambda>i. fst i \<notin> set repos) items"
  by (induction items) (auto simp: selected_def first_match_None)

lemma merge_item_pair:
  "merge_item (pair_json ''directory'' ''sourceurl'' p) = Inr (c_str (fst p), c_str (snd p))"
  by (simp add: merge_item_def pair_json_at get_string_def)

lemma merge_items_pairs:
  "map_result merge_item (map (pair_json ''directory'' ''sourceurl'') ps)
     = Inr (map (\<lambda>p. (c_str (fst p), c_str (snd p))) ps)"
  by (induction ps) (auto simp: merge_item_pair)

lemma mergeList_jobs:
  assumes arg: "arg_from_end 1 opt = Inr (Some f)" and content: "files w f = Some doc"
    and doc: "json_parse_c fin doc = Inr (JArray (map (pair_json ''directory'' ''sourceurl'') ps))"
    and run: "run_batch sched (createRepo spawn)
        (filter (\<lambda>i. fst i \<notin> set repos) (map (\<lambda>p. (c_str (fst p), c_str (snd p))) ps)) = Inr printed"
  shows "mergeList sched fin spawn opt repos w =
    (Inr (repos @ map fst (filter (\<lambda>i. fst i \<notin> set repos) (map (\<lambda>p. (c_str (fst p), c_str (snd p))) ps))),
     w\<lparr>console := console w @ concat printed\<rparr>)"
  using assms
  by (simp add: mergeList_def io_bind_def fopen_read_def json_elements_def merge_items_pairs selected_new
      printf_def Let_def)

text \<open>Merging a list that was exported from the same repositories changes nothing.\<close>

lemma merge_exported:
  assumes "mset results = mset (map (repo_origin spawn) repos)" "\<forall>r\<in>set repos. nul_free r"
    and arg: "arg_from_end 1 opt = Inr (Some f)" and content: "files w f = Some doc"
    and doc: "json_parse_c fin doc = Inr (JArray (map (pair_json ''directory'' ''sourceurl'') results))"
    and fair: "fair_batch sched (createRepo spawn2) []"
  shows "mergeList sched fin spawn2 opt repos w = (Inr repos, w)"
proof -
  have "set results = repo_origin spawn ` set repos"
    using assms(1) by (metis list.set_map set_mset_mset)
  then have none: "filter (\<lambda>i. fst i \<notin> set repos) (map (\<lambda>p. (c_str (fst p), c_str (snd p))) results) = []"
    using assms(2) by (auto simp: filter_empty_conv repo_origin_def)
  have "run_batch sched (createRepo spawn2) [] = Inr []"
    using fair by (simp add: fair_batch_def run_batch_def)
  with mergeList_jobs [OF arg content doc, of sched spawn2 repos "[]"] none show ?thesis by simp
qed

end
