(* ===== verification/Tool_Main.thy ===== *)
theory Tool_Main
  imports Loguru_Args Scan_Directories Command_Pull_Check Command_Update_Report Command_Merge
begin

text \<open>
  \<^verbatim>\<open>main\<close> (\<^verbatim>\<open>src/main.cpp\<close>): registration of the options, the help
  text, the cached list, and the dispatch of the commands, each compared with the last plain
  arguments. What the process gets from outside is one record. A run ends in a return value of
  \<^verbatim>\<open>main\<close> or in a fault; it has no result when the fuel of the scan runs out.
\<close>

section \<open>Comparing commands\<close>

text \<open>The difference of the first two characters that differ after case folding.\<close>

fun strcasecmp_from :: "string \<Rightarrow> string \<Rightarrow> int" where
  "strcasecmp_from [] [] = 0"
| "strcasecmp_from [] (d # t) = - int (byte (to_lower d))"
| "strcasecmp_from (c # s) [] = int (byte (to_lower c))"
| "strcasecmp_from (c # s) (d # t) =
     (if to_lower c = to_lower d then strcasecmp_from s t
      else int (byte (to_lower c)) - int (byte (to_lower d)))"

definition safeStrcasecmp :: "string option \<Rightarrow> string option \<Rightarrow> int" where
  "safeStrcasecmp str1 str2 =
     (case str1 of
        None \<Rightarrow> - 1
      | Some s \<Rightarrow> (case str2 of None \<Rightarrow> - 1 | Some t \<Rightarrow> strcasecmp_from (c_str s) (c_str t)))"

section \<open>The options of the tool\<close>

fun add_usages :: "string list \<Rightarrow> any_option \<Rightarrow> any_option result" where
  "add_usages [] opt = Inr opt"
| "add_usages (l # ls) opt = and_then (addUsage l opt) (add_usages ls)"

definition usage_head :: "string list" where
  "usage_head =
     [''-h  --help                     prints this help'',
      ''    --version                  show version'',
      ''-o  --ouput <filename>         output to file(default to console)'',
      ''-v X                           verbose level'',
      ''-t  --type <type>              reporttype:txt, html(default:txt)'',
      ''-p  --path <path>              path to the reportfolder(default:.)'',
      '''',
      ''Suboptions for scan:'',
      ''-d  --details    - print details for scanning'',
      ''-w --work <path> - working folder'',
      ''               scan'',
      ''               checkForUpdates'',
      ''               savestate <statefile>'',
      ''               pull'',
      ''               genUpdateReport <oldState> [<newState>]'',
      ''               exportList <filename>'',
      ''               mergeList <filename>'',
      '''']"

definition usage_details :: "string list" where
  "usage_details =
     [''detailed explanation:'',
      ''scan - scans directory and it's subdirectories for git repositories'',
      ''checkForUpdates - checks all repositories for updates on the server'',
      ''savestate - stores each latest commit of each repository to a file'',
      ''pull - pull all repositories'',
      ''genUpdateReport - generate list of changes for each repository'',
      ''exportList - exports a list of all repositories with directory and git source url'',
      ''mergeList - import list and create new repositories where needed'']"

definition set_tool_options :: "any_option \<Rightarrow> any_option result" where
  "set_tool_options opt =
     and_then (setFlag (Some ''help'') (Some CHR ''h'') opt) (\<lambda>opt.
     and_then (setFlag (Some ''version'') None opt) (\<lambda>opt.
     and_then (setOption None (Some CHR ''v'') opt) (\<lambda>opt.
     and_then (setFlag (Some ''details'') (Some CHR ''d'') opt) (\<lambda>opt.
     and_then (setOption (Some ''output'') (Some CHR ''o'') opt) (\<lambda>opt.
     and_then (setOption (Some ''path'') (Some CHR ''p'') opt) (\<lambda>opt.
       setOption (Some ''work'') (Some CHR ''w'') opt))))))"

definition tool_options :: "any_option result" where
  "tool_options =
     and_then (add_usages usage_head AnyOption) (\<lambda>opt.
     and_then (add_usages usage_details opt) set_tool_options)"

section \<open>The environment of a run\<close>

type_synonym 'r pair_sched =
  "(string \<Rightarrow> 'r result) \<Rightarrow> string list \<Rightarrow> 'r result list"

record 't tool_env =
  hardware_threads :: nat
  walk_fuel :: nat
  listing :: "string \<Rightarrow> string list option"
  is_directory :: "string \<Rightarrow> bool"
  spawn :: spawner
  template_engine :: "'t engine"
  finite_text :: "string \<Rightarrow> bool"
  float_text :: "string \<Rightarrow> string"
  ndebug :: bool
  check_sched :: "string pair_sched"
  save_sched :: "(string \<times> string) pair_sched"
  pull_sched :: "(string \<times> string) pair_sched"
  export_sched :: "(string \<times> string) pair_sched"
  update_sched ::
    "(string \<times> string \<times> string \<Rightarrow> (string \<times> string) result) \<Rightarrow> (string \<times> string \<times> string) list
     \<Rightarrow> (string \<times> string) result list"
  merge_sched ::
    "(string \<times> string \<Rightarrow> string result) \<Rightarrow> (string \<times> string) list \<Rightarrow> string result list"

section \<open>Dispatch\<close>

definition command_is :: "string \<Rightarrow> nat \<Rightarrow> any_option \<Rightarrow> bool result" where
  "command_is name k opt =
     and_then (arg_from_end k opt) (\<lambda>a. Inr (safeStrcasecmp (Some name) a = 0))"

definition when_command :: "bool result \<Rightarrow> unit io \<Rightarrow> unit io" where
  "when_command test act = io_bind (io_lift test) (\<lambda>b. if b then act else io_return ())"

text \<open>The commands after the scan, each tested in turn.\<close>

definition run_commands :: "'t tool_env \<Rightarrow> any_option \<Rightarrow> string list \<Rightarrow> unit io" where
  "run_commands env opt repos =
     io_bind (when_command (command_is ''checkForUpdates'' 1 opt)
       (checkForUpdatesOnServer (check_sched env) (spawn env) (template_engine env) opt repos)) (\<lambda>_.
     io_bind (when_command (command_is ''saveState'' 2 opt)
       (saveState (save_sched env) (spawn env) (float_text env) opt repos)) (\<lambda>_.
     io_bind (when_command (command_is ''pull'' 1 opt)
       (pullRepositories (pull_sched env) (spawn env) (template_engine env) opt repos)) (\<lambda>_.
     io_bind (when_command
         (and_then (command_is ''genUpdateReport'' 2 opt) (\<lambda>b.
            if b then Inr True else command_is ''genUpdateReport'' 3 opt))
       (generateUpdateReport (update_sched env) (ndebug env) (finite_text env) (spawn env)
          (template_engine env) opt repos)) (\<lambda>_.
     io_bind (when_command (command_is ''exportlist'' 2 opt)
       (exportRepositories (export_sched env) (spawn env) (float_text env) opt repos)) (\<lambda>_.
     when_command (command_is ''mergelist'' 2 opt)
       (io_bind (mergeList (merge_sched env) (finite_text env) (spawn env) opt repos)
          (\<lambda>_. io_return ())))))))"

text \<open>
  Without a list, a command with an argument is refused, except \<^verbatim>\<open>mergelist\<close>; a
  command that is the only plain argument is not.
\<close>

definition no_list_guard :: "any_option \<Rightarrow> string list \<Rightarrow> bool result" where
  "no_list_guard opt repos =
     and_then (arg_from_end 2 opt) (\<lambda>a.
       if a = None then Inr False
       else and_then (command_is ''mergelist'' 2 opt) (\<lambda>m. Inr (\<not> m \<and> repos = [])))"

definition no_list_message :: string where
  "no_list_message =
     ''no repository list found! please first scan and create the list.'' @ [CHR 0x0A]"

text \<open>
  Returning before \<^verbatim>\<open>shutdownJobSystem\<close> destroys the threads while they can still be
  joined, which terminates the process.
\<close>

definition return_without_join :: "'t tool_env \<Rightarrow> int \<Rightarrow> int io" where
  "return_without_join env code =
     (if hardware_threads env = 0 then io_return code else io_fail Std_Terminate)"

definition dispatch :: "'t tool_env \<Rightarrow> any_option \<Rightarrow> string list \<Rightarrow> int io option" where
  "dispatch env opt repos =
     (case command_is ''scan'' 1 opt of
        Inl f \<Rightarrow> Some (io_fail f)
      | Inr True \<Rightarrow>
          map_option (\<lambda>scan. io_bind scan (\<lambda>_. io_bind (run_commands env opt repos) (\<lambda>_. io_return 0)))
            (scanDirectories (walk_fuel env) (listing env) (is_directory env) (template_engine env)
               (float_text env) opt repos)
      | Inr False \<Rightarrow>
          Some (io_bind (io_lift (no_list_guard opt repos)) (\<lambda>stop.
            if stop then io_bind (printf no_list_message) (\<lambda>_. return_without_join env (- 1))
            else io_bind (run_commands env opt repos) (\<lambda>_. io_return 0))))"

section \<open>The whole run\<close>

text \<open>\<open>None\<close> after the help text, else the options and the cached list.\<close>

definition wants_help :: "any_option \<Rightarrow> bool result" where
  "wants_help opt =
     (if \<not> hasoptions opt then Inr True
      else and_then (option_char CHR ''h'' opt) (\<lambda>h. Inr (h \<noteq> None)))"

definition init_logging :: "any_option \<Rightarrow> string list \<Rightarrow> unit result" where
  "init_logging opt args =
     and_then (option_char CHR ''v'' opt) (\<lambda>v.
       if v = None then Inr () else and_then (parse_args args) (\<lambda>_. Inr ()))"

definition tool_start :: "'t tool_env \<Rightarrow> string list \<Rightarrow> (any_option \<times> string list) option io" where
  "tool_start env args =
     io_bind (io_lift (and_then tool_options (processCommandArgs_argv args))) (\<lambda>opt.
     io_bind (io_lift (wants_help opt)) (\<lambda>help.
       if help then
         io_bind (io_lift (printUsage opt)) (\<lambda>opt.
         io_bind (printf (cout opt)) (\<lambda>_. io_return None))
       else
         io_bind (io_lift (init_logging opt args)) (\<lambda>_.
         io_bind (loadGitRepositoriesFromFile (finite_text env) cache_file) (\<lambda>repos.
           io_return (Some (opt, repos))))))"

definition tool_main :: "'t tool_env \<Rightarrow> string list \<Rightarrow> world \<Rightarrow> (int result \<times> world) option" where
  "tool_main env args w =
     (case tool_start env args w of
        (Inl f, w) \<Rightarrow> Some (Inl f, w)
      | (Inr None, w) \<Rightarrow> Some (Inr 0, w)
      | (Inr (Some (opt, repos)), w) \<Rightarrow> map_option (\<lambda>m. m w) (dispatch env opt repos))"

end
