(* ===== verification/Tool_Runs.thy ===== *)
theory Tool_Runs
  imports Tool_Main
begin

text \<open>
  What a run of the tool does, over the tables of its options: the assignments and plain
  arguments of a command line decide between the help text, the refusal without a list, and the
  commands.
\<close>

section \<open>Comparing commands\<close>

lemma byte_eq_iff: "byte c = byte d \<longleftrightarrow> c = d"
  by (metis of_char_eq_iff)

lemma byte_to_lower_pos: "c \<noteq> NUL \<Longrightarrow> 0 < byte (to_lower c)"
  using byte_eq_iff [of c NUL] byte_eq_iff [of "to_lower c" NUL]
  by (auto simp: to_lower_def Let_def split: if_splits)

lemma strcasecmp_from_zero:
  "nul_free s \<Longrightarrow> nul_free t \<Longrightarrow> strcasecmp_from s t = 0 \<longleftrightarrow> map to_lower s = map to_lower t"
proof (induction s t rule: strcasecmp_from.induct)
  case (4 c s d t)
  then show ?case by (auto simp: byte_eq_iff)
qed (auto dest: byte_to_lower_pos)

lemma safeStrcasecmp_zero:
  "safeStrcasecmp a b = 0 \<longleftrightarrow> (\<exists>s t. a = Some s \<and> b = Some t \<and> strcaseeq s t)"
  by (auto simp: safeStrcasecmp_def strcaseeq_def strcasecmp_from_zero split: option.splits)

section \<open>The registered options\<close>

definition tool_long :: "string entry list" where
  "tool_long =
     [(''help'', COMMON_FLAG, 0), (''version'', COMMON_FLAG, 1), (''details'', COMMON_FLAG, 3),
      (''output'', COMMON_OPT, 4), (''path'', COMMON_OPT, 5), (''work'', COMMON_OPT, 6)]"

definition tool_chars :: "char entry list" where
  "tool_chars =
     [(CHR ''h'', COMMON_FLAG, 0), (CHR ''v'', COMMON_OPT, 2), (CHR ''d'', COMMON_FLAG, 3),
      (CHR ''o'', COMMON_OPT, 4), (CHR ''p'', COMMON_OPT, 5), (CHR ''w'', COMMON_OPT, 6)]"

lemma add_usages_ok:
  "fresh opt \<Longrightarrow> \<exists>opt'. add_usages ls opt = Inr opt' \<and> fresh opt'
     \<and> g_value_counter opt' = g_value_counter opt \<and> long_entries opt' = long_entries opt
     \<and> char_entries opt' = char_entries opt \<and> registered_usage opt' = registered_usage opt @ ls"
proof (induction ls arbitrary: opt)
  case (Cons l ls)
  from fresh_addUsage [OF Cons.prems, of l] obtain o1 where
    o1: "addUsage l opt = Inr o1" "fresh o1" "g_value_counter o1 = g_value_counter opt"
      "long_entries o1 = long_entries opt" "char_entries o1 = char_entries opt"
      "registered_usage o1 = registered_usage opt @ [l]" by blast
  with Cons.IH [OF o1(2)] o1 show ?case by auto
qed simp

text \<open>Registration succeeds and gives these tables and the usage lines.\<close>

lemma set_tool_options_ok:
  assumes "fresh opt" "g_value_counter opt = 0" "long_entries opt = []" "char_entries opt = []"
  shows "\<exists>opt'. set_tool_options opt = Inr opt' \<and> fresh opt' \<and> g_value_counter opt' = 7
    \<and> long_entries opt' = tool_long \<and> char_entries opt' = tool_chars
    \<and> registered_usage opt' = registered_usage opt"
proof -
  note e = fresh_set_entry [of _ COMMON_FLAG] fresh_set_entry [of _ COMMON_OPT]
  obtain o1 where 1: "setFlag (Some ''help'') (Some CHR ''h'') opt = Inr o1" "fresh o1" "g_value_counter o1 = 1"
    "long_entries o1 = take 1 tool_long" "char_entries o1 = take 1 tool_chars"
    "registered_usage o1 = registered_usage opt"
    using e(1) [OF assms(1), of "Some ''help''" "Some CHR ''h''"] assms
    by (auto simp: setFlag_def new_long_def new_char_def tool_long_def tool_chars_def)
  obtain o2 where 2: "setFlag (Some ''version'') None o1 = Inr o2" "fresh o2" "g_value_counter o2 = 2"
    "long_entries o2 = take 2 tool_long" "char_entries o2 = take 1 tool_chars"
    "registered_usage o2 = registered_usage opt"
    using e(1) [OF 1(2), of "Some ''version''" None] 1
    by (auto simp: setFlag_def new_long_def new_char_def tool_long_def tool_chars_def)
  obtain o3 where 3: "setOption None (Some CHR ''v'') o2 = Inr o3" "fresh o3" "g_value_counter o3 = 3"
    "long_entries o3 = take 2 tool_long" "char_entries o3 = take 2 tool_chars"
    "registered_usage o3 = registered_usage opt"
    using e(2) [OF 2(2), of None "Some CHR ''v''"] 2
    by (auto simp: setOption_def new_long_def new_char_def tool_long_def tool_chars_def)
  obtain o4 where 4: "setFlag (Some ''details'') (Some CHR ''d'') o3 = Inr o4" "fresh o4" "g_value_counter o4 = 4"
    "long_entries o4 = take 3 tool_long" "char_entries o4 = take 3 tool_chars"
    "registered_usage o4 = registered_usage opt"
    using e(1) [OF 3(2), of "Some ''details''" "Some CHR ''d''"] 3
    by (auto simp: setFlag_def new_long_def new_char_def tool_long_def tool_chars_def)
  obtain o5 where 5: "setOption (Some ''output'') (Some CHR ''o'') o4 = Inr o5" "fresh o5" "g_value_counter o5 = 5"
    "long_entries o5 = take 4 tool_long" "char_entries o5 = take 4 tool_chars"
    "registered_usage o5 = registered_usage opt"
    using e(2) [OF 4(2), of "Some ''output''" "Some CHR ''o''"] 4
    by (auto simp: setOption_def new_long_def new_char_def tool_long_def tool_chars_def)
  obtain o6 where 6: "setOption (Some ''path'') (Some CHR ''p'') o5 = Inr o6" "fresh o6" "g_value_counter o6 = 6"
    "long_entries o6 = take 5 tool_long" "char_entries o6 = take 5 tool_chars"
    "registered_usage o6 = registered_usage opt"
    using e(2) [OF 5(2), of "Some ''path''" "Some CHR ''p''"] 5
    by (auto simp: setOption_def new_long_def new_char_def tool_long_def tool_chars_def)
  obtain o7 where 7: "setOption (Some ''work'') (Some CHR ''w'') o6 = Inr o7" "fresh o7" "g_value_counter o7 = 7"
    "long_entries o7 = tool_long" "char_entries o7 = tool_chars"
    "registered_usage o7 = registered_usage opt"
    using e(2) [OF 6(2), of "Some ''work''" "Some CHR ''w''"] 6
    by (auto simp: setOption_def new_long_def new_char_def tool_long_def tool_chars_def)
  from 1(1) 2(1) 3(1) 4(1) 5(1) 6(1) 7 show ?thesis
    by (simp add: set_tool_options_def)
qed

lemma entries_AnyOption: "long_entries AnyOption = []" "char_entries AnyOption = []"
    "g_value_counter AnyOption = 0"
  by (simp_all add: AnyOption_def init_option_def long_entries_def char_entries_def)

lemma tool_options_ok:
  "\<exists>opt. tool_options = Inr opt \<and> fresh opt \<and> g_value_counter opt = 7
    \<and> long_entries opt = tool_long \<and> char_entries opt = tool_chars
    \<and> registered_usage opt = usage_head @ usage_details"
proof -
  obtain o1 where 1: "add_usages usage_head AnyOption = Inr o1" "fresh o1" "g_value_counter o1 = 0"
    "long_entries o1 = []" "char_entries o1 = []" "registered_usage o1 = usage_head"
    using add_usages_ok [OF fresh_AnyOption, of usage_head]
    by (auto simp: entries_AnyOption registered_usage_AnyOption)
  obtain o2 where 2: "add_usages usage_details o1 = Inr o2" "fresh o2" "g_value_counter o2 = 0"
    "long_entries o2 = []" "char_entries o2 = []" "registered_usage o2 = usage_head @ usage_details"
    using add_usages_ok [OF 1(2), of usage_details] 1 by auto
  from set_tool_options_ok [OF 2(2-5)] 1(1) 2(1,6) show ?thesis
    by (auto simp: tool_options_def)
qed

section \<open>A processed command line\<close>

definition tool_line :: "string list \<Rightarrow> assigns \<times> nat list" where
  "tool_line args = spec_line tool_long tool_chars 1 (tl args)"

text \<open>The value of a slot, and the plain arguments.\<close>

definition tool_value :: "nat \<Rightarrow> string list \<Rightarrow> string option" where
  "tool_value k args = apply_assigns (fst (tool_line args)) (replicate 7 None) ! k"

definition plain_args :: "string list \<Rightarrow> string list" where
  "plain_args args = map ((!) args) (snd (tool_line args))"

definition tool_state :: "any_option \<Rightarrow> string list \<Rightarrow> bool" where
  "tool_state opt args \<longleftrightarrow>
     processed opt args (fst (tool_line args)) (snd (tool_line args))
   \<and> g_value_counter opt = 7 \<and> long_entries opt = tool_long \<and> char_entries opt = tool_chars
   \<and> registered_usage opt = usage_head @ usage_details \<and> cout opt = []"

lemma tool_processed:
  assumes "args \<noteq> []"
  shows "\<exists>opt. and_then tool_options (processCommandArgs_argv args) = Inr opt \<and> tool_state opt args"
proof -
  from tool_options_ok obtain o1 where 1: "tool_options = Inr o1" "fresh o1" "g_value_counter o1 = 7"
    "long_entries o1 = tool_long" "char_entries o1 = tool_chars"
    "registered_usage o1 = usage_head @ usage_details" by blast
  from 1 processCommandArgs_ok [OF 1(2) _ assms, of "fst (tool_line args)" "snd (tool_line args)"]
  obtain o2 where "processCommandArgs_argv args o1 = Inr o2"
    "processed o2 args (fst (tool_line args)) (snd (tool_line args))" "g_value_counter o2 = 7"
    "long_entries o2 = tool_long" "char_entries o2 = tool_chars"
    "registered_usage o2 = usage_head @ usage_details" "cout o2 = cout o1"
    by (auto simp: tool_line_def)
  moreover have "cout o1 = []" using 1(2) by (simp add: fresh_def)
  moreover have "and_then tool_options (processCommandArgs_argv args) = processCommandArgs_argv args o1"
    by (simp only: 1(1) and_then.simps)
  ultimately show ?thesis
    by (intro exI [of _ o2]) (simp only: tool_state_def simp_thms)
qed

definition slot_value :: "nat option \<Rightarrow> string list \<Rightarrow> string option" where
  "slot_value r args = (case r of None \<Rightarrow> None | Some k \<Rightarrow> tool_value k args)"

lemma tool_state_values:
  assumes "tool_state opt args"
  shows "option_char c opt = Inr (slot_value (lookup_slot c tool_chars) args)"
    and "option_value n opt = Inr (slot_value (lookup_slot n tool_long) args)"
    and "hasoptions opt = (1 < length args)"
  using assms getValue_ok [of opt]
  by (auto simp: option_char_def option_value_def slot_value_def tool_state_def processed_def tool_value_def
      split: option.splits)

lemma tool_state_args:
  assumes "tool_state opt args"
  shows "arg_from_end k opt = Inr (if 1 \<le> k \<and> k \<le> length (plain_args args)
    then Some (plain_args args ! (length (plain_args args) - k)) else None)"
  using getArgv_processed [of opt args] getArgc_processed [of opt args] assms
  by (auto simp: arg_from_end_def tool_state_def plain_args_def nat_diff_distrib)

lemma arg_from_end_state: "tool_state opt args \<Longrightarrow> 1 \<le> k \<Longrightarrow> k \<le> length (plain_args args) \<Longrightarrow>
    arg_from_end k opt = Inr (Some (plain_args args ! (length (plain_args args) - k)))"
  by (simp add: tool_state_args)

lemma command_is_state:
  assumes "tool_state opt args" "1 \<le> k"
  shows "command_is name k opt = Inr (k \<le> length (plain_args args)
    \<and> strcaseeq name (plain_args args ! (length (plain_args args) - k)))"
  using assms by (simp add: command_is_def tool_state_args safeStrcasecmp_zero)

section \<open>Plain command lines\<close>

text \<open>No argument starts with a dash: nothing is assigned, all arguments are plain.\<close>

definition plain_line :: "string list \<Rightarrow> bool" where
  "plain_line args \<longleftrightarrow> list_all (\<lambda>a. char_of_arg a 0 \<noteq> CHR ''-'') args"

lemma spec_line_plain:
  "plain_line args \<Longrightarrow> spec_line L C i args = ([], [i..<i + length args])"
proof (induction L C i args rule: spec_line.induct)
  case (3 L C i arg v args)
  then have one: "spec_one L C arg (Some v) = ([], False, True)"
    by (simp add: spec_one_def plain_line_def)
  have "plain_line (v # args)" using 3(3) by (simp add: plain_line_def)
  with 3(2) [OF one [symmetric] refl]
  have "spec_line L C (i + 1) (v # args) = ([], [i + 1..<i + 1 + length (v # args)])" by blast
  with one show ?case by (simp add: upt_conv_Cons del: upt_Suc)
qed (auto simp: spec_one_def plain_line_def)

lemma tool_line_plain: "plain_line as \<Longrightarrow> tool_line (prog # as) = ([], [1..<1 + length as])"
  by (simp add: tool_line_def spec_line_plain)

lemma plain_args_plain: "plain_line as \<Longrightarrow> plain_args (prog # as) = as"
  unfolding plain_args_def tool_line_plain
  by (rule nth_equalityI) (simp_all add: tool_line_plain del: upt_Suc)

lemma tool_value_plain: "plain_line as \<Longrightarrow> k < 7 \<Longrightarrow> tool_value k (prog # as) = None"
  by (simp add: tool_value_def tool_line_plain)

section \<open>How a run starts\<close>

lemmas tool_lookups =
  lookup_slot_def tool_chars_def tool_long_def slot_value_def

definition help_output :: string where
  "help_output = [CHR 0x0A] @ concat (map (\<lambda>l. l @ [CHR 0x0A]) (usage_head @ usage_details)) @ [CHR 0x0A]"

lemma tool_main_help:
  assumes "args \<noteq> []" "length args = 1 \<or> tool_value 0 args \<noteq> None"
  shows "tool_main env args w = Some (Inr 0, w\<lparr>console := console w @ help_output\<rparr>)"
proof -
  from tool_processed [OF assms(1)] obtain opt where
    opt: "and_then tool_options (processCommandArgs_argv args) = Inr opt" "tool_state opt args" by blast
  have "wants_help opt = Inr True"
    using assms tool_state_values(1) [OF opt(2), of "CHR ''h''"] tool_state_values(3) [OF opt(2)]
    by (auto simp: wants_help_def tool_lookups)
  moreover have "printUsage opt = Inr (opt\<lparr>once := False, cout := help_output\<rparr>)"
    using printUsage_registered [of opt] opt(2) by (simp add: tool_state_def processed_def help_output_def)
  ultimately show ?thesis
    by (simp add: tool_main_def tool_start_def opt(1) printf_def io_bind_def)
qed

lemma tool_main_start:
  assumes "1 < length args" "tool_value 0 args = None" "tool_value 2 args = None"
    and ld: "loadGitRepositoriesFromFile (finite_text env) cache_file w = (Inr repos, w)"
  shows "\<exists>opt. tool_state opt args
    \<and> tool_main env args w = map_option (\<lambda>m. m w) (dispatch env opt repos)"
proof -
  have "args \<noteq> []" using assms(1) by auto
  from tool_processed [OF this] obtain opt where
    opt: "and_then tool_options (processCommandArgs_argv args) = Inr opt" "tool_state opt args" by blast
  have "wants_help opt = Inr False" "init_logging opt args = Inr ()"
    using assms tool_state_values(1) [OF opt(2), of "CHR ''h''"] tool_state_values(1) [OF opt(2), of "CHR ''v''"]
      tool_state_values(3) [OF opt(2)]
    by (auto simp: wants_help_def init_logging_def tool_lookups)
  then have "tool_main env args w = map_option (\<lambda>m. m w) (dispatch env opt repos)"
    by (simp add: tool_main_def tool_start_def opt(1) io_bind_def ld)
  with opt(2) show ?thesis by blast
qed

lemma tool_main_bad_cache:
  assumes "1 < length args" "tool_value 0 args = None" "tool_value 2 args = None"
    and ld: "loadGitRepositoriesFromFile (finite_text env) cache_file w = (Inl f, w)"
  shows "tool_main env args w = Some (Inl f, w)"
proof -
  have "args \<noteq> []" using assms(1) by auto
  from tool_processed [OF this] obtain opt where
    opt: "and_then tool_options (processCommandArgs_argv args) = Inr opt" "tool_state opt args" by blast
  have "wants_help opt = Inr False" "init_logging opt args = Inr ()"
    using assms tool_state_values(1) [OF opt(2), of "CHR ''h''"] tool_state_values(1) [OF opt(2), of "CHR ''v''"]
      tool_state_values(3) [OF opt(2)]
    by (auto simp: wants_help_def init_logging_def tool_lookups)
  then show ?thesis
    by (simp add: tool_main_def tool_start_def opt(1) io_bind_def ld)
qed

section \<open>Dispatch\<close>

lemma dispatch_no_scan:
  assumes "tool_state opt args" "command_is ''scan'' 1 opt = Inr False"
  shows "dispatch env opt repos = Some (
    if 2 \<le> length (plain_args args)
       \<and> \<not> strcaseeq ''mergelist'' (plain_args args ! (length (plain_args args) - 2)) \<and> repos = []
    then io_bind (printf no_list_message) (\<lambda>_. return_without_join env (- 1))
    else io_bind (run_commands env opt repos) (\<lambda>_. io_return 0))"
  using assms(2) tool_state_args [OF assms(1), of 2] command_is_state [OF assms(1), of 2]
  by (simp add: dispatch_def no_list_guard_def)

lemma when_command_simps [simp]:
  "when_command (Inr True) act = act" "when_command (Inr False) act = io_return ()"
  by (auto simp: when_command_def fun_eq_iff)

text \<open>Two plain arguments: a command and its file.\<close>

definition is_any :: "string list \<Rightarrow> string \<Rightarrow> bool" where
  "is_any names s \<longleftrightarrow> list_ex (\<lambda>n. strcaseeq n s) names"

lemma strcaseeq_unique:
  "strcaseeq n s \<Longrightarrow> \<not> strcaseeq n m \<Longrightarrow> \<not> strcaseeq m s"
  by (simp add: strcaseeq_def)

text \<open>The words \<^verbatim>\<open>main\<close> compares the last argument with.\<close>

definition last_words :: "string list" where
  "last_words = [''scan'', ''checkForUpdates'', ''pull'']"

lemma tool_words_distinct:
  "\<not> strcaseeq ''saveState'' ''genUpdateReport''" "\<not> strcaseeq ''saveState'' ''exportlist''"
  "\<not> strcaseeq ''saveState'' ''mergelist''" "\<not> strcaseeq ''genUpdateReport'' ''saveState''"
  "\<not> strcaseeq ''genUpdateReport'' ''exportlist''" "\<not> strcaseeq ''genUpdateReport'' ''mergelist''"
  "\<not> strcaseeq ''exportlist'' ''saveState''" "\<not> strcaseeq ''exportlist'' ''genUpdateReport''"
  "\<not> strcaseeq ''exportlist'' ''mergelist''" "\<not> strcaseeq ''mergelist'' ''saveState''"
  "\<not> strcaseeq ''mergelist'' ''genUpdateReport''" "\<not> strcaseeq ''mergelist'' ''exportlist''"
  by code_simp+

lemma io_bind_unit [simp]: "io_bind m (\<lambda>_. io_return ()) = m" "io_bind m (\<lambda>_. Pair (Inr ())) = m"
    "io_bind m io_return = m"
    "io_bind (Pair (Inr x)) f = f x"
  by (auto simp: io_bind_def fun_eq_iff split: prod.splits sum.splits)

lemma command_words_differ:
  "strcaseeq ''saveState'' c \<Longrightarrow> \<not> strcaseeq ''genUpdateReport'' c \<and> \<not> strcaseeq ''exportlist'' c
     \<and> \<not> strcaseeq ''mergelist'' c"
  "strcaseeq ''exportlist'' c \<Longrightarrow> \<not> strcaseeq ''genUpdateReport'' c \<and> \<not> strcaseeq ''saveState'' c
     \<and> \<not> strcaseeq ''mergelist'' c"
  "strcaseeq ''genUpdateReport'' c \<Longrightarrow> \<not> strcaseeq ''exportlist'' c \<and> \<not> strcaseeq ''saveState'' c
     \<and> \<not> strcaseeq ''mergelist'' c"
  "strcaseeq ''mergelist'' c \<Longrightarrow> \<not> strcaseeq ''exportlist'' c \<and> \<not> strcaseeq ''saveState'' c
     \<and> \<not> strcaseeq ''genUpdateReport'' c"
  using strcaseeq_unique [of _ c] tool_words_distinct by blast+

lemma command_last:
  assumes "tool_state opt args" "plain_args args \<noteq> []"
  shows "command_is name 1 opt = Inr (strcaseeq name (last (plain_args args)))"
  using assms command_is_state [OF assms(1), of 1 name]
  by (cases "plain_args args") (simp_all add: last_conv_nth)

lemma not_last_words:
  "\<not> is_any last_words a \<Longrightarrow> \<not> strcaseeq ''scan'' a \<and> \<not> strcaseeq ''checkForUpdates'' a \<and> \<not> strcaseeq ''pull'' a"
  by (simp add: is_any_def last_words_def)

text \<open>A command with one argument.\<close>

lemma run_commands_two:
  assumes st: "tool_state opt args" and pl: "plain_args args = [c, a]" and a: "\<not> is_any last_words a"
  shows "strcaseeq ''saveState'' c \<Longrightarrow> run_commands env opt repos =
      saveState (save_sched env) (spawn env) (float_text env) opt repos"
    and "strcaseeq ''exportlist'' c \<Longrightarrow> run_commands env opt repos =
      exportRepositories (export_sched env) (spawn env) (float_text env) opt repos"
    and "strcaseeq ''genUpdateReport'' c \<Longrightarrow> run_commands env opt repos =
      generateUpdateReport (update_sched env) (ndebug env) (finite_text env) (spawn env)
        (template_engine env) opt repos"
    and "strcaseeq ''mergelist'' c \<Longrightarrow> run_commands env opt repos =
      io_bind (mergeList (merge_sched env) (finite_text env) (spawn env) opt repos) (\<lambda>_. io_return ())"
proof -
  have l: "command_is ''checkForUpdates'' 1 opt = Inr False" "command_is ''pull'' 1 opt = Inr False"
    "command_is ''genUpdateReport'' 3 opt = Inr False"
    using not_last_words [OF a] command_is_state [OF st] pl by simp_all
  have c: "command_is n 2 opt = Inr (strcaseeq n c)" for n
    using command_is_state [OF st, of 2 n] pl by simp
  note d = command_words_differ [of c]
  show "strcaseeq ''saveState'' c \<Longrightarrow> run_commands env opt repos =
      saveState (save_sched env) (spawn env) (float_text env) opt repos"
    using d(1) by (simp add: run_commands_def l c del: One_nat_def)
  show "strcaseeq ''exportlist'' c \<Longrightarrow> run_commands env opt repos =
      exportRepositories (export_sched env) (spawn env) (float_text env) opt repos"
    using d(2) by (simp add: run_commands_def l c del: One_nat_def)
  show "strcaseeq ''genUpdateReport'' c \<Longrightarrow> run_commands env opt repos =
      generateUpdateReport (update_sched env) (ndebug env) (finite_text env) (spawn env)
        (template_engine env) opt repos"
    using d(3) by (simp add: run_commands_def l c del: One_nat_def)
  show "strcaseeq ''mergelist'' c \<Longrightarrow> run_commands env opt repos =
      io_bind (mergeList (merge_sched env) (finite_text env) (spawn env) opt repos) (\<lambda>_. io_return ())"
    using d(4) by (simp add: run_commands_def l c del: One_nat_def)
qed

lemma dispatch_two:
  assumes st: "tool_state opt args" and pl: "plain_args args = [c, a]" and a: "\<not> is_any last_words a"
  shows "repos \<noteq> [] \<or> strcaseeq ''mergelist'' c \<Longrightarrow>
      dispatch env opt repos = Some (io_bind (run_commands env opt repos) (\<lambda>_. io_return 0))"
    and "repos = [] \<Longrightarrow> \<not> strcaseeq ''mergelist'' c \<Longrightarrow>
      dispatch env opt repos = Some (io_bind (printf no_list_message) (\<lambda>_. return_without_join env (- 1)))"
proof -
  have "command_is ''scan'' 1 opt = Inr False"
    using not_last_words [OF a] command_is_state [OF st, of 1 "''scan''"] pl by simp
  note d = dispatch_no_scan [OF st this]
  show "repos \<noteq> [] \<or> strcaseeq ''mergelist'' c \<Longrightarrow>
      dispatch env opt repos = Some (io_bind (run_commands env opt repos) (\<lambda>_. io_return 0))"
    by (auto simp: d pl)
  show "repos = [] \<Longrightarrow> \<not> strcaseeq ''mergelist'' c \<Longrightarrow>
      dispatch env opt repos = Some (io_bind (printf no_list_message) (\<lambda>_. return_without_join env (- 1)))"
    by (simp add: d pl)
qed

section \<open>Whole runs\<close>

text \<open>A command with one argument, no options, and a readable list.\<close>

definition two_args :: "string list \<Rightarrow> string \<Rightarrow> string \<Rightarrow> bool" where
  "two_args args c a \<longleftrightarrow> length args = 3 \<and> tl args = [c, a] \<and> plain_line [c, a] \<and> \<not> is_any last_words a"

lemma tool_main_two:
  assumes "two_args args c a"
    and ld: "loadGitRepositoriesFromFile (finite_text env) cache_file w = (Inr repos, w)"
  shows "\<exists>opt. tool_state opt args \<and> plain_args args = [c, a]
    \<and> tool_main env args w = map_option (\<lambda>m. m w) (dispatch env opt repos)"
proof -
  obtain prog where args: "args = prog # [c, a]" and pl: "plain_line [c, a]"
    using assms(1) by (cases args) (auto simp: two_args_def)
  from tool_main_start [OF _ _ _ ld, of args] show ?thesis
    by (auto simp: args plain_args_plain [OF pl] tool_value_plain [OF pl])
qed

lemma run_refused:
  assumes "two_args args c a" "\<not> strcaseeq ''mergelist'' c" "files w cache_file = None"
  shows "tool_main env args w =
    Some (if hardware_threads env = 0 then Inr (- 1) else Inl Std_Terminate,
          w\<lparr>console := console w @ no_list_message\<rparr>)"
proof -
  from tool_main_two [OF assms(1) load_missing [where w = w and n = cache_file, OF assms(3)], of env] obtain opt where
    st: "tool_state opt args" "plain_args args = [c, a]"
      "tool_main env args w = map_option (\<lambda>m. m w) (dispatch env opt [])" by blast
  then show ?thesis
    using assms(1,2) dispatch_two(2) [OF st(1,2), of "[]" env]
    by (simp add: two_args_def printf_def io_bind_def return_without_join_def io_fail_def)
qed

lemma run_two:
  assumes "two_args args c a"
    and ld: "loadGitRepositoriesFromFile (finite_text env) cache_file w = (Inr repos, w)"
    and "repos \<noteq> [] \<or> strcaseeq ''mergelist'' c"
  shows "\<exists>opt. tool_state opt args \<and> plain_args args = [c, a]
    \<and> tool_main env args w = Some (io_bind (run_commands env opt repos) (\<lambda>_. io_return 0) w)"
proof -
  from tool_main_two [OF assms(1) ld] obtain opt where
    st: "tool_state opt args" "plain_args args = [c, a]"
      "tool_main env args w = map_option (\<lambda>m. m w) (dispatch env opt repos)" by blast
  then show ?thesis
    using assms(1,3) dispatch_two(1) [OF st(1,2), of repos env]
    by (intro exI [of _ opt]) (simp add: two_args_def)
qed

lemma last_arg: "tool_state opt args \<Longrightarrow> plain_args args = [c, a] \<Longrightarrow> arg_from_end 1 opt = Inr (Some a)"
  by (simp add: tool_state_args)

lemma run_saveState:
  assumes "two_args args c f" "strcaseeq ''saveState'' c"
    and ld: "loadGitRepositoriesFromFile (finite_text env) cache_file w = (Inr repos, w)" and "repos \<noteq> []"
    and fair: "fair_batch (save_sched env) (saveStateSingleRepo (spawn env)) repos"
    and ok: "\<forall>r\<in>set repos. git_ok (spawn env) r rev_parse \<and> pair_utf8 (repo_state (spawn env) r)"
    and w: "writable w f"
  shows "\<exists>results w'. tool_main env args w = Some (Inr 0, w')
    \<and> mset results = mset (map (repo_state (spawn env)) repos) \<and> console w' = console w \<and> writable w' = writable w
    \<and> (\<forall>m. m \<noteq> f \<longrightarrow> files w' m = files w m)
    \<and> loadState fin (Some f) w' = (Inr (JArray (map (pair_json ''repoPath'' ''revision'') results)), w')"
proof -
  from run_two [OF assms(1) ld] assms(4) obtain opt where
    st: "tool_state opt args" "plain_args args = [c, f]"
      "tool_main env args w = Some (io_bind (run_commands env opt repos) (\<lambda>_. io_return 0) w)" by blast
  have "run_commands env opt repos = saveState (save_sched env) (spawn env) (float_text env) opt repos"
    using run_commands_two(1) [OF st(1,2)] assms(1,2) by (simp add: two_args_def)
  with st(3) saveState_ok [OF fair ok last_arg [OF st(1,2)] w, of "float_text env" fin] show ?thesis
    by (auto simp: io_bind_def)
qed

lemma run_exportlist:
  assumes "two_args args c f" "strcaseeq ''exportlist'' c"
    and ld: "loadGitRepositoriesFromFile (finite_text env) cache_file w = (Inr repos, w)" and "repos \<noteq> []"
    and fair: "fair_batch (export_sched env) (exportSingleRepo (spawn env)) repos"
    and ok: "\<forall>r\<in>set repos. git_ok (spawn env) r get_origin \<and> pair_utf8 (repo_origin (spawn env) r)"
    and w: "writable w f"
  shows "\<exists>results doc. tool_main env args w = Some (Inr 0, w\<lparr>files := (files w)(f \<mapsto> doc)\<rparr>)
    \<and> mset results = mset (map (repo_origin (spawn env)) repos)
    \<and> json_parse_c fin doc = Inr (JArray (map (pair_json ''directory'' ''sourceurl'') results))"
proof -
  from run_two [OF assms(1) ld] assms(4) obtain opt where
    st: "tool_state opt args" "plain_args args = [c, f]"
      "tool_main env args w = Some (io_bind (run_commands env opt repos) (\<lambda>_. io_return 0) w)" by blast
  have "run_commands env opt repos = exportRepositories (export_sched env) (spawn env) (float_text env) opt repos"
    using run_commands_two(2) [OF st(1,2)] assms(1,2) by (simp add: two_args_def)
  moreover from exportRepositories_ok [OF fair ok last_arg [OF st(1,2)] w, of "float_text env" fin]
  obtain results doc where
    "exportRepositories (export_sched env) (spawn env) (float_text env) opt repos w
      = (Inr (), w\<lparr>files := (files w)(f \<mapsto> doc)\<rparr>)"
    "mset results = mset (map (repo_origin (spawn env)) repos)"
    "json_parse_c fin doc = Inr (JArray (map (pair_json ''directory'' ''sourceurl'') results))" by blast
  ultimately show ?thesis
    using st(3) by (intro exI [of _ results] exI [of _ doc]) (simp add: io_bind_def)
qed

lemma run_update_report_one_state:
  assumes "two_args args c f" "strcaseeq ''genUpdateReport'' c"
    and ld: "loadGitRepositoriesFromFile (finite_text env) cache_file w = (Inr repos, w)" and "repos \<noteq> []"
  shows "tool_main env args w = Some (Inl Null_Pointer, w)"
proof -
  from run_two [OF assms(1) ld] assms(4) obtain opt where
    st: "tool_state opt args" "plain_args args = [c, f]"
      "tool_main env args w = Some (io_bind (run_commands env opt repos) (\<lambda>_. io_return 0) w)" by blast
  have "length (snd (tool_line args)) \<le> 2"
    using st(2) by (metis length_Cons length_map list.size(3) numeral_2_eq_2 order_refl plain_args_def)
  moreover have "processed opt args (fst (tool_line args)) (snd (tool_line args))"
    using st(1) by (simp add: tool_state_def)
  moreover have "run_commands env opt repos = generateUpdateReport (update_sched env) (ndebug env)
      (finite_text env) (spawn env) (template_engine env) opt repos"
    using run_commands_two(3) [OF st(1,2)] assms(1,2) by (simp add: two_args_def)
  ultimately show ?thesis
    using st(3) by (simp add: io_bind_def generateUpdateReport_one_state)
qed

section \<open>Ways to give the working folder\<close>

lemma split_position_work: "split_position (''work='' @ x) = 4"
  by (simp add: split_position_def)

lemma tool_line_work:
  "tool_line [prog, ''-w'', x] = ([(6, x)], [])"
  "tool_line [prog, ''--work'', x] = ([(6, x)], [])"
  "tool_line [prog, ''--work='' @ x] = ([(6, x)], [])"
  "x \<noteq> [] \<Longrightarrow> hd x \<notin> set '' ='' \<Longrightarrow> tool_line [prog, ''-w'' @ x] = ([(6, x)], [])"
proof -
  show "tool_line [prog, ''-w'', x] = ([(6, x)], [])"
    by (simp add: tool_line_def spec_one_def char_of_arg_def lookup_type_def tool_lookups
        is_option_type_def command_type_def is_flag_type_def assign_slot_def)
  show "tool_line [prog, ''--work'', x] = ([(6, x)], [])"
    by (simp add: tool_line_def spec_one_def char_of_arg_def spec_gnu_def spec_name_def split_position_def
        lookup_type_def tool_lookups is_option_type_def command_type_def is_flag_type_def assign_slot_def Let_def)
  show "tool_line [prog, ''--work='' @ x] = ([(6, x)], [])"
    using split_position_work [of x]
    by (simp add: tool_line_def spec_one_def char_of_arg_def spec_gnu_def spec_name_def
        lookup_type_def tool_lookups is_option_type_def command_type_def is_flag_type_def assign_slot_def Let_def
        numeral_eq_Suc)
  assume x: "x \<noteq> []" "hd x \<notin> set '' =''"
  then show "tool_line [prog, ''-w'' @ x] = ([(6, x)], [])"
    by (cases x) (auto simp: tool_line_def spec_one_def char_of_arg_def
        lookup_type_def tool_lookups is_option_type_def command_type_def is_flag_type_def assign_slot_def)
qed

lemma working_directory_forms:
  assumes "tool_state opt args" "tool_line args = ([(6, x)], ps)"
  shows "working_directory opt = Inr x"
  using assms(2) tool_state_values [OF assms(1)]
  by (simp add: working_directory_def tool_lookups tool_value_def apply_assigns_def)

end
