(* ===== verification/Tool_Pipelines.thy ===== *)
theory Tool_Pipelines
  imports Tool_Runs
begin

text \<open>
  Runs of the tool that depend on one another through the files they leave: the scan and the
  cached list, two saved states and the report of the commits between them, an exported list and
  its merge.
\<close>

section \<open>Files carry over\<close>

lemma load_repos_other:
  assumes "loadGitRepositoriesFromFile fin n w = (Inr repos, w)" "files w' n = files w n"
  shows "loadGitRepositoriesFromFile fin n w' = (Inr repos, w')"
  using assms by (auto simp: loadGitRepositoriesFromFile_def io_bind_def fopen_read_def split: option.splits)

lemma loadState_other:
  assumes "loadState fin (Some n) w = (Inr j, w)" "files w' n = files w n"
  shows "loadState fin (Some n) w' = (Inr j, w')"
proof (cases "files w n")
  case None
  have "console (w\<lparr>console := console w @ s\<rparr>) = console w \<Longrightarrow> s = []" for s :: string by simp
  then have "w\<lparr>console := console w @ s\<rparr> \<noteq> w" if "s \<noteq> []" for s :: string using that by metis
  with None assms(1) show ?thesis
    by (auto simp: loadState_def io_bind_def fopen_read_def printf_def)
next
  case (Some d)
  with assms show ?thesis
    by (auto simp: loadState_def io_bind_def fopen_read_def)
qed

section \<open>One argument\<close>

lemma run_commands_one:
  assumes st: "tool_state opt args" and pl: "plain_args args = [c]"
  shows "run_commands env opt repos =
    io_bind (if strcaseeq ''checkForUpdates'' c
             then checkForUpdatesOnServer (check_sched env) (spawn env) (template_engine env) opt repos
             else io_return ()) (\<lambda>_.
      if strcaseeq ''pull'' c
      then pullRepositories (pull_sched env) (spawn env) (template_engine env) opt repos
      else io_return ())"
proof -
  have "command_is n 1 opt = Inr (strcaseeq n c)" "command_is n 2 opt = Inr False"
    "command_is n 3 opt = Inr False" for n
    using command_is_state [OF st] pl by simp_all
  then show ?thesis
    by (simp add: run_commands_def del: One_nat_def) (simp add: fun_eq_iff)
qed

lemma dispatch_one:
  assumes st: "tool_state opt args" and pl: "plain_args args = [c]"
  shows "\<not> strcaseeq ''scan'' c \<Longrightarrow>
      dispatch env opt repos = Some (io_bind (run_commands env opt repos) (\<lambda>_. io_return 0))"
    and "strcaseeq ''scan'' c \<Longrightarrow> dispatch env opt repos =
      map_option (\<lambda>scan. io_bind scan (\<lambda>_. io_return 0))
        (scanDirectories (walk_fuel env) (listing env) (is_directory env) (template_engine env)
          (float_text env) opt repos)"
proof -
  have s: "command_is ''scan'' 1 opt = Inr (strcaseeq ''scan'' c)"
    using command_is_state [OF st, of 1] pl by simp
  show "\<not> strcaseeq ''scan'' c \<Longrightarrow>
      dispatch env opt repos = Some (io_bind (run_commands env opt repos) (\<lambda>_. io_return 0))"
    using dispatch_no_scan [OF st] s pl by simp
  assume c: "strcaseeq ''scan'' c"
  have "\<not> strcaseeq ''scan'' ''checkForUpdates''" "\<not> strcaseeq ''scan'' ''pull''"
    by code_simp+
  then have "\<not> strcaseeq ''checkForUpdates'' c" "\<not> strcaseeq ''pull'' c"
    using strcaseeq_unique [OF c] by blast+
  then show "dispatch env opt repos =
      map_option (\<lambda>scan. io_bind scan (\<lambda>_. io_return 0))
        (scanDirectories (walk_fuel env) (listing env) (is_directory env) (template_engine env)
          (float_text env) opt repos)"
    using s c by (simp add: dispatch_def run_commands_one [OF st pl] del: One_nat_def io_simps(1))
qed

lemma run_one:
  assumes "args = [prog, c]" "plain_line [c]"
    and ld: "loadGitRepositoriesFromFile (finite_text env) cache_file w = (Inr repos, w)"
  shows "\<exists>opt. tool_state opt args \<and> plain_args args = [c]
    \<and> tool_main env args w = map_option (\<lambda>m. m w) (dispatch env opt repos)"
  using tool_main_start [OF _ _ _ ld, of args] plain_args_plain [OF assms(2)] tool_value_plain [OF assms(2)]
  by (auto simp: assms(1))

section \<open>Scanning\<close>

lemma run_scan_posix:
  assumes "args = [prog, c]" "plain_line [c]" "strcaseeq ''scan'' c"
    and ld: "loadGitRepositoriesFromFile (finite_text env) cache_file w = (Inr repos, w)"
    and l: "posix_listing (listing env)" "names_without_backslash (listing env)"
    and walk: "scan_loop (walk_fuel env) (listing env) (is_directory env) [''.''] [] = Some (Inr new)"
    and w: "writable w cache_file"
  shows "\<exists>w'. tool_main env args w = Some (Inr 0, w') \<and> console w' = console w
    \<and> (\<forall>n. n \<noteq> cache_file \<longrightarrow> files w' n = files w n)
    \<and> loadGitRepositoriesFromFile (finite_text env) cache_file w' = (Inr [], w')"
proof -
  from run_one [OF assms(1,2) ld] obtain opt where
    st: "tool_state opt args" "plain_args args = [c]"
      "tool_main env args w = map_option (\<lambda>m. m w) (dispatch env opt repos)" by blast
  have tv: "tool_value k args = None" if "k < 7" for k
    using tool_value_plain [OF assms(2) that] by (simp add: assms(1))
  have "new = []"
    using scan_loop_no_repos [OF l _ walk] by (simp add: walk_ok_def no_backslash_def)
  moreover have "working_directory opt = Inr ''.''" "wants_details opt = Inr False"
    using tv by (simp_all add: working_directory_def wants_details_def tool_state_values [OF st(1)]
        tool_lookups findFlag_def)
  ultimately have "scanDirectories (walk_fuel env) (listing env) (is_directory env) (template_engine env)
      (float_text env) opt repos = Some (saveGitRepositoriesToFile (float_text env) [])"
    using walk by (simp add: scanDirectories_def scan_output_def)
  moreover obtain w' where "saveGitRepositoriesToFile (float_text env) [] w = (Inr (), w')"
    "console w' = console w" "\<forall>n. n \<noteq> cache_file \<longrightarrow> files w' n = files w n"
    "loadGitRepositoriesFromFile (finite_text env) cache_file w' = (Inr [], w')"
    using save_load [of "[]" w "float_text env" "finite_text env"] w by auto
  ultimately show ?thesis
    using st dispatch_one(2) [OF st(1,2), of env repos] assms(3) by (simp add: io_bind_def)
qed

lemma io_bind_at: "m w = n w \<Longrightarrow> io_bind m f w = io_bind n f w"
  by (simp add: io_bind_def)

section \<open>Two states and the report between them\<close>

definition report_args :: "string list \<Rightarrow> string \<Rightarrow> string \<Rightarrow> string \<Rightarrow> bool" where
  "report_args args c f g \<longleftrightarrow>
     length args = 4 \<and> tl args = [c, f, g] \<and> plain_line [c, f, g] \<and> strcaseeq ''genUpdateReport'' c
   \<and> \<not> is_any last_words g \<and> \<not> is_any [''saveState'', ''genUpdateReport'', ''exportlist'', ''mergelist''] f"

lemma run_report_two_states:
  assumes args: "report_args args c f g"
    and ld: "loadGitRepositoriesFromFile (finite_text env) cache_file w = (Inr repos, w)" and ne: "repos \<noteq> []"
  shows "\<exists>opt. tool_state opt args \<and> plain_args args = [c, f, g]
    \<and> tool_main env args w = Some (io_bind
        (generateUpdateReport (update_sched env) (ndebug env) (finite_text env) (spawn env)
          (template_engine env) opt repos) (\<lambda>_. io_return 0) w)"
proof -
  obtain prog where p: "args = prog # [c, f, g]" and pl: "plain_line [c, f, g]"
    using args by (cases args) (auto simp: report_args_def)
  from tool_main_start [OF _ _ _ ld, of args] obtain opt where
    st: "tool_state opt args" "plain_args args = [c, f, g]"
      "tool_main env args w = map_option (\<lambda>m. m w) (dispatch env opt repos)"
    by (auto simp: p plain_args_plain [OF pl] tool_value_plain [OF pl])
  have c: "command_is n 1 opt = Inr (strcaseeq n g)" "command_is n 2 opt = Inr (strcaseeq n f)"
    "command_is n 3 opt = Inr (strcaseeq n c)" for n
    using command_is_state [OF st(1)] st(2) by simp_all
  have "run_commands env opt repos = generateUpdateReport (update_sched env) (ndebug env) (finite_text env)
      (spawn env) (template_engine env) opt repos"
    using args not_last_words [of g] by (simp add: run_commands_def c report_args_def is_any_def del: One_nat_def)
  moreover have "dispatch env opt repos = Some (io_bind (run_commands env opt repos) (\<lambda>_. io_return 0))"
    using dispatch_no_scan [OF st(1), of env repos] c(1) not_last_words [of g] args ne
    by (simp add: report_args_def)
  ultimately show ?thesis
    using st by (intro exI [of _ opt]) simp
qed

text \<open>Two runs of \<^verbatim>\<open>saveState\<close> leave two files that can be read back.\<close>

lemma two_saves:
  assumes a1: "two_args args1 c1 f" "strcaseeq ''saveState'' c1"
    and a2: "two_args args2 c2 g" "strcaseeq ''saveState'' c2"
    and fin: "finite_text env2 = finite_text env1"
    and ld: "loadGitRepositoriesFromFile (finite_text env1) cache_file w = (Inr repos, w)" and ne: "repos \<noteq> []"
    and names: "f \<noteq> g" "f \<noteq> cache_file" "g \<noteq> cache_file" and wr: "writable w f" "writable w g"
    and s1: "fair_batch (save_sched env1) (saveStateSingleRepo (spawn env1)) repos"
      "\<forall>r\<in>set repos. git_ok (spawn env1) r rev_parse \<and> pair_utf8 (repo_state (spawn env1) r)"
    and s2: "fair_batch (save_sched env2) (saveStateSingleRepo (spawn env2)) repos"
      "\<forall>r\<in>set repos. git_ok (spawn env2) r rev_parse \<and> pair_utf8 (repo_state (spawn env2) r)"
  shows "\<exists>w1 w2 olds news. tool_main env1 args1 w = Some (Inr 0, w1) \<and> tool_main env2 args2 w1 = Some (Inr 0, w2)
    \<and> mset olds = mset (map (repo_state (spawn env1)) repos) \<and> mset news = mset (map (repo_state (spawn env2)) repos)
    \<and> loadState (finite_text env1) (Some f) w2 = (Inr (JArray (map (pair_json ''repoPath'' ''revision'') olds)), w2)
    \<and> loadState (finite_text env1) (Some g) w2 = (Inr (JArray (map (pair_json ''repoPath'' ''revision'') news)), w2)
    \<and> loadGitRepositoriesFromFile (finite_text env1) cache_file w2 = (Inr repos, w2)
    \<and> console w2 = console w \<and> writable w2 = writable w
    \<and> (\<forall>m. m \<noteq> f \<and> m \<noteq> g \<longrightarrow> files w2 m = files w m)"
proof -
  let ?pairs = "\<lambda>rs. JArray (map (pair_json ''repoPath'' ''revision'') rs)"
  from run_saveState [OF a1 ld ne s1 wr(1), of "finite_text env1"] obtain r1 w1 where
    1: "tool_main env1 args1 w = Some (Inr 0, w1)" "mset r1 = mset (map (repo_state (spawn env1)) repos)"
      "console w1 = console w" "writable w1 = writable w"
      "\<forall>m. m \<noteq> f \<longrightarrow> files w1 m = files w m" "loadState (finite_text env1) (Some f) w1 = (Inr (?pairs r1), w1)"
    by blast
  have ld1: "loadGitRepositoriesFromFile (finite_text env2) cache_file w1 = (Inr repos, w1)"
    using load_repos_other [OF ld, of w1] 1(5) names(2) fin(1) by simp
  have "writable w1 g" using wr(2) 1(4) by simp
  from run_saveState [OF a2 ld1 ne s2 this, of "finite_text env1"] obtain r2 w2 where
    2: "tool_main env2 args2 w1 = Some (Inr 0, w2)" "mset r2 = mset (map (repo_state (spawn env2)) repos)"
      "console w2 = console w1" "writable w2 = writable w1"
      "\<forall>m. m \<noteq> g \<longrightarrow> files w2 m = files w1 m" "loadState (finite_text env1) (Some g) w2 = (Inr (?pairs r2), w2)"
    by blast
  have "loadState (finite_text env1) (Some f) w2 = (Inr (?pairs r1), w2)"
    using loadState_other [OF 1(6), of w2] 2(5) names(1) by simp
  moreover have "loadGitRepositoriesFromFile (finite_text env1) cache_file w2 = (Inr repos, w2)"
    using load_repos_other [OF ld1, of w2] 2(5) names(3) fin by simp
  ultimately show ?thesis
    using 1 2 by (intro exI [of _ w1] exI [of _ w2] exI [of _ r1] exI [of _ r2]) simp
qed

text \<open>
  The report between two states has, for every repository whose log is not empty, the log between
  its two revisions.
\<close>

lemma run_report_between:
  assumes args: "report_args args c f g"
    and ld: "loadGitRepositoriesFromFile (finite_text env) cache_file w = (Inr repos, w)" and ne: "repos \<noteq> []"
    and lf: "loadState (finite_text env) (Some f) w = (Inr (JArray (map (pair_json ''repoPath'' ''revision'') olds)), w)"
    and lg: "loadState (finite_text env) (Some g) w = (Inr (JArray (map (pair_json ''repoPath'' ''revision'') news)), w)"
    and states: "mset olds = mset (map (repo_state s1) repos)" "mset news = mset (map (repo_state s2) repos)"
    and nf: "\<forall>r\<in>set repos. nul_free r"
    and rs: "run_batch (update_sched env) (updateReportSingleRepo (spawn env)) (map (revisions s1 s2) repos) = Inr results"
  shows "\<exists>opt. tool_state opt args
    \<and> tool_main env args w = Some (io_bind (io_bind (prepareOutputReport (template_engine env) opt ''updatereport'')
        (\<lambda>templ. generateAndOutputReport (template_engine env) opt templ (logs_report results))) (\<lambda>_. io_return 0) w)"
proof -
  from run_report_two_states [OF args ld ne] obtain opt where
    3: "tool_state opt args" "plain_args args = [c, f, g]" "tool_main env args w = Some (io_bind
        (generateUpdateReport (update_sched env) (ndebug env) (finite_text env) (spawn env)
          (template_engine env) opt repos) (\<lambda>_. io_return 0) w)" by blast
  have idx: "state_indices opt = Inr (2, Some 1)" "arg_from_end 2 opt = Inr (Some f)" "arg_from_end 1 opt = Inr (Some g)"
    using tool_state_args [OF 3(1)] 3(2) args by (simp_all add: state_indices_def report_args_def)
  have "generateUpdateReport (update_sched env) (ndebug env) (finite_text env) (spawn env) (template_engine env) opt repos w
      = io_bind (prepareOutputReport (template_engine env) opt ''updatereport'')
          (\<lambda>templ. generateAndOutputReport (template_engine env) opt templ (logs_report results)) w" (is "?m w = ?n w")
    by (rule generateUpdateReport_states [OF idx lf lg states nf rs])
  from io_bind_at [where m = ?m and n = ?n and f = "\<lambda>_. io_return 0", OF this] 3(1,3) show ?thesis
    by (intro exI [of _ opt]) simp
qed

section \<open>Exporting and merging\<close>

text \<open>Merging a list exported from the same repositories clones nothing and leaves the world alone.\<close>

lemma merge_after_export:
  assumes a1: "two_args args1 c1 f" "strcaseeq ''exportlist'' c1"
    and a2: "two_args args2 c2 f" "strcaseeq ''mergelist'' c2"
    and fin: "finite_text env2 = finite_text env1"
    and ld: "loadGitRepositoriesFromFile (finite_text env1) cache_file w = (Inr repos, w)" and ne: "repos \<noteq> []"
    and f: "f \<noteq> cache_file" "writable w f" and nf: "\<forall>r\<in>set repos. nul_free r"
    and fair1: "fair_batch (export_sched env1) (exportSingleRepo (spawn env1)) repos"
    and ok: "\<forall>r\<in>set repos. git_ok (spawn env1) r get_origin \<and> pair_utf8 (repo_origin (spawn env1) r)"
    and fair2: "fair_batch (merge_sched env2) (createRepo (spawn env2)) []"
  shows "\<exists>w1. tool_main env1 args1 w = Some (Inr 0, w1) \<and> tool_main env2 args2 w1 = Some (Inr 0, w1)"
proof -
  from run_exportlist [OF a1 ld ne fair1 ok f(2), of "finite_text env2"] obtain results doc where
    1: "tool_main env1 args1 w = Some (Inr 0, w\<lparr>files := (files w)(f \<mapsto> doc)\<rparr>)"
      "mset results = mset (map (repo_origin (spawn env1)) repos)"
      "json_parse_c (finite_text env2) doc = Inr (JArray (map (pair_json ''directory'' ''sourceurl'') results))"
    by blast
  let ?w = "w\<lparr>files := (files w)(f \<mapsto> doc)\<rparr>"
  have ld2: "loadGitRepositoriesFromFile (finite_text env2) cache_file ?w = (Inr repos, ?w)"
    using load_repos_other [OF ld, of ?w] f(1) fin by simp
  from run_two [OF a2(1) ld2] a2(2) obtain opt where
    st: "tool_state opt args2" "plain_args args2 = [c2, f]"
      "tool_main env2 args2 ?w = Some (io_bind (run_commands env2 opt repos) (\<lambda>_. io_return 0) ?w)" by blast
  have "run_commands env2 opt repos = io_bind (mergeList (merge_sched env2) (finite_text env2) (spawn env2) opt repos)
      (\<lambda>_. io_return ())"
    using run_commands_two(4) [OF st(1,2)] a2 by (simp add: two_args_def)
  moreover have "mergeList (merge_sched env2) (finite_text env2) (spawn env2) opt repos ?w = (Inr repos, ?w)"
    using merge_exported [OF 1(2) nf last_arg [OF st(1,2)] _ 1(3) fair2, of ?w] by simp
  ultimately show ?thesis
    using 1(1) st(3) by (intro exI [of _ ?w]) (simp add: io_bind_def)
qed

section \<open>A cache that cannot be read back\<close>

text \<open>
  A path that is not UTF-8 ends the scan with an exception after the cache was emptied; every
  later run that reads the cache ends with a parse error, the scan included.
\<close>

lemma cache_lost:
  assumes "\<not> list_all (\<lambda>s. valid_utf8 (c_str s)) rs" "writable w cache_file"
    and args: "1 < length args" "tool_value 0 args = None" "tool_value 2 args = None"
  shows "\<exists>w'. saveGitRepositoriesToFile df rs w = (Inl (Type_Error 316), w')
    \<and> tool_main env args w' = Some (Inl Parse_Error, w')"
proof -
  let ?w = "w\<lparr>files := (files w)(cache_file \<mapsto> [])\<rparr>"
  have "loadGitRepositoriesFromFile (finite_text env) cache_file ?w = (Inl Parse_Error, ?w)"
    by (rule load_empty_file) simp
  from tool_main_bad_cache [OF args this] save_not_utf8 [OF assms(1,2), of df] show ?thesis
    by blast
qed

end
