(* ===== verification/Tool_Reports.thy ===== *)
theory Tool_Reports
  imports Report_Texts Tool_Pipelines
begin

text \<open>
  Whole runs whose report goes through the template engine: the exact text that
  \<^verbatim>\<open>pull\<close>, \<^verbatim>\<open>checkForUpdates\<close> and
  \<^verbatim>\<open>genUpdateReport\<close> deliver with the shipped templates.
\<close>

section \<open>Options of a report\<close>

definition template_file :: "string list \<Rightarrow> string \<Rightarrow> string" where
  "template_file args name =
     (case tool_value 5 args of None \<Rightarrow> ''.'' | Some path \<Rightarrow> path) @ ''/reporttemplates/'' @ name @ ''.txt''"

lemma report_filename_state:
  assumes "tool_state opt args"
  shows "report_filename opt name = Inr (template_file args name)"
  by (simp add: report_filename_def tool_state_values [OF assms] tool_lookups template_file_def split: option.split)

lemma output_filename_state:
  assumes "tool_state opt args"
  shows "output_filename opt = Inr (tool_value 4 args)"
  by (simp add: output_filename_def tool_state_values [OF assms] tool_lookups split: option.split)

lemma reports_as_state:
  assumes "reports_as eng source data s" "tool_state opt args"
    and "files w (c_str (template_file args name)) = Some source" "can_deliver (tool_value 4 args) w"
  shows "io_bind (prepareOutputReport eng opt name) (\<lambda>templ. generateAndOutputReport eng opt templ data) w
    = (Inr (), delivered (tool_value 4 args) (c_str s) w)"
  using assms(1,3,4) report_filename_state [OF assms(2)] output_filename_state [OF assms(2)]
  unfolding reports_as_def by blast

section \<open>The engine in the environment\<close>

definition with_inja ::
    "nat \<Rightarrow> nat \<Rightarrow> double_ops \<Rightarrow> (inja_template \<times> template_storage) tool_env \<Rightarrow> (inja_template \<times> template_storage) tool_env" where
  "with_inja depth fuel d env =
     env\<lparr>template_engine := inja_engine (Suc depth) fuel d (float_text env) (finite_text env)\<rparr>"

lemma with_inja_simps [simp]:
  "hardware_threads (with_inja depth fuel d env) = hardware_threads env"
  "walk_fuel (with_inja depth fuel d env) = walk_fuel env" "listing (with_inja depth fuel d env) = listing env"
  "is_directory (with_inja depth fuel d env) = is_directory env" "spawn (with_inja depth fuel d env) = spawn env"
  "template_engine (with_inja depth fuel d env) = inja_engine (Suc depth) fuel d (float_text env) (finite_text env)"
  "finite_text (with_inja depth fuel d env) = finite_text env" "float_text (with_inja depth fuel d env) = float_text env"
  "check_sched (with_inja depth fuel d env) = check_sched env" "pull_sched (with_inja depth fuel d env) = pull_sched env"
  "update_sched (with_inja depth fuel d env) = update_sched env"
  by (simp_all add: with_inja_def)

section \<open>Commands without an argument\<close>

text \<open>A command word, any options but help and verbosity, and a readable list.\<close>

definition one_command :: "string list \<Rightarrow> string \<Rightarrow> bool" where
  "one_command args c \<longleftrightarrow>
     plain_args args = [c] \<and> 1 < length args \<and> tool_value 0 args = None \<and> tool_value 2 args = None"

lemma run_command:
  assumes "one_command args c" "\<not> strcaseeq ''scan'' c"
    and ld: "loadGitRepositoriesFromFile (finite_text env) cache_file w = (Inr repos, w)"
  shows "\<exists>opt. tool_state opt args \<and> plain_args args = [c]
    \<and> tool_main env args w = Some (io_bind (run_commands env opt repos) (\<lambda>_. io_return 0) w)"
  using tool_main_start [OF _ _ _ ld, of args] dispatch_one(1) [OF _ _ assms(2)] assms(1)
  by (fastforce simp: one_command_def)

lemma tool_commands_distinct:
  "strcaseeq ''pull'' c \<Longrightarrow> \<not> strcaseeq ''scan'' c \<and> \<not> strcaseeq ''checkForUpdates'' c"
  "strcaseeq ''checkForUpdates'' c \<Longrightarrow> \<not> strcaseeq ''scan'' c \<and> \<not> strcaseeq ''pull'' c"
proof -
  have "\<not> strcaseeq ''pull'' ''scan''" "\<not> strcaseeq ''pull'' ''checkForUpdates''"
    "\<not> strcaseeq ''checkForUpdates'' ''scan''" "\<not> strcaseeq ''checkForUpdates'' ''pull''"
    by code_simp+
  then show "strcaseeq ''pull'' c \<Longrightarrow> \<not> strcaseeq ''scan'' c \<and> \<not> strcaseeq ''checkForUpdates'' c"
    "strcaseeq ''checkForUpdates'' c \<Longrightarrow> \<not> strcaseeq ''scan'' c \<and> \<not> strcaseeq ''pull'' c"
    using strcaseeq_unique by blast+
qed

lemma run_pull:
  assumes "one_command args c" "strcaseeq ''pull'' c"
    and ld: "loadGitRepositoriesFromFile (finite_text env) cache_file w = (Inr repos, w)"
    and rs: "run_batch (pull_sched env) (pullSingleRepo (spawn env)) repos = Inr results"
    and rep: "reports_as (template_engine env) source (pull_report results) s"
    and tmpl: "files w (c_str (template_file args ''pullrepositories'')) = Some source"
    and out: "can_deliver (tool_value 4 args) w"
  shows "tool_main env args w = Some (Inr 0, delivered (tool_value 4 args) (c_str s) w)"
proof -
  note c = tool_commands_distinct(1) [OF assms(2)]
  from run_command [OF assms(1) conjunct1 [OF c] ld] obtain opt where
    st: "tool_state opt args" "plain_args args = [c]"
      "tool_main env args w = Some (io_bind (run_commands env opt repos) (\<lambda>_. io_return 0) w)" by blast
  have "run_commands env opt repos =
      io_bind (prepareOutputReport (template_engine env) opt ''pullrepositories'')
        (\<lambda>templ. generateAndOutputReport (template_engine env) opt templ (pull_report results))"
    using run_commands_one [OF st(1,2), of env repos] assms(2) c pullRepositories_results [OF rs] by simp
  with st(3) io_bind_Inr [where m = "run_commands env opt repos" and f = "\<lambda>_. io_return 0"]
    reports_as_state [OF rep st(1) tmpl out]
  show ?thesis by simp
qed

lemma run_check:
  assumes "one_command args c" "strcaseeq ''checkForUpdates'' c"
    and ld: "loadGitRepositoriesFromFile (finite_text env) cache_file w = (Inr repos, w)"
    and rs: "run_batch (check_sched env) (checkSingleRepo (spawn env)) repos = Inr results"
      "mset results = mset (map (\<lambda>r. status_of (spawn env) r # r) repos)" "\<forall>r\<in>set repos. length r < 2 ^ 62"
    and rep: "reports_as (template_engine env) source (status_report results) s"
    and tmpl: "files w (c_str (template_file args ''checkforupdatesonserver'')) = Some source"
    and out: "can_deliver (tool_value 4 args) w"
  shows "tool_main env args w = Some (Inr 0, delivered (tool_value 4 args) (c_str s) w)"
proof -
  note c = tool_commands_distinct(2) [OF assms(2)]
  from run_command [OF assms(1) conjunct1 [OF c] ld] obtain opt where
    st: "tool_state opt args" "plain_args args = [c]"
      "tool_main env args w = Some (io_bind (run_commands env opt repos) (\<lambda>_. io_return 0) w)" by blast
  have "run_commands env opt repos =
      io_bind (prepareOutputReport (template_engine env) opt ''checkforupdatesonserver'')
        (\<lambda>templ. generateAndOutputReport (template_engine env) opt templ (status_report results))"
    using run_commands_one [OF st(1,2), of env repos] assms(2) c checkForUpdates_results [OF rs] by simp
  with st(3) io_bind_Inr [where m = "run_commands env opt repos" and f = "\<lambda>_. io_return 0"]
    reports_as_state [OF rep st(1) tmpl out]
  show ?thesis by simp
qed

section \<open>The texts\<close>

lemma mset_map_permuted:
  assumes "mset ys = mset (map f xs)" "\<And>x. x \<in> set xs \<Longrightarrow> g (f x) = x"
  shows "\<exists>zs. mset zs = mset xs \<and> ys = map f zs"
proof (intro exI conjI)
  have "mset (map g ys) = image_mset g (mset (map f xs))" using assms(1) by simp
  also have "\<dots> = mset (map (\<lambda>x. g (f x)) xs)" by (simp add: comp_def image_mset.compositionality)
  also have "map (\<lambda>x. g (f x)) xs = xs" using assms(2) by (simp add: map_idI)
  finally show "mset (map g ys) = mset xs" .
  have "set ys = f ` set xs" using assms(1) by (metis list.set_map set_mset_mset)
  then have "f (g y) = y" if "y \<in> set ys" for y using that assms(2) by auto
  then show "ys = map f (map g ys)" by (simp add: map_idI comp_def)
qed

lemma permuted_set: "mset zs = mset xs \<Longrightarrow> set zs = set xs"
  by (metis set_mset_mset)

lemma nul_free_in_lines [simp]: "nul_free (in_lines ls) \<longleftrightarrow> (\<forall>l\<in>set ls. nul_free l)"
  by (auto simp: in_lines_def nul_free_def nl_def)

lemma nul_free_concat: "nul_free (concat ss) \<longleftrightarrow> (\<forall>s\<in>set ss. nul_free s)"
  by (auto simp: nul_free_def)

lemma nul_free_name_lines: "nul_free label \<Longrightarrow> \<forall>s\<in>set ss. nul_free s \<Longrightarrow> nul_free (name_lines label ss)"
  by (auto simp: name_lines_def nul_free_concat)

lemma nul_free_nl [simp]: "nul_free nl"
  by (simp add: nl_def)

text \<open>With \<open>perm\<close> the order in which the jobs finished.\<close>

definition pull_report_text :: "spawner \<Rightarrow> string list \<Rightarrow> string" where
  "pull_report_text launch perm =
     (let out = (\<lambda>r. git_text launch r [''pull'']); current = (\<lambda>r. out r = ''Already up to date.'')
      in pull_text (filter current perm) (map (\<lambda>r. (r, out r)) (filter (\<lambda>r. \<not> current r) perm)))"

definition check_report_text :: "spawner \<Rightarrow> string list \<Rightarrow> string" where
  "check_report_text launch perm =
     (let group = (\<lambda>m. filter (\<lambda>r. status_of launch r = m) perm)
      in check_text (group CHR ''n'') (group CHR ''a'') (group CHR ''d'') (group CHR ''f''))"

definition update_report_text :: "spawner \<Rightarrow> spawner \<Rightarrow> spawner \<Rightarrow> string list \<Rightarrow> string" where
  "update_report_text before after now perm =
     update_text (filter (\<lambda>(r, log). log \<noteq> [])
       (map (\<lambda>r. (r, git_text now r [''log'', ''--oneline'', git_text before r rev_parse @ ''..'' @ git_text after r rev_parse])) perm))"

lemma pull_report_document:
  assumes "\<forall>r\<in>set perm. nul_free r"
  shows "document_text d ft pullrepositories_nodes (pull_report (map (pull_result launch) perm))
    = Inr (pull_report_text launch perm)" "nul_free (pull_report_text launch perm)"
proof -
  let ?rs = "map (pull_result launch) perm"
  have c: "c_strs (pull_result launch r) = (r, git_text launch r [''pull''])" if "r \<in> set perm" for r
    using that assms by (simp add: c_strs_def pull_result_def nul_free_git_text)
  have "document_text d ft pullrepositories_nodes (pull_report ?rs)
      = Inr (pull_text (map (\<lambda>r. c_str (fst r)) (filter up_to_date ?rs)) (map c_strs (filter (\<lambda>r. \<not> up_to_date r) ?rs)))"
    unfolding pull_report_def by (rule pull_document) simp_all
  also have "map (\<lambda>r. c_str (fst r)) (filter up_to_date ?rs) = filter (\<lambda>r. git_text launch r [''pull''] = ''Already up to date.'') perm"
    using assms by (auto simp: filter_map comp_def up_to_date_def pull_result_def intro!: map_idI)
  also have "map c_strs (filter (\<lambda>r. \<not> up_to_date r) ?rs)
      = map (\<lambda>r. (r, git_text launch r [''pull''])) (filter (\<lambda>r. \<not> git_text launch r [''pull''] = ''Already up to date.'') perm)"
    using c by (simp add: filter_map comp_def up_to_date_def) (simp add: pull_result_def)
  finally show "document_text d ft pullrepositories_nodes (pull_report ?rs) = Inr (pull_report_text launch perm)"
    by (simp add: pull_report_text_def Let_def)
  show "nul_free (pull_report_text launch perm)"
    using assms by (auto simp: pull_report_text_def Let_def pull_text_def nul_free_concat nul_free_git_text
        intro!: nul_free_name_lines)
qed

lemma check_report_document:
  assumes "\<forall>r\<in>set perm. nul_free r"
  shows "document_text d ft checkforupdatesonserver_nodes (status_report (map (\<lambda>r. status_of launch r # r) perm))
    = Inr (check_report_text launch perm)" "nul_free (check_report_text launch perm)"
proof -
  let ?rs = "map (\<lambda>r. status_of launch r # r) perm"
  have n: "named m ?rs = JArray (map (\<lambda>r. JString r) (filter (\<lambda>r. status_of launch r = m) perm))" for m
    using assms by (simp add: named_def filter_map comp_def)
  show "document_text d ft checkforupdatesonserver_nodes (status_report ?rs) = Inr (check_report_text launch perm)"
    unfolding check_report_text_def status_report_def Let_def
    by (subst check_document [where f = "\<lambda>r. r"]) (simp_all add: n)
  show "nul_free (check_report_text launch perm)"
    using assms by (auto simp: check_report_text_def Let_def check_text_def intro!: nul_free_name_lines)
qed

lemma update_report_document:
  assumes "\<forall>r\<in>set perm. nul_free r"
  shows "document_text d ft updatereport_nodes
      (logs_report (map (\<lambda>r. update_log now (revisions before after r)) perm))
    = Inr (update_report_text before after now perm)" "nul_free (update_report_text before after now perm)"
proof -
  let ?rs = "map (\<lambda>r. update_log now (revisions before after r)) perm"
  have "document_text d ft updatereport_nodes (logs_report ?rs)
      = Inr (update_text (map c_strs (filter (\<lambda>r. snd r \<noteq> []) ?rs)))"
    unfolding logs_report_def by (rule update_document) simp_all
  also have "map c_strs (filter (\<lambda>r. snd r \<noteq> []) ?rs) = filter (\<lambda>(r, log). log \<noteq> [])
       (map (\<lambda>r. (r, git_text now r [''log'', ''--oneline'', git_text before r rev_parse @ ''..'' @ git_text after r rev_parse])) perm)"
    using assms by (simp add: filter_map comp_def update_log_def revisions_def c_strs_def nul_free_git_text)
  finally show "document_text d ft updatereport_nodes (logs_report ?rs) = Inr (update_report_text before after now perm)"
    by (simp add: update_report_text_def)
  show "nul_free (update_report_text before after now perm)"
    using assms by (auto simp: update_report_text_def update_text_def nul_free_concat nul_free_git_text)
qed

section \<open>Whole runs\<close>

lemma inja_reports:
  assumes "nodes_ok ts" "length (compile_template ts) < 2 ^ 30" "print_nodes ts \<noteq> []"
    and doc: "\<And>ft. document_text d ft ts data = Inr s"
  shows "\<exists>m. \<forall>fuel \<ge> m. reports_as (template_engine (with_inja depth fuel d env)) (print_nodes ts) data s"
  using report_printed [OF assms(1-3) doc] by simp

lemmas inja_pull = inja_reports [OF templates_ok(3) templates_short(3) templates_not_Nil(3), unfolded templates_printed]

lemmas inja_check = inja_reports [OF templates_ok(2) templates_short(2) templates_not_Nil(2), unfolded templates_printed]

lemmas inja_update = inja_reports [OF templates_ok(4) templates_short(4) templates_not_Nil(4), unfolded templates_printed]

theorem pull_prints:
  assumes "one_command args c" "strcaseeq ''pull'' c"
    and ld: "loadGitRepositoriesFromFile (finite_text env) cache_file w = (Inr repos, w)"
    and nf: "\<forall>r\<in>set repos. nul_free r"
    and fair: "fair_batch (pull_sched env) (pullSingleRepo (spawn env)) repos"
    and ok: "\<forall>r\<in>set repos. git_ok (spawn env) r [''pull'']"
    and tmpl: "files w (c_str (template_file args ''pullrepositories'')) = Some pullrepositories_txt"
    and out: "can_deliver (tool_value 4 args) w"
  shows "\<exists>perm m. mset perm = mset repos \<and> (\<forall>fuel \<ge> m. tool_main (with_inja depth fuel d env) args w =
    Some (Inr 0, delivered (tool_value 4 args) (pull_report_text (spawn env) perm) w))"
proof -
  obtain results where rs: "run_batch (pull_sched env) (pullSingleRepo (spawn env)) repos = Inr results"
    "mset results = mset (map (pull_result (spawn env)) repos)"
    using pull_batch [OF fair ok] by blast
  obtain perm where perm: "mset perm = mset repos" "results = map (pull_result (spawn env)) perm"
    using mset_map_permuted [OF rs(2), of fst] by (auto simp: pull_result_def)
  have "\<forall>r\<in>set perm. nul_free r" using nf permuted_set [OF perm(1)] by simp
  note doc = pull_report_document [where launch = "spawn env", OF this]
  obtain m where m: "\<forall>fuel \<ge> m. reports_as (template_engine (with_inja depth fuel d env)) pullrepositories_txt
      (pull_report results) (pull_report_text (spawn env) perm)"
    using inja_pull [OF doc(1)] unfolding perm(2) by blast
  have "tool_main (with_inja depth fuel d env) args w =
      Some (Inr 0, delivered (tool_value 4 args) (pull_report_text (spawn env) perm) w)" if "m \<le> fuel" for fuel
    using run_pull [of args c "with_inja depth fuel d env", OF assms(1,2) _ _ m [rule_format, OF that] tmpl out]
      ld rs(1) doc(2) by simp
  with perm(1) show ?thesis by blast
qed

theorem check_prints:
  assumes "one_command args c" "strcaseeq ''checkForUpdates'' c"
    and ld: "loadGitRepositoriesFromFile (finite_text env) cache_file w = (Inr repos, w)"
    and nf: "\<forall>r\<in>set repos. nul_free r \<and> length r < 2 ^ 62"
    and fair: "fair_batch (check_sched env) (checkSingleRepo (spawn env)) repos"
    and ok: "\<forall>r\<in>set repos. git_ok (spawn env) r [''rev-list'', ''--count'', ''--left-right'', CHR ''@'' # ''{upstream}...HEAD'']"
    and tmpl: "files w (c_str (template_file args ''checkforupdatesonserver'')) = Some checkforupdatesonserver_txt"
    and out: "can_deliver (tool_value 4 args) w"
  shows "\<exists>perm m. mset perm = mset repos \<and> (\<forall>fuel \<ge> m. tool_main (with_inja depth fuel d env) args w =
    Some (Inr 0, delivered (tool_value 4 args) (check_report_text (spawn env) perm) w))"
proof -
  obtain results where rs: "run_batch (check_sched env) (checkSingleRepo (spawn env)) repos = Inr results"
    "mset results = mset (map (\<lambda>r. status_of (spawn env) r # r) repos)"
    using check_batch [OF fair ok] by blast
  obtain perm where perm: "mset perm = mset repos" "results = map (\<lambda>r. status_of (spawn env) r # r) perm"
    using mset_map_permuted [OF rs(2), of tl] by auto
  have "\<forall>r\<in>set perm. nul_free r" using nf permuted_set [OF perm(1)] by simp
  note doc = check_report_document [where launch = "spawn env", OF this]
  obtain m where m: "\<forall>fuel \<ge> m. reports_as (template_engine (with_inja depth fuel d env)) checkforupdatesonserver_txt
      (status_report results) (check_report_text (spawn env) perm)"
    using inja_check [OF doc(1)] unfolding perm(2) by blast
  have "tool_main (with_inja depth fuel d env) args w =
      Some (Inr 0, delivered (tool_value 4 args) (check_report_text (spawn env) perm) w)" if "m \<le> fuel" for fuel
    using run_check [of args c "with_inja depth fuel d env", OF assms(1,2) _ _ _ _ m [rule_format, OF that] tmpl out]
      ld rs doc(2) nf by simp
  with perm(1) show ?thesis by blast
qed

lemma report_args_values:
  assumes "report_args args c f g"
  shows "tool_value 4 args = None" "template_file args name = ''./reporttemplates/'' @ name @ ''.txt''"
proof -
  obtain prog where "args = prog # [c, f, g]" "plain_line [c, f, g]"
    using assms by (cases args) (auto simp: report_args_def)
  then show "tool_value 4 args = None" "template_file args name = ''./reporttemplates/'' @ name @ ''.txt''"
    by (simp_all add: tool_value_plain template_file_def)
qed

definition updatereport_file :: string where
  "updatereport_file = ''./reporttemplates/updatereport.txt''"

theorem update_prints:
  assumes a1: "two_args args1 c1 f" "strcaseeq ''saveState'' c1"
    and a2: "two_args args2 c2 g" "strcaseeq ''saveState'' c2"
    and a3: "report_args args3 c3 f g"
    and fin: "finite_text env2 = finite_text env1" "finite_text env3 = finite_text env1"
    and ld: "loadGitRepositoriesFromFile (finite_text env1) cache_file w = (Inr repos, w)" and ne: "repos \<noteq> []"
    and names: "f \<noteq> g" "f \<noteq> cache_file" "g \<noteq> cache_file" and wr: "writable w f" "writable w g"
    and nf: "\<forall>r\<in>set repos. nul_free r"
    and s1: "fair_batch (save_sched env1) (saveStateSingleRepo (spawn env1)) repos"
      "\<forall>r\<in>set repos. git_ok (spawn env1) r rev_parse \<and> pair_utf8 (repo_state (spawn env1) r)"
    and s2: "fair_batch (save_sched env2) (saveStateSingleRepo (spawn env2)) repos"
      "\<forall>r\<in>set repos. git_ok (spawn env2) r rev_parse \<and> pair_utf8 (repo_state (spawn env2) r)"
    and s3: "\<And>js. fair_batch (update_sched env3) (updateReportSingleRepo (spawn env3)) js"
      "\<forall>r\<in>set repos. git_ok (spawn env3) r [''log'', ''--oneline'',
         git_text (spawn env1) r rev_parse @ ''..'' @ git_text (spawn env2) r rev_parse]"
    and tmpl: "files w updatereport_file = Some updatereport_txt" "f \<noteq> updatereport_file" "g \<noteq> updatereport_file"
  shows "\<exists>w1 w2 perm m. tool_main env1 args1 w = Some (Inr 0, w1) \<and> tool_main env2 args2 w1 = Some (Inr 0, w2)
    \<and> mset perm = mset repos
    \<and> (\<forall>fuel \<ge> m. tool_main (with_inja depth fuel d env3) args3 w2 = Some (Inr 0,
        w2\<lparr>console := console w @ update_report_text (spawn env1) (spawn env2) (spawn env3) perm\<rparr>))"
proof -
  from two_saves [OF a1 a2 fin(1) ld ne names wr s1 s2] obtain w1 w2 olds news where
    w: "tool_main env1 args1 w = Some (Inr 0, w1)" "tool_main env2 args2 w1 = Some (Inr 0, w2)"
      "mset olds = mset (map (repo_state (spawn env1)) repos)" "mset news = mset (map (repo_state (spawn env2)) repos)"
      "loadState (finite_text env1) (Some f) w2 = (Inr (JArray (map (pair_json ''repoPath'' ''revision'') olds)), w2)"
      "loadState (finite_text env1) (Some g) w2 = (Inr (JArray (map (pair_json ''repoPath'' ''revision'') news)), w2)"
      "loadGitRepositoriesFromFile (finite_text env1) cache_file w2 = (Inr repos, w2)"
      "console w2 = console w" "\<forall>m. m \<noteq> f \<and> m \<noteq> g \<longrightarrow> files w2 m = files w m" by blast
  have "c_str updatereport_file = updatereport_file" by code_simp
  with tmpl w(9) have src: "files w2 (c_str (template_file args3 ''updatereport'')) = Some updatereport_txt"
    by (simp add: report_args_values(2) [OF a3] updatereport_file_def)
  obtain results where rs: "run_batch (update_sched env3) (updateReportSingleRepo (spawn env3))
      (map (revisions (spawn env1) (spawn env2)) repos) = Inr results"
    "mset results = mset (map (\<lambda>r. update_log (spawn env3) (revisions (spawn env1) (spawn env2) r)) repos)"
    using update_batch [OF s3] by blast
  obtain perm where perm: "mset perm = mset repos"
    "results = map (\<lambda>r. update_log (spawn env3) (revisions (spawn env1) (spawn env2) r)) perm"
    using mset_map_permuted [OF rs(2), of fst] by (auto simp: update_log_def revisions_def)
  have "\<forall>r\<in>set perm. nul_free r" using nf permuted_set [OF perm(1)] by simp
  note doc = update_report_document [where before = "spawn env1" and after = "spawn env2" and now = "spawn env3", OF this]
  obtain m where m: "\<forall>fuel \<ge> m. reports_as (template_engine (with_inja depth fuel d env3)) updatereport_txt
      (logs_report results) (update_report_text (spawn env1) (spawn env2) (spawn env3) perm)"
    using inja_update [OF doc(1)] unfolding perm(2) by blast
  have "tool_main (with_inja depth fuel d env3) args3 w2 = Some (Inr 0,
        w2\<lparr>console := console w @ update_report_text (spawn env1) (spawn env2) (spawn env3) perm\<rparr>)" if "m \<le> fuel" for fuel
  proof -
    let ?env = "with_inja depth fuel d env3"
    let ?report = "\<lambda>opt. io_bind (prepareOutputReport (template_engine ?env) opt ''updatereport'')
        (\<lambda>templ. generateAndOutputReport (template_engine ?env) opt templ (logs_report results))"
    from run_report_between [of args3 c3 f g ?env, OF a3 _ ne _ _ w(3,4) nf] w(5-7) fin rs(1)
    obtain opt where opt: "tool_state opt args3"
      "tool_main ?env args3 w2 = Some (io_bind (?report opt) (\<lambda>_. io_return 0) w2)" by auto
    have "?report opt w2 = (Inr (), delivered (tool_value 4 args3)
        (c_str (update_report_text (spawn env1) (spawn env2) (spawn env3) perm)) w2)"
      by (rule reports_as_state [OF m [rule_format, OF that] opt(1) src])
        (simp add: can_deliver_def report_args_values(1) [OF a3])
    from io_bind_Inr [where m = "?report opt" and f = "\<lambda>_. io_return 0", OF this] opt(2) doc(2) w(8) show ?thesis
      by (simp add: delivered_def report_args_values(1) [OF a3])
  qed
  with w(1,2) perm(1) show ?thesis by blast
qed

end
