(* ===== verification/Inja_Safety.thy ===== *)
theory Inja_Safety
  imports Inja_Machine
begin

text \<open>
  Which templates cannot go wrong: a fault that is not an exception is undefined behaviour, and a
  template that stays below the reserved loops and away from the functions without checks has none,
  whatever the document.
\<close>

definition sound :: "'a result \<Rightarrow> bool" where
  "sound r \<longleftrightarrow> (\<forall>f. r = Inl f \<longrightarrow> is_exception f)"

named_theorems sound_rules

lemma sound_Inr [sound_rules]: "sound (Inr x)"
  by (simp add: sound_def)

lemma sound_Inl [simp]: "sound (Inl f) = is_exception f"
  by (simp add: sound_def)

lemma sound_and_then [sound_rules]: "sound r \<Longrightarrow> (\<And>x. r = Inr x \<Longrightarrow> sound (f x)) \<Longrightarrow> sound (and_then r f)"
  by (cases r) (auto simp: sound_def)

lemma is_exception_simps [simp]:
  "is_exception Parse_Error" "is_exception (Type_Error n)" "is_exception (Out_Of_Range n)"
  "is_exception (Invalid_Iterator n)" "is_exception Invalid_Argument" "is_exception Std_Out_Of_Range"
  "is_exception Length_Error" "is_exception Render_Error" "is_exception Json_Error"
  by (simp_all add: is_exception_def)

section \<open>Documents\<close>

lemma sound_accessors [sound_rules]:
  "sound (get_string v)" "sound (get_string_ref v)" "sound (get_int d v)" "sound (get_double d v)" "sound (get_bool v)"
  "sound (json_at_position v i)" "sound (json_at_index v j)" "sound (json_at_key v k)"
  "sound (json_set k w v)" "sound (json_at k v)" "sound (stoi s)"
  by (auto simp: get_string_def get_string_ref_def get_int_def get_double_def get_bool_def json_at_position_def
      json_at_index_def json_at_key_def json_set_def json_at_def stoi_def Let_def sound_Inr
      split: json.splits option.splits)

lemma sound_replace_substring: "f \<noteq> [] \<Longrightarrow> sound (replace_substring s f t)"
proof (induction s f t rule: replace_substring.induct)
  case (1 s f t)
  then show ?case
    by (subst replace_substring.simps) (auto intro!: sound_rules)
qed

lemma sound_unescape [sound_rules]: "sound (unescape s)"
  by (auto simp: unescape_def intro!: sound_rules sound_replace_substring)

lemma sound_pointer_tokens [sound_rules]: "sound (pointer_tokens token s)"
  by (induction token s rule: pointer_tokens.induct) (auto intro!: sound_rules)

lemma sound_json_pointer [sound_rules]: "sound (json_pointer s)"
  by (auto simp: json_pointer_def intro!: sound_rules split: list.split)

lemma sound_array_index [sound_rules]: "sound (array_index s)"
  by (auto simp: array_index_def intro!: sound_rules)

lemma sound_pointer_step [sound_rules]: "sound (pointer_step token j)"
proof -
  have "sound (case array_index token of
              Inl f \<Rightarrow> Inl (if f = Invalid_Argument then Parse_Error else f)
            | Inr i \<Rightarrow> json_at_index j (scast i))"
    using sound_array_index [of token] by (auto split: sum.split intro: sound_rules)
  then show ?thesis
    by (auto simp: pointer_step_def intro!: sound_rules split: json.split)
qed

lemma sound_get_checked [sound_rules]: "sound (get_checked ts j)"
  by (induction ts j rule: get_checked.induct) (auto intro!: sound_rules)

section \<open>Values\<close>

text \<open>What the parameters of the renderer may do.\<close>

definition sound_env :: "render_env \<Rightarrow> bool" where
  "sound_env env \<longleftrightarrow>
     (\<forall>s. sound (d_stod (re_double env) s))
   \<and> (\<forall>name n callback args. re_callbacks env name n = Some callback \<longrightarrow> sound (callback args))"

text \<open>Functions that read the end of an empty array, or divide the smallest number by minus one.\<close>

definition unchecked_ops :: "bytecode_op list" where
  "unchecked_ops = [Op_First, Op_Last, Op_Max, Op_Min, Op_DivisibleBy]"

lemma sound_lookup:
  assumes "sound_env env"
  shows "sound (lookup_name env cur name)"
proof -
  have "sound (and_then (json_pointer (c_str (convert_dot_to_json_pointer name))) (\<lambda>ts. get_checked ts cur))"
    (is "sound ?r")
    by (auto intro!: sound_rules)
  then show ?thesis
    unfolding lookup_name_def lookup_value_def using assms
    by (cases ?r) (auto simp: sound_env_def sound_Inr split: option.split)
qed

lemma sound_truthy [sound_rules]: "sound (truthy d v)"
  by (auto simp: truthy_def sound_Inr split: sum.split)

lemma sound_print: "sound (print_value env v)"
  by (auto simp: print_value_def dump_json_text sound_Inr split: json.split)

lemma sound_unary:
  assumes "sound_env env" "op \<notin> set unchecked_ops"
  shows "sound (apply_unary env data op a)"
  using assms
  by (cases op) (auto simp: apply_unary_def unchecked_ops_def Let_def range_values_def sort_values_def sound_env_def
      intro!: sound_rules split: json.split)

lemma sound_binary:
  assumes "op \<notin> set unchecked_ops"
  shows "sound (apply_binary env op a b)"
  using assms
  by (cases op) (auto simp: apply_binary_def unchecked_ops_def Let_def intro!: sound_rules)

fun checked_expr :: "expr \<Rightarrow> bool" where
  "checked_expr (Lookup name) = True"
| "checked_expr (Literal v) = True"
| "checked_expr (Unary op e) = (op \<notin> set unchecked_ops \<and> checked_expr e)"
| "checked_expr (Binary op a b) = (op \<notin> set unchecked_ops \<and> checked_expr a \<and> checked_expr b)"
| "checked_expr (Fallback name e) = checked_expr e"

lemma sound_eval: "sound_env env \<Longrightarrow> checked_expr e \<Longrightarrow> sound (eval env root cur e)"
proof (induction e)
  case (Fallback name e)
  then show ?case
    using sound_lookup [of env cur name] by (auto intro!: sound_rules split: sum.split)
qed (auto intro!: sound_rules sound_lookup sound_unary sound_binary)

section \<open>Templates\<close>

text \<open>\<open>depth\<close> is the number of loops around a statement.\<close>

fun checked_node :: "nat \<Rightarrow> node \<Rightarrow> bool" and checked_nodes :: "nat \<Rightarrow> node list \<Rightarrow> bool" where
  "checked_node depth (Text s) = True"
| "checked_node depth (Print e) = checked_expr e"
| "checked_node depth (If_Then e b) = (checked_expr e \<and> checked_nodes depth b)"
| "checked_node depth (If_Else e b c) = (checked_expr e \<and> checked_nodes depth b \<and> checked_nodes depth c)"
| "checked_node depth (For key var e b) =
     (depth < reserved_loops \<and> checked_expr e \<and> checked_nodes (Suc depth) b)"
| "checked_nodes depth [] = True"
| "checked_nodes depth (t # ts) = (checked_node depth t \<and> checked_nodes depth ts)"

lemma sound_array_round [sound_rules]: "sound (array_round name n i v data)"
  by (auto simp: array_round_def intro!: sound_rules)

lemma sound_map_round [sound_rules]: "sound (map_round key var kv data)"
  by (auto simp: map_round_def intro!: sound_rules)

lemma sound_link_parent [sound_rules]: "sound (link_parent data)"
  by (auto simp: link_parent_def intro!: sound_rules split: option.split)

lemma sound_rounds: "sound (rounds key var v)" "rounds key var v = Inr fs \<Longrightarrow> f \<in> set fs \<Longrightarrow> sound (f cur)"
  by (auto simp: rounds_def intro!: sound_rules split: json.splits if_splits)

lemma sound_run_rounds:
  "(\<And>f cur. f \<in> set fs \<Longrightarrow> sound (f cur)) \<Longrightarrow> (\<And>cur. sound (body cur)) \<Longrightarrow> sound (run_rounds body fs cur)"
  by (induction fs arbitrary: cur) (auto intro!: sound_rules)

lemma sound_meaning:
  assumes "sound_env env"
  shows "checked_node depth t \<Longrightarrow> sound (meaning env root depth cur t)"
    and "checked_nodes depth ts \<Longrightarrow> sound (meanings env root depth cur ts)"
proof (induction depth t and depth ts arbitrary: cur and cur rule: checked_node_checked_nodes.induct)
  case (5 depth key var e b)
  then show ?case
    using sound_rounds(2) by (auto intro!: sound_rules sound_eval [OF assms] sound_rounds(1) sound_run_rounds)
qed (auto intro!: sound_rules sound_eval [OF assms] sound_print)

text \<open>No undefined behaviour, in the machine.\<close>

theorem checked_render:
  assumes "wf_nodes ts" "checked_nodes 0 ts" "length (compile_template ts) < 2 ^ 30"
    and "bytecodes tmpl = compile_template ts" "sound_env env"
  shows "\<exists>m. \<forall>n \<ge> m. sound (render_template n env tmpl data)"
  using render_compiled [OF assms(1,3,4), of env data] sound_meaning(2) [OF assms(5,2), of data data]
  by metis

end
