(* ===== verification/Inja_Faults.thy ===== *)
theory Inja_Faults
  imports Inja_Parse_Nodes Inja_Loops
begin

text \<open>A template that writes outside the instructions when it is parsed: a second \<^verbatim>\<open>else\<close>.\<close>

lemma round_second_else:
  assumes "between q (statement ''else'' @ r)" "core q = (c, \<lparr>prev_cond_jump = no_jump, uncond_jumps = js\<rparr> # i, l, incl)"
    "length c < no_jump"
  shows "parse_round n inc path (default_env fin) q = Inl Out_Of_Bounds"
proof -
  let ?d = "\<lparr>prev_cond_jump = no_jump, uncond_jumps = js\<rparr>"
  obtain p where p: "token_is K_Id ''else'' L_StatementBody ([] @ '' %}'' @ r) p" "core p = (c, ?d # i, l, incl)"
    "parse_round n inc path (default_env fin) q =
       and_then (parse_statement n inc path (default_env fin) p) (\<lambda>(ok, p).
         if \<not> ok then Inl Parser_Error else if \<not> tok_is K_StatementClose p then Inl Parser_Error else Inr (False, p))"
    by (rule round_statement [OF assms(1) _ words_ok(10) _ assms(2), of "[]"]) simp_all
  let ?p = "get_next_token (default_env fin) p" and ?j = "bc_plain Op_Jump 0"
  have "core ?p = (c, ?d # i, l, incl)"
    using statement_close [of p r fin] token_awaits [OF p(1)] p(2) by simp
  then have f: "m_if_stack p = ?d # i" "p_code (emit ?j ?p) = c @ [?j]" using p(2) by (simp_all add: core_def emit_def)
  have "set_target no_jump n (emit ?j ?p) = Inl Out_Of_Bounds" for n
    using assms(3) by (simp add: set_target_def f(2) array_get_def)
  then have "parse_else n (default_env fin) p = Inl Out_Of_Bounds"
    by (simp add: parse_else_def f(1) Let_def)
  then show ?thesis
    using p(3) by (simp add: parse_statement_def tok_is_simps [OF p(1)])
qed

definition two_elses :: "expr \<Rightarrow> node list \<Rightarrow> node list \<Rightarrow> string \<Rightarrow> string" where
  "two_elses e b d r =
     statement (''if '' @ print_expr e) @ print_nodes b @ statement ''else'' @ print_nodes d @ statement ''else'' @ r"

theorem second_else_faults:
  assumes e: "expr_ok e" and b: "nodes_ok b" and d: "nodes_ok d"
    and len: "length (compile_template [If_Else e b d]) < no_jump"
  shows "parse_into (parse_fuel (two_elses e b d r)) inc path (default_env fin) (parser_init (two_elses e b d r) incl)
    = Inl Out_Of_Bounds"
proof -
  let ?env = "default_env fin" and ?k = "length (comp_expr e)" and ?s = "two_elses e b d r"
  let ?c1 = "comp_expr e @ [bc_plain Op_ConditionalJump 0]"
  let ?q = "parser_init ?s incl"
  define n where "n = parse_fuel ?s - (rounds_all b + rounds_all d + 3)"
  have bounds: "rounds_all b + need_all b \<le> 8 * length (print_nodes b)" "rounds_all d + need_all d \<le> 8 * length (print_nodes d)"
    "need e \<le> 8 * length (print_expr e)"
    using fuel_bound(2) [OF b] fuel_bound(2) [OF d] need_bound [OF e] by simp_all
  have fuel: "parse_fuel ?s = Suc (rounds_all b + Suc (rounds_all d + Suc n))"
    "need e + 4 \<le> rounds_all b + Suc (rounds_all d + Suc n)" "need_all b \<le> Suc (rounds_all d + Suc n)" "need_all d \<le> Suc n"
    using bounds by (simp_all add: n_def parse_fuel_def two_elses_def)
  have q: "between ?q ?s"
    by (rule between_text) (simp add: awaits_def parser_init_def at_text_def inja_start_def)
  then have q0: "between ?q (statement (''if '' @ print_expr e) @ print_nodes b @ statement ''else'' @ print_nodes d @ statement ''else'' @ r)"
    by (simp only: two_elses_def)
  have core: "core ?q = ([], [], [], incl)" by (simp add: core_def parser_init_def)
  obtain q1 where q1: "parse_round (rounds_all b + Suc (rounds_all d + Suc n)) inc path ?env ?q = Inr (False, q1)"
    "between q1 (print_nodes b @ statement ''else'' @ print_nodes d @ statement ''else'' @ r)"
    "core q1 = (?c1, [\<lparr>prev_cond_jump = ?k, uncond_jumps = []\<rparr>], [], incl)"
    by (rule round_if [OF q0 e core fuel(2)]) simp
  let ?cb = "comp_nodes (length ?c1) b"
  let ?m = "length (?c1 @ ?cb)"
  let ?c2 = "comp_expr e @ [bc_plain Op_ConditionalJump (?m + 1)] @ ?cb @ [bc_plain Op_Jump 0]"
  let ?cd = "comp_nodes (length ?c2) d"
  have len1: "length ?c1 + length ?cb < no_jump" "length ?c2 + length ?cd < no_jump"
    using len by (simp_all add: compile_template_def Let_def add.assoc)
  obtain q2 where q2: "parse_into (rounds_all b + Suc (rounds_all d + Suc n)) inc path ?env q1 = parse_into (Suc (rounds_all d + Suc n)) inc path ?env q2"
    "between q2 (statement ''else'' @ print_nodes d @ statement ''else'' @ r)"
    "core q2 = (?c1 @ ?cb, [\<lparr>prev_cond_jump = ?k, uncond_jumps = []\<rparr>], [], incl)"
    by (rule reads_codeD [OF nodes_read(2) [OF b] q1(2) _ q1(3) len1(1) fuel(3)]) simp
  have k: "?k < ?m" by simp
  obtain q3 where q3: "parse_round (rounds_all d + Suc n) inc path ?env q2 = Inr (False, q3)"
    "between q3 (print_nodes d @ statement ''else'' @ r)"
    "core q3 = (patch ?k (?m + 1) (?c1 @ ?cb) @ [bc_plain Op_Jump 0], [\<lparr>prev_cond_jump = no_jump, uncond_jumps = [?m]\<rparr>], [], incl)"
    by (rule round_else [OF q2(2,3) k])
  have "patch ?k (?m + 1) (?c1 @ ?cb) @ [bc_plain Op_Jump 0] = ?c2"
    using patch_here [of "comp_expr e" "?m + 1" "bc_plain Op_ConditionalJump 0" ?cb]
    by (simp add: add.assoc del: of_nat_add of_nat_Suc)
  with q3(3) have c3: "core q3 = (?c2, [\<lparr>prev_cond_jump = no_jump, uncond_jumps = [?m]\<rparr>], [], incl)" by simp
  obtain q4 where q4: "parse_into (rounds_all d + Suc n) inc path ?env q3 = parse_into (Suc n) inc path ?env q4"
    "between q4 (statement ''else'' @ r)" "core q4 = (?c2 @ ?cd, [\<lparr>prev_cond_jump = no_jump, uncond_jumps = [?m]\<rparr>], [], incl)"
    by (rule reads_codeD [OF nodes_read(2) [OF d] q3(2) _ c3 len1(2) fuel(4)]) simp
  have "parse_round n inc path ?env q4 = Inl Out_Of_Bounds"
    by (rule round_second_else [OF q4(2,3)]) (use len1(2) in simp)
  then show ?thesis
    using q1(1) q2(1) q3(1) q4(1) by (simp add: fuel(1))
qed

end
