(* ===== verification/Json_Ascii.thy ===== *)
theory Json_Ascii
  imports Json_Roundtrip
begin

text \<open>
  Escaping with \<^verbatim>\<open>ensure_ascii\<close>: the automaton computes the code point of each
  sequence, it is written as one or two \<^verbatim>\<open>\u\<close> escapes, and the lexer encodes the same
  bytes again.
\<close>

section \<open>Sequences of bytes and their code points\<close>

fun in_ranges :: "(nat \<times> nat) list \<Rightarrow> string \<Rightarrow> bool" where
  "in_ranges [] s = (s = [])"
| "in_ranges (r # rs) [] = False"
| "in_ranges ((lo, hi) # rs) (c # s) = (lo \<le> byte c \<and> byte c \<le> hi \<and> in_ranges rs s)"

lemma utf8_from_split: "utf8_from rs s \<Longrightarrow> \<exists>u v. s = u @ v \<and> in_ranges rs u \<and> utf8_from [] v"
proof (induction rs arbitrary: s)
  case (Cons r rs)
  obtain lo hi where r: "r = (lo, hi)" by force
  from Cons.prems obtain c t where s: "s = c # t" by (cases s) (auto simp: r)
  have "utf8_from rs t" using Cons.prems by (simp add: r s)
  from Cons.IH [OF this] obtain u v where "t = u @ v" "in_ranges rs u" "utf8_from [] v" by blast
  with Cons.prems show ?case by (intro exI [of _ "c # u"] exI [of _ v]) (simp add: s r)
qed auto

lemma valid_utf8_induct [consumes 1, case_names Nil Cons]:
  assumes "valid_utf8 s" "P []"
    and "\<And>c u v rs. lead_ranges (byte c) = Some rs \<Longrightarrow> in_ranges rs u \<Longrightarrow> valid_utf8 v \<Longrightarrow> P v \<Longrightarrow> P (c # u @ v)"
  shows "P s"
  using assms(1)
proof (induction "length s" arbitrary: s rule: less_induct)
  case less
  show ?case
  proof (cases s)
    case Nil
    then show ?thesis using assms(2) by simp
  next
    case (Cons c t)
    from less.prems obtain rs where rs: "lead_ranges (byte c) = Some rs" "utf8_from rs t"
      by (auto simp: Cons valid_utf8_def split: option.splits)
    from utf8_from_split [OF rs(2)] obtain u v where uv: "t = u @ v" "in_ranges rs u" "utf8_from [] v" by blast
    then have "valid_utf8 v" "length v < length s" by (simp_all add: valid_utf8_def Cons)
    with less.hyps assms(3) [OF rs(1) uv(2)] show ?thesis by (simp add: Cons uv(1))
  qed
qed

text \<open>The bits of the lead byte, and of each byte after it.\<close>

definition lead_base :: "(nat \<times> nat) list \<Rightarrow> nat" where
  "lead_base rs = (if rs = [] then 0 else if length rs = 1 then 0xC0 else if length rs = 2 then 0xE0 else 0xF0)"

definition add_bits :: "nat \<Rightarrow> char \<Rightarrow> nat" where
  "add_bits n c = byte c mod 64 + 64 * n"

definition code_of :: "char \<Rightarrow> string \<Rightarrow> nat" where
  "code_of c u = foldl add_bits (byte c - lead_base (the (lead_ranges (byte c)))) u"

lemma or_bits:
  "x < 32 \<Longrightarrow> 0xC0 OR x = 0xC0 + (x::nat)" "x < 16 \<Longrightarrow> 0xE0 OR x = 0xE0 + (x::nat)"
  "x < 8 \<Longrightarrow> 0xF0 OR x = 0xF0 + (x::nat)" "x < 64 \<Longrightarrow> 0x80 OR x = 0x80 + (x::nat)"
proof -
  have "\<forall>x\<in>set [0..<32]. 0xC0 OR x = 0xC0 + (x::nat)" "\<forall>x\<in>set [0..<16]. 0xE0 OR x = 0xE0 + (x::nat)"
    "\<forall>x\<in>set [0..<8]. 0xF0 OR x = 0xF0 + (x::nat)" "\<forall>x\<in>set [0..<64]. 0x80 OR x = 0x80 + (x::nat)"
    by code_simp+
  then show "x < 32 \<Longrightarrow> 0xC0 OR x = 0xC0 + (x::nat)" "x < 16 \<Longrightarrow> 0xE0 OR x = 0xE0 + (x::nat)"
    "x < 8 \<Longrightarrow> 0xF0 OR x = 0xF0 + (x::nat)" "x < 64 \<Longrightarrow> 0x80 OR x = 0x80 + (x::nat)"
    by simp_all
qed

lemma and_bits: "(x::nat) AND 0x3F = x mod 64"
proof -
  have "x AND mask 6 = x mod 64" by (simp only: flip: take_bit_eq_mask) (simp add: take_bit_eq_mod)
  then show ?thesis by (simp add: mask_eq_exp_minus_1)
qed

lemma continuation: "0x80 \<le> b \<Longrightarrow> b \<le> 0xBF \<Longrightarrow> b mod 64 = b - (0x80 :: nat)"
  using mod_in_block [of 2 64 b] by simp

lemma six_bits: "u < 64 \<Longrightarrow> (u + 64 * m) div 64 = m" "u < 64 \<Longrightarrow> (u + 64 * m) mod 64 = (u :: nat)"
  by simp_all

lemma div_blocks: "(n :: nat) div 4096 = n div 64 div 64" "n div 262144 = n div 64 div 64 div 64"
  by (simp_all flip: div_mult2_eq)

lemma encode_two:
  assumes "2 \<le> x" "x < 32" "y < (64 :: nat)"
  shows "encode_utf8 (y + 64 * x) = [char_of (0xC0 + x), char_of (0x80 + y)]"
  using assms by (simp add: encode_utf8_def and_bits drop_bit_eq_div or_bits)

lemma encode_three:
  assumes "x < 16" "y < 64" "z < (64 :: nat)" "0x800 \<le> z + 64 * (y + 64 * x)"
  shows "encode_utf8 (z + 64 * (y + 64 * x)) = [char_of (0xE0 + x), char_of (0x80 + y), char_of (0x80 + z)]"
proof -
  define n where "n = z + 64 * (y + 64 * x)"
  have n: "n div 64 = y + 64 * x" "n div 4096 = x" "n mod 64 = z" "(y + 64 * x) mod 64 = y"
    unfolding n_def div_blocks by (simp_all only: six_bits assms(2,3))
  have "n \<le> 0xFFFF" "0x800 \<le> n" using assms by (simp_all add: n_def)
  then show ?thesis
    unfolding n_def [symmetric] using assms(1-3)
    by (simp add: encode_utf8_def and_bits drop_bit_eq_div or_bits n)
qed

lemma encode_four:
  assumes "x < 8" "y < 64" "z < 64" "u < (64 :: nat)" "0x10000 \<le> u + 64 * (z + 64 * (y + 64 * x))"
  shows "encode_utf8 (u + 64 * (z + 64 * (y + 64 * x)))
    = [char_of (0xF0 + x), char_of (0x80 + y), char_of (0x80 + z), char_of (0x80 + u)]"
proof -
  define m where "m = z + 64 * (y + 64 * x)"
  define n where "n = u + 64 * m"
  have n: "n div 64 = m" "n div 4096 = y + 64 * x" "n div 262144 = x" "n mod 64 = u"
      "m mod 64 = z" "(y + 64 * x) mod 64 = y"
    unfolding n_def m_def div_blocks by (simp_all only: six_bits assms(2-4))
  have "0xFFFF < n" using assms(5) by (simp add: n_def m_def)
  then show ?thesis
    unfolding m_def [symmetric] n_def [symmetric] using assms(1-4)
    by (simp add: encode_utf8_def and_bits drop_bit_eq_div or_bits n)
qed

lemma in_ranges_explicit:
  "in_ranges [(l, h)] u \<longleftrightarrow> (\<exists>d. u = [d] \<and> l \<le> byte d \<and> byte d \<le> h)"
  "in_ranges [(l, h), r] u \<longleftrightarrow> (\<exists>d v. u = d # v \<and> l \<le> byte d \<and> byte d \<le> h \<and> in_ranges [r] v)"
  "in_ranges [(l, h), r, r'] u \<longleftrightarrow> (\<exists>d v. u = d # v \<and> l \<le> byte d \<and> byte d \<le> h \<and> in_ranges [r, r'] v)"
  by (cases u; auto)+

lemma code_two:
  assumes "0xC2 \<le> byte c" "byte c \<le> 0xDF" "0x80 \<le> byte d" "byte d \<le> 0xBF"
  shows "code_of c [d] = (byte d - 0x80) + 64 * (byte c - 0xC0)"
  using assms by (simp add: code_of_def lead_ranges_def lead_base_def add_bits_def continuation)

lemma code_three:
  assumes "lead_ranges (byte c) = Some [r, r']" "0x80 \<le> byte d" "byte d \<le> 0xBF" "0x80 \<le> byte e" "byte e \<le> 0xBF"
  shows "code_of c [d, e] = (byte e - 0x80) + 64 * ((byte d - 0x80) + 64 * (byte c - 0xE0))"
  using assms by (simp add: code_of_def lead_base_def add_bits_def continuation)

lemma code_four:
  assumes "lead_ranges (byte c) = Some [r, r', r'']" "0x80 \<le> byte d" "byte d \<le> 0xBF" "0x80 \<le> byte e" "byte e \<le> 0xBF"
    "0x80 \<le> byte f" "byte f \<le> 0xBF"
  shows "code_of c [d, e, f] = (byte f - 0x80) + 64 * ((byte e - 0x80) + 64 * ((byte d - 0x80) + 64 * (byte c - 0xF0)))"
  using assms by (simp add: code_of_def lead_base_def add_bits_def continuation)

lemma lead_cases:
  assumes "lead_ranges b = Some rs"
  obtains (one) "rs = []" "b < 0x80"
    | (two) "rs = [(0x80, 0xBF)]" "0xC2 \<le> b" "b \<le> 0xDF"
    | (three) lo hi where "rs = [(lo, hi), (0x80, 0xBF)]" "0xE0 \<le> b" "b \<le> 0xEF" "0x80 \<le> lo" "hi \<le> 0xBF"
        "b = 0xE0 \<longrightarrow> lo = 0xA0" "b = 0xED \<longrightarrow> hi = 0x9F"
    | (four) lo hi where "rs = [(lo, hi), (0x80, 0xBF), (0x80, 0xBF)]" "0xF0 \<le> b" "b \<le> 0xF4" "0x80 \<le> lo" "hi \<le> 0xBF"
        "b = 0xF0 \<longrightarrow> lo = 0x90" "b = 0xF4 \<longrightarrow> hi = 0x8F"
  using assms by (fastforce simp: lead_ranges_def split: if_splits)

definition scalar :: "nat \<Rightarrow> bool" where
  "scalar n \<longleftrightarrow> n < 0x110000 \<and> (n < 0xD800 \<or> 0xDFFF < n)"

lemma encode_code_of:
  assumes "lead_ranges (byte c) = Some rs" "in_ranges rs u"
  shows "encode_utf8 (code_of c u) = c # u \<and> scalar (code_of c u) \<and> (rs \<noteq> [] \<longrightarrow> 0x80 \<le> code_of c u)"
  using assms(1)
proof (cases rule: lead_cases)
  case one
  then show ?thesis using assms by (simp add: code_of_def lead_base_def encode_utf8_def scalar_def)
next
  case two
  then obtain d where d: "u = [d]" "0x80 \<le> byte d" "byte d \<le> 0xBF" using assms(2) by (auto simp: in_ranges_explicit)
  define x y where "x = byte c - 0xC0" and "y = byte d - 0x80"
  have x: "byte c = 0xC0 + x" "2 \<le> x" "x < 32" and y: "byte d = 0x80 + y" "y < 64"
    using two d by (simp_all add: x_def y_def)
  have "code_of c u = y + 64 * x"
    using two d code_two [of c d] by (simp add: x_def y_def)
  moreover have "encode_utf8 (y + 64 * x) = c # u"
    using encode_two [OF x(2,3) y(2)] by (simp add: d(1) flip: x(1) y(1))
  ultimately show ?thesis using x y by (simp add: scalar_def)
next
  case (three lo hi)
  then obtain d e where d: "u = [d, e]" "lo \<le> byte d" "byte d \<le> hi" "0x80 \<le> byte e" "byte e \<le> 0xBF"
    using assms(2) by (auto simp: in_ranges_explicit)
  have d': "0x80 \<le> byte d" "byte d \<le> 0xBF" using three d by simp_all
  define x y z where "x = byte c - 0xE0" and "y = byte d - 0x80" and "z = byte e - 0x80"
  have x: "byte c = 0xE0 + x" "x < 16" and y: "byte d = 0x80 + y" "y < 64" and z: "byte e = 0x80 + z" "z < 64"
    using three d d' by (simp_all add: x_def y_def z_def)
  have r: "x = 0 \<longrightarrow> 32 \<le> y" "x = 13 \<longrightarrow> y < 32"
    using three(2,6,7) d(2,3) x(1) y(1) by auto
  have "code_of c u = z + 64 * (y + 64 * x)"
    using code_three [OF assms(1) [unfolded three(1)] d' d(4,5)] by (simp add: d(1) x_def y_def z_def)
  moreover have big: "0x800 \<le> z + 64 * (y + 64 * x)" using r(1) by (cases "x = 0") simp_all
  from encode_three [OF x(2) y(2) z(2) this] have "encode_utf8 (z + 64 * (y + 64 * x)) = c # u"
    by (simp only: d(1) char_of_char flip: x(1) y(1) z(1))
  moreover consider "x \<le> 12" | "x = 13" | "14 \<le> x" by linarith
  then have "scalar (z + 64 * (y + 64 * x))"
    by cases (use x(2) y(2) z(2) r(2) in \<open>auto simp: scalar_def\<close>)
  ultimately show ?thesis using big by simp
next
  case (four lo hi)
  then obtain d e f where d: "u = [d, e, f]" "lo \<le> byte d" "byte d \<le> hi" "0x80 \<le> byte e" "byte e \<le> 0xBF"
    "0x80 \<le> byte f" "byte f \<le> 0xBF"
    using assms(2) by (auto simp: in_ranges_explicit)
  have d': "0x80 \<le> byte d" "byte d \<le> 0xBF" using four d by simp_all
  define x y z t where "x = byte c - 0xF0" and "y = byte d - 0x80" and "z = byte e - 0x80" and "t = byte f - 0x80"
  have x: "byte c = 0xF0 + x" "x < 5" and y: "byte d = 0x80 + y" "y < 64" and z: "byte e = 0x80 + z" "z < 64"
    and t: "byte f = 0x80 + t" "t < 64"
    using four d d' by (simp_all add: x_def y_def z_def t_def)
  have r: "x = 0 \<longrightarrow> 16 \<le> y" "x = 4 \<longrightarrow> y < 16"
    using four(2,6,7) d(2,3) x(1) y(1) by auto
  have "code_of c u = t + 64 * (z + 64 * (y + 64 * x))"
    using code_four [OF assms(1) [unfolded four(1)] d' d(4-7)] by (simp add: d(1) x_def y_def z_def t_def)
  moreover have big: "0x10000 \<le> t + 64 * (z + 64 * (y + 64 * x))" using r(1) by (cases "x = 0") simp_all
  have "x < 8" using x(2) by simp
  from encode_four [OF this y(2) z(2) t(2) big] have "encode_utf8 (t + 64 * (z + 64 * (y + 64 * x))) = c # u"
    by (simp only: d(1) char_of_char flip: x(1) y(1) z(1) t(1))
  moreover have "t + 64 * (z + 64 * (y + 64 * x)) < 0x110000"
    using x(2) y(2) z(2) t(2) r(2) by (cases "x = 4") auto
  then have "scalar (t + 64 * (z + 64 * (y + 64 * x)))" using big by (simp add: scalar_def)
  ultimately show ?thesis using big by simp
qed

section \<open>The automaton on a sequence\<close>

lemma lead_bits:
  assumes "b < 256" "lead_ranges b = Some rs" "rs \<noteq> []"
  shows "b mod 2 ^ (8 - utf8_class b) = b - lead_base rs \<and> b - lead_base rs < 32"
  using assms(2,3) mod_in_block [of 3 64 b] mod_in_block [of 7 32 b] mod_in_block [of 14 16 b]
    mod_in_block [of 30 8 b] mod_in_block [of 60 4 b]
  by (cases rule: byte_cases [OF assms(1)])
    (simp_all add: lead_ranges_def utf8_class_def lead_base_def, auto)

lemma decode_lead:
  assumes "lead_ranges (byte c) = Some rs" "rs \<noteq> []"
  shows "\<exists>st cp. decode 0 cp0 (byte c) = (st, cp) \<and> live_state st \<and> state_ranges st = rs \<and> st \<noteq> 0
    \<and> unat cp = byte c - lead_base rs \<and> unat cp < 32"
proof -
  obtain st cp where d: "decode 0 cp0 (byte c) = (st, cp)" by force
  have st: "st = next_state 0 (byte c)" using fst_decode [of "byte c" 0 cp0] d by simp
  have live: "live_state st \<and> state_ranges st = rs"
    using next_state_lead [of "byte c"] assms(1) by (simp add: st)
  have "unat cp = byte c mod 2 ^ (8 - utf8_class (byte c))"
    using d unat_lead [of "byte c" "utf8_class (byte c)"] by (auto simp: decode_def utf8d_class Let_def)
  moreover have "st \<noteq> 0" using live assms(2) state_ranges_Nil [of st] by auto
  ultimately show ?thesis using d live lead_bits [of "byte c", OF _ assms] by auto
qed

lemma decode_continue:
  assumes "live_state st" "state_ranges st = (lo, hi) # rs" "lo \<le> byte c" "byte c \<le> hi" "unat cp < 2 ^ 25"
  shows "\<exists>st' cp'. decode st cp (byte c) = (st', cp') \<and> live_state st' \<and> state_ranges st' = rs
    \<and> unat cp' = add_bits (unat cp) c"
proof -
  obtain st' cp' where d: "decode st cp (byte c) = (st', cp')" by force
  have st': "st' = next_state st (byte c)" using fst_decode [of "byte c" st cp] d by simp
  have "st \<noteq> 0" using assms(1,2) state_ranges_Nil [of st] by auto
  then have "unat cp' = add_bits (unat cp) c"
    using d unat_continue [of "byte c" cp] assms(5) by (auto simp: decode_def Let_def add_bits_def)
  then show ?thesis
    using next_state_continue [of "byte c" st lo hi rs] assms d by (simp add: st')
qed

text \<open>The text of one code point.\<close>

definition ascii_escape :: "nat \<Rightarrow> char \<Rightarrow> string" where
  "ascii_escape n c = fst (escape_codepoint True n c)"

text \<open>For evaluation: a comparison with a large number is unary there, divisions are not.\<close>

lemma ascii_escape_code [code]:
  "ascii_escape n c =
     (if n < 0x7F then fst (escape_codepoint False n c)
      else if n div 4096 div 16 = 0 then u_escape n
      else u_escape ((0xD7C0 + n div 2 ^ 10) mod 2 ^ 16) @ u_escape ((0xDC00 + n mod 2 ^ 10) mod 2 ^ 16))"
proof -
  have "n div 4096 div 16 = 0 \<longleftrightarrow> n \<le> 0xFFFF"
    by (simp add: div_mult2_eq [symmetric] div_eq_0_iff) arith
  then show ?thesis by (simp add: ascii_escape_def escape_codepoint_def)
qed

lemma escape_accept:
  assumes inv: "escaper_inv True e" and d: "decode (ustate e) (codepoint e) (byte c) = (0, cp)"
  shows "\<exists>e'. escape_byte Strict True c e = Inr (e', False) \<and> escaper_inv True e' \<and> ustate e' = 0
    \<and> written e' @ string_buffer e' = written e @ string_buffer e @ ascii_escape (unat cp) c"
proof -
  obtain t room where t: "escape_codepoint True (unat cp) c = (t, room)" by force
  have "length (string_buffer e) + length t + room \<le> 512"
    using inv escape_codepoint_size [OF t] by (auto simp: escaper_inv_def)
  moreover have "case escape_byte Strict True c e of Inl f \<Rightarrow> f = Type_Error 316 \<and> Strict = Strict | Inr (e', again) \<Rightarrow> escaper_inv True e'"
    by (rule escape_byte_safe [OF inv])
  ultimately show ?thesis
    by (auto simp: escape_byte_def d t put_def Let_def ascii_escape_def split: if_splits)
qed

lemma escape_pending:
  assumes inv: "escaper_inv True e" and d: "decode (ustate e) (codepoint e) (byte c) = (st, cp)" "st \<noteq> 0" "st \<noteq> 1"
  shows "\<exists>e'. escape_byte Strict True c e = Inr (e', False) \<and> escaper_inv True e' \<and> ustate e' = st \<and> codepoint e' = cp
    \<and> written e' @ string_buffer e' = written e @ string_buffer e"
proof -
  have "case escape_byte Strict True c e of Inl f \<Rightarrow> f = Type_Error 316 \<and> Strict = Strict | Inr (e', again) \<Rightarrow> escaper_inv True e'"
    by (rule escape_byte_safe [OF inv])
  with d show ?thesis by (auto simp: escape_byte_def Let_def)
qed

lemma live_not_reject: "live_state st \<Longrightarrow> st \<noteq> 1"
  by (auto simp: live_state_def)

lemma add_bits_bound: "n < 2 ^ k \<Longrightarrow> add_bits n c < 2 ^ (k + 6)"
proof -
  assume "n < 2 ^ k"
  then have "64 * n + 64 \<le> 64 * 2 ^ k" by linarith
  moreover have "byte c mod 64 < 64" by simp
  ultimately show ?thesis unfolding add_bits_def by (simp add: power_add)
qed

lemma escape_continue:
  assumes "escaper_inv True e" "in_ranges (state_ranges (ustate e)) u" "unat (codepoint e) < 2 ^ k"
    "k + 6 * length (state_ranges (ustate e)) \<le> 25" "u \<noteq> []"
  shows "\<exists>e'. escape_from Strict True (u @ v) e = escape_from Strict True v e' \<and> escaper_inv True e' \<and> ustate e' = 0
    \<and> written e' @ string_buffer e' = written e @ string_buffer e
        @ ascii_escape (foldl add_bits (unat (codepoint e)) u) (last u)"
  using assms
proof (induction u arbitrary: e k)
  case (Cons c u)
  obtain lo hi rs where r: "state_ranges (ustate e) = (lo, hi) # rs"
    using Cons.prems(2) by (cases "state_ranges (ustate e)") auto
  have c: "lo \<le> byte c" "byte c \<le> hi" "in_ranges rs u" using Cons.prems(2) by (simp_all add: r)
  have live: "live_state (ustate e)" using Cons.prems(1) by (simp add: escaper_inv_def)
  have "unat (codepoint e) < 2 ^ 25"
    using Cons.prems(3,4) power_increasing [of k 25 "2::nat"] by (simp add: r)
  then obtain st cp where d: "decode (ustate e) (codepoint e) (byte c) = (st, cp)" "live_state st" "state_ranges st = rs"
    "unat cp = add_bits (unat (codepoint e)) c"
    using decode_continue [OF live r c(1,2)] by blast
  show ?case
  proof (cases "u = []")
    case True
    then have "st = 0" using c(3) d(2,3) state_ranges_Nil [of st] by (cases rs) auto
    with escape_accept [OF Cons.prems(1), of c cp] d(1,4) True show ?thesis by auto
  next
    case False
    then have "st \<noteq> 0" using c(3) d(2,3) state_ranges_Nil [of st] by (cases rs) auto
    from escape_pending [OF Cons.prems(1) d(1) this live_not_reject [OF d(2)]] obtain e1 where
      e1: "escape_byte Strict True c e = Inr (e1, False)" "escaper_inv True e1" "ustate e1 = st" "codepoint e1 = cp"
        "written e1 @ string_buffer e1 = written e @ string_buffer e" by blast
    have "unat (codepoint e1) < 2 ^ (k + 6)" using add_bits_bound [OF Cons.prems(3)] d(4) e1(4) by simp
    from Cons.IH [OF e1(2) _ this _ False] c(3) d(3) e1(3) Cons.prems(4) obtain e' where
      "escape_from Strict True (u @ v) e1 = escape_from Strict True v e'" "escaper_inv True e'" "ustate e' = 0"
      "written e' @ string_buffer e' = written e1 @ string_buffer e1
        @ ascii_escape (foldl add_bits (unat (codepoint e1)) u) (last u)"
      by (auto simp: r)
    with e1 d(4) False show ?thesis by (intro exI [of _ e']) simp
  qed
qed simp

text \<open>One sequence, from the accepting state to the accepting state.\<close>

lemma escape_sequence:
  assumes "escaper_inv True e" "ustate e = 0" "lead_ranges (byte c) = Some rs" "in_ranges rs u"
  shows "\<exists>e'. escape_from Strict True (c # u @ v) e = escape_from Strict True v e' \<and> escaper_inv True e' \<and> ustate e' = 0
    \<and> written e' @ string_buffer e' = written e @ string_buffer e @ ascii_escape (code_of c u) (last (c # u))"
proof (cases "rs = []")
  case True
  then have b: "byte c < 0x80" "u = []" using assms(3,4) lead_ranges_Nil by auto
  then have "decode (ustate e) (codepoint e) (byte c) = (0, word_of_nat (byte c))"
    by (simp add: assms(2) decode_ascii)
  moreover have "unat (word_of_nat (byte c) :: 32 word) = code_of c u"
    using b by (simp add: code_of_def lead_base_def unsigned_of_nat take_bit_nat_eq_self)
  ultimately show ?thesis using escape_accept [OF assms(1), of c "word_of_nat (byte c)"] b by auto
next
  case False
  from decode_lead [OF assms(3) False] obtain st cp where
    d: "decode (ustate e) (codepoint e) (byte c) = (st, cp)" "live_state st" "state_ranges st = rs" "st \<noteq> 0"
      "unat cp = byte c - lead_base rs" "unat cp < 32"
    unfolding assms(2) by metis
  from escape_pending [OF assms(1) d(1,4) live_not_reject [OF d(2)]] obtain e1 where
    e1: "escape_byte Strict True c e = Inr (e1, False)" "escaper_inv True e1" "ustate e1 = st" "codepoint e1 = cp"
      "written e1 @ string_buffer e1 = written e @ string_buffer e" by blast
  have u: "u \<noteq> []" using False assms(4) by (cases rs) auto
  have "5 + 6 * length rs \<le> 25" using lead_ranges_length [OF assms(3)] by simp
  with escape_continue [OF e1(2) _ _ _ u, of 5 v] d(3,6) e1(3,4) assms(4) obtain e' where
    "escape_from Strict True (u @ v) e1 = escape_from Strict True v e'" "escaper_inv True e'" "ustate e' = 0"
    "written e' @ string_buffer e' = written e1 @ string_buffer e1
        @ ascii_escape (foldl add_bits (unat (codepoint e1)) u) (last u)"
    by auto
  with e1 d(5) u show ?thesis by (intro exI [of _ e']) (simp add: code_of_def assms(3))
qed

section \<open>Strings\<close>

function escape_ascii :: "string \<Rightarrow> string" where
  "escape_ascii s =
     (case s of
        [] \<Rightarrow> []
      | c # s \<Rightarrow>
          (case lead_ranges (byte c) of
             None \<Rightarrow> []
           | Some rs \<Rightarrow>
               let u = take (length rs) s
               in ascii_escape (code_of c u) (last (c # u)) @ escape_ascii (drop (length rs) s)))"
  by pat_completeness auto
termination
  by (relation "measure length") auto

declare escape_ascii.simps [simp del]

lemma escape_ascii_Nil [simp]: "escape_ascii [] = []"
  by (simp add: escape_ascii.simps)

lemma in_ranges_length: "in_ranges rs u \<Longrightarrow> length u = length rs"
  by (induction rs u rule: in_ranges.induct) auto

lemma escape_ascii_sequence:
  assumes "lead_ranges (byte c) = Some rs" "in_ranges rs u"
  shows "escape_ascii (c # u @ v) = ascii_escape (code_of c u) (last (c # u)) @ escape_ascii v"
proof -
  have "take (length rs) (u @ v) = u" "drop (length rs) (u @ v) = v"
    using in_ranges_length [OF assms(2)] by simp_all
  then show ?thesis
    using assms(1) by (subst escape_ascii.simps) (simp only: list.case option.case Let_def)
qed

lemma escape_from_ascii:
  "valid_utf8 s \<Longrightarrow> escaper_inv True e \<Longrightarrow> ustate e = 0 \<Longrightarrow>
   \<exists>e'. escape_from Strict True s e = Inr e' \<and> ustate e' = 0
     \<and> written e' @ string_buffer e' = written e @ string_buffer e @ escape_ascii s"
proof (induction s arbitrary: e rule: valid_utf8_induct)
  case (Cons c u v rs)
  from escape_sequence [OF Cons.prems Cons.hyps(1,2), of v] obtain e1 where
    e1: "escape_from Strict True (c # u @ v) e = escape_from Strict True v e1" "escaper_inv True e1" "ustate e1 = 0"
      "written e1 @ string_buffer e1 = written e @ string_buffer e @ ascii_escape (code_of c u) (last (c # u))" by blast
  from Cons.IH [OF e1(2,3)] e1(1,4) show ?case
    by (auto simp: escape_ascii_sequence [OF Cons.hyps(1,2)])
qed auto

text \<open>Whether a string is refused does not depend on the escaping.\<close>

definition same_outcome :: "escaper result \<Rightarrow> escaper result \<Rightarrow> bool" where
  "same_outcome r r' \<longleftrightarrow>
     (case (r, r') of
        (Inl f, Inl f') \<Rightarrow> f = f'
      | (Inr e, Inr e') \<Rightarrow> ustate e = ustate e' \<and> codepoint e = codepoint e'
      | _ \<Rightarrow> False)"

lemma escape_byte_strict:
  assumes "escaper_inv a e"
  shows "(case escape_byte Strict a c e of
      Inl f \<Rightarrow> f = Type_Error 316 \<and> fst (decode (ustate e) (codepoint e) (byte c)) = 1
    | Inr (e', again) \<Rightarrow> \<not> again \<and> escaper_inv a e' \<and> fst (decode (ustate e) (codepoint e) (byte c)) \<noteq> 1
        \<and> (ustate e', codepoint e') = decode (ustate e) (codepoint e) (byte c))"
proof -
  obtain st cp where d: "decode (ustate e) (codepoint e) (byte c) = (st, cp)" by force
  note safe = escape_byte_safe [OF assms, of Strict c]
  obtain t room where t: "escape_codepoint a (unat cp) c = (t, room)" by force
  have u: "undumped e \<le> 3" using undumped_le_3 [OF assms] .
  have "length (string_buffer e) + length t + room \<le> 512"
    using assms u escape_codepoint_size [OF t] by (auto simp: escaper_inv_def split: if_splits)
  then have put: "put t room (e\<lparr>ustate := st, codepoint := cp\<rparr>)
      = Inr (e\<lparr>ustate := st, codepoint := cp, string_buffer := string_buffer e @ t\<rparr>)"
    by (simp add: put_def)
  have "length (string_buffer e) + 1 \<le> 512"
    using assms u by (auto simp: escaper_inv_def split: if_splits)
  then have put1: "put [c] 0 (e\<lparr>ustate := st, codepoint := cp\<rparr>)
      = Inr (e\<lparr>ustate := st, codepoint := cp, string_buffer := string_buffer e @ [c]\<rparr>)"
    by (simp add: put_def)
  show ?thesis
    using safe put put1 by (cases "st = 0"; cases "st = 1") (auto simp: escape_byte_def d t Let_def)
qed

lemma escape_from_same:
  "escaper_inv a e \<Longrightarrow> escaper_inv b e' \<Longrightarrow> ustate e = ustate e' \<Longrightarrow> codepoint e = codepoint e' \<Longrightarrow>
   same_outcome (escape_from Strict a s e) (escape_from Strict b s e')"
proof (induction s arbitrary: e e')
  case Nil
  then show ?case by (simp add: same_outcome_def)
next
  case (Cons c s)
  note st = escape_byte_strict [OF Cons.prems(1), of c] escape_byte_strict [OF Cons.prems(2), of c]
  show ?case
  proof (cases "fst (decode (ustate e) (codepoint e) (byte c)) = 1")
    case True
    with st Cons.prems(3,4) have "escape_byte Strict a c e = Inl (Type_Error 316)" "escape_byte Strict b c e' = Inl (Type_Error 316)"
      by (auto split: sum.splits)
    then show ?thesis by (simp add: same_outcome_def)
  next
    case False
    with st Cons.prems(3,4) obtain e1 e2 where "escape_byte Strict a c e = Inr (e1, False)" "escaper_inv a e1"
      "escape_byte Strict b c e' = Inr (e2, False)" "escaper_inv b e2"
      "(ustate e1, codepoint e1) = decode (ustate e) (codepoint e) (byte c)"
      "(ustate e2, codepoint e2) = decode (ustate e) (codepoint e) (byte c)"
      by (auto split: sum.splits prod.splits)
    moreover from this have "ustate e1 = ustate e2" "codepoint e1 = codepoint e2" by (metis Pair_inject)+
    ultimately show ?thesis using Cons.IH [of e1 e2] by simp
  qed
qed

lemma dump_escaped_ascii:
  "dump_escaped Strict True s = (if valid_utf8 s then Inr (escape_ascii s) else Inl (Type_Error 316))"
proof (cases "valid_utf8 s")
  case True
  have "ustate escaper_init = 0" "written escaper_init @ string_buffer escaper_init = []"
    by (simp_all add: escaper_init_def)
  with escape_from_ascii [OF True escaper_inv_init] True show ?thesis
    by (auto simp: dump_escaped_def)
next
  case False
  have "same_outcome (escape_from Strict False s escaper_init) (escape_from Strict True s escaper_init)"
    by (rule escape_from_same) (simp_all add: escaper_inv_init)
  then show ?thesis
    using False dump_escaped_strict [of s] by (auto simp: dump_escaped_def same_outcome_def split: sum.splits if_splits)
qed

section \<open>Reading it back\<close>

lemma u_escape_split: "u_escape n @ t = CHR 0x5C # CHR ''u'' # drop 2 (u_escape n) @ t"
  by (simp add: u_escape_def)

lemma scan_u_escape:
  assumes "n < 0x10000" "n < 0xD800 \<or> 0xDFFF < n"
  shows "scan_string (u_escape n @ t) buf = scan_string t (buf @ encode_utf8 n)"
proof -
  have "scan_unicode (drop 2 (u_escape n) @ t) = Some (encode_utf8 n, t)"
    using assms by (auto simp: scan_unicode_def get_codepoint_u_escape)
  then show ?thesis unfolding u_escape_split by (intro scan_string_escape) simp
qed

lemma scan_surrogates:
  assumes "0x10000 \<le> n" "n < 0x110000"
  shows "scan_string (u_escape ((0xD7C0 + n div 2 ^ 10) mod 2 ^ 16) @ u_escape ((0xDC00 + n mod 2 ^ 10) mod 2 ^ 16) @ t) buf
    = scan_string t (buf @ encode_utf8 n)"
proof -
  define h l where "h = 0xD7C0 + n div 1024" and "l = 0xDC00 + n mod 1024"
  have hl: "0xD800 \<le> h" "h \<le> 0xDBFF" "0xDC00 \<le> l" "l \<le> 0xDFFF"
    using assms by (auto simp: h_def l_def div_less_iff_less_mult le_div_geq less_eq_div_iff_mult_less_eq)
  have e: "(0xD7C0 + n div 2 ^ 10) mod 2 ^ 16 = h" "(0xDC00 + n mod 2 ^ 10) mod 2 ^ 16 = l"
    using hl by (simp_all add: h_def l_def)
  have "push_bit 10 h + l - 0x35FDC00 = n"
    by (simp add: push_bit_eq_mult h_def l_def)
  moreover have "scan_unicode (drop 2 (u_escape h) @ u_escape l @ t) = Some (encode_utf8 (push_bit 10 h + l - 0x35FDC00), t)"
    using hl by (simp add: scan_unicode_def get_codepoint_u_escape u_escape_split [of l])
  ultimately show ?thesis
    unfolding e u_escape_split [of h] by (intro scan_string_escape) simp
qed

lemma scan_ascii_escape:
  assumes "lead_ranges (byte c) = Some rs" "in_ranges rs u"
  shows "scan_string (ascii_escape (code_of c u) (last (c # u)) @ t) buf = scan_string t (buf @ c # u)"
proof -
  note code = encode_code_of [OF assms]
  consider (plain) "rs = []" "byte c \<noteq> 0x7F" | (delete) "rs = []" "byte c = 0x7F"
    | (one) "rs \<noteq> []" "code_of c u < 0x10000" | (two) "rs \<noteq> []" "0x10000 \<le> code_of c u" by linarith
  then show ?thesis
  proof cases
    case plain
    then have c: "u = []" "byte c < 0x80" using assms lead_ranges_Nil by auto
    then have "code_of c u = byte c" by (simp add: code_of_def lead_base_def)
    moreover have "ascii_escape (byte c) c = escape_char c"
      using plain(2) c(2) by (simp add: ascii_escape_def escape_char_def escape_codepoint_def)
    ultimately show ?thesis using scan_string_ascii [OF c(2), of t buf] c(1) by simp
  next
    case delete
    then have c: "u = []" using assms by simp
    have "code_of c u = 0x7F" using delete c by (simp add: code_of_def lead_base_def)
    moreover from this have "encode_utf8 0x7F = c # u" using code by simp
    ultimately show ?thesis
      using scan_u_escape [of "0x7F" t buf] by (simp add: ascii_escape_def escape_codepoint_def)
  next
    case one
    then have "ascii_escape (code_of c u) (last (c # u)) = u_escape (code_of c u)"
      using code by (simp add: ascii_escape_def escape_codepoint_def)
    with one code scan_u_escape [of "code_of c u" t buf] show ?thesis by (simp add: scalar_def)
  next
    case two
    then have "ascii_escape (code_of c u) (last (c # u))
        = u_escape ((0xD7C0 + code_of c u div 2 ^ 10) mod 2 ^ 16) @ u_escape ((0xDC00 + code_of c u mod 2 ^ 10) mod 2 ^ 16)"
      using code by (simp add: ascii_escape_def escape_codepoint_def)
    with two code scan_surrogates [of "code_of c u" t buf] show ?thesis by (simp add: scalar_def)
  qed
qed

theorem scan_string_ascii_escaped:
  "valid_utf8 s \<Longrightarrow> scan_string (escape_ascii s @ CHR 0x22 # t) buf = Some (buf @ s, t)"
proof (induction s arbitrary: buf rule: valid_utf8_induct)
  case (Cons c u v rs)
  then show ?case
    by (simp only: escape_ascii_sequence [OF Cons.hyps(1,2)] scan_ascii_escape [OF Cons.hyps(1,2)] append_assoc) simp
qed simp

end
