(* ===== verification/Json_Layout.thy ===== *)
theory Json_Layout
  imports Json_Ascii
begin

text \<open>
  \<^verbatim>\<open>basic_json::dump\<close> with all its arguments: indentation, ASCII escaping and the three
  ways to treat a string that is not UTF-8. The indentation is written from a string of 512 characters
  that is doubled when it is too short, once for each level. The theorems say which text is written
  when that is enough, that every layout is read back as the same document, and that an indentation of
  more than 1025 reads outside the string.
\<close>

section \<open>The serializer\<close>

record dump_style =
  ds_pretty :: bool
  ds_ascii :: bool
  ds_step :: "32 word"
  ds_handler :: error_handler
  ds_float :: "string \<Rightarrow> string"

text \<open>\<open>n\<close> characters of \<^verbatim>\<open>indent_string.c_str()\<close>, which ends with a zero byte.\<close>

definition take_indent :: "32 word \<Rightarrow> string \<Rightarrow> string result" where
  "take_indent n indent_string =
     (if unat n \<le> Suc (length indent_string) then Inr (take (unat n) (indent_string @ [NUL])) else Inl Out_Of_Bounds)"

text \<open>The added characters are blanks, whatever the indentation character is.\<close>

definition grow_indent :: "32 word \<Rightarrow> string \<Rightarrow> string" where
  "grow_indent n indent_string =
     (if length indent_string < unat n then indent_string @ replicate (length indent_string) (CHR '' '') else indent_string)"

definition write_string :: "dump_style \<Rightarrow> string \<Rightarrow> string result" where
  "write_string st s = and_then (dump_escaped (ds_handler st) (ds_ascii st) s) (\<lambda>t. Inr ([quote] @ t @ [quote]))"

definition line_break :: "dump_style \<Rightarrow> string" where
  "line_break st = (if ds_pretty st then [CHR 0x0A] else [])"

text \<open>
  The levels inside an object or array and the string to indent them with; the number is the
  indentation of the value itself. The result has the indentation string, which has grown.
\<close>

definition next_level :: "dump_style \<Rightarrow> 32 word \<Rightarrow> string \<Rightarrow> 32 word \<times> string" where
  "next_level st current_indent indent_string =
     (if ds_pretty st
      then (let new_indent = current_indent + ds_step st in (new_indent, grow_indent new_indent indent_string))
      else (current_indent, indent_string))"

definition indent_line :: "dump_style \<Rightarrow> 32 word \<Rightarrow> string \<Rightarrow> string result" where
  "indent_line st n indent_string = (if ds_pretty st then take_indent n indent_string else Inr [])"

fun write_json :: "dump_style \<Rightarrow> 32 word \<Rightarrow> json \<Rightarrow> string \<Rightarrow> (string \<times> string) result"
and write_values :: "dump_style \<Rightarrow> 32 word \<Rightarrow> json list \<Rightarrow> string \<Rightarrow> (string \<times> string) result"
and write_members :: "dump_style \<Rightarrow> 32 word \<Rightarrow> (string \<times> json) list \<Rightarrow> string \<Rightarrow> (string \<times> string) result" where
  "write_json st cur (JObject kvs) ind =
     (if kvs = [] then Inr (''{}'', ind)
      else
        (case next_level st cur ind of (new, ind) \<Rightarrow>
           and_then (write_members st new kvs ind) (\<lambda>(t, ind).
           and_then (indent_line st cur ind) (\<lambda>b.
             Inr (''{'' @ line_break st @ t @ line_break st @ b @ ''}'', ind)))))"
| "write_json st cur (JArray vs) ind =
     (if vs = [] then Inr (''[]'', ind)
      else
        (case next_level st cur ind of (new, ind) \<Rightarrow>
           and_then (write_values st new vs ind) (\<lambda>(t, ind).
           and_then (indent_line st cur ind) (\<lambda>b.
             Inr (''['' @ line_break st @ t @ line_break st @ b @ '']'', ind)))))"
| "write_json st cur (JString s) ind = and_then (write_string st s) (\<lambda>t. Inr (t, ind))"
| "write_json st cur (JBool b) ind = Inr (if b then ''true'' else ''false'', ind)"
| "write_json st cur (JInteger x) ind = and_then (dump_integer x) (\<lambda>t. Inr (t, ind))"
| "write_json st cur (JUnsigned x) ind = and_then (dump_unsigned x) (\<lambda>t. Inr (t, ind))"
| "write_json st cur (JFloat x) ind = Inr (ds_float st x, ind)"
| "write_json st cur JNull ind = Inr (''null'', ind)"
| "write_values st new [] ind = Inr ([], ind)"
| "write_values st new (v # vs) ind =
     and_then (indent_line st new ind) (\<lambda>b.
     and_then (write_json st new v ind) (\<lambda>(t, ind).
       if vs = [] then Inr (b @ t, ind)
       else and_then (write_values st new vs ind) (\<lambda>(u, ind).
         Inr (b @ t @ '','' @ line_break st @ u, ind))))"
| "write_members st new [] ind = Inr ([], ind)"
| "write_members st new ((k, v) # kvs) ind =
     and_then (indent_line st new ind) (\<lambda>b.
     and_then (write_string st k) (\<lambda>q.
     and_then (write_json st new v ind) (\<lambda>(t, ind).
       let entry = b @ q @ (if ds_pretty st then '': '' else '':'') @ t in
       if kvs = [] then Inr (entry, ind)
       else and_then (write_members st new kvs ind) (\<lambda>(u, ind).
         Inr (entry @ '','' @ line_break st @ u, ind)))))"

definition style_of :: "32 word \<Rightarrow> bool \<Rightarrow> error_handler \<Rightarrow> (string \<Rightarrow> string) \<Rightarrow> dump_style" where
  "style_of indent ascii handler df =
     (if 0 \<le> sint indent
      then \<lparr>ds_pretty = True, ds_ascii = ascii, ds_step = indent, ds_handler = handler, ds_float = df\<rparr>
      else \<lparr>ds_pretty = False, ds_ascii = ascii, ds_step = 0, ds_handler = handler, ds_float = df\<rparr>)"

definition json_dump :: "32 word \<Rightarrow> char \<Rightarrow> bool \<Rightarrow> error_handler \<Rightarrow> (string \<Rightarrow> string) \<Rightarrow> json \<Rightarrow> string result" where
  "json_dump indent indent_char ascii handler df v =
     and_then (write_json (style_of indent ascii handler df) 0 v (replicate 512 indent_char)) (\<lambda>(t, ind). Inr t)"

section \<open>What is written\<close>

text \<open>
  The first 512 characters of an indentation are indentation characters, what was added to the
  string are blanks.
\<close>

definition indentation :: "char \<Rightarrow> nat \<Rightarrow> string" where
  "indentation c n = replicate (min n 512) c @ replicate (n - 512) (CHR '' '')"

definition style_layout :: "dump_style \<Rightarrow> char \<Rightarrow> layout" where
  "style_layout st c =
     \<lparr>lay_escape = (if ds_ascii st then escape_ascii else escape_string),
      lay_line = (\<lambda>n. if ds_pretty st then CHR 0x0A # indentation c (n * unat (ds_step st)) else []),
      lay_colon = (if ds_pretty st then '': '' else '':''),
      lay_float = ds_float st\<rparr>"

lemma style_layout_simps [simp]:
  "lay_escape (style_layout st c) = (if ds_ascii st then escape_ascii else escape_string)"
  "lay_line (style_layout st c) n = (if ds_pretty st then CHR 0x0A # indentation c (n * unat (ds_step st)) else [])"
  "lay_colon (style_layout st c) = (if ds_pretty st then '': '' else '':'')"
  "lay_float (style_layout st c) = ds_float st"
  by (simp_all add: style_layout_def)

text \<open>How many levels of indentation a value has inside.\<close>

fun json_depth :: "json \<Rightarrow> nat"
and values_depth :: "json list \<Rightarrow> nat"
and members_depth :: "(string \<times> json) list \<Rightarrow> nat" where
  "json_depth (JObject kvs) = (if kvs = [] then 0 else Suc (members_depth kvs))"
| "json_depth (JArray vs) = (if vs = [] then 0 else Suc (values_depth vs))"
| "json_depth _ = 0"
| "values_depth [] = 0"
| "values_depth (v # vs) = max (json_depth v) (values_depth vs)"
| "members_depth [] = 0"
| "members_depth ((k, v) # kvs) = max (json_depth v) (members_depth kvs)"

definition strict_style :: "dump_style \<Rightarrow> bool" where
  "strict_style st \<longleftrightarrow> ds_handler st = Strict \<and> (\<not> ds_pretty st \<longrightarrow> ds_step st = 0) \<and> unat (ds_step st) \<le> 1024"

definition level :: "dump_style \<Rightarrow> nat \<Rightarrow> 32 word" where
  "level st n = word_of_nat (n * unat (ds_step st))"

definition small :: "dump_style \<Rightarrow> nat \<Rightarrow> bool" where
  "small st n \<longleftrightarrow> n * unat (ds_step st) < 2 ^ 32"

text \<open>The string to indent with is long enough for \<open>n\<close> levels.\<close>

definition room :: "dump_style \<Rightarrow> char \<Rightarrow> nat \<Rightarrow> string \<Rightarrow> bool" where
  "room st c n ind \<longleftrightarrow>
     (\<exists>m. ind = replicate 512 c @ replicate m (CHR '' '')) \<and> n * unat (ds_step st) \<le> length ind
   \<and> (n = 0 \<or> unat (ds_step st) \<le> length ind)"

definition grown :: "string \<Rightarrow> string \<Rightarrow> bool" where
  "grown ind ind' \<longleftrightarrow> (\<exists>m. ind' = ind @ replicate m (CHR '' ''))"

lemma grown_refl [simp]: "grown ind ind"
  by (simp add: grown_def)

lemma grown_trans: "grown a b \<Longrightarrow> grown b c \<Longrightarrow> grown a c"
  by (auto simp: grown_def simp flip: replicate_add)

lemma room_grown: "room st c n ind \<Longrightarrow> grown ind ind' \<Longrightarrow> room st c n ind'"
  by (auto simp: room_def grown_def simp flip: replicate_add)

lemma small_mono: "small st m \<Longrightarrow> n \<le> m \<Longrightarrow> small st n"
  unfolding small_def by (meson le_less_trans mult_le_mono1)

lemma unat_level: "small st n \<Longrightarrow> unat (level st n) = n * unat (ds_step st)"
  unfolding small_def level_def by (simp only: unsigned_of_nat take_bit_nat_eq_self len_of_numeral_defs) (simp add: take_bit_nat_eq_self)

lemma next_level:
  assumes st: "strict_style st" and small: "small st (Suc n)" and room: "room st c n ind"
  obtains ind' where "next_level st (level st n) ind = (level st (Suc n), ind')" "grown ind ind'" "room st c (Suc n) ind'"
proof (cases "ds_pretty st")
  case False
  with st have "ds_step st = 0" by (simp add: strict_style_def)
  with False room show ?thesis by (intro that [of ind]) (simp_all add: next_level_def level_def room_def)
next
  case True
  have l: "level st n + ds_step st = level st (Suc n)" by (simp add: level_def algebra_simps)
  define ind' where "ind' = grow_indent (level st (Suc n)) ind"
  have "grown ind ind'" by (auto simp: ind'_def grow_indent_def grown_def intro: exI [of _ 0])
  moreover have "room st c (Suc n) ind'"
  proof -
    have step: "unat (ds_step st) \<le> 1024" using st by (simp add: strict_style_def)
    obtain m where m: "ind = replicate 512 c @ replicate m (CHR '' '')" and fits: "n * unat (ds_step st) \<le> length ind"
      and once: "n = 0 \<or> unat (ds_step st) \<le> length ind"
      using room by (auto simp: room_def)
    have "512 \<le> length ind" by (simp add: m)
    with step fits once have "Suc n * unat (ds_step st) \<le> length ind'"
      by (auto simp: ind'_def grow_indent_def unat_level [OF small])
    moreover from this have "unat (ds_step st) \<le> length ind'" by simp
    moreover have "\<exists>m. ind' = replicate 512 c @ replicate m (CHR '' '')"
      using m by (auto simp: ind'_def grow_indent_def simp flip: replicate_add)
    ultimately show ?thesis by (simp add: room_def)
  qed
  ultimately show ?thesis
    using True by (intro that [of ind']) (simp_all add: next_level_def l ind'_def Let_def)
qed

lemma indent_line:
  assumes "small st n" "room st c n ind"
  shows "\<exists>b. indent_line st (level st n) ind = Inr b \<and> line_break st @ b = lay_line (style_layout st c) n"
proof (cases "ds_pretty st")
  case True
  from assms(2) obtain m where m: "ind = replicate 512 c @ replicate m (CHR '' '')" "n * unat (ds_step st) \<le> length ind"
    by (auto simp: room_def)
  then have "take (n * unat (ds_step st)) ind = indentation c (n * unat (ds_step st))"
    by (auto simp: indentation_def min_def)
  with m(2) True show ?thesis
    by (simp add: indent_line_def take_indent_def unat_level [OF assms(1)] line_break_def)
qed (simp add: indent_line_def line_break_def)

text \<open>A result that is a text, or the exception for a string that is not UTF-8.\<close>

definition wrote :: "bool \<Rightarrow> string \<Rightarrow> string \<Rightarrow> (string \<times> string) result \<Rightarrow> bool" where
  "wrote utf8 t ind r \<longleftrightarrow>
     (if utf8 then \<exists>ind'. r = Inr (t, ind') \<and> grown ind ind' else r = Inl (Type_Error 316))"

lemma wrote_Inr [simp]: "wrote True t ind (Inr (t', ind')) \<longleftrightarrow> t' = t \<and> grown ind ind'"
  by (auto simp: wrote_def)

lemma wrote_grown: "grown ind ind' \<Longrightarrow> wrote utf8 t ind' r \<Longrightarrow> wrote utf8 t ind r"
  by (cases utf8) (auto simp: wrote_def intro: grown_trans)

lemma wrote_and_then:
  assumes "wrote b t ind r" "\<And>ind'. b \<Longrightarrow> grown ind ind' \<Longrightarrow> wrote b' t' ind' (f (t, ind'))"
  shows "wrote (b \<and> b') t' ind (and_then r f)"
proof (cases b)
  case True
  with assms(1) obtain ind' where "r = Inr (t, ind')" "grown ind ind'" by (auto simp: wrote_def)
  with assms(2) [OF True] True show ?thesis by (simp add: wrote_def) (meson grown_trans)
qed (use assms(1) in \<open>simp add: wrote_def\<close>)

lemma write_string:
  "ds_handler st = Strict \<Longrightarrow>
   write_string st s = (if valid_utf8 s then Inr (lay_string (style_layout st c) s) else Inl (Type_Error 316))"
  by (simp add: write_string_def lay_string_def dump_escaped_strict dump_escaped_ascii)

lemma wrote_enclosed:
  assumes "small st n" "room st c n ind" "grown ind ind'" "wrote utf8 t ind' r"
    "line_break st @ t = body"
  shows "wrote utf8 (p # body @ lay_line (style_layout st c) n @ [q]) ind
    (and_then r (\<lambda>(t, ind). and_then (indent_line st (level st n) ind) (\<lambda>b.
       Inr (p # line_break st @ t @ line_break st @ b @ [q], ind))))" (is "wrote utf8 ?text ind (and_then r ?f)")
proof -
  have "wrote (utf8 \<and> True) ?text ind' (and_then r ?f)"
  proof (rule wrote_and_then [OF assms(4)])
    fix ind'' assume "grown ind' ind''"
    then have "room st c n ind''" using assms(2,3) by (meson room_grown grown_trans)
    from indent_line [OF assms(1) this] obtain b where
      "indent_line st (level st n) ind'' = Inr b" "lay_line (style_layout st c) n = line_break st @ b" by metis
    then show "wrote True ?text ind'' (?f (t, ind''))"
      by (simp add: assms(5) [symmetric] del: style_layout_simps)
  qed
  then show ?thesis by (intro wrote_grown [OF assms(3)]) simp
qed

lemma wrote_more:
  assumes "wrote utf8 t ind r" "\<not> longer \<Longrightarrow> utf8'"
    "\<And>ind'. grown ind ind' \<Longrightarrow> longer \<Longrightarrow> \<exists>u. line_break st @ u = rest \<and> wrote utf8' u ind' (f ind')"
  shows "wrote (utf8 \<and> utf8') (b @ t @ (if longer then '','' @ rest else [])) ind
    (and_then r (\<lambda>(t, ind). if \<not> longer then Inr (b @ t, ind)
       else and_then (f ind) (\<lambda>(u, ind). Inr (b @ t @ '','' @ line_break st @ u, ind))))"
proof (rule wrote_and_then [OF assms(1)])
  fix ind' assume g: "grown ind ind'"
  show "wrote utf8' (b @ t @ (if longer then '','' @ rest else [])) ind' (case (t, ind') of (t, ind) \<Rightarrow>
      if \<not> longer then Inr (b @ t, ind) else and_then (f ind) (\<lambda>(u, ind). Inr (b @ t @ '','' @ line_break st @ u, ind)))"
  proof (cases longer)
    case True
    from assms(3) [OF g True] obtain u where "line_break st @ u = rest" "wrote utf8' u ind' (f ind')" by blast
    with True show ?thesis by (auto simp: wrote_def)
  qed (use assms(2) in simp)
qed

lemma write_layout:
  assumes st: "strict_style st"
  shows
    "room st c n ind \<Longrightarrow> small st (n + json_depth v) \<Longrightarrow>
     wrote (json_utf8 v) (layout_json (style_layout st c) n v) ind (write_json st (level st n) v ind)"
    "vs \<noteq> [] \<Longrightarrow> room st c n ind \<Longrightarrow> small st (n + values_depth vs) \<Longrightarrow>
     \<exists>t. line_break st @ t = layout_values (style_layout st c) n vs
       \<and> wrote (values_utf8 vs) t ind (write_values st (level st n) vs ind)"
    "kvs \<noteq> [] \<Longrightarrow> room st c n ind \<Longrightarrow> small st (n + members_depth kvs) \<Longrightarrow>
     \<exists>t. line_break st @ t = layout_members (style_layout st c) n kvs
       \<and> wrote (members_utf8 kvs) t ind (write_members st (level st n) kvs ind)"
proof (induction v and vs and kvs arbitrary: n ind and n ind and n ind rule: json_utf8_values_utf8_members_utf8.induct)
  case (1 kvs)
  show ?case
  proof (cases "kvs = []")
    case False
    then have small: "small st (Suc n)" "small st (Suc n + members_depth kvs)" "small st n"
      using "1.prems"(2) by (auto intro: small_mono)
    from next_level [OF st small(1) "1.prems"(1)] obtain ind' where
      ind': "next_level st (level st n) ind = (level st (Suc n), ind')" "grown ind ind'" "room st c (Suc n) ind'" .
    from "1.IH" [OF False ind'(3) small(2)] obtain t where
      t: "line_break st @ t = layout_members (style_layout st c) (Suc n) kvs"
        "wrote (members_utf8 kvs) t ind' (write_members st (level st (Suc n)) kvs ind')" by blast
    from wrote_enclosed [OF small(3) "1.prems"(1) ind'(2) t(2,1), of "CHR ''{''" "CHR ''}''"] ind'(1) False
    show ?thesis by (simp del: style_layout_simps)
  qed simp
next
  case (2 vs)
  show ?case
  proof (cases "vs = []")
    case False
    then have small: "small st (Suc n)" "small st (Suc n + values_depth vs)" "small st n"
      using "2.prems"(2) by (auto intro: small_mono)
    from next_level [OF st small(1) "2.prems"(1)] obtain ind' where
      ind': "next_level st (level st n) ind = (level st (Suc n), ind')" "grown ind ind'" "room st c (Suc n) ind'" .
    from "2.IH" [OF False ind'(3) small(2)] obtain t where
      t: "line_break st @ t = layout_values (style_layout st c) (Suc n) vs"
        "wrote (values_utf8 vs) t ind' (write_values st (level st (Suc n)) vs ind')" by blast
    from wrote_enclosed [OF small(3) "2.prems"(1) ind'(2) t(2,1), of "CHR ''[''" "CHR '']''"] ind'(1) False
    show ?thesis by (simp del: style_layout_simps)
  qed simp
next
  case (3 s)
  then show ?case using st by (auto simp: wrote_def write_string [of st s c] strict_style_def)
next
  case (6 v vs)
  then have small: "small st n" "small st (n + json_depth v)" "small st (n + values_depth vs)"
    by (auto intro: small_mono)
  from indent_line [OF small(1) "6.prems"(2)] obtain b where
    b: "indent_line st (level st n) ind = Inr b" "line_break st @ b = lay_line (style_layout st c) n" by blast
  have "wrote (json_utf8 v \<and> values_utf8 vs)
      (b @ layout_json (style_layout st c) n v @ (if vs \<noteq> [] then '','' @ layout_values (style_layout st c) n vs else []))
      ind (write_values st (level st n) (v # vs) ind)"
  proof -
    have "write_values st (level st n) (v # vs) ind = and_then (write_json st (level st n) v ind) (\<lambda>(t, ind).
        if \<not> vs \<noteq> [] then Inr (b @ t, ind)
        else and_then (write_values st (level st n) vs ind) (\<lambda>(u, ind). Inr (b @ t @ '','' @ line_break st @ u, ind)))"
      by (simp add: b(1))
    then show ?thesis
      by (simp only:) (rule wrote_more,
        auto intro!: "6.IH"(1) "6.IH"(2) "6.prems"(2) small room_grown [OF "6.prems"(2)] simp del: style_layout_simps)
  qed
  moreover have "line_break st @ b @ layout_json (style_layout st c) n v
      @ (if vs \<noteq> [] then '','' @ layout_values (style_layout st c) n vs else [])
    = layout_values (style_layout st c) n (v # vs)"
    by (simp add: b(2) [symmetric] del: style_layout_simps)
  ultimately show ?case unfolding values_utf8.simps by blast
next
  case (8 k v kvs)
  then have small: "small st n" "small st (n + json_depth v)" "small st (n + members_depth kvs)"
    by (auto intro: small_mono)
  from indent_line [OF small(1) "8.prems"(2)] obtain b where
    b: "indent_line st (level st n) ind = Inr b" "line_break st @ b = lay_line (style_layout st c) n" by blast
  let ?b = "b @ lay_string (style_layout st c) k @ lay_colon (style_layout st c)"
  have "wrote (valid_utf8 k \<and> json_utf8 v \<and> members_utf8 kvs)
      (?b @ layout_json (style_layout st c) n v
        @ (if kvs \<noteq> [] then '','' @ layout_members (style_layout st c) n kvs else []))
      ind (write_members st (level st n) ((k, v) # kvs) ind)"
  proof (cases "valid_utf8 k")
    case True
    with st have k: "write_string st k = Inr (lay_string (style_layout st c) k)"
      by (simp add: write_string [of st k c] strict_style_def)
    have "write_members st (level st n) ((k, v) # kvs) ind = and_then (write_json st (level st n) v ind) (\<lambda>(t, ind).
        if \<not> kvs \<noteq> [] then Inr (?b @ t, ind)
        else and_then (write_members st (level st n) kvs ind) (\<lambda>(u, ind). Inr (?b @ t @ '','' @ line_break st @ u, ind)))"
      by (simp add: b(1) k Let_def cong: if_cong)
    moreover have "wrote (json_utf8 v \<and> members_utf8 kvs)
      (?b @ layout_json (style_layout st c) n v
        @ (if kvs \<noteq> [] then '','' @ layout_members (style_layout st c) n kvs else [])) ind \<dots>"
      by (rule wrote_more) (auto intro!: "8.IH"(1) "8.IH"(2) "8.prems"(2) small room_grown [OF "8.prems"(2)] simp del: style_layout_simps)
    ultimately show ?thesis using True by simp
  next
    case False
    with st show ?thesis by (simp add: b(1) write_string [of st k c] strict_style_def wrote_def)
  qed
  moreover have "line_break st @ ?b @ layout_json (style_layout st c) n v
      @ (if kvs \<noteq> [] then '','' @ layout_members (style_layout st c) n kvs else [])
    = layout_members (style_layout st c) n ((k, v) # kvs)"
    by (simp add: b(2) [symmetric] del: style_layout_simps)
  ultimately show ?case unfolding members_utf8.simps append_assoc by blast
qed (simp_all add: dump_integer_show_int dump_unsigned_show_nat)

text \<open>\<^verbatim>\<open>dump\<close> with every argument but the error handler.\<close>

definition text_layout :: "32 word \<Rightarrow> char \<Rightarrow> bool \<Rightarrow> (string \<Rightarrow> string) \<Rightarrow> layout" where
  "text_layout indent indent_char ascii df = style_layout (style_of indent ascii Strict df) indent_char"

theorem json_dump_layout:
  assumes "0 \<le> sint indent \<Longrightarrow> unat indent \<le> 1024 \<and> json_depth v * unat indent < 2 ^ 32"
  shows "json_dump indent c ascii Strict df v =
    (if json_utf8 v then Inr (layout_json (text_layout indent c ascii df) 0 v) else Inl (Type_Error 316))"
proof -
  define st where "st = style_of indent ascii Strict df"
  have st: "strict_style st" "small st (0 + json_depth v)"
    using assms by (auto simp: st_def style_of_def strict_style_def small_def)
  have "room st c 0 (replicate 512 c)" by (auto simp: room_def intro: exI [of _ 0])
  from write_layout(1) [OF st(1) this st(2)] show ?thesis
    by (auto simp: json_dump_def text_layout_def level_def wrote_def simp flip: st_def split: if_splits)
qed

lemma text_layout_compact: "text_layout (- 1) c False df = compact_layout df"
  by (simp add: text_layout_def style_of_def style_layout_def compact_layout_def)

theorem json_dump_default: "json_dump (- 1) c False Strict df v = dump df v"
  by (subst json_dump_layout) (simp_all add: text_layout_compact json_text_layout dump_json_text)

section \<open>Reading it back\<close>

lemma nul_free_u_escape: "nul_free (u_escape n)"
  by (simp add: u_escape_def nul_free_def)

lemma nul_free_escape_ascii: "valid_utf8 s \<Longrightarrow> nul_free (escape_ascii s)"
proof (induction s rule: valid_utf8_induct)
  case (Cons c u v rs)
  have plain: "last (c # u) \<noteq> NUL" if "\<not> code_of c u \<le> 0x1F" "\<not> 0x7F \<le> code_of c u"
  proof -
    have "c # u = [char_of (code_of c u)]"
      using encode_code_of [OF Cons.hyps(1,2)] that by (auto simp: encode_utf8_def)
    moreover have "byte (char_of (code_of c u)) \<noteq> byte NUL" using that by simp
    ultimately show ?thesis by (metis last.simps)
  qed
  then show ?case
    using Cons.IH by (auto simp: escape_ascii_sequence [OF Cons.hyps(1,2)] ascii_escape_def escape_codepoint_def nul_free_u_escape
      simp del: last.simps)
qed simp

lemma indentation_space: "is_space c \<Longrightarrow> list_all is_space (indentation c n)"
  by (auto simp: indentation_def list_all_iff is_space_def)

lemma readable_text_layout: "is_space c \<Longrightarrow> readable (text_layout indent c ascii df)"
  by unfold_locales
    (auto simp: text_layout_def scan_string_escaped scan_string_ascii_escaped indentation_space nul_free_escape_ascii is_space_def)

interpretation laid_out: readable "text_layout indent (CHR '' '') ascii df" for indent ascii df
  by (rule readable_text_layout) (simp add: is_space_def)

theorem json_parse_layout:
  assumes "json_plain v" "0 \<le> sint indent \<Longrightarrow> unat indent \<le> 1024 \<and> json_depth v * unat indent < 2 ^ 32"
  shows "\<exists>doc. json_dump indent (CHR '' '') ascii Strict df v = Inr doc \<and> json_parse_c fin doc = Inr v"
  using assms json_dump_layout [of indent v] laid_out.parse_layout plain_utf8(1) by simp

text \<open>An indentation of more than 1025 columns is longer than the string it is written from.\<close>

theorem wide_indentation_faults:
  assumes "0 \<le> sint indent" "1026 \<le> unat indent" "v = JArray (w # ws) \<or> v = JObject ((k, w) # kvs)"
  shows "json_dump indent c ascii handler df v = Inl Out_Of_Bounds"
proof -
  have "\<not> unat indent \<le> Suc (length (grow_indent indent (replicate 512 c)))"
    using assms(2) by (simp add: grow_indent_def)
  then show ?thesis
    using assms(1,3) by (auto simp: json_dump_def style_of_def next_level_def indent_line_def take_indent_def Let_def)
qed

end
