(* ===== verification/Eastl_Bit_Iterator.thy ===== *)
theory Eastl_Bit_Iterator
  imports Repo_Prelude "HOL-Library.Word"
begin

unbundle bit_operations_syntax

text \<open>
  The iterators of \<^verbatim>\<open>eastl::bitvector\<close> (\<^verbatim>\<open>src/extlibs/eastl/bitvector.h\<close>): a word
  and the index of a bit in it, moved with carries from word to word, and \<^verbatim>\<open>MoveBits\<close>, which copies
  bits between overlapping ranges. A read or write outside the container is a fault. An iterator whose
  carry is done is its distance from the first bit (\<open>at_bit\<close>), and the container is the list of its
  bits (\<open>flags\<close>).
\<close>

section \<open>Iterators\<close>

abbreviation kBitCount :: nat where "kBitCount \<equiv> 64"

text \<open>The pointer to a word is its index in the container; what lies outside is not read or written.\<close>

record bit_iterator =
  mpBitWord :: int
  mnBitIndex :: nat

type_synonym bit_words = "64 word list"

definition in_words :: "bit_words \<Rightarrow> bit_iterator \<Rightarrow> bool" where
  "in_words ws it \<longleftrightarrow> 0 \<le> mpBitWord it \<and> mpBitWord it < int (length ws) \<and> mnBitIndex it < kBitCount"

definition bit_read :: "bit_words \<Rightarrow> bit_iterator \<Rightarrow> bool result" where
  "bit_read ws it =
     (if in_words ws it then Inr (ws ! nat (mpBitWord it) AND push_bit (mnBitIndex it) 1 \<noteq> 0) else Inl Out_Of_Bounds)"

definition bit_assign :: "bit_words \<Rightarrow> bit_iterator \<Rightarrow> bool \<Rightarrow> bit_words result" where
  "bit_assign ws it v =
     (if in_words ws it
      then
        (let w = ws ! nat (mpBitWord it); mask = push_bit (mnBitIndex it) 1
         in Inr (ws[nat (mpBitWord it) := (if v then w OR mask else w AND NOT mask)]))
      else Inl Out_Of_Bounds)"

definition bit_next :: "bit_iterator \<Rightarrow> bit_iterator" where
  "bit_next it =
     (if mnBitIndex it + 1 = kBitCount then \<lparr>mpBitWord = mpBitWord it + 1, mnBitIndex = 0\<rparr>
      else it\<lparr>mnBitIndex := mnBitIndex it + 1\<rparr>)"

definition bit_prev :: "bit_iterator \<Rightarrow> bit_iterator" where
  "bit_prev it =
     (if mnBitIndex it = 0 then \<lparr>mpBitWord = mpBitWord it - 1, mnBitIndex = kBitCount - 1\<rparr>
      else it\<lparr>mnBitIndex := mnBitIndex it - 1\<rparr>)"

text \<open>The numbers are never negative where the code divides, so division rounds the same way.\<close>

definition bit_add :: "bit_iterator \<Rightarrow> int \<Rightarrow> bit_iterator" where
  "bit_add it n =
     (let n = n + int (mnBitIndex it)
      in if 0 \<le> n
         then \<lparr>mpBitWord = mpBitWord it + n div int kBitCount, mnBitIndex = nat (n mod int kBitCount)\<rparr>
         else
           (let backwards = - n + int kBitCount - 1
            in \<lparr>mpBitWord = mpBitWord it - backwards div int kBitCount,
                mnBitIndex = (kBitCount - 1) - nat (backwards mod int kBitCount)\<rparr>))"

definition bit_minus :: "bit_iterator \<Rightarrow> int \<Rightarrow> bit_iterator" where
  "bit_minus it n = bit_add it (- n)"

definition bit_distance :: "bit_iterator \<Rightarrow> bit_iterator \<Rightarrow> int" where
  "bit_distance it rhs = (mpBitWord it - mpBitWord rhs) * int kBitCount + int (mnBitIndex it) - int (mnBitIndex rhs)"

definition bit_le :: "bit_iterator \<Rightarrow> bit_iterator \<Rightarrow> bool" where
  "bit_le it rhs \<longleftrightarrow>
     mpBitWord it < mpBitWord rhs \<or> mpBitWord it = mpBitWord rhs \<and> mnBitIndex it \<le> mnBitIndex rhs"

text \<open>Where an iterator points, as a number of bits from the start.\<close>

definition pos :: "bit_iterator \<Rightarrow> int" where
  "pos it = mpBitWord it * 64 + int (mnBitIndex it)"

definition carried :: "bit_iterator \<Rightarrow> bool" where
  "carried it \<longleftrightarrow> mnBitIndex it < kBitCount"

definition at_bit :: "int \<Rightarrow> bit_iterator" where
  "at_bit p = \<lparr>mpBitWord = p div 64, mnBitIndex = nat (p mod 64)\<rparr>"

lemma at_bit [simp]: "pos (at_bit p) = p" "carried (at_bit p)"
  by (simp_all add: pos_def at_bit_def carried_def) 

lemma carried_at_bit: "carried it \<Longrightarrow> it = at_bit (pos it)"
  by (cases it) (simp add: at_bit_def pos_def carried_def)

lemma at_bit_eq [simp]: "at_bit p = at_bit q \<longleftrightarrow> p = q"
  by (metis at_bit(1))

lemma bit_next_at [simp]: "bit_next (at_bit p) = at_bit (p + 1)"
proof -
  have "pos (bit_next (at_bit p)) = p + 1" "carried (bit_next (at_bit p))"
    using at_bit [of p] by (auto simp: bit_next_def pos_def carried_def)
  then show ?thesis using carried_at_bit by metis
qed

lemma bit_prev_at [simp]: "bit_prev (at_bit p) = at_bit (p - 1)"
proof -
  have "pos (bit_prev (at_bit p)) = p - 1" "carried (bit_prev (at_bit p))"
    using at_bit [of p] by (auto simp: bit_prev_def pos_def carried_def)
  then show ?thesis using carried_at_bit by metis
qed

lemma bit_add_at [simp]: "bit_add (at_bit p) n = at_bit (p + n)"
proof -
  have "pos (bit_add (at_bit p) n) = p + n \<and> carried (bit_add (at_bit p) n)"
  proof (cases "0 \<le> n + int (mnBitIndex (at_bit p))")
    case True
    with at_bit(1) [of p] show ?thesis by (simp add: bit_add_def Let_def pos_def carried_def)
  next
    case False
    define b where "b = - (n + int (mnBitIndex (at_bit p))) + int kBitCount - 1"
    have e: "bit_add (at_bit p) n
        = \<lparr>mpBitWord = mpBitWord (at_bit p) - b div 64, mnBitIndex = 63 - nat (b mod 64)\<rparr>"
      using False by (simp add: bit_add_def Let_def b_def)
    define q r where "q = b div 64" and "r = b mod 64"
    have "b = q * 64 + r" "0 \<le> r" "r < 64" by (simp_all add: q_def r_def)
    moreover have "b = 63 - n - int (mnBitIndex (at_bit p))" by (simp add: b_def)
    ultimately show ?thesis
      using at_bit(1) [of p] unfolding e q_def [symmetric] r_def [symmetric] by (simp add: pos_def carried_def of_nat_diff nat_less_iff)
  qed
  then show ?thesis using carried_at_bit by metis
qed

lemma bit_minus_at [simp]: "bit_minus (at_bit p) n = at_bit (p - n)"
  by (simp add: bit_minus_def)

lemma bit_distance_at [simp]: "bit_distance (at_bit p) (at_bit q) = p - q"
  using at_bit(1) [of p] at_bit(1) [of q] by (simp add: bit_distance_def pos_def algebra_simps)

lemma bit_le_at [simp]: "bit_le (at_bit p) (at_bit q) \<longleftrightarrow> p \<le> q"
  using at_bit [of p] at_bit [of q] unfolding bit_le_def pos_def carried_def by auto

section \<open>The bits of a container\<close>

definition flag :: "bit_words \<Rightarrow> nat \<Rightarrow> bool" where
  "flag ws p = bit (ws ! (p div 64)) (p mod 64)"

definition flags :: "bit_words \<Rightarrow> bool list" where
  "flags ws = map (flag ws) [0..<64 * length ws]"

lemma length_flags [simp]: "length (flags ws) = 64 * length ws"
  by (simp add: flags_def)

lemma nth_flags: "p < 64 * length ws \<Longrightarrow> flags ws ! p = flag ws p"
  by (simp add: flags_def)

lemma in_words_at: "in_words ws (at_bit p) \<longleftrightarrow> 0 \<le> p \<and> p < int (64 * length ws)"
proof -
  define q r where "q = p div 64" and "r = p mod 64"
  have "p = q * 64 + r" "0 \<le> r" "r < 64" by (simp_all add: q_def r_def)
  then show ?thesis by (auto simp: in_words_def at_bit_def nat_less_iff simp flip: q_def r_def)
qed

lemma bit_read_at: "bit_read ws (at_bit p) = (if p < 0 then Inl Out_Of_Bounds else array_get (flags ws) (nat p))"
proof (cases "0 \<le> p \<and> p < int (64 * length ws)")
  case True
  then have n: "nat p < 64 * length ws" by linarith
  have "nat (p mod 64) = nat p mod 64" "nat (p div 64) = nat p div 64"
    using True by (simp_all add: nat_mod_distrib nat_div_distrib)
  moreover have "w AND push_bit k 1 \<noteq> 0 \<longleftrightarrow> bit w k" for w :: "64 word" and k
    by (simp add: push_bit_of_1 and_exp_eq_0_iff_not_bit)
  ultimately show ?thesis
    using True n in_words_at [of ws p] by (simp add: bit_read_def at_bit_def flag_def nth_flags)
next
  case False
  then show ?thesis by (auto simp: bit_read_def in_words_at array_get_def)
qed

lemma bit_assign_at:
  assumes "0 \<le> p" "p < int (64 * length ws)"
  obtains ws' where "bit_assign ws (at_bit p) v = Inr ws'" "flags ws' = (flags ws)[nat p := v]" "length ws' = length ws"
proof -
  have n: "nat p < 64 * length ws" using assms by linarith
  then have k: "nat p div 64 < length ws" by (simp add: less_mult_imp_div_less mult.commute)
  have e: "nat (p mod 64) = nat p mod 64" "nat (p div 64) = nat p div 64"
    using assms by (simp_all add: nat_mod_distrib nat_div_distrib)
  let ?w = "ws ! (nat p div 64)" and ?m = "push_bit (nat p mod 64) 1 :: 64 word"
  define u where "u = (if v then ?w OR ?m else ?w AND NOT ?m)"
  have u: "bit u i = (if i = nat p mod 64 then v else bit ?w i)" if "i < 64" for i
    using that by (auto simp: u_def bit_simps)
  have "flags (ws[nat p div 64 := u]) = (flags ws)[nat p := v]"
  proof (rule nth_equalityI)
    fix q assume q: "q < length (flags (ws[nat p div 64 := u]))"
    then have "q div 64 < length ws" by (simp add: less_mult_imp_div_less mult.commute)
    moreover have "q = nat p \<longleftrightarrow> q div 64 = nat p div 64 \<and> q mod 64 = nat p mod 64"
      by (metis div_mult_mod_eq)
    ultimately show "flags (ws[nat p div 64 := u]) ! q = (flags ws)[nat p := v] ! q"
      using q n k by (auto simp: flag_def nth_flags nth_list_update u)
  qed simp
  then show ?thesis
    using assms in_words_at [of ws p] by (intro that [of "ws[nat p div 64 := u]"])
      (simp_all add: bit_assign_def Let_def u_def e at_bit_def)
qed

lemma bit_read_nat: "bit_read ws (at_bit (int p)) = array_get (flags ws) p"
  by (simp add: bit_read_at)

lemma bit_assign_nat:
  assumes "p < 64 * length ws"
  shows "\<exists>ws'. bit_assign ws (at_bit (int p)) v = Inr ws' \<and> flags ws' = (flags ws)[p := v] \<and> length ws' = length ws"
proof -
  have "int p < int (64 * length ws)" using assms by (simp only: of_nat_less_iff)
  then show ?thesis by (metis bit_assign_at nat_int of_nat_0_le_iff)
qed

lemma bit_assign_ok: "bit_assign ws it v = Inr ws' \<Longrightarrow> length ws' = length ws \<and> in_words ws it"
  by (auto simp: bit_assign_def Let_def split: if_splits)

section \<open>Moving bits\<close>

text \<open>
  The loops stop because a position outside the container is a fault: upwards each round leaves fewer
  positions above, downwards fewer below.
\<close>

function move_up :: "bit_words \<Rightarrow> bit_iterator \<Rightarrow> bit_iterator \<Rightarrow> bit_iterator \<Rightarrow> bit_words result" where
  "move_up ws start close dest =
     (if start = close then Inr ws
      else
        (case bit_read ws start of
           Inl f \<Rightarrow> Inl f
         | Inr v \<Rightarrow>
             (case bit_assign ws dest v of
                Inl f \<Rightarrow> Inl f
              | Inr ws' \<Rightarrow> move_up ws' (bit_next start) close (bit_next dest))))"
  by pat_completeness auto
termination
proof (relation "measure (\<lambda>(ws, start, close, dest). nat (64 * int (length ws) - pos start))", goal_cases)
  case (2 ws start close dest v ws')
  then have "in_words ws start" "length ws' = length ws"
    by (auto simp: bit_read_def dest: bit_assign_ok split: if_splits)
  then show ?case by (auto simp: in_words_def pos_def bit_next_def)
qed simp

function move_down :: "bit_words \<Rightarrow> bit_iterator \<Rightarrow> bit_iterator \<Rightarrow> bit_iterator \<Rightarrow> bit_words result" where
  "move_down ws start close dest =
     (if start = close then Inr ws
      else
        (case bit_read ws (bit_prev close) of
           Inl f \<Rightarrow> Inl f
         | Inr v \<Rightarrow>
             (case bit_assign ws (bit_prev dest) v of
                Inl f \<Rightarrow> Inl f
              | Inr ws' \<Rightarrow> move_down ws' start (bit_prev close) (bit_prev dest))))"
  by pat_completeness auto
termination
proof (relation "measure (\<lambda>(ws, start, close, dest). nat (pos close))", goal_cases)
  case (2 ws start close dest v ws')
  then have "in_words ws (bit_prev close)"
    by (auto simp: bit_read_def split: if_splits)
  then show ?case by (auto simp: in_words_def pos_def bit_prev_def split: if_splits)
qed simp

declare move_up.simps [simp del] move_down.simps [simp del]

definition MoveBits :: "bit_words \<Rightarrow> bit_iterator \<Rightarrow> bit_iterator \<Rightarrow> bit_iterator \<Rightarrow> bit_words result" where
  "MoveBits ws start close dest =
     (if bit_le dest start then move_up ws start close dest
      else move_down ws start close (bit_add dest (bit_distance close start)))"

text \<open>The \<open>k\<close> elements from \<open>s\<close> on, copied to \<open>d\<close>.\<close>

definition moved :: "nat \<Rightarrow> nat \<Rightarrow> nat \<Rightarrow> 'a list \<Rightarrow> 'a list" where
  "moved s k d xs = map (\<lambda>i. if d \<le> i \<and> i < d + k then xs ! (i - d + s) else xs ! i) [0..<length xs]"

lemma length_moved [simp]: "length (moved s k d xs) = length xs"
  by (simp add: moved_def)

lemma nth_moved: "i < length xs \<Longrightarrow> moved s k d xs ! i = (if d \<le> i \<and> i < d + k then xs ! (i - d + s) else xs ! i)"
  by (simp add: moved_def)

lemma moved_up: "d \<le> s \<Longrightarrow> s + Suc k \<le> length xs \<Longrightarrow> moved (Suc s) k (Suc d) (xs[d := xs ! s]) = moved s (Suc k) d xs"
  by (rule nth_equalityI) (auto simp: nth_moved nth_list_update Suc_le_eq intro!: arg_cong [of _ _ "(!) xs"])

lemma moved_down: "s < d \<Longrightarrow> d + Suc k \<le> length xs \<Longrightarrow> moved s k d (xs[d + k := xs ! (s + k)]) = moved s (Suc k) d xs"
  by (rule nth_equalityI) (auto simp: nth_moved nth_list_update less_Suc_eq intro!: arg_cong [of _ _ "(!) xs"])

lemma moved_0 [simp]: "moved s 0 d xs = xs"
  by (rule nth_equalityI) (auto simp: nth_moved)

lemma move_up_at:
  "d \<le> s \<Longrightarrow> s + k \<le> 64 * length ws \<Longrightarrow>
   \<exists>ws'. move_up ws (at_bit (int s)) (at_bit (int (s + k))) (at_bit (int d)) = Inr ws'
     \<and> flags ws' = moved s k d (flags ws) \<and> length ws' = length ws"
proof (induction k arbitrary: ws s d)
  case (Suc k)
  obtain ws' where ws': "bit_assign ws (at_bit (int d)) (flags ws ! s) = Inr ws'"
      "flags ws' = (flags ws)[d := flags ws ! s]" "length ws' = length ws"
    using Suc.prems bit_assign_nat [of d ws "flags ws ! s"] by fastforce
  have "bit_read ws (at_bit (int s)) = Inr (flags ws ! s)" using Suc.prems by (simp only: bit_read_nat) simp
  with ws'(1) have "move_up ws (at_bit (int s)) (at_bit (int (s + Suc k))) (at_bit (int d))
      = move_up ws' (at_bit (int (Suc s))) (at_bit (int (Suc s + k))) (at_bit (int (Suc d)))"
    by (simp add: move_up.simps [of ws] add.commute)
  with Suc.IH [of "Suc d" "Suc s" ws'] Suc.prems ws' show ?case by (simp add: moved_up)
qed (simp add: move_up.simps)

lemma move_down_at:
  "s < d \<Longrightarrow> d + k \<le> 64 * length ws \<Longrightarrow>
   \<exists>ws'. move_down ws (at_bit (int s)) (at_bit (int (s + k))) (at_bit (int (d + k))) = Inr ws'
     \<and> flags ws' = moved s k d (flags ws) \<and> length ws' = length ws"
proof (induction k arbitrary: ws)
  case (Suc k)
  obtain ws' where ws': "bit_assign ws (at_bit (int (d + k))) (flags ws ! (s + k)) = Inr ws'"
      "flags ws' = (flags ws)[d + k := flags ws ! (s + k)]" "length ws' = length ws"
    using Suc.prems bit_assign_nat [of "d + k" ws "flags ws ! (s + k)"] by fastforce
  have "bit_read ws (at_bit (int (s + k))) = Inr (flags ws ! (s + k))" using Suc.prems by (simp only: bit_read_nat) simp
  with ws'(1) have "move_down ws (at_bit (int s)) (at_bit (int (s + Suc k))) (at_bit (int (d + Suc k)))
      = move_down ws' (at_bit (int s)) (at_bit (int (s + k))) (at_bit (int (d + k)))"
    by (simp add: move_down.simps [of ws])
  with Suc.IH [of ws'] Suc.prems ws' show ?case by (simp add: moved_down)
qed (simp add: move_down.simps)

lemma MoveBits_at:
  assumes "s + k \<le> 64 * length ws" "d + k \<le> 64 * length ws"
  obtains ws' where "MoveBits ws (at_bit (int s)) (at_bit (int (s + k))) (at_bit (int d)) = Inr ws'"
    "flags ws' = moved s k d (flags ws)" "length ws' = length ws"
proof (cases "d \<le> s")
  case True
  with move_up_at [OF True assms(1)] that show ?thesis by (auto simp: MoveBits_def)
next
  case False
  with move_down_at [of s d k ws] assms(2) that show ?thesis by (auto simp: MoveBits_def)
qed

section \<open>Containers\<close>

lemma nth_flags_split: "i < length ws \<Longrightarrow> j < 64 \<Longrightarrow> flags ws ! (64 * i + j) = bit (ws ! i) j"
  by (simp add: nth_flags flag_def)

lemma flags_append: "flags (ws @ vs) = flags ws @ flags vs"
proof (rule nth_equalityI)
  fix i assume i: "i < length (flags (ws @ vs))"
  show "flags (ws @ vs) ! i = (flags ws @ flags vs) ! i"
  proof (cases "i < 64 * length ws")
    case True
    then have "i div 64 < length ws" by (simp add: less_mult_imp_div_less mult.commute)
    with True i show ?thesis by (simp add: nth_append nth_flags flag_def)
  next
    case False
    then obtain j where j: "i = j + 64 * length ws" by (metis add.commute le_add_diff_inverse not_less)
    with i show ?thesis by (simp add: nth_append nth_flags flag_def)
  qed
qed simp

lemma flags_Nil [simp]: "flags [] = []"
  by (simp add: flags_def)

lemma flags_take: "flags (take n ws) = take (64 * n) (flags ws)"
proof (cases "n \<le> length ws")
  case True
  have "take (64 * n) (flags (take n ws @ drop n ws)) = flags (take n ws)"
    using True by (simp only: flags_append) simp
  then show ?thesis by simp
qed simp

lemma flags_replicate:
  "flags (replicate k 0) = replicate (64 * k) False" "flags (replicate k (- 1)) = replicate (64 * k) True"
  by (rule nth_equalityI; simp add: nth_flags flag_def less_mult_imp_div_less mult.commute)+

end
