(* ===== verification/Eastl_Memory.thy ===== *)
theory Eastl_Memory
  imports Repo_Prelude
begin

text \<open>
  Storage and the objects that live in it, and the loops over ranges of objects in
  \<^verbatim>\<open>src/extlibs/eastl/memory.h\<close>, \<^verbatim>\<open>internal/copy_help.h\<close>,
  \<^verbatim>\<open>internal/fill_help.h\<close> and \<^verbatim>\<open>algorithm.h\<close>, for element types with
  constructors of their own such as \<^verbatim>\<open>eastl::string\<close> (types that are copied bytewise take other
  branches there). A cell knows whether an object lives in it: constructing needs raw storage, assigning and
  destroying need an object, and the value of an object that was moved away is not to be used. A lemma for each
  loop says which cells it changes.
\<close>

section \<open>Storage\<close>

datatype 'a cell = Unowned | Raw | Live 'a | Moved

type_synonym addr = "nat \<times> nat"

record 'a heap =
  cells :: "addr \<Rightarrow> 'a cell"
  next_block :: nat

definition set_cells :: "(addr \<Rightarrow> 'a cell) \<Rightarrow> 'a heap \<Rightarrow> 'a heap" where
  "set_cells m h = h\<lparr>cells := m\<rparr>"

definition put_cell :: "addr \<Rightarrow> 'a cell \<Rightarrow> 'a heap \<Rightarrow> 'a heap" where
  "put_cell a c h = set_cells ((cells h)(a := c)) h"

text \<open>Reading, constructing, assigning, moving from and destroying one object.\<close>

definition read_object :: "addr \<Rightarrow> 'a heap \<Rightarrow> 'a result" where
  "read_object a h =
     (case cells h a of
        Unowned \<Rightarrow> Inl Out_Of_Bounds | Raw \<Rightarrow> Inl Uninitialised | Moved \<Rightarrow> Inl Moved_From | Live x \<Rightarrow> Inr x)"

definition construct :: "addr \<Rightarrow> 'a \<Rightarrow> 'a heap \<Rightarrow> 'a heap result" where
  "construct a x h =
     (case cells h a of Unowned \<Rightarrow> Inl Out_Of_Bounds | Raw \<Rightarrow> Inr (put_cell a (Live x) h) | _ \<Rightarrow> Inl Object_Alive)"

definition on_object :: "addr \<Rightarrow> 'a heap \<Rightarrow> 'a heap \<Rightarrow> 'a heap result" where
  "on_object a h h' = (case cells h a of Unowned \<Rightarrow> Inl Out_Of_Bounds | Raw \<Rightarrow> Inl Uninitialised | _ \<Rightarrow> Inr h')"

definition assign_object :: "addr \<Rightarrow> 'a \<Rightarrow> 'a heap \<Rightarrow> 'a heap result" where
  "assign_object a x h = on_object a h (put_cell a (Live x) h)"

definition move_from :: "addr \<Rightarrow> 'a heap \<Rightarrow> ('a \<times> 'a heap) result" where
  "move_from a h = and_then (read_object a h) (\<lambda>x. Inr (x, put_cell a Moved h))"

definition destroy :: "addr \<Rightarrow> 'a heap \<Rightarrow> 'a heap result" where
  "destroy a h = on_object a h (put_cell a Raw h)"

text \<open>A parameter of type \<^verbatim>\<open>const T&\<close>: a temporary of the caller, or an object in storage.\<close>

datatype 'a arg = Temp 'a | At addr

fun read_arg :: "'a arg \<Rightarrow> 'a heap \<Rightarrow> 'a result" where
  "read_arg (Temp x) h = Inr x"
| "read_arg (At a) h = read_object a h"

text \<open>Allocation: \<^verbatim>\<open>DoAllocate\<close> gives the null pointer, block 0, for no objects.\<close>

definition DoAllocate :: "nat \<Rightarrow> 'a heap \<Rightarrow> nat \<times> 'a heap" where
  "DoAllocate n h =
     (if n = 0 then (0, h)
      else (next_block h,
        \<lparr>cells = (\<lambda>(b, i). if b = next_block h \<and> i < n then Raw else cells h (b, i)), next_block = next_block h + 1\<rparr>))"

definition DoFree :: "nat \<Rightarrow> nat \<Rightarrow> 'a heap \<Rightarrow> 'a heap result" where
  "DoFree p n h =
     (if p = 0 then Inr h
      else if list_all (\<lambda>i. case cells h (p, i) of Raw \<Rightarrow> True | _ \<Rightarrow> False) [0..<n]
      then Inr (set_cells (\<lambda>(b, i). if b = p \<and> i < n then Unowned else cells h (b, i)) h)
      else Inl Object_Alive)"

section \<open>Ranges\<close>

fun succ_addr :: "addr \<Rightarrow> addr" where "succ_addr (b, i) = (b, Suc i)"

fun uninitializedMove_ptr :: "nat \<Rightarrow> addr \<Rightarrow> addr \<Rightarrow> 'a heap \<Rightarrow> 'a heap result" where
  "uninitializedMove_ptr 0 first dest h = Inr h"
| "uninitializedMove_ptr (Suc n) first dest h =
     and_then (move_from first h) (\<lambda>(x, h).
     and_then (construct dest x h) (uninitializedMove_ptr n (succ_addr first) (succ_addr dest)))"

fun uninitializedCopyPtr :: "nat \<Rightarrow> addr \<Rightarrow> addr \<Rightarrow> 'a heap \<Rightarrow> 'a heap result" where
  "uninitializedCopyPtr 0 first dest h = Inr h"
| "uninitializedCopyPtr (Suc n) first dest h =
     and_then (read_object first h) (\<lambda>x.
     and_then (construct dest x h) (uninitializedCopyPtr n (succ_addr first) (succ_addr dest)))"

fun uninitializedFillNPtr :: "nat \<Rightarrow> addr \<Rightarrow> 'a arg \<Rightarrow> 'a heap \<Rightarrow> 'a heap result" where
  "uninitializedFillNPtr 0 first value h = Inr h"
| "uninitializedFillNPtr (Suc n) first value h =
     and_then (read_arg value h) (\<lambda>x.
     and_then (construct first x h) (uninitializedFillNPtr n (succ_addr first) value))"

fun destruct :: "nat \<Rightarrow> addr \<Rightarrow> 'a heap \<Rightarrow> 'a heap result" where
  "destruct 0 first h = Inr h"
| "destruct (Suc n) first h = and_then (destroy first h) (destruct n (succ_addr first))"

text \<open>Move assignment; an object moved to itself has no specified value.\<close>

definition move_assign :: "addr \<Rightarrow> addr \<Rightarrow> 'a heap \<Rightarrow> 'a heap result" where
  "move_assign src dest h =
     and_then (move_from src h) (\<lambda>(x, h). if src = dest then Inr h else assign_object dest x h)"

fun move_range :: "nat \<Rightarrow> addr \<Rightarrow> addr \<Rightarrow> 'a heap \<Rightarrow> 'a heap result" where
  "move_range 0 first dest h = Inr h"
| "move_range (Suc n) first dest h =
     and_then (move_assign first dest h) (move_range n (succ_addr first) (succ_addr dest))"

text \<open>The backward loops take the beginnings of both ranges; they start at the ends.\<close>

definition plus_addr :: "addr \<Rightarrow> nat \<Rightarrow> addr" where "plus_addr a n = (fst a, snd a + n)"

fun move_backward :: "nat \<Rightarrow> addr \<Rightarrow> addr \<Rightarrow> 'a heap \<Rightarrow> 'a heap result" where
  "move_backward 0 first dest h = Inr h"
| "move_backward (Suc n) first dest h =
     and_then (move_assign (plus_addr first n) (plus_addr dest n) h) (move_backward n first dest)"

fun copy_range :: "nat \<Rightarrow> addr \<Rightarrow> addr \<Rightarrow> 'a heap \<Rightarrow> 'a heap result" where
  "copy_range 0 first dest h = Inr h"
| "copy_range (Suc n) first dest h =
     and_then (read_object first h) (\<lambda>x.
     and_then (assign_object dest x h) (copy_range n (succ_addr first) (succ_addr dest)))"

fun copyBackward :: "nat \<Rightarrow> addr \<Rightarrow> addr \<Rightarrow> 'a heap \<Rightarrow> 'a heap result" where
  "copyBackward 0 first dest h = Inr h"
| "copyBackward (Suc n) first dest h =
     and_then (read_object (plus_addr first n) h) (\<lambda>x.
     and_then (assign_object (plus_addr dest n) x h) (copyBackward n first dest))"

fun fillN :: "nat \<Rightarrow> addr \<Rightarrow> 'a arg \<Rightarrow> 'a heap \<Rightarrow> 'a heap result" where
  "fillN 0 first value h = Inr h"
| "fillN (Suc n) first value h =
     and_then (read_arg value h) (\<lambda>x. and_then (assign_object first x h) (fillN n (succ_addr first) value))"

section \<open>What the loops change\<close>

definition put_range :: "nat \<Rightarrow> nat \<Rightarrow> 'a cell list \<Rightarrow> (addr \<Rightarrow> 'a cell) \<Rightarrow> addr \<Rightarrow> 'a cell" where
  "put_range b i ys m = (\<lambda>(c, k). if c = b \<and> i \<le> k \<and> k < i + length ys then ys ! (k - i) else m (c, k))"

definition range_is :: "(addr \<Rightarrow> 'a cell) \<Rightarrow> nat \<Rightarrow> nat \<Rightarrow> 'a cell list \<Rightarrow> bool" where
  "range_is m b i ys \<longleftrightarrow> (\<forall>k < length ys. m (b, i + k) = ys ! k)"

definition object :: "'a cell \<Rightarrow> bool" where
  "object c \<longleftrightarrow> c \<noteq> Unowned \<and> c \<noteq> Raw"

definition objects :: "(addr \<Rightarrow> 'a cell) \<Rightarrow> nat \<Rightarrow> nat \<Rightarrow> nat \<Rightarrow> bool" where
  "objects m b i n \<longleftrightarrow> (\<forall>k < n. object (m (b, i + k)))"

lemma put_range_Nil [simp]: "put_range b i [] m = m"
  by (auto simp: put_range_def fun_eq_iff)

lemma put_range_Cons: "put_range b i (y # ys) m = put_range b (Suc i) ys (m((b, i) := y))"
  by (auto simp: put_range_def fun_eq_iff nth_Cons' not_less_eq_eq dest: le_antisym)

lemma put_range_snoc: "put_range b i (ys @ [y]) m = put_range b i ys (m((b, i + length ys) := y))"
  by (auto simp: put_range_def fun_eq_iff nth_append)

lemma put_range_update:
  "\<not> (c = b \<and> i \<le> j \<and> j < i + length ys) \<Longrightarrow> put_range b i ys (m((c, j) := y)) = (put_range b i ys m)((c, j) := y)"
  by (auto simp: put_range_def fun_eq_iff)

lemma range_is_Nil [simp]: "range_is m b i []"
  by (simp add: range_is_def)

lemma range_is_Cons: "range_is m b i (y # ys) \<longleftrightarrow> m (b, i) = y \<and> range_is m b (Suc i) ys"
  by (auto simp: range_is_def less_Suc_eq_0_disj)

lemma range_is_snoc: "range_is m b i (ys @ [y]) \<longleftrightarrow> range_is m b i ys \<and> m (b, i + length ys) = y"
  by (simp add: range_is_def All_less_Suc nth_append conj_commute)

lemma range_is_update:
  "\<not> (c = b \<and> i \<le> j \<and> j < i + length ys) \<Longrightarrow> range_is (m((c, j) := y)) b i ys \<longleftrightarrow> range_is m b i ys"
proof -
  assume "\<not> (c = b \<and> i \<le> j \<and> j < i + length ys)"
  then have "\<forall>k < length ys. (b, i + k) \<noteq> (c, j)" by auto
  then show ?thesis unfolding range_is_def by (metis fun_upd_other)
qed

lemma objects_0 [simp]: "objects m b i 0"
  by (simp add: objects_def)

lemma objects_Suc: "objects m b i (Suc n) \<longleftrightarrow> object (m (b, i)) \<and> objects m b (Suc i) n"
  by (auto simp: objects_def less_Suc_eq_0_disj)

lemma objects_last: "objects m b i (Suc n) \<longleftrightarrow> objects m b i n \<and> object (m (b, i + n))"
  by (auto simp: objects_def less_Suc_eq)

lemma objects_update: "object y \<Longrightarrow> objects m b i n \<Longrightarrow> objects (m((c, j) := y)) b i n"
  by (auto simp: objects_def)

lemma object_simps [simp]: "object (Live x)" "object Moved" "\<not> object Raw" "\<not> object Unowned"
  by (simp_all add: object_def)

lemma object_cases: "object c \<Longrightarrow> (\<And>x. c = Live x \<Longrightarrow> P) \<Longrightarrow> (c = Moved \<Longrightarrow> P) \<Longrightarrow> P"
  by (cases c) auto

lemma set_cells_simps [simp]:
  "cells (set_cells m h) = m" "next_block (set_cells m h) = next_block h" "set_cells m (set_cells m' h) = set_cells m h"
  "set_cells (cells h) h = h"
  by (simp_all add: set_cells_def)

lemma cells_put [simp]: "cells (put_cell a c h) = (cells h)(a := c)" "next_block (put_cell a c h) = next_block h"
  "set_cells m (put_cell a c h) = set_cells m h"
  by (simp_all add: put_cell_def)

lemma construct_ok: "cells h a = Raw \<Longrightarrow> construct a x h = Inr (put_cell a (Live x) h)"
  by (simp add: construct_def)

lemma assign_ok: "object (cells h a) \<Longrightarrow> assign_object a x h = Inr (put_cell a (Live x) h)"
  by (auto simp: assign_object_def on_object_def elim: object_cases)

lemma destroy_ok: "object (cells h a) \<Longrightarrow> destroy a h = Inr (put_cell a Raw h)"
  by (auto simp: destroy_def on_object_def elim: object_cases)

lemma read_ok: "cells h a = Live x \<Longrightarrow> read_object a h = Inr x"
  by (simp add: read_object_def)

lemma move_from_ok: "cells h a = Live x \<Longrightarrow> move_from a h = Inr (x, put_cell a Moved h)"
  by (simp add: move_from_def read_ok)

lemma move_assign_ok:
  "cells h a = Live x \<Longrightarrow> object (cells h c) \<Longrightarrow> a \<noteq> c \<Longrightarrow>
    move_assign a c h = Inr (put_cell c (Live x) (put_cell a Moved h))"
  by (simp add: move_assign_def move_from_ok assign_ok)

lemma uninitializedMove_ok:
  assumes "range_is (cells h) b i (map Live xs)" "range_is (cells h) c j (replicate (length xs) Raw)"
  shows "uninitializedMove_ptr (length xs) (b, i) (c, j) h =
    Inr (set_cells (put_range c j (map Live xs) (put_range b i (replicate (length xs) Moved) (cells h))) h)"
  using assms
proof (induction xs arbitrary: h i j)
  case (Cons x xs)
  let ?h = "put_cell (c, j) (Live x) (put_cell (b, i) Moved h)"
  have src: "cells h (b, i) = Live x" "range_is (cells h) b (Suc i) (map Live xs)"
    and dst: "cells h (c, j) = Raw" "range_is (cells h) c (Suc j) (replicate (length xs) Raw)"
    using Cons.prems by (simp_all add: range_is_Cons)
  have apart: "\<not> (c = b \<and> Suc i \<le> j \<and> j < Suc i + length xs)"
    using src(2) dst(1) by (auto simp: range_is_def dest!: spec [of _ "j - Suc i"])
  have apart': "\<not> (b = c \<and> Suc j \<le> i \<and> i < Suc j + length xs)"
    using src(1) dst(2) by (auto simp: range_is_def dest!: spec [of _ "i - Suc j"])
  have range: "range_is (cells ?h) b (Suc i) (map Live xs)" "range_is (cells ?h) c (Suc j) (replicate (length xs) Raw)"
    using src dst apart apart' by (simp_all add: range_is_update)
  have step: "cells (put_cell (b, i) Moved h) (c, j) = Raw" using src(1) dst(1) by auto
  have "put_range c j (map Live (x # xs)) (put_range b i (replicate (Suc (length xs)) Moved) (cells h))
      = put_range c (Suc j) (map Live xs) (put_range b (Suc i) (replicate (length xs) Moved) (cells ?h))"
    using apart by (simp add: put_range_Cons put_range_update)
  then show ?case using Cons.IH [OF range] by (simp add: move_from_ok [OF src(1)] construct_ok [OF step] del: fun_upd_apply)
qed simp

lemma fetch_put: "read_arg v h = Inr x \<Longrightarrow> read_arg v (put_cell a (Live x) h) = Inr x"
  by (cases v) (auto simp: read_object_def split: cell.splits)

lemma uninitializedCopy_ok:
  assumes "range_is (cells h) b i (map Live xs)" "range_is (cells h) c j (replicate (length xs) Raw)"
  shows "uninitializedCopyPtr (length xs) (b, i) (c, j) h = Inr (set_cells (put_range c j (map Live xs) (cells h)) h)"
  using assms
proof (induction xs arbitrary: h i j)
  case (Cons x xs)
  let ?h = "put_cell (c, j) (Live x) h"
  have src: "cells h (b, i) = Live x" "range_is (cells h) b (Suc i) (map Live xs)"
    and dst: "cells h (c, j) = Raw" "range_is (cells h) c (Suc j) (replicate (length xs) Raw)"
    using Cons.prems by (simp_all add: range_is_Cons)
  have "\<not> (c = b \<and> Suc i \<le> j \<and> j < Suc i + length xs)"
    using src(2) dst(1) by (auto simp: range_is_def dest!: spec [of _ "j - Suc i"])
  then have "range_is (cells ?h) b (Suc i) (map Live xs)" "range_is (cells ?h) c (Suc j) (replicate (length xs) Raw)"
    using src dst by (simp_all add: range_is_update)
  from Cons.IH [OF this] show ?case
    by (simp add: read_ok [OF src(1)] construct_ok [OF dst(1)] put_range_Cons del: fun_upd_apply)
qed simp

lemma uninitializedFill_ok:
  assumes "read_arg v h = Inr x" "range_is (cells h) c j (replicate n Raw)"
  shows "uninitializedFillNPtr n (c, j) v h = Inr (set_cells (put_range c j (replicate n (Live x)) (cells h)) h)"
  using assms
proof (induction n arbitrary: h j)
  case (Suc n)
  then have dst: "cells h (c, j) = Raw" "range_is (cells h) c (Suc j) (replicate n Raw)"
    by (simp_all add: range_is_Cons)
  then have "range_is (cells (put_cell (c, j) (Live x) h)) c (Suc j) (replicate n Raw)"
    by (simp add: range_is_update)
  from Suc.IH [OF fetch_put [OF Suc.prems(1)] this] show ?case
    by (simp add: Suc.prems(1) construct_ok [OF dst(1)] put_range_Cons del: fun_upd_apply)
qed simp

lemma fillN_ok:
  assumes "read_arg v h = Inr x" "objects (cells h) c j n"
  shows "fillN n (c, j) v h = Inr (set_cells (put_range c j (replicate n (Live x)) (cells h)) h)"
  using assms
proof (induction n arbitrary: h j)
  case (Suc n)
  then have dst: "object (cells h (c, j))" "objects (cells h) c (Suc j) n"
    by (simp_all add: objects_Suc)
  then have "objects (cells (put_cell (c, j) (Live x) h)) c (Suc j) n"
    by (simp add: objects_update del: fun_upd_apply)
  from Suc.IH [OF fetch_put [OF Suc.prems(1)] this] show ?case
    by (simp add: Suc.prems(1) assign_ok [OF dst(1)] put_range_Cons del: fun_upd_apply)
qed simp

lemma destruct_ok:
  assumes "objects (cells h) c j n"
  shows "destruct n (c, j) h = Inr (set_cells (put_range c j (replicate n Raw) (cells h)) h)"
  using assms
proof (induction n arbitrary: h j)
  case (Suc n)
  then have dst: "object (cells h (c, j))" "objects (cells h) c (Suc j) n"
    by (simp_all add: objects_Suc)
  then have "objects (cells (put_cell (c, j) Raw h)) c (Suc j) n"
    by (simp add: objects_def)
  from Suc.IH [OF this] show ?case
    by (simp add: destroy_ok [OF dst(1)] put_range_Cons del: fun_upd_apply)
qed simp

lemma move_range_ok:
  assumes "range_is (cells h) b i (map Live xs)" "objects (cells h) b j (length xs)" "j < i"
  shows "move_range (length xs) (b, i) (b, j) h =
    Inr (set_cells (put_range b j (map Live xs) (put_range b i (replicate (length xs) Moved) (cells h))) h)"
  using assms
proof (induction xs arbitrary: h i j)
  case (Cons x xs)
  let ?h = "put_cell (b, j) (Live x) (put_cell (b, i) Moved h)"
  have src: "cells h (b, i) = Live x" "range_is (cells h) b (Suc i) (map Live xs)"
    and dst: "object (cells h (b, j))" "objects (cells h) b (Suc j) (length xs)"
    using Cons.prems by (simp_all add: range_is_Cons objects_Suc)
  have range: "range_is (cells ?h) b (Suc i) (map Live xs)" "objects (cells ?h) b (Suc j) (length xs)"
    using src(2) dst(2) Cons.prems(3) by (simp_all add: range_is_update objects_update del: fun_upd_apply)
  have "put_range b j (map Live (x # xs)) (put_range b i (replicate (Suc (length xs)) Moved) (cells h))
      = put_range b (Suc j) (map Live xs) (put_range b (Suc i) (replicate (length xs) Moved) (cells ?h))"
    using Cons.prems(3) by (simp add: put_range_Cons put_range_update)
  then show ?case using Cons.IH [OF range] Cons.prems(3)
    by (simp add: move_assign_ok [OF src(1) dst(1)] del: fun_upd_apply)
qed simp

lemma move_backward_ok:
  assumes "range_is (cells h) b i (map Live xs)" "objects (cells h) b j (length xs)" "i < j"
  shows "move_backward (length xs) (b, i) (b, j) h =
    Inr (set_cells (put_range b j (map Live xs) (put_range b i (replicate (length xs) Moved) (cells h))) h)"
  using assms
proof (induction xs arbitrary: h rule: rev_induct)
  case (snoc x xs)
  let ?n = "length xs"
  let ?h = "put_cell (b, j + ?n) (Live x) (put_cell (b, i + ?n) Moved h)"
  have src: "cells h (b, i + ?n) = Live x" "range_is (cells h) b i (map Live xs)"
    and dst: "object (cells h (b, j + ?n))" "objects (cells h) b j ?n"
    using snoc.prems by (simp_all add: range_is_snoc objects_last)
  have range: "range_is (cells ?h) b i (map Live xs)" "objects (cells ?h) b j ?n"
    using src(2) dst(2) snoc.prems(3) by (simp_all add: range_is_update objects_update del: fun_upd_apply)
  have "put_range b j (map Live (xs @ [x])) (put_range b i (replicate (Suc ?n) Moved) (cells h))
      = put_range b j (map Live xs) (put_range b i (replicate ?n Moved) (cells ?h))"
    using snoc.prems(3) put_range_snoc [of b i "replicate ?n Moved" Moved "cells h"]
    by (simp add: put_range_snoc put_range_update replicate_append_same)
  then show ?case using snoc.IH [OF range snoc.prems(3)] snoc.prems(3)
    by (simp add: plus_addr_def move_assign_ok [OF src(1) dst(1)] del: fun_upd_apply)
qed simp

lemma copy_range_ok:
  assumes "range_is (cells h) b i (map Live xs)" "objects (cells h) c j (length xs)" "b \<noteq> c"
  shows "copy_range (length xs) (b, i) (c, j) h = Inr (set_cells (put_range c j (map Live xs) (cells h)) h)"
  using assms
proof (induction xs arbitrary: h i j)
  case (Cons x xs)
  let ?h = "put_cell (c, j) (Live x) h"
  have src: "cells h (b, i) = Live x" "range_is (cells h) b (Suc i) (map Live xs)"
    and dst: "object (cells h (c, j))" "objects (cells h) c (Suc j) (length xs)"
    using Cons.prems by (simp_all add: range_is_Cons objects_Suc)
  have "range_is (cells ?h) b (Suc i) (map Live xs)" "objects (cells ?h) c (Suc j) (length xs)"
    using src(2) dst(2) Cons.prems(3) by (simp_all add: range_is_update objects_update del: fun_upd_apply)
  from Cons.IH [OF this Cons.prems(3)] show ?case
    by (simp add: read_ok [OF src(1)] assign_ok [OF dst(1)] put_range_Cons del: fun_upd_apply)
qed simp

lemma copyBackward_ok:
  assumes "range_is (cells h) b i (map Live xs)" "objects (cells h) c j (length xs)" "b \<noteq> c"
  shows "copyBackward (length xs) (b, i) (c, j) h = Inr (set_cells (put_range c j (map Live xs) (cells h)) h)"
  using assms
proof (induction xs arbitrary: h rule: rev_induct)
  case (snoc x xs)
  let ?h = "put_cell (c, j + length xs) (Live x) h"
  have src: "cells h (b, i + length xs) = Live x" "range_is (cells h) b i (map Live xs)"
    and dst: "object (cells h (c, j + length xs))" "objects (cells h) c j (length xs)"
    using snoc.prems by (simp_all add: range_is_snoc objects_last)
  have "range_is (cells ?h) b i (map Live xs)" "objects (cells ?h) c j (length xs)"
    using src(2) dst(2) snoc.prems(3) by (simp_all add: range_is_update objects_update del: fun_upd_apply)
  from snoc.IH [OF this snoc.prems(3)] show ?case
    by (simp add: plus_addr_def read_ok [OF src(1)] assign_ok [OF dst(1)] put_range_snoc del: fun_upd_apply)
qed simp

end
