(* ===== verification/Eastl_Vector.thy ===== *)
theory Eastl_Vector
  imports Eastl_Memory
begin

text \<open>
  \<^verbatim>\<open>eastl::vector\<close> (\<^verbatim>\<open>src/extlibs/eastl/vector.h\<close>) in storage: a block of memory, how many
  objects live at its beginning, and how many fit. Iterators are positions in the block; allocation succeeds; sizes
  have 64 bits. Exceptions are off, as \<^verbatim>\<open>internal/config.h\<close> sets them, so that elements are moved when
  the block grows. Parameters of type \<^verbatim>\<open>const T&\<close> may refer to an element of the vector itself.
\<close>

section \<open>The parts\<close>

record vec =
  mpBegin :: nat
  mpEnd :: nat
  mpCapacity :: nat

definition empty_vec :: vec where "empty_vec = \<lparr>mpBegin = 0, mpEnd = 0, mpCapacity = 0\<rparr>"

abbreviation (input) slot_at :: "vec \<Rightarrow> nat \<Rightarrow> addr" where "slot_at v i \<equiv> (mpBegin v, i)"

definition GetNewCapacity :: "nat \<Rightarrow> nat" where
  "GetNewCapacity currentCapacity = (if 0 < currentCapacity then wrap64 (2 * currentCapacity) else 1)"

definition new_size :: "vec \<Rightarrow> nat \<Rightarrow> nat" where
  "new_size v n = (let grow = GetNewCapacity (mpEnd v) in if wrap64 (mpEnd v + n) < grow then grow else wrap64 (mpEnd v + n))"

text \<open>The end of every growing operation: the old objects and the old block go, the new block takes their place.\<close>

definition adopt :: "vec \<Rightarrow> vec \<Rightarrow> 'a heap \<Rightarrow> (vec \<times> 'a heap) result" where
  "adopt v new h =
     and_then (destruct (mpEnd v) (slot_at v 0) h) (\<lambda>h.
     and_then (DoFree (mpBegin v) (mpCapacity v) h) (\<lambda>h. Inr (new, h)))"

definition DoGrow :: "nat \<Rightarrow> vec \<Rightarrow> 'a heap \<Rightarrow> (vec \<times> 'a heap) result" where
  "DoGrow n v h =
     (let (p, h) = DoAllocate n h in
      and_then (uninitializedMove_ptr (mpEnd v) (slot_at v 0) (p, 0) h)
        (adopt v \<lparr>mpBegin = p, mpEnd = mpEnd v, mpCapacity = n\<rparr>))"

definition DoInsertValueEnd :: "'a arg \<Rightarrow> vec \<Rightarrow> 'a heap \<Rightarrow> (vec \<times> 'a heap) result" where
  "DoInsertValueEnd value v h =
     (let n = GetNewCapacity (mpEnd v); (p, h) = DoAllocate n h in
      and_then (uninitializedMove_ptr (mpEnd v) (slot_at v 0) (p, 0) h) (\<lambda>h.
      and_then (read_arg value h) (\<lambda>x.
      and_then (construct (p, mpEnd v) x h)
        (adopt v \<lparr>mpBegin = p, mpEnd = mpEnd v + 1, mpCapacity = n\<rparr>))))"

definition DoInsertValue :: "nat \<Rightarrow> 'a arg \<Rightarrow> vec \<Rightarrow> 'a heap \<Rightarrow> (vec \<times> 'a heap) result" where
  "DoInsertValue pos value v h =
     (if mpEnd v \<noteq> mpCapacity v then
        if mpEnd v = 0 then Inl Out_Of_Bounds
        else
          and_then (read_arg value h) (\<lambda>x.
          and_then (move_from (slot_at v (mpEnd v - 1)) h) (\<lambda>(l, h).
          and_then (construct (slot_at v (mpEnd v)) l h) (\<lambda>h.
          and_then (move_backward (mpEnd v - 1 - pos) (slot_at v pos) (slot_at v (pos + 1)) h) (\<lambda>h.
          and_then (destroy (slot_at v pos) h) (\<lambda>h.
          and_then (construct (slot_at v pos) x h) (\<lambda>h. Inr (v\<lparr>mpEnd := mpEnd v + 1\<rparr>, h)))))))
      else
        let n = GetNewCapacity (mpEnd v); (p, h) = DoAllocate n h in
        and_then (read_arg value h) (\<lambda>x.
        and_then (construct (p, pos) x h) (\<lambda>h.
        and_then (uninitializedMove_ptr pos (slot_at v 0) (p, 0) h) (\<lambda>h.
        and_then (uninitializedMove_ptr (mpEnd v - pos) (slot_at v pos) (p, pos + 1) h)
          (adopt v \<lparr>mpBegin = p, mpEnd = mpEnd v + 1, mpCapacity = n\<rparr>)))))"

definition DoInsertValuesEnd :: "nat \<Rightarrow> 'a arg \<Rightarrow> vec \<Rightarrow> 'a heap \<Rightarrow> (vec \<times> 'a heap) result" where
  "DoInsertValuesEnd n value v h =
     (if mpCapacity v - mpEnd v < n then
        let m = new_size v n; (p, h) = DoAllocate m h in
        and_then (uninitializedMove_ptr (mpEnd v) (slot_at v 0) (p, 0) h) (\<lambda>h.
        and_then (uninitializedFillNPtr n (p, mpEnd v) value h)
          (adopt v \<lparr>mpBegin = p, mpEnd = mpEnd v + n, mpCapacity = m\<rparr>))
      else
        and_then (uninitializedFillNPtr n (slot_at v (mpEnd v)) value h) (\<lambda>h. Inr (v\<lparr>mpEnd := mpEnd v + n\<rparr>, h)))"

definition DoInsertValues :: "nat \<Rightarrow> nat \<Rightarrow> 'a arg \<Rightarrow> vec \<Rightarrow> 'a heap \<Rightarrow> (vec \<times> 'a heap) result" where
  "DoInsertValues pos n value v h =
     (if n \<le> mpCapacity v - mpEnd v then
        if n = 0 then Inr (v, h)
        else
          and_then (read_arg value h) (\<lambda>temp.
          and_then
            (let nExtra = mpEnd v - pos in
             if n < nExtra then
               and_then (uninitializedMove_ptr n (slot_at v (mpEnd v - n)) (slot_at v (mpEnd v)) h) (\<lambda>h.
               and_then (move_backward (mpEnd v - n - pos) (slot_at v pos) (slot_at v (pos + n)) h)
                 (fillN n (slot_at v pos) (Temp temp)))
             else
               and_then (uninitializedFillNPtr (n - nExtra) (slot_at v (mpEnd v)) (Temp temp) h) (\<lambda>h.
               and_then (uninitializedMove_ptr nExtra (slot_at v pos) (slot_at v (pos + n)) h)
                 (fillN nExtra (slot_at v pos) (Temp temp))))
            (\<lambda>h. Inr (v\<lparr>mpEnd := mpEnd v + n\<rparr>, h)))
      else
        let m = new_size v n; (p, h) = DoAllocate m h in
        and_then (uninitializedMove_ptr pos (slot_at v 0) (p, 0) h) (\<lambda>h.
        and_then (uninitializedFillNPtr n (p, pos) value h) (\<lambda>h.
        and_then (uninitializedMove_ptr (mpEnd v - pos) (slot_at v pos) (p, pos + n) h)
          (adopt v \<lparr>mpBegin = p, mpEnd = mpEnd v + n, mpCapacity = m\<rparr>))))"

text \<open>\<^verbatim>\<open>DoInsertFromIterator\<close> for a source in another block: \<open>n\<close> objects from \<open>first\<close> on.\<close>

definition DoInsertFromIterator :: "nat \<Rightarrow> addr \<Rightarrow> nat \<Rightarrow> vec \<Rightarrow> 'a heap \<Rightarrow> (vec \<times> 'a heap) result" where
  "DoInsertFromIterator pos first n v h =
     (if n = 0 then Inr (v, h)
      else if n \<le> mpCapacity v - mpEnd v then
        and_then
          (let nExtra = mpEnd v - pos in
           if n < nExtra then
             and_then (uninitializedMove_ptr n (slot_at v (mpEnd v - n)) (slot_at v (mpEnd v)) h) (\<lambda>h.
             and_then (move_backward (mpEnd v - n - pos) (slot_at v pos) (slot_at v (pos + n)) h)
               (copy_range n first (slot_at v pos)))
           else
             and_then (uninitializedCopyPtr (n - nExtra) (plus_addr first nExtra) (slot_at v (mpEnd v)) h) (\<lambda>h.
             and_then (uninitializedMove_ptr nExtra (slot_at v pos) (slot_at v (pos + n)) h)
               (copyBackward nExtra first (slot_at v pos))))
          (\<lambda>h. Inr (v\<lparr>mpEnd := mpEnd v + n\<rparr>, h))
      else
        let m = new_size v n; (p, h) = DoAllocate m h in
        and_then (uninitializedMove_ptr pos (slot_at v 0) (p, 0) h) (\<lambda>h.
        and_then (uninitializedCopyPtr n first (p, pos) h) (\<lambda>h.
        and_then (uninitializedMove_ptr (mpEnd v - pos) (slot_at v pos) (p, pos + n) h)
          (adopt v \<lparr>mpBegin = p, mpEnd = mpEnd v + n, mpCapacity = m\<rparr>))))"

section \<open>The class\<close>

definition vec_size :: "vec \<Rightarrow> nat" where "vec_size v = mpEnd v"

definition vec_capacity :: "vec \<Rightarrow> nat" where "vec_capacity v = mpCapacity v"

definition vec_empty :: "vec \<Rightarrow> bool" where "vec_empty v \<longleftrightarrow> mpEnd v = 0"

definition vec_at :: "nat \<Rightarrow> vec \<Rightarrow> 'a heap \<Rightarrow> 'a result" where "vec_at n v h = read_object (slot_at v n) h"

definition vec_front :: "vec \<Rightarrow> 'a heap \<Rightarrow> 'a result" where "vec_front v h = read_object (slot_at v 0) h"

definition vec_back :: "vec \<Rightarrow> 'a heap \<Rightarrow> 'a result" where
  "vec_back v h = (if mpEnd v = 0 then Inl Out_Of_Bounds else read_object (slot_at v (mpEnd v - 1)) h)"

text \<open>Constructors: \<open>n\<close> copies of a value, and the copy of another vector.\<close>

definition vec_fill :: "nat \<Rightarrow> 'a arg \<Rightarrow> 'a heap \<Rightarrow> (vec \<times> 'a heap) result" where
  "vec_fill n value h =
     (let (p, h) = DoAllocate n h in
      and_then (uninitializedFillNPtr n (p, 0) value h) (\<lambda>h. Inr (\<lparr>mpBegin = p, mpEnd = n, mpCapacity = n\<rparr>, h)))"

definition vec_copy :: "vec \<Rightarrow> 'a heap \<Rightarrow> (vec \<times> 'a heap) result" where
  "vec_copy x h =
     (let (p, h) = DoAllocate (mpEnd x) h in
      and_then (uninitializedCopyPtr (mpEnd x) (slot_at x 0) (p, 0) h)
        (\<lambda>h. Inr (\<lparr>mpBegin = p, mpEnd = mpEnd x, mpCapacity = mpEnd x\<rparr>, h)))"

definition vec_delete :: "vec \<Rightarrow> 'a heap \<Rightarrow> 'a heap result" where
  "vec_delete v h = and_then (destruct (mpEnd v) (slot_at v 0) h) (DoFree (mpBegin v) (mpCapacity v))"

definition vec_clear :: "vec \<Rightarrow> 'a heap \<Rightarrow> (vec \<times> 'a heap) result" where
  "vec_clear v h = and_then (destruct (mpEnd v) (slot_at v 0) h) (\<lambda>h. Inr (v\<lparr>mpEnd := 0\<rparr>, h))"

definition reset_lose_memory :: "vec \<Rightarrow> vec" where "reset_lose_memory v = empty_vec"

definition vec_swap :: "vec \<times> vec \<Rightarrow> vec \<times> vec" where "vec_swap vx = (snd vx, fst vx)"

definition pushBack :: "'a arg \<Rightarrow> vec \<Rightarrow> 'a heap \<Rightarrow> (vec \<times> 'a heap) result" where
  "pushBack value v h =
     (if mpEnd v < mpCapacity v then
        and_then (read_arg value h) (\<lambda>x.
        and_then (construct (slot_at v (mpEnd v)) x h) (\<lambda>h. Inr (v\<lparr>mpEnd := mpEnd v + 1\<rparr>, h)))
      else DoInsertValueEnd value v h)"

definition popBack :: "vec \<Rightarrow> 'a heap \<Rightarrow> (vec \<times> 'a heap) result" where
  "popBack v h =
     (if mpEnd v = 0 then Inl Out_Of_Bounds
      else and_then (destroy (slot_at v (mpEnd v - 1)) h) (\<lambda>h. Inr (v\<lparr>mpEnd := mpEnd v - 1\<rparr>, h)))"

definition vec_reserve :: "nat \<Rightarrow> vec \<Rightarrow> 'a heap \<Rightarrow> (vec \<times> 'a heap) result" where
  "vec_reserve n v h = (if mpCapacity v < n then DoGrow n v h else Inr (v, h))"

text \<open>The address where the caller constructs the new object.\<close>

definition pushBackUninitialized :: "vec \<Rightarrow> 'a heap \<Rightarrow> (addr \<times> vec \<times> 'a heap) result" where
  "pushBackUninitialized v h =
     and_then (if mpEnd v = mpCapacity v then vec_reserve (wrap64 (mpEnd v + 1)) v h else Inr (v, h))
       (\<lambda>(v, h). Inr (slot_at v (mpEnd v), v\<lparr>mpEnd := mpEnd v + 1\<rparr>, h))"

definition truncate_vec :: "nat \<Rightarrow> vec \<Rightarrow> 'a heap \<Rightarrow> (vec \<times> 'a heap) result" where
  "truncate_vec n v h = and_then (destruct (mpEnd v - n) (slot_at v n) h) (\<lambda>h. Inr (v\<lparr>mpEnd := n\<rparr>, h))"

definition vec_resize :: "nat \<Rightarrow> 'a arg \<Rightarrow> vec \<Rightarrow> 'a heap \<Rightarrow> (vec \<times> 'a heap) result" where
  "vec_resize n value v h = (if mpEnd v < n then DoInsertValuesEnd (n - mpEnd v) value v h else truncate_vec n v h)"

text \<open>The constructor over move iterators, then \<^verbatim>\<open>DoSwap\<close> and the destruction of the temporary.\<close>

definition shrink_to_fit :: "vec \<Rightarrow> 'a heap \<Rightarrow> (vec \<times> 'a heap) result" where
  "shrink_to_fit v h =
     (let (p, h) = DoAllocate (mpEnd v) h in
      and_then (uninitializedMove_ptr (mpEnd v) (slot_at v 0) (p, 0) h)
        (adopt v \<lparr>mpBegin = p, mpEnd = mpEnd v, mpCapacity = mpEnd v\<rparr>))"

text \<open>\<open>d\<close> is the value of the default constructor; \<open>None\<close> is \<^verbatim>\<open>npos\<close>.\<close>

definition setCapacity :: "'a \<Rightarrow> nat option \<Rightarrow> vec \<Rightarrow> 'a heap \<Rightarrow> (vec \<times> 'a heap) result" where
  "setCapacity d cap v h =
     (case cap of
        None \<Rightarrow> shrink_to_fit v h
      | Some n \<Rightarrow>
          if n \<le> mpEnd v then
            and_then (if n = 0 then vec_clear v h else if n < mpEnd v then vec_resize n (Temp d) v h else Inr (v, h))
              (\<lambda>(v, h). shrink_to_fit v h)
          else
            let (p, h) = DoAllocate n h in
            and_then (uninitializedMove_ptr (mpEnd v) (slot_at v 0) (p, 0) h)
              (adopt v \<lparr>mpBegin = p, mpEnd = mpEnd v, mpCapacity = n\<rparr>))"

definition vec_insert :: "nat \<Rightarrow> 'a arg \<Rightarrow> vec \<Rightarrow> 'a heap \<Rightarrow> (nat \<times> vec \<times> 'a heap) result" where
  "vec_insert pos value v h =
     and_then
       (if mpEnd v = mpCapacity v \<or> pos \<noteq> mpEnd v then DoInsertValue pos value v h
        else
          and_then (read_arg value h) (\<lambda>x.
          and_then (construct (slot_at v (mpEnd v)) x h) (\<lambda>h. Inr (v\<lparr>mpEnd := mpEnd v + 1\<rparr>, h))))
       (\<lambda>(v, h). Inr (pos, v, h))"

definition vec_erase :: "nat \<Rightarrow> vec \<Rightarrow> 'a heap \<Rightarrow> (vec \<times> 'a heap) result" where
  "vec_erase pos v h =
     and_then
       (if pos + 1 < mpEnd v then move_range (mpEnd v - (pos + 1)) (slot_at v (pos + 1)) (slot_at v pos) h else Inr h)
       (popBack v)"

definition vec_erase_range :: "nat \<Rightarrow> nat \<Rightarrow> vec \<Rightarrow> 'a heap \<Rightarrow> (vec \<times> 'a heap) result" where
  "vec_erase_range first until v h =
     (if first = until then Inr (v, h)
      else
        and_then (move_range (mpEnd v - until) (slot_at v until) (slot_at v first) h) (\<lambda>h.
        and_then (destruct (until - first) (slot_at v (first + (mpEnd v - until))) h) (\<lambda>h.
          Inr (v\<lparr>mpEnd := mpEnd v - (until - first)\<rparr>, h))))"

definition vec_erase_unsorted :: "nat \<Rightarrow> vec \<Rightarrow> 'a heap \<Rightarrow> (vec \<times> 'a heap) result" where
  "vec_erase_unsorted pos v h =
     (if mpEnd v = 0 then Inl Out_Of_Bounds
      else and_then (move_assign (slot_at v (mpEnd v - 1)) (slot_at v pos) h) (popBack v))"

definition DoAssignValues :: "nat \<Rightarrow> 'a arg \<Rightarrow> vec \<Rightarrow> 'a heap \<Rightarrow> (vec \<times> 'a heap) result" where
  "DoAssignValues n value v h =
     (if mpCapacity v < n then
        and_then (vec_fill n value h) (\<lambda>(temp, h). and_then (vec_delete v h) (\<lambda>h. Inr (temp, h)))
      else if mpEnd v < n then
        and_then (fillN (mpEnd v) (slot_at v 0) value h) (\<lambda>h.
        and_then (uninitializedFillNPtr (n - mpEnd v) (slot_at v (mpEnd v)) value h) (\<lambda>h. Inr (v\<lparr>mpEnd := n\<rparr>, h)))
      else
        and_then (fillN n (slot_at v 0) value h) (vec_erase_range n (mpEnd v) v))"

text \<open>\<^verbatim>\<open>DoAssignFromIterator\<close> for a source in another block, and the copy assignment of another
  vector.\<close>

definition DoAssignFromIterator :: "addr \<Rightarrow> nat \<Rightarrow> vec \<Rightarrow> 'a heap \<Rightarrow> (vec \<times> 'a heap) result" where
  "DoAssignFromIterator first n v h =
     (if mpCapacity v < n then
        let (p, h) = DoAllocate n h in
        and_then (uninitializedCopyPtr n first (p, 0) h) (adopt v \<lparr>mpBegin = p, mpEnd = n, mpCapacity = n\<rparr>)
      else if n \<le> mpEnd v then
        and_then (copy_range n first (slot_at v 0) h) (truncate_vec n v)
      else
        and_then (copy_range (mpEnd v) first (slot_at v 0) h) (\<lambda>h.
        and_then (uninitializedCopyPtr (n - mpEnd v) (plus_addr first (mpEnd v)) (slot_at v (mpEnd v)) h)
          (\<lambda>h. Inr (v\<lparr>mpEnd := n\<rparr>, h))))"

definition vec_assign :: "vec \<Rightarrow> vec \<Rightarrow> 'a heap \<Rightarrow> (vec \<times> 'a heap) result" where
  "vec_assign x v h = DoAssignFromIterator (slot_at x 0) (mpEnd x) v h"

text \<open>\<^verbatim>\<open>DoClearCapacity\<close>: the vector is moved into a temporary, which is swapped with it. The
  move assignment takes over \<open>x\<close> and leaves \<open>x\<close> the old block.\<close>

definition DoClearCapacity :: "vec \<Rightarrow> 'a heap \<Rightarrow> (vec \<times> 'a heap) result" where
  "DoClearCapacity v h =
     and_then (vec_clear v h) (\<lambda>(v, h).
       let (temp, v) = vec_swap (empty_vec, v); (temp, v) = vec_swap (temp, v)
       in and_then (vec_delete temp h) (\<lambda>h. Inr (v, h)))"

definition vec_move_assign :: "vec \<Rightarrow> vec \<Rightarrow> 'a heap \<Rightarrow> (vec \<times> vec \<times> 'a heap) result" where
  "vec_move_assign x v h = and_then (DoClearCapacity v h) (\<lambda>(v, h). case vec_swap (v, x) of (v, x) \<Rightarrow> Inr (v, x, h))"

text \<open>\<^verbatim>\<open>DoInitFromIterator\<close> for iterators that can be followed only once.\<close>

fun push_all :: "'a list \<Rightarrow> vec \<Rightarrow> 'a heap \<Rightarrow> (vec \<times> 'a heap) result" where
  "push_all [] v h = Inr (v, h)"
| "push_all (x # xs) v h = and_then (pushBack (Temp x) v h) (\<lambda>(v, h). push_all xs v h)"

end
