(* ===== verification/Eastl_Vector_List.thy ===== *)
theory Eastl_Vector_List
  imports Eastl_Vector
begin

text \<open>
  The vector as a list: \<open>vector_in h v xs\<close> says that the block of \<open>v\<close> holds exactly the objects \<open>xs\<close> and raw
  storage behind them. Every operation turns it into the list its name promises (\<open>becomes\<close>): no object is lost,
  built over, used after it was moved or left in storage that is released, and no other block is touched. The
  exceptions are the operations that grow the block and then read a parameter which is an element of the vector.
\<close>

section \<open>Representation\<close>

definition vec_cell :: "'a list \<Rightarrow> nat \<Rightarrow> nat \<Rightarrow> 'a cell" where
  "vec_cell xs n i = (if i < length xs then Live (xs ! i) else if i < n then Raw else Unowned)"

definition vector_in :: "'a heap \<Rightarrow> vec \<Rightarrow> 'a list \<Rightarrow> bool" where
  "vector_in h v xs \<longleftrightarrow> length xs = mpEnd v \<and> mpEnd v \<le> mpCapacity v \<and> (mpBegin v = 0 \<longleftrightarrow> mpCapacity v = 0)
     \<and> mpBegin v < next_block h \<and> (\<forall>i. cells h (mpBegin v, i) = vec_cell xs (mpCapacity v) i)"

definition heap_ok :: "'a heap \<Rightarrow> bool" where
  "heap_ok h \<longleftrightarrow> 0 < next_block h \<and> (\<forall>b i. b = 0 \<or> next_block h \<le> b \<longrightarrow> cells h (b, i) = Unowned)"

definition becomes :: "'a heap \<Rightarrow> vec \<Rightarrow> 'a heap \<Rightarrow> vec \<Rightarrow> 'a list \<Rightarrow> bool" where
  "becomes h v h' v' ys \<longleftrightarrow> vector_in h' v' ys \<and> heap_ok h' \<and> next_block h \<le> next_block h'
     \<and> (mpBegin v' = mpBegin v \<or> mpBegin v' = 0 \<or> next_block h \<le> mpBegin v')
     \<and> (\<forall>b i. b \<noteq> mpBegin v' \<longrightarrow> cells h' (b, i) = (if b = mpBegin v then Unowned else cells h (b, i)))"

lemma vector_cell: "vector_in h v xs \<Longrightarrow> cells h (mpBegin v, i) = vec_cell xs (mpCapacity v) i"
  and vector_length: "vector_in h v xs \<Longrightarrow> length xs = mpEnd v" "vector_in h v xs \<Longrightarrow> mpEnd v \<le> mpCapacity v"
  by (simp_all add: vector_in_def)

text \<open>Other vectors keep their objects.\<close>

lemma becomes_other:
  assumes "becomes h v h' v' ys" "vector_in h w zs" "mpBegin w \<noteq> mpBegin v \<or> mpBegin w = 0"
  shows "vector_in h' w zs"
proof (cases "mpBegin w = 0")
  case True
  with assms show ?thesis by (auto simp: becomes_def vector_in_def heap_ok_def vec_cell_def)
next
  case False
  with assms have "mpBegin w \<noteq> mpBegin v'" "mpBegin w \<noteq> mpBegin v" by (auto simp: becomes_def vector_in_def)
  with assms show ?thesis by (auto simp: becomes_def vector_in_def)
qed

lemma becomes_trans:
  assumes "heap_ok h" "becomes h v h' v' ys" "becomes h' v' h'' v'' zs"
  shows "becomes h v h'' v'' zs"
proof -
  note one = assms(2) [unfolded becomes_def] and two = assms(3) [unfolded becomes_def]
  have place: "mpBegin v' = mpBegin v \<or> mpBegin v' = 0 \<or> next_block h \<le> mpBegin v'"
    "mpBegin v'' = mpBegin v' \<or> mpBegin v'' = 0 \<or> next_block h' \<le> mpBegin v''" "next_block h \<le> next_block h'"
    using one two by blast+
  have "cells h'' (b, i) = (if b = mpBegin v then Unowned else cells h (b, i))" if b: "b \<noteq> mpBegin v''" for b i
  proof (cases "b = mpBegin v'")
    case True
    then have "b = mpBegin v \<or> b = 0 \<or> next_block h \<le> b" using place(1) by auto
    then have "b = mpBegin v \<or> cells h (b, i) = Unowned" using assms(1) by (auto simp: heap_ok_def)
    moreover have "cells h'' (b, i) = Unowned" using b True two by simp
    ultimately show ?thesis by auto
  next
    case False
    then show ?thesis using b one two by simp
  qed
  moreover have "mpBegin v'' = mpBegin v \<or> mpBegin v'' = 0 \<or> next_block h \<le> mpBegin v''"
    using place by linarith
  ultimately show ?thesis unfolding becomes_def using one two by simp
qed

section \<open>The two ways to end\<close>

text \<open>In place: only the block of the vector changes.\<close>

lemma becomes_in_place:
  assumes "vector_in h v xs" "heap_ok h" "length ys \<le> mpCapacity v"
    and "\<And>i. m (mpBegin v, i) = vec_cell ys (mpCapacity v) i" "\<And>b i. b \<noteq> mpBegin v \<Longrightarrow> m (b, i) = cells h (b, i)"
  shows "becomes h v (set_cells m h) (v\<lparr>mpEnd := length ys\<rparr>) ys"
proof -
  have "m (b, i) = Unowned" if "b = 0 \<or> next_block h \<le> b" for b i
    using assms that by (cases "b = mpBegin v") (auto simp: vector_in_def heap_ok_def vec_cell_def)
  with assms show ?thesis by (auto simp: becomes_def vector_in_def heap_ok_def)
qed

lemma allocated:
  assumes "DoAllocate n h = (p, h1)" "heap_ok h"
  shows "p = 0 \<longleftrightarrow> n = 0" "p = 0 \<or> next_block h \<le> p" "p < next_block h1" "next_block h \<le> next_block h1" "heap_ok h1"
    "cells h1 (p, i) = (if i < n then Raw else Unowned)" "b \<noteq> p \<Longrightarrow> cells h1 (b, i) = cells h (b, i)"
  using assms by (auto simp: DoAllocate_def heap_ok_def split: if_splits)

lemma vector_other_block:
  "vector_in h v xs \<Longrightarrow> DoAllocate n h = (p, h1) \<Longrightarrow> heap_ok h \<Longrightarrow> 0 < n \<Longrightarrow> p \<noteq> mpBegin v"
  using allocated(1,2) [of n h p h1] by (auto simp: vector_in_def)

lemma DoFree_ok:
  "p \<noteq> 0 \<Longrightarrow> \<forall>i < n. cells h (p, i) = Raw \<Longrightarrow>
    DoFree p n h = Inr (set_cells (\<lambda>a. if fst a = p \<and> snd a < n then Unowned else cells h a) h)"
  by (auto simp: DoFree_def list_all_iff intro!: arg_cong2 [where f = set_cells])

text \<open>In a new block: the old objects, moved from or not, are destroyed and their block is released.\<close>

lemma adopt_null:
  assumes v: "vector_in h v xs" and h: "heap_ok h" and p: "DoAllocate n h = (p, h1)" and n: "length ys \<le> n"
    and new: "\<And>i. m (p, i) = vec_cell ys n i"
    and old: "\<And>i. p \<noteq> mpBegin v \<Longrightarrow> if i < mpEnd v then object (m (mpBegin v, i)) else m (mpBegin v, i) = cells h (mpBegin v, i)"
    and rest: "\<And>b i. b \<noteq> p \<Longrightarrow> b \<noteq> mpBegin v \<Longrightarrow> m (b, i) = cells h (b, i)"
    and True: "mpCapacity v = 0"
  shows "\<exists>h'. adopt v \<lparr>mpBegin = p, mpEnd = length ys, mpCapacity = n\<rparr> (set_cells m h1)
      = Inr (\<lparr>mpBegin = p, mpEnd = length ys, mpCapacity = n\<rparr>, h') \<and> becomes h v h' \<lparr>mpBegin = p, mpEnd = length ys, mpCapacity = n\<rparr> ys
      \<and> next_block h' = next_block h1"
proof -
  have e: "mpEnd v = 0" "mpBegin v = 0" using v True by (auto simp: vector_in_def)
  have "m (b, i) = Unowned" if "b = 0 \<or> next_block h1 \<le> b" for b i
  proof (cases "b = p")
    case True
    with that allocated(1,3) [OF p h] n new [of i] show ?thesis by (auto simp: vec_cell_def)
  next
    case False
    have "cells h (0, i) = Unowned" using h by (auto simp: heap_ok_def)
    with that False old [of i] rest [of b i] e allocated(4) [OF p h] h show ?thesis
      by (cases "b = 0") (auto simp: heap_ok_def)
  qed
  moreover have "m (b, i) = (if b = 0 then Unowned else cells h (b, i))" if "b \<noteq> p" for b i
    using rest [OF that, of i] old [of i] e h that by (auto simp: heap_ok_def)
  ultimately show ?thesis
    using e n new allocated(1,2,3,4) [OF p h] h
    by (auto simp: adopt_def DoFree_def becomes_def vector_in_def heap_ok_def)
qed

lemma adopt_becomes:
  assumes v: "vector_in h v xs" and h: "heap_ok h" and p: "DoAllocate n h = (p, h1)" and n: "length ys \<le> n"
    and new: "\<And>i. m (p, i) = vec_cell ys n i"
    and old: "\<And>i. p \<noteq> mpBegin v \<Longrightarrow> if i < mpEnd v then object (m (mpBegin v, i)) else m (mpBegin v, i) = cells h (mpBegin v, i)"
    and rest: "\<And>b i. b \<noteq> p \<Longrightarrow> b \<noteq> mpBegin v \<Longrightarrow> m (b, i) = cells h (b, i)"
  shows "\<exists>h'. adopt v \<lparr>mpBegin = p, mpEnd = length ys, mpCapacity = n\<rparr> (set_cells m h1)
      = Inr (\<lparr>mpBegin = p, mpEnd = length ys, mpCapacity = n\<rparr>, h') \<and> becomes h v h' \<lparr>mpBegin = p, mpEnd = length ys, mpCapacity = n\<rparr> ys
      \<and> next_block h' = next_block h1"
proof (cases "mpCapacity v = 0")
  case True
  from adopt_null [OF v h p n new old rest True] show ?thesis .
next
  case False
  with v have b: "mpBegin v \<noteq> 0" "p \<noteq> mpBegin v" using allocated(2) [OF p h] by (auto simp: vector_in_def)
  let ?m = "put_range (mpBegin v) 0 (replicate (mpEnd v) Raw) m"
  have o: "objects m (mpBegin v) 0 (mpEnd v)" using old b(2) by (auto simp: objects_def)
  have raw: "?m (mpBegin v, i) = (if i < mpCapacity v then Raw else Unowned)" for i
    using old [OF b(2), of i] v by (auto simp: put_range_def vector_in_def vec_cell_def)
  let ?k = "\<lambda>a. if fst a = mpBegin v \<and> snd a < mpCapacity v then Unowned else ?m a"
  have "adopt v \<lparr>mpBegin = p, mpEnd = length ys, mpCapacity = n\<rparr> (set_cells m h1)
      = Inr (\<lparr>mpBegin = p, mpEnd = length ys, mpCapacity = n\<rparr>, set_cells ?k h1)"
    using o b raw by (simp add: adopt_def destruct_ok DoFree_ok cong del: if_weak_cong)
  moreover have k: "?k (c, i) = (if c = p then vec_cell ys n i else if c = mpBegin v then Unowned else cells h (c, i))" for c i
    using raw [of i] new [of i] rest [of c i] b(2) by (auto simp: put_range_def)
  have "?k (c, i) = Unowned" if "c = 0 \<or> next_block h1 \<le> c" for c i
    unfolding k using that n b allocated(1,3,4) [OF p h] h by (auto simp: vec_cell_def heap_ok_def)
  then have "heap_ok (set_cells ?k h1)" using allocated(5) [OF p h] by (auto simp: heap_ok_def)
  then have "becomes h v (set_cells ?k h1) \<lparr>mpBegin = p, mpEnd = length ys, mpCapacity = n\<rparr> ys"
    unfolding becomes_def vector_in_def set_cells_simps k
    using n b allocated(1-4) [OF p h] by auto
  ultimately show ?thesis by simp
qed

section \<open>Growing\<close>

text \<open>The memory after an allocation, seen from the vector.\<close>

lemma grown:
  assumes "vector_in h v xs" "heap_ok h" "DoAllocate n h = (p, h1)" "0 < n"
  shows "p \<noteq> mpBegin v" "cells h1 (mpBegin v, i) = vec_cell xs (mpCapacity v) i" "cells h1 (p, i) = vec_cell [] n i"
    "b \<noteq> p \<Longrightarrow> cells h1 (b, i) = cells h (b, i)" "length xs = mpEnd v" "mpEnd v \<le> mpCapacity v"
proof -
  show p: "p \<noteq> mpBegin v" using vector_other_block [OF assms(1,3,2,4)] .
  show "cells h1 (mpBegin v, i) = vec_cell xs (mpCapacity v) i"
    using allocated(7) [OF assms(3,2), of "mpBegin v" i] p assms(1) by (simp add: vector_in_def)
  show "cells h1 (p, i) = vec_cell [] n i" using allocated(6) [OF assms(3,2)] by (simp add: vec_cell_def)
  show "b \<noteq> p \<Longrightarrow> cells h1 (b, i) = cells h (b, i)" using allocated(7) [OF assms(3,2)] .
  show "length xs = mpEnd v" "mpEnd v \<le> mpCapacity v" using assms(1) by (auto simp: vector_in_def)
qed

lemmas range_simps = range_is_def objects_def put_range_def vec_cell_def nth_append

text \<open>Moving all objects to the new block.\<close>

lemma move_all:
  assumes "vector_in h v xs" "heap_ok h" "DoAllocate n h = (p, h1)" "0 < n" "length xs \<le> n"
  shows "uninitializedMove_ptr (mpEnd v) (mpBegin v, 0) (p, 0) h1 =
    Inr (set_cells (put_range p 0 (map Live xs) (put_range (mpBegin v) 0 (replicate (mpEnd v) Moved) (cells h1))) h1)"
proof -
  note g = grown [OF assms(1-4)]
  have "range_is (cells h1) (mpBegin v) 0 (map Live xs)" "range_is (cells h1) p 0 (replicate (length xs) Raw)"
    using assms(5) by (auto simp: range_simps g(2,3))
  from uninitializedMove_ok [OF this] show ?thesis by (simp add: g(5))
qed

lemma DoGrow_ok:
  assumes "vector_in h v xs" "heap_ok h" "length xs \<le> n" "0 < n"
  shows "\<exists>h' v'. DoGrow n v h = Inr (v', h') \<and> becomes h v h' v' xs \<and> mpCapacity v' = n"
proof -
  obtain p h1 where p: "DoAllocate n h = (p, h1)" by force
  note g = grown [OF assms(1,2) p assms(4)]
  let ?m = "put_range p 0 (map Live xs) (put_range (mpBegin v) 0 (replicate (mpEnd v) Moved) (cells h1))"
  have "?m (p, i) = vec_cell xs n i" "p \<noteq> mpBegin v \<Longrightarrow> if i < mpEnd v then object (?m (mpBegin v, i)) else ?m (mpBegin v, i) = cells h (mpBegin v, i)"
    "b \<noteq> p \<Longrightarrow> b \<noteq> mpBegin v \<Longrightarrow> ?m (b, i) = cells h (b, i)" for b i
    using assms(3) g(1,4) by (auto simp: put_range_def vec_cell_def g(3))
  from adopt_becomes [OF assms(1,2) p assms(3) this] show ?thesis
    by (auto simp: DoGrow_def p move_all [OF assms(1,2) p assms(4,3)] g(5))
qed

lemma GetNewCapacity_small: "n < 2 ^ 63 \<Longrightarrow> n < GetNewCapacity n"
  by (auto simp: GetNewCapacity_def)

lemma fetch_outside:
  "read_arg value h = Inr x \<Longrightarrow> heap_ok h \<Longrightarrow> DoAllocate n h = (p, h1) \<Longrightarrow> read_arg value h1 = Inr x"
  by (cases "value") (auto simp: read_object_def DoAllocate_def heap_ok_def split: cell.splits if_splits)

lemma fetch_agree:
  "read_arg value h = Inr x \<Longrightarrow> (\<And>a. value = At a \<Longrightarrow> m a = cells h a) \<Longrightarrow> read_arg value (set_cells m h) = Inr x"
  by (cases "value") (auto simp: read_object_def)

lemma not_in_new:
  assumes "heap_ok h" "DoAllocate n h = (p, h1)" "read_arg value h = Inr x" "value = At a"
  shows "fst a \<noteq> p"
proof
  assume "fst a = p"
  with allocated(2) [OF assms(2,1)] assms(1) have "cells h a = Unowned" by (cases a) (auto simp: heap_ok_def)
  with assms(3,4) show False by (simp add: read_object_def)
qed

text \<open>The value of a parameter that is not an object of this vector.\<close>

definition outside :: "vec \<Rightarrow> 'a arg \<Rightarrow> bool" where
  "outside v value = (case value of Temp x \<Rightarrow> True | At a \<Rightarrow> fst a \<noteq> mpBegin v)"

lemma DoInsertValueEnd_ok:
  assumes "vector_in h v xs" "heap_ok h" "length xs < 2 ^ 63" "read_arg value h = Inr x" "outside v value"
  shows "\<exists>h' v'. DoInsertValueEnd value v h = Inr (v', h') \<and> becomes h v h' v' (xs @ [x])
    \<and> mpCapacity v' = GetNewCapacity (length xs) \<and> next_block h' = next_block h + 1"
proof -
  have e: "length xs = mpEnd v" using assms(1) by (simp add: vector_in_def)
  let ?n = "GetNewCapacity (mpEnd v)"
  obtain p h1 where p: "DoAllocate ?n h = (p, h1)" by force
  have n: "length xs < ?n" "0 < ?n" using GetNewCapacity_small [OF assms(3)] e by simp_all
  note g = grown [OF assms(1,2) p n(2)]
  let ?h2 = "set_cells (put_range p 0 (map Live xs) (put_range (mpBegin v) 0 (replicate (mpEnd v) Moved) (cells h1))) h1"
  let ?m = "(cells ?h2)((p, mpEnd v) := Live x)"
  have f: "read_arg value ?h2 = Inr x"
    using fetch_outside [OF assms(4,2) p] not_in_new [OF assms(2) p assms(4)] assms(5)
    by (intro fetch_agree) (auto simp: outside_def put_range_def)
  have "cells ?h2 (p, mpEnd v) = Raw" using g(3,5) n(1) by (auto simp: put_range_def vec_cell_def)
  note c = construct_ok [OF this]
  have "?m (p, i) = vec_cell (xs @ [x]) ?n i" "p \<noteq> mpBegin v \<Longrightarrow> if i < mpEnd v then object (?m (mpBegin v, i)) else ?m (mpBegin v, i) = cells h (mpBegin v, i)"
    "b \<noteq> p \<Longrightarrow> b \<noteq> mpBegin v \<Longrightarrow> ?m (b, i) = cells h (b, i)" for b i
    using n(1) g(1,4,5) by (auto simp: put_range_def vec_cell_def g(3) nth_append)
  note a = adopt_becomes [OF assms(1,2) p _ this]
  have "next_block h1 = next_block h + 1" using p n(2) by (auto simp: DoAllocate_def)
  then show ?thesis using a n(1)
    by (auto simp: DoInsertValueEnd_def p move_all [OF assms(1,2) p n(2)] f c put_cell_def e simp del: fun_upd_apply)
qed

lemma pushBack_ok:
  assumes "vector_in h v xs" "heap_ok h" "length xs < 2 ^ 63" "read_arg value h = Inr x" "outside v value \<or> length xs < mpCapacity v"
  shows "\<exists>h' v'. pushBack value v h = Inr (v', h') \<and> becomes h v h' v' (xs @ [x])"
proof (cases "mpEnd v < mpCapacity v")
  case True
  then have raw: "cells h (mpBegin v, mpEnd v) = Raw" and e: "length xs = mpEnd v"
    using assms(1) by (auto simp: vector_in_def vec_cell_def)
  have "becomes h v (set_cells ((cells h)((mpBegin v, mpEnd v) := Live x)) h) (v\<lparr>mpEnd := length (xs @ [x])\<rparr>) (xs @ [x])"
    using assms(1) True by (intro becomes_in_place [OF assms(1,2)]) (auto simp: vector_in_def vec_cell_def nth_append)
  then show ?thesis using True assms(4) raw e by (auto simp: pushBack_def construct_ok put_cell_def)
next
  case False
  with assms have "outside v value" by (auto simp: vector_in_def)
  from DoInsertValueEnd_ok [OF assms(1-4) this] False show ?thesis by (auto simp: pushBack_def)
qed

section \<open>Inserting\<close>

abbreviation inserted :: "nat \<Rightarrow> 'a list \<Rightarrow> 'a list \<Rightarrow> 'a list" where
  "inserted pos zs xs \<equiv> take pos xs @ zs @ drop pos xs"

lemma vec_cell_inserted:
  "pos \<le> length xs \<Longrightarrow> vec_cell (inserted pos zs xs) n i =
    (if i < pos then Live (xs ! i) else if i < pos + length zs then Live (zs ! (i - pos))
     else if i < length xs + length zs then Live (xs ! (i - length zs)) else if i < n then Raw else Unowned)"
  by (auto simp: vec_cell_def nth_append)

text \<open>The tail of every insertion into a new block: what is before the position and what is behind it move,
  the new objects stand between them.\<close>

lemma split_moves:
  assumes "vector_in h v xs" "heap_ok h" "DoAllocate n h = (p, h1)" "pos \<le> length xs" "length xs + length zs \<le> n" "0 < n"
  shows "\<exists>h' v'. adopt v \<lparr>mpBegin = p, mpEnd = mpEnd v + length zs, mpCapacity = n\<rparr>
      (set_cells (put_range p (pos + length zs) (map Live (drop pos xs)) (put_range (mpBegin v) pos (replicate (mpEnd v - pos) Moved)
        (put_range p pos (map Live zs) (put_range p 0 (map Live (take pos xs)) (put_range (mpBegin v) 0 (replicate pos Moved) (cells h1)))))) h1)
    = Inr (v', h') \<and> becomes h v h' v' (inserted pos zs xs)"
proof -
  note g = grown [OF assms(1-3,6)]
  let ?m = "put_range p (pos + length zs) (map Live (drop pos xs)) (put_range (mpBegin v) pos (replicate (mpEnd v - pos) Moved)
        (put_range p pos (map Live zs) (put_range p 0 (map Live (take pos xs)) (put_range (mpBegin v) 0 (replicate pos Moved) (cells h1)))))"
  have new: "?m (p, i) = vec_cell (inserted pos zs xs) n i" for i
    unfolding vec_cell_inserted [OF assms(4)] using assms(4,5) g(1,5) by (auto simp: put_range_def g(3) vec_cell_def)
  have old: "if i < mpEnd v then object (?m (mpBegin v, i)) else ?m (mpBegin v, i) = cells h (mpBegin v, i)" for i
    using g(1,4,5) assms(4) by (auto simp: put_range_def)
  have rest: "?m (b, i) = cells h (b, i)" if "b \<noteq> p" "b \<noteq> mpBegin v" for b i
    using that g(4) by (auto simp: put_range_def)
  have len: "length (inserted pos zs xs) = mpEnd v + length zs" using assms(4) g(5) by simp
  then have "length (inserted pos zs xs) \<le> n" using assms(5) g(5) by simp
  from adopt_becomes [OF assms(1-3) this new old rest] show ?thesis unfolding len by blast
qed

text \<open>The two halves of the moves of a growing insertion.\<close>

lemma move_front:
  assumes "vector_in h v xs" "heap_ok h" "DoAllocate n h = (p, h1)" "pos \<le> length xs" "length xs \<le> n" "0 < n"
    and "\<And>i. i < pos \<Longrightarrow> m (p, i) = Raw" "\<And>i. m (mpBegin v, i) = cells h1 (mpBegin v, i)"
  shows "uninitializedMove_ptr pos (mpBegin v, 0) (p, 0) (set_cells m h1) =
    Inr (set_cells (put_range p 0 (map Live (take pos xs)) (put_range (mpBegin v) 0 (replicate pos Moved) m)) h1)"
proof -
  note g = grown [OF assms(1-3,6)]
  have "range_is (cells (set_cells m h1)) (mpBegin v) 0 (map Live (take pos xs))"
    "range_is (cells (set_cells m h1)) p 0 (replicate (length (take pos xs)) Raw)"
    using assms(4,7,8) by (auto simp: range_is_def g(2) vec_cell_def)
  from uninitializedMove_ok [OF this] show ?thesis using assms(4) by (simp add: min_absorb2)
qed

lemma move_rest:
  assumes "vector_in h v xs" "heap_ok h" "DoAllocate n h = (p, h1)" "pos \<le> length xs" "0 < n"
    and "\<And>i. i < length xs - pos \<Longrightarrow> m (p, k + i) = Raw" "\<And>i. pos \<le> i \<Longrightarrow> m (mpBegin v, i) = cells h1 (mpBegin v, i)"
  shows "uninitializedMove_ptr (mpEnd v - pos) (mpBegin v, pos) (p, k) (set_cells m h1) =
    Inr (set_cells (put_range p k (map Live (drop pos xs)) (put_range (mpBegin v) pos (replicate (mpEnd v - pos) Moved) m)) h1)"
proof -
  note g = grown [OF assms(1-3,5)]
  have "range_is (cells (set_cells m h1)) (mpBegin v) pos (map Live (drop pos xs))"
    "range_is (cells (set_cells m h1)) p k (replicate (length (drop pos xs)) Raw)"
    using assms(4,6,7) by (auto simp: range_is_def g(2) vec_cell_def)
  from uninitializedMove_ok [OF this] show ?thesis using g(5) by simp
qed

lemma put_cell_range: "put_cell (b, i) c h = set_cells (put_range b i [c] (cells h)) h"
  by (simp add: put_cell_def put_range_Cons del: fun_upd_apply)

lemma put_range_commute:
  "b \<noteq> c \<or> i + length ys \<le> j \<or> j + length zs \<le> i \<Longrightarrow> put_range b i ys (put_range c j zs m) = put_range c j zs (put_range b i ys m)"
  by (auto simp: put_range_def fun_eq_iff)

lemma DoInsertValue_ok_grow:
  assumes "vector_in h v xs" "heap_ok h" "length xs < 2 ^ 63" "read_arg value h = Inr x" "pos \<le> length xs"
    and True: "mpEnd v = mpCapacity v"
  shows "\<exists>h' v'. DoInsertValue pos value v h = Inr (v', h') \<and> becomes h v h' v' (inserted pos [x] xs)"
proof -
  have full: "(mpEnd v \<noteq> mpCapacity v) = False" using True by simp
  have e: "length xs = mpEnd v" using assms(1) by (simp add: vector_in_def)
  let ?n = "GetNewCapacity (mpEnd v)"
  obtain p h1 where p: "DoAllocate ?n h = (p, h1)" by force
  have n: "length xs < ?n" "0 < ?n" "length xs + length [x] \<le> ?n" using GetNewCapacity_small [OF assms(3)] e by simp_all
  note g = grown [OF assms(1,2) p n(2)]
  let ?m = "put_range p pos [Live x] (cells h1)"
  let ?m1 = "put_range p 0 (map Live (take pos xs)) (put_range (mpBegin v) 0 (replicate pos Moved) ?m)"
  have "cells h1 (p, pos) = Raw" using g(3) n(1) assms(5) by (simp add: vec_cell_def)
  note c = construct_ok [OF this, of x]
  have mf: "uninitializedMove_ptr pos (mpBegin v, 0) (p, 0) (set_cells ?m h1) = Inr (set_cells ?m1 h1)"
    using n(1) assms(5) g(1) by (intro move_front [OF assms(1,2) p assms(5) _ n(2)]) (auto simp: put_range_def g(3) vec_cell_def)
  have mr: "uninitializedMove_ptr (mpEnd v - pos) (mpBegin v, pos) (p, pos + 1) (set_cells ?m1 h1) =
      Inr (set_cells (put_range p (pos + 1) (map Live (drop pos xs)) (put_range (mpBegin v) pos (replicate (mpEnd v - pos) Moved) ?m1)) h1)"
    using n(1) assms(5) g(1) by (intro move_rest [OF assms(1,2) p assms(5) n(2)]) (auto simp: put_range_def g(3) vec_cell_def)
  have m1: "?m1 = put_range p pos (map Live [x]) (put_range p 0 (map Live (take pos xs)) (put_range (mpBegin v) 0 (replicate pos Moved) (cells h1)))"
    using g(1) assms(5) by (auto simp: put_range_def fun_eq_iff)
  from split_moves [OF assms(1,2) p assms(5) n(3,2)] show ?thesis
    unfolding DoInsertValue_def full if_False using fetch_outside [OF assms(4,2) p] mf mr
    by (simp add: p c put_cell_range del: fun_upd_apply) (simp add: m1)
qed

lemma DoInsertValue_ok_place:
  assumes "vector_in h v xs" "heap_ok h" "length xs < 2 ^ 63" "read_arg value h = Inr x" "pos \<le> length xs"
    and False: "mpEnd v \<noteq> mpCapacity v" and lt: "pos < length xs"
  shows "\<exists>h' v'. DoInsertValue pos value v h = Inr (v', h') \<and> becomes h v h' v' (inserted pos [x] xs)"
proof -
  have pos: "pos < mpEnd v" "0 < mpEnd v" "mpEnd v < mpCapacity v" and e: "length xs = mpEnd v"
    using assms(1) False lt by (auto simp: vector_in_def)
  let ?b = "mpBegin v" and ?e = "mpEnd v"
  have cell: "cells h (?b, i) = vec_cell xs (mpCapacity v) i" for i using assms(1) by (simp add: vector_in_def)
  have last: "cells h (?b, ?e - 1) = Live (xs ! (?e - 1))" using pos e by (simp add: cell vec_cell_def)
  let ?m1 = "put_range ?b ?e [Live (xs ! (?e - 1))] (put_range ?b (?e - 1) [Moved] (cells h))"
  let ?ys = "take (?e - 1 - pos) (drop pos xs)"
  let ?m2 = "put_range ?b (pos + 1) (map Live ?ys) (put_range ?b pos (replicate (?e - 1 - pos) Moved) ?m1)"
  let ?m3 = "put_range ?b pos [Live x] (put_range ?b pos [Raw] ?m2)"
  have l: "length ?ys = ?e - 1 - pos" using e by simp
  have "cells (set_cells (put_range ?b (?e - 1) [Moved] (cells h)) h) (?b, ?e) = Raw"
    using pos e by (auto simp: put_range_def cell vec_cell_def)
  note c1 = construct_ok [OF this]
  have "range_is (cells (set_cells ?m1 h)) ?b pos (map Live ?ys)" "objects (cells (set_cells ?m1 h)) ?b (pos + 1) (length ?ys)"
    using pos e by (auto simp: range_is_def objects_def put_range_def cell vec_cell_def)
  from move_backward_ok [OF this] have mb: "move_backward (?e - 1 - pos) (?b, pos) (?b, pos + 1) (set_cells ?m1 h) = Inr (set_cells ?m2 h)"
    unfolding l by simp
  have "object (cells (set_cells ?m2 h) (?b, pos))" using pos e by (auto simp: put_range_def)
  note d = destroy_ok [OF this]
  have "cells (set_cells (put_range ?b pos [Raw] ?m2) h) (?b, pos) = Raw" by (simp add: put_range_def)
  note c2 = construct_ok [OF this]
  have "becomes h v (set_cells ?m3 h) (v\<lparr>mpEnd := length (inserted pos [x] xs)\<rparr>) (inserted pos [x] xs)"
  proof (rule becomes_in_place [OF assms(1,2)])
    show "?m3 (?b, i) = vec_cell (inserted pos [x] xs) (mpCapacity v) i" for i
      unfolding vec_cell_inserted [OF assms(5)] using pos e by (auto simp: put_range_def cell vec_cell_def less_Suc_eq)
  qed (use pos e in \<open>auto simp: put_range_def\<close>)
  then show ?thesis using False pos e assms(4,5) mb move_from_ok [OF last] c1 d c2
    by (simp add: DoInsertValue_def put_cell_range min_absorb2 del: fun_upd_apply)
qed

lemma DoInsertValue_ok:
  assumes "vector_in h v xs" "heap_ok h" "length xs < 2 ^ 63" "read_arg value h = Inr x" "pos \<le> length xs"
    and "mpEnd v = mpCapacity v \<or> pos < length xs"
  shows "\<exists>h' v'. DoInsertValue pos value v h = Inr (v', h') \<and> becomes h v h' v' (inserted pos [x] xs)"
  using DoInsertValue_ok_grow [OF assms(1-5)] DoInsertValue_ok_place [OF assms(1-5)] assms(6) by blast

lemma vec_insert_ok:
  assumes "vector_in h v xs" "heap_ok h" "length xs < 2 ^ 63" "read_arg value h = Inr x" "pos \<le> length xs"
  shows "\<exists>h' v'. vec_insert pos value v h = Inr (pos, v', h') \<and> becomes h v h' v' (inserted pos [x] xs)"
proof (cases "mpEnd v = mpCapacity v \<or> pos < length xs")
  case True
  then have "mpEnd v = mpCapacity v \<or> pos \<noteq> mpEnd v" using assms(1) by (auto simp: vector_in_def)
  with DoInsertValue_ok [OF assms True] show ?thesis by (auto simp: vec_insert_def)
next
  case False
  then have pos: "pos = mpEnd v" "mpEnd v < mpCapacity v" "length xs = mpEnd v"
    using assms(1,5) by (auto simp: vector_in_def)
  then have "outside v value \<or> length xs < mpCapacity v" by simp
  from pushBack_ok [OF assms(1-4) this] show ?thesis
    using pos by (auto simp: vec_insert_def pushBack_def)
qed

lemma DoInsertValuesEnd_ok:
  assumes "vector_in h v xs" "heap_ok h" "length xs + n < 2 ^ 63" "read_arg value h = Inr x"
    and "outside v value \<or> length xs + n \<le> mpCapacity v"
  shows "\<exists>h' v'. DoInsertValuesEnd n value v h = Inr (v', h') \<and> becomes h v h' v' (xs @ replicate n x)"
proof -
  have e: "length xs = mpEnd v" "mpEnd v \<le> mpCapacity v" using assms(1) by (auto simp: vector_in_def)
  show ?thesis
  proof (cases "mpCapacity v - mpEnd v < n")
    case True
    with assms(5) e have out: "outside v value" by auto
    let ?n = "new_size v n"
    obtain p h1 where p: "DoAllocate ?n h = (p, h1)" by force
    have n: "length xs + n \<le> ?n" "0 < ?n" using assms(3) e True by (auto simp: new_size_def Let_def)
    note g = grown [OF assms(1,2) p n(2)]
    let ?m1 = "put_range p 0 (map Live xs) (put_range (mpBegin v) 0 (replicate (mpEnd v) Moved) (cells h1))"
    have f: "read_arg value (set_cells ?m1 h1) = Inr x"
      using fetch_outside [OF assms(4,2) p] not_in_new [OF assms(2) p assms(4)] out
      by (intro fetch_agree) (auto simp: outside_def put_range_def)
    have "range_is (cells (set_cells ?m1 h1)) p (mpEnd v) (replicate n Raw)"
      using n(1) g(1,5) by (auto simp: range_is_def put_range_def g(3) vec_cell_def)
    note fill = uninitializedFill_ok [OF f this]
    have "length xs \<le> length xs" "length xs + length (replicate n x) \<le> ?n" "length xs \<le> ?n" using n by auto
    from split_moves [OF assms(1,2) p this(1,2) n(2)] move_all [OF assms(1,2) p n(2) this(3)] fill show ?thesis
      using True e(1) by (simp add: DoInsertValuesEnd_def p)
  next
    case False
    let ?m = "put_range (mpBegin v) (mpEnd v) (replicate n (Live x)) (cells h)"
    have "range_is (cells h) (mpBegin v) (mpEnd v) (replicate n Raw)"
      using False assms(1) e by (auto simp: range_is_def vector_in_def vec_cell_def)
    note fill = uninitializedFill_ok [OF assms(4) this]
    have "becomes h v (set_cells ?m h) (v\<lparr>mpEnd := length (xs @ replicate n x)\<rparr>) (xs @ replicate n x)"
      using False assms(1) by (intro becomes_in_place [OF assms(1,2)]) (auto simp: vector_in_def vec_cell_def put_range_def nth_append)
    then show ?thesis using False fill e(1) by (auto simp: DoInsertValuesEnd_def)
  qed
qed

text \<open>Making room in place, when the new objects lie before the old end, and when they reach beyond it.\<close>

lemma room_within:
  assumes "vector_in h v xs" "pos + n < mpEnd v" "mpEnd v + n \<le> mpCapacity v" "0 < n"
  obtains m1 m2 where
    "uninitializedMove_ptr n (mpBegin v, mpEnd v - n) (mpBegin v, mpEnd v) h = Inr (set_cells m1 h)"
    "move_backward (mpEnd v - n - pos) (mpBegin v, pos) (mpBegin v, pos + n) (set_cells m1 h) = Inr (set_cells m2 h)"
    "objects m2 (mpBegin v) pos n" "\<And>c i. c \<noteq> mpBegin v \<Longrightarrow> m2 (c, i) = cells h (c, i)"
    "\<And>zs i. length zs = n \<Longrightarrow> put_range (mpBegin v) pos (map Live zs) m2 (mpBegin v, i) = vec_cell (inserted pos zs xs) (mpCapacity v) i"
proof -
  let ?b = "mpBegin v" and ?e = "mpEnd v"
  have cell: "cells h (?b, i) = vec_cell xs (mpCapacity v) i" for i using assms(1) by (simp add: vector_in_def)
  have e: "length xs = ?e" using assms(1) by (simp add: vector_in_def)
  let ?us = "drop (?e - n) xs" and ?ys = "take (?e - n - pos) (drop pos xs)"
  have l: "length ?us = n" "length ?ys = ?e - n - pos" using assms(2) e by auto
  let ?m1 = "put_range ?b ?e (map Live ?us) (put_range ?b (?e - n) (replicate n Moved) (cells h))"
  let ?m2 = "put_range ?b (pos + n) (map Live ?ys) (put_range ?b pos (replicate (?e - n - pos) Moved) ?m1)"
  have "range_is (cells h) ?b (?e - n) (map Live ?us)" "range_is (cells h) ?b ?e (replicate (length ?us) Raw)"
    using assms(2,3) e by (auto simp: range_is_def cell vec_cell_def)
  from uninitializedMove_ok [OF this] have one: "uninitializedMove_ptr n (?b, ?e - n) (?b, ?e) h = Inr (set_cells ?m1 h)"
    unfolding l by simp
  have "range_is (cells (set_cells ?m1 h)) ?b pos (map Live ?ys)" "objects (cells (set_cells ?m1 h)) ?b (pos + n) (length ?ys)" "pos < pos + n"
    using assms(2,3,4) e by (auto simp: range_is_def objects_def put_range_def cell vec_cell_def)
  from move_backward_ok [OF this] have two: "move_backward (?e - n - pos) (?b, pos) (?b, pos + n) (set_cells ?m1 h) = Inr (set_cells ?m2 h)"
    unfolding l by simp
  have "objects ?m2 ?b pos n" using assms(2,3) e by (auto simp: objects_def put_range_def cell vec_cell_def)
  moreover have "c \<noteq> ?b \<Longrightarrow> ?m2 (c, i) = cells h (c, i)" for c i by (simp add: put_range_def)
  moreover have "put_range ?b pos (map Live zs) ?m2 (?b, i) = vec_cell (inserted pos zs xs) (mpCapacity v) i" if "length zs = n" for zs i
  proof -
    have pos: "pos \<le> length xs" using assms(2) e by simp
    show ?thesis unfolding vec_cell_inserted [OF pos] using that assms(2,3) e l
      by (auto simp: put_range_def cell vec_cell_def)
  qed
  ultimately show ?thesis using that one two by blast
qed

lemma room_beyond:
  assumes "vector_in h v xs" "pos \<le> mpEnd v" "length us = mpEnd v - pos" "mpEnd v + length us + length ws \<le> mpCapacity v"
  obtains m2 where
    "uninitializedMove_ptr (mpEnd v - pos) (mpBegin v, pos) (mpBegin v, pos + (length us + length ws))
       (set_cells (put_range (mpBegin v) (mpEnd v) (map Live ws) (cells h)) h) = Inr (set_cells m2 h)"
    "objects m2 (mpBegin v) pos (mpEnd v - pos)" "\<And>c i. c \<noteq> mpBegin v \<Longrightarrow> m2 (c, i) = cells h (c, i)"
    "\<And>i. put_range (mpBegin v) pos (map Live us) m2 (mpBegin v, i) = vec_cell (inserted pos (us @ ws) xs) (mpCapacity v) i"
proof -
  let ?b = "mpBegin v" and ?e = "mpEnd v"
  have cell: "cells h (?b, i) = vec_cell xs (mpCapacity v) i" for i using assms(1) by (simp add: vector_in_def)
  have e: "length xs = ?e" using assms(1) by (simp add: vector_in_def)
  let ?ys = "drop pos xs" and ?m1 = "put_range ?b ?e (map Live ws) (cells h)"
  have l: "length ?ys = ?e - pos" using e by simp
  let ?m2 = "put_range ?b (pos + (length us + length ws)) (map Live ?ys) (put_range ?b pos (replicate (?e - pos) Moved) ?m1)"
  have "range_is (cells (set_cells ?m1 h)) ?b pos (map Live ?ys)"
    "range_is (cells (set_cells ?m1 h)) ?b (pos + (length us + length ws)) (replicate (length ?ys) Raw)"
    using assms(2-4) e by (auto simp: range_is_def put_range_def cell vec_cell_def)
  from uninitializedMove_ok [OF this]
  have "uninitializedMove_ptr (?e - pos) (?b, pos) (?b, pos + (length us + length ws)) (set_cells ?m1 h) = Inr (set_cells ?m2 h)"
    unfolding l by simp
  moreover have "objects ?m2 ?b pos (?e - pos)" using assms(2-4) e by (auto simp: objects_def put_range_def)
  moreover have "c \<noteq> ?b \<Longrightarrow> ?m2 (c, i) = cells h (c, i)" for c i by (simp add: put_range_def)
  moreover have "put_range ?b pos (map Live us) ?m2 (?b, i) = vec_cell (inserted pos (us @ ws) xs) (mpCapacity v) i" for i
  proof -
    have pos: "pos \<le> length xs" using assms(2) e by simp
    show ?thesis unfolding vec_cell_inserted [OF pos] using assms(2-4) e l
      by (auto simp: put_range_def cell vec_cell_def nth_append) (simp add: add.commute)
  qed
  ultimately show ?thesis using that by blast
qed

lemma inserted_in_place:
  assumes "vector_in h v xs" "heap_ok h" "pos \<le> length xs" "length xs + length zs \<le> mpCapacity v"
    and "\<And>i. m (mpBegin v, i) = vec_cell (inserted pos zs xs) (mpCapacity v) i" "\<And>c i. c \<noteq> mpBegin v \<Longrightarrow> m (c, i) = cells h (c, i)"
  shows "becomes h v (set_cells m h) (v\<lparr>mpEnd := mpEnd v + length zs\<rparr>) (inserted pos zs xs)"
proof -
  have len: "length (inserted pos zs xs) = mpEnd v + length zs" using assms(1,3) by (simp add: vector_in_def)
  from becomes_in_place [OF assms(1,2) _ assms(5,6)] show ?thesis
    unfolding len using assms(1,4) by (simp add: vector_in_def)
qed

lemma DoInsertValues_ok_none:
  assumes "vector_in h v xs" "heap_ok h" "length xs + n < 2 ^ 63" "read_arg value h = Inr x" "pos \<le> length xs"
    and "outside v value \<or> length xs + n \<le> mpCapacity v"
    and none: "n = 0"
  shows "\<exists>h' v'. DoInsertValues pos n value v h = Inr (v', h') \<and> becomes h v h' v' (inserted pos (replicate n x) xs)"
proof -
  let ?b = "mpBegin v" and ?e = "mpEnd v"
  note e = vector_length [OF assms(1)] and cell = vector_cell [OF assms(1)]
  have "becomes h v (set_cells (cells h) h) (v\<lparr>mpEnd := ?e + length ([] :: 'a list)\<rparr>) (inserted pos [] xs)"
    using assms(5) e by (intro inserted_in_place [OF assms(1,2,5)]) (auto simp: cell)
  then show ?thesis using none by (simp add: DoInsertValues_def)
qed

lemma DoInsertValues_ok_within:
  assumes "vector_in h v xs" "heap_ok h" "length xs + n < 2 ^ 63" "read_arg value h = Inr x" "pos \<le> length xs"
    and "outside v value \<or> length xs + n \<le> mpCapacity v"
    and within: "0 < n" "n \<le> mpCapacity v - mpEnd v" "n < mpEnd v - pos"
  shows "\<exists>h' v'. DoInsertValues pos n value v h = Inr (v', h') \<and> becomes h v h' v' (inserted pos (replicate n x) xs)"
proof -
  let ?b = "mpBegin v" and ?e = "mpEnd v"
  note e = vector_length [OF assms(1)] and cell = vector_cell [OF assms(1)]
  have "pos + n < ?e" "?e + n \<le> mpCapacity v" using within e by auto
  from room_within [OF assms(1) this within(1)] obtain m1 m2 where
    one: "uninitializedMove_ptr n (?b, ?e - n) (?b, ?e) h = Inr (set_cells m1 h)"
      "move_backward (?e - n - pos) (?b, pos) (?b, pos + n) (set_cells m1 h) = Inr (set_cells m2 h)" and
    two: "objects m2 ?b pos n" "\<And>c i. c \<noteq> ?b \<Longrightarrow> m2 (c, i) = cells h (c, i)"
      "\<And>zs i. length zs = n \<Longrightarrow> put_range ?b pos (map Live zs) m2 (?b, i) = vec_cell (inserted pos zs xs) (mpCapacity v) i"
    by blast
  have "becomes h v (set_cells (put_range ?b pos (map Live (replicate n x)) m2) h) (v\<lparr>mpEnd := ?e + length (replicate n x)\<rparr>)
      (inserted pos (replicate n x) xs)"
    using within e two(2) by (intro inserted_in_place [OF assms(1,2,5)] two(3)) (auto simp: put_range_def)
  moreover have "fillN n (?b, pos) (Temp x) (set_cells m2 h) = Inr (set_cells (put_range ?b pos (replicate n (Live x)) m2) h)"
    using fillN_ok [of "Temp x" "set_cells m2 h" x ?b pos n] two(1) by simp
  ultimately show ?thesis using within one by (simp add: DoInsertValues_def assms(4))
qed

lemma DoInsertValues_ok_beyond:
  assumes "vector_in h v xs" "heap_ok h" "length xs + n < 2 ^ 63" "read_arg value h = Inr x" "pos \<le> length xs"
    and "outside v value \<or> length xs + n \<le> mpCapacity v"
    and beyond: "0 < n" "n \<le> mpCapacity v - mpEnd v" "\<not> n < mpEnd v - pos"
  shows "\<exists>h' v'. DoInsertValues pos n value v h = Inr (v', h') \<and> becomes h v h' v' (inserted pos (replicate n x) xs)"
proof -
  let ?b = "mpBegin v" and ?e = "mpEnd v"
  note e = vector_length [OF assms(1)] and cell = vector_cell [OF assms(1)]
  let ?us = "replicate (?e - pos) x" and ?ws = "replicate (n - (?e - pos)) x"
  have len: "length ?us + length ?ws = n" using beyond by simp
  have us: "?us @ ?ws = replicate n x" using beyond by (simp flip: replicate_add)
  have c: "pos \<le> ?e" "length ?us = ?e - pos" "?e + length ?us + length ?ws \<le> mpCapacity v"
    using beyond assms(5) e by auto
  obtain m2 where
    two: "uninitializedMove_ptr (?e - pos) (?b, pos) (?b, pos + n) (set_cells (put_range ?b ?e (map Live ?ws) (cells h)) h) = Inr (set_cells m2 h)"
      "objects m2 ?b pos (?e - pos)" "\<And>c i. c \<noteq> ?b \<Longrightarrow> m2 (c, i) = cells h (c, i)"
      "\<And>i. put_range ?b pos (map Live ?us) m2 (?b, i) = vec_cell (inserted pos (replicate n x) xs) (mpCapacity v) i"
    using room_beyond [OF assms(1) c] unfolding len us by blast
  have "range_is (cells h) ?b ?e (replicate (n - (?e - pos)) Raw)"
    using beyond e by (auto simp: range_is_def cell vec_cell_def)
  then have one: "uninitializedFillNPtr (n - (?e - pos)) (?b, ?e) (Temp x) h = Inr (set_cells (put_range ?b ?e (map Live ?ws) (cells h)) h)"
    using uninitializedFill_ok [of "Temp x" h x] by simp
  have "becomes h v (set_cells (put_range ?b pos (map Live ?us) m2) h) (v\<lparr>mpEnd := ?e + length (replicate n x)\<rparr>) (inserted pos (replicate n x) xs)"
    using beyond e two(3) by (intro inserted_in_place [OF assms(1,2,5)] two(4)) (auto simp: put_range_def)
  moreover have "fillN (?e - pos) (?b, pos) (Temp x) (set_cells m2 h) = Inr (set_cells (put_range ?b pos (map Live ?us) m2) h)"
    using fillN_ok [of "Temp x" "set_cells m2 h" x ?b pos "?e - pos"] two(2) by simp
  ultimately show ?thesis using beyond one two(1) by (simp add: DoInsertValues_def assms(4))
qed

lemma DoInsertValues_ok_grow:
  assumes "vector_in h v xs" "heap_ok h" "length xs + n < 2 ^ 63" "read_arg value h = Inr x" "pos \<le> length xs"
    and "outside v value \<or> length xs + n \<le> mpCapacity v"
    and grow: "\<not> n \<le> mpCapacity v - mpEnd v"
  shows "\<exists>h' v'. DoInsertValues pos n value v h = Inr (v', h') \<and> becomes h v h' v' (inserted pos (replicate n x) xs)"
proof -
  let ?b = "mpBegin v" and ?e = "mpEnd v"
  note e = vector_length [OF assms(1)] and cell = vector_cell [OF assms(1)]
  have out: "outside v value" using grow assms(6) e by auto
  let ?n = "new_size v n"
  obtain p h1 where p: "DoAllocate ?n h = (p, h1)" by force
  have n: "length xs + length (replicate n x) \<le> ?n" "0 < ?n" "length xs \<le> ?n"
    using assms(3) e grow by (auto simp: new_size_def Let_def)
  note g = grown [OF assms(1,2) p n(2)]
  let ?m1 = "put_range p 0 (map Live (take pos xs)) (put_range ?b 0 (replicate pos Moved) (cells h1))"
  let ?m2 = "put_range p pos (map Live (replicate n x)) ?m1"
  have one: "uninitializedMove_ptr pos (?b, 0) (p, 0) h1 = Inr (set_cells ?m1 h1)"
    using move_front [OF assms(1,2) p assms(5) n(3,2), of "cells h1"] n(1) assms(5) by (simp add: g(3) vec_cell_def)
  have f: "read_arg value (set_cells ?m1 h1) = Inr x"
    using fetch_outside [OF assms(4,2) p] not_in_new [OF assms(2) p assms(4)] out
    by (intro fetch_agree) (auto simp: outside_def put_range_def)
  have "range_is (cells (set_cells ?m1 h1)) p pos (replicate n Raw)"
    using n(1) g(1,5) assms(5) by (auto simp: range_is_def put_range_def g(3) vec_cell_def)
  from uninitializedFill_ok [OF f this] have two: "uninitializedFillNPtr n (p, pos) value (set_cells ?m1 h1) = Inr (set_cells ?m2 h1)"
    by simp
  have three: "uninitializedMove_ptr (?e - pos) (?b, pos) (p, pos + n) (set_cells ?m2 h1) =
      Inr (set_cells (put_range p (pos + n) (map Live (drop pos xs)) (put_range ?b pos (replicate (?e - pos) Moved) ?m2)) h1)"
    using n(1) assms(5) g(1) by (intro move_rest [OF assms(1,2) p assms(5) n(2)]) (auto simp: put_range_def g(3) vec_cell_def)
  from split_moves [OF assms(1,2) p assms(5) n(1,2)] one two three show ?thesis
    using grow by (simp add: DoInsertValues_def p)
qed

lemma DoInsertValues_ok:
  assumes "vector_in h v xs" "heap_ok h" "length xs + n < 2 ^ 63" "read_arg value h = Inr x" "pos \<le> length xs"
    and "outside v value \<or> length xs + n \<le> mpCapacity v"
  shows "\<exists>h' v'. DoInsertValues pos n value v h = Inr (v', h') \<and> becomes h v h' v' (inserted pos (replicate n x) xs)"
  using DoInsertValues_ok_none [OF assms] DoInsertValues_ok_within [OF assms] DoInsertValues_ok_beyond [OF assms]
    DoInsertValues_ok_grow [OF assms] by blast

text \<open>The objects \<open>zs\<close> from an address on.\<close>

definition source_is :: "'a heap \<Rightarrow> addr \<Rightarrow> 'a list \<Rightarrow> bool" where
  "source_is h a zs \<longleftrightarrow> range_is (cells h) (fst a) (snd a) (map Live zs)"

lemma source_vector: "vector_in h x zs \<Longrightarrow> source_is h (mpBegin x, 0) zs"
  by (auto simp: source_is_def range_is_def vector_in_def vec_cell_def)

lemma source_agree:
  "source_is h a zs \<Longrightarrow> (\<And>i. m (fst a, i) = cells h (fst a, i)) \<Longrightarrow> source_is (set_cells m h') a zs"
  by (simp add: source_is_def range_is_def)

lemma source_split:
  "source_is h a (us @ ws) \<longleftrightarrow> source_is h a us \<and> source_is h (plus_addr a (length us)) ws"
  by (auto simp: source_is_def plus_addr_def range_is_def nth_append add.assoc)
    (metis add_diff_inverse_nat add_less_cancel_left)+

lemma source_not_new:
  assumes "heap_ok h" "DoAllocate n h = (p, h1)" "source_is h a zs" "zs \<noteq> []"
  shows "fst a \<noteq> p"
proof
  assume "fst a = p"
  with allocated(2) [OF assms(2,1)] assms(1) have "cells h (fst a, snd a) = Unowned" by (auto simp: heap_ok_def)
  with assms(3,4) show False by (cases zs) (auto simp: source_is_def range_is_Cons)
qed

lemma source_allocated:
  assumes "heap_ok h" "DoAllocate n h = (p, h1)" "source_is h a zs" "zs \<noteq> []"
  shows "source_is h1 a zs"
  using allocated(7) [OF assms(2,1)] source_not_new [OF assms] assms(3) by (simp add: source_is_def range_is_def)

lemma copy_source:
  assumes "source_is h a zs" "range_is (cells h) c j (replicate (length zs) Raw)"
  shows "uninitializedCopyPtr (length zs) a (c, j) h = Inr (set_cells (put_range c j (map Live zs) (cells h)) h)"
  using uninitializedCopy_ok [of h "fst a" "snd a" zs c j] assms by (simp add: source_is_def)

lemma DoInsertFromIterator_ok_none:
  assumes "vector_in h v xs" "heap_ok h" "length xs + length zs < 2 ^ 63" "source_is h a zs" "fst a \<noteq> mpBegin v" "pos \<le> length xs"
    and none: "zs = []"
  shows "\<exists>h' v'. DoInsertFromIterator pos a (length zs) v h = Inr (v', h') \<and> becomes h v h' v' (inserted pos zs xs)"
proof -
  let ?b = "mpBegin v" and ?e = "mpEnd v" and ?n = "length zs"
  note e = vector_length [OF assms(1)] and cell = vector_cell [OF assms(1)]
  have "becomes h v (set_cells (cells h) h) (v\<lparr>mpEnd := ?e + length zs\<rparr>) (inserted pos zs xs)"
    using none assms(6) e by (intro inserted_in_place [OF assms(1,2,6)]) (auto simp: cell)
  then show ?thesis using none by (simp add: DoInsertFromIterator_def)
qed

lemma DoInsertFromIterator_ok_within:
  assumes "vector_in h v xs" "heap_ok h" "length xs + length zs < 2 ^ 63" "source_is h a zs" "fst a \<noteq> mpBegin v" "pos \<le> length xs"
    and within: "0 < length zs" "length zs \<le> mpCapacity v - mpEnd v" "length zs < mpEnd v - pos"
  shows "\<exists>h' v'. DoInsertFromIterator pos a (length zs) v h = Inr (v', h') \<and> becomes h v h' v' (inserted pos zs xs)"
proof -
  let ?b = "mpBegin v" and ?e = "mpEnd v" and ?n = "length zs"
  note e = vector_length [OF assms(1)] and cell = vector_cell [OF assms(1)]
  have "pos + ?n < ?e" "?e + ?n \<le> mpCapacity v" using within e by auto
  from room_within [OF assms(1) this within(1)] obtain m1 m2 where
    one: "uninitializedMove_ptr ?n (?b, ?e - ?n) (?b, ?e) h = Inr (set_cells m1 h)"
      "move_backward (?e - ?n - pos) (?b, pos) (?b, pos + ?n) (set_cells m1 h) = Inr (set_cells m2 h)" and
    two: "objects m2 ?b pos ?n" "\<And>c i. c \<noteq> ?b \<Longrightarrow> m2 (c, i) = cells h (c, i)"
      "\<And>zs' i. length zs' = ?n \<Longrightarrow> put_range ?b pos (map Live zs') m2 (?b, i) = vec_cell (inserted pos zs' xs) (mpCapacity v) i"
    by blast
  have "becomes h v (set_cells (put_range ?b pos (map Live zs) m2) h) (v\<lparr>mpEnd := ?e + ?n\<rparr>) (inserted pos zs xs)"
    using within e two(2) by (intro inserted_in_place [OF assms(1,2,6)] two(3)) (auto simp: put_range_def)
  moreover have "source_is (set_cells m2 h) a zs" using source_agree [OF assms(4)] two(2) assms(5) by blast
  then have "copy_range ?n a (?b, pos) (set_cells m2 h) = Inr (set_cells (put_range ?b pos (map Live zs) m2) h)"
    using copy_range_ok [of "set_cells m2 h" "fst a" "snd a" zs ?b pos] two(1) assms(5) by (simp add: source_is_def)
  ultimately show ?thesis using within one by (auto simp: DoInsertFromIterator_def)
qed

lemma DoInsertFromIterator_ok_beyond:
  assumes "vector_in h v xs" "heap_ok h" "length xs + length zs < 2 ^ 63" "source_is h a zs" "fst a \<noteq> mpBegin v" "pos \<le> length xs"
    and beyond: "0 < length zs" "length zs \<le> mpCapacity v - mpEnd v" "\<not> length zs < mpEnd v - pos"
  shows "\<exists>h' v'. DoInsertFromIterator pos a (length zs) v h = Inr (v', h') \<and> becomes h v h' v' (inserted pos zs xs)"
proof -
  let ?b = "mpBegin v" and ?e = "mpEnd v" and ?n = "length zs"
  note e = vector_length [OF assms(1)] and cell = vector_cell [OF assms(1)]
  let ?us = "take (?e - pos) zs" and ?ws = "drop (?e - pos) zs"
  have len: "length ?us = ?e - pos" "length ?us + length ?ws = ?n" "length ?ws = ?n - (?e - pos)" using beyond by simp_all
  have s: "source_is h a ?us" "source_is h (plus_addr a (?e - pos)) ?ws"
    using assms(4) source_split [of h a ?us ?ws] len(1) by simp_all
  have c: "pos \<le> ?e" "length ?us = ?e - pos" "?e + length ?us + length ?ws \<le> mpCapacity v"
    using beyond assms(6) e len by auto
  obtain m2 where
    two: "uninitializedMove_ptr (?e - pos) (?b, pos) (?b, pos + ?n) (set_cells (put_range ?b ?e (map Live ?ws) (cells h)) h) = Inr (set_cells m2 h)"
      "objects m2 ?b pos (?e - pos)" "\<And>c i. c \<noteq> ?b \<Longrightarrow> m2 (c, i) = cells h (c, i)"
      "\<And>i. put_range ?b pos (map Live ?us) m2 (?b, i) = vec_cell (inserted pos zs xs) (mpCapacity v) i"
    using room_beyond [OF assms(1) c] unfolding len(2) append_take_drop_id by blast
  have "range_is (cells h) ?b ?e (replicate (length ?ws) Raw)"
    using beyond e by (auto simp: range_is_def cell vec_cell_def)
  from copy_source [OF s(2) this]
  have one: "uninitializedCopyPtr (?n - (?e - pos)) (plus_addr a (?e - pos)) (?b, ?e) h = Inr (set_cells (put_range ?b ?e (map Live ?ws) (cells h)) h)"
    unfolding len(3) .
  have "becomes h v (set_cells (put_range ?b pos (map Live ?us) m2) h) (v\<lparr>mpEnd := ?e + ?n\<rparr>) (inserted pos zs xs)"
    using beyond e two(3) by (intro inserted_in_place [OF assms(1,2,6)] two(4)) (auto simp: put_range_def)
  moreover have "source_is (set_cells m2 h) a ?us" using source_agree [OF s(1)] two(3) assms(5) by blast
  then have "copyBackward (length ?us) a (?b, pos) (set_cells m2 h) = Inr (set_cells (put_range ?b pos (map Live ?us) m2) h)"
    using copyBackward_ok [of "set_cells m2 h" "fst a" "snd a" ?us ?b pos] two(2) assms(5) len(1) by (simp add: source_is_def)
  ultimately show ?thesis using beyond one two(1) unfolding len(1) by (auto simp: DoInsertFromIterator_def)
qed

lemma DoInsertFromIterator_ok_grow:
  assumes "vector_in h v xs" "heap_ok h" "length xs + length zs < 2 ^ 63" "source_is h a zs" "fst a \<noteq> mpBegin v" "pos \<le> length xs"
    and grow: "\<not> length zs \<le> mpCapacity v - mpEnd v"
  shows "\<exists>h' v'. DoInsertFromIterator pos a (length zs) v h = Inr (v', h') \<and> becomes h v h' v' (inserted pos zs xs)"
proof -
  let ?b = "mpBegin v" and ?e = "mpEnd v" and ?n = "length zs"
  note e = vector_length [OF assms(1)] and cell = vector_cell [OF assms(1)]
  have zs: "zs \<noteq> []" using grow by auto
  let ?m = "new_size v ?n"
  obtain p h1 where p: "DoAllocate ?m h = (p, h1)" by force
  have n: "length xs + ?n \<le> ?m" "0 < ?m" "length xs \<le> ?m"
    using assms(3) e grow by (auto simp: new_size_def Let_def)
  note g = grown [OF assms(1,2) p n(2)]
  let ?m1 = "put_range p 0 (map Live (take pos xs)) (put_range ?b 0 (replicate pos Moved) (cells h1))"
  let ?m2 = "put_range p pos (map Live zs) ?m1"
  have one: "uninitializedMove_ptr pos (?b, 0) (p, 0) h1 = Inr (set_cells ?m1 h1)"
    using move_front [OF assms(1,2) p assms(6) n(3,2), of "cells h1"] n(1) assms(6) by (simp add: g(3) vec_cell_def)
  have s: "source_is (set_cells ?m1 h1) a zs"
    using source_not_new [OF assms(2) p assms(4) zs] assms(5)
    by (intro source_agree [OF source_allocated [OF assms(2) p assms(4) zs]]) (simp add: put_range_def)
  have "range_is (cells (set_cells ?m1 h1)) p pos (replicate ?n Raw)"
    using n(1) g(1,5) assms(6) by (auto simp: range_is_def put_range_def g(3) vec_cell_def)
  from copy_source [OF s this] have two: "uninitializedCopyPtr ?n a (p, pos) (set_cells ?m1 h1) = Inr (set_cells ?m2 h1)"
    by simp
  have three: "uninitializedMove_ptr (?e - pos) (?b, pos) (p, pos + ?n) (set_cells ?m2 h1) =
      Inr (set_cells (put_range p (pos + ?n) (map Live (drop pos xs)) (put_range ?b pos (replicate (?e - pos) Moved) ?m2)) h1)"
    using n(1) assms(6) g(1) by (intro move_rest [OF assms(1,2) p assms(6) n(2)]) (auto simp: put_range_def g(3) vec_cell_def)
  from split_moves [OF assms(1,2) p assms(6) n(1,2)] one two three zs show ?thesis
    using grow by (simp add: DoInsertFromIterator_def p)
qed

lemma DoInsertFromIterator_ok:
  assumes "vector_in h v xs" "heap_ok h" "length xs + length zs < 2 ^ 63" "source_is h a zs" "fst a \<noteq> mpBegin v" "pos \<le> length xs"
  shows "\<exists>h' v'. DoInsertFromIterator pos a (length zs) v h = Inr (v', h') \<and> becomes h v h' v' (inserted pos zs xs)"
  using DoInsertFromIterator_ok_none [OF assms] DoInsertFromIterator_ok_within [OF assms] DoInsertFromIterator_ok_beyond [OF assms]
    DoInsertFromIterator_ok_grow [OF assms] by blast

section \<open>Removing\<close>

lemma truncate_vec_ok:
  assumes "vector_in h v xs" "heap_ok h" "n \<le> length xs"
  shows "\<exists>h'. truncate_vec n v h = Inr (v\<lparr>mpEnd := n\<rparr>, h') \<and> becomes h v h' (v\<lparr>mpEnd := n\<rparr>) (take n xs)"
proof -
  let ?m = "put_range (mpBegin v) n (replicate (mpEnd v - n) Raw) (cells h)"
  note e = vector_length [OF assms(1)] and cell = vector_cell [OF assms(1)]
  have "objects (cells h) (mpBegin v) n (mpEnd v - n)" using e by (auto simp: objects_def cell vec_cell_def)
  note d = destruct_ok [OF this]
  have "becomes h v (set_cells ?m h) (v\<lparr>mpEnd := length (take n xs)\<rparr>) (take n xs)"
    using assms(3) e by (intro becomes_in_place [OF assms(1,2)]) (auto simp: cell vec_cell_def put_range_def)
  then show ?thesis using d assms(3) by (auto simp: truncate_vec_def min_absorb2)
qed

lemma vec_clear_ok:
  assumes "vector_in h v xs" "heap_ok h"
  shows "\<exists>h'. vec_clear v h = Inr (v\<lparr>mpEnd := 0\<rparr>, h') \<and> becomes h v h' (v\<lparr>mpEnd := 0\<rparr>) []"
  using truncate_vec_ok [OF assms, of 0] by (simp add: truncate_vec_def vec_clear_def)

lemma popBack_ok:
  assumes "vector_in h v xs" "heap_ok h" "xs \<noteq> []"
  shows "\<exists>h' v'. popBack v h = Inr (v', h') \<and> becomes h v h' v' (butlast xs)"
proof -
  note e = vector_length [OF assms(1)]
  have n: "mpEnd v \<noteq> 0" using e assms(3) by (metis length_0_conv)
  have "popBack v h = truncate_vec (mpEnd v - 1) v h"
    using n by (cases "mpEnd v") (simp_all add: popBack_def truncate_vec_def and_then_assoc)
  with truncate_vec_ok [OF assms(1,2), of "mpEnd v - 1"] e show ?thesis by (auto simp: butlast_conv_take)
qed

lemma vec_erase_range_ok:
  assumes "vector_in h v xs" "heap_ok h" "first \<le> until" "until \<le> length xs"
  shows "\<exists>h' v'. vec_erase_range first until v h = Inr (v', h') \<and> becomes h v h' v' (take first xs @ drop until xs)"
proof (cases "first = until")
  case True
  have "becomes h v (set_cells (cells h) h) (v\<lparr>mpEnd := length xs\<rparr>) xs"
    using vector_length [OF assms(1)] by (intro becomes_in_place [OF assms(1,2)]) (auto simp: vector_cell [OF assms(1)])
  with True show ?thesis by (simp add: vec_erase_range_def vector_length [OF assms(1)])
next
  case False
  then have lt: "first < until" using assms(3) by simp
  let ?b = "mpBegin v" and ?e = "mpEnd v" and ?ys = "drop until xs"
  note e = vector_length [OF assms(1)] and cell = vector_cell [OF assms(1)]
  have l: "length ?ys = ?e - until" using e by simp
  let ?m1 = "put_range ?b first (map Live ?ys) (put_range ?b until (replicate (?e - until) Moved) (cells h))"
  let ?m2 = "put_range ?b (first + (?e - until)) (replicate (until - first) Raw) ?m1"
  have "range_is (cells h) ?b until (map Live ?ys)" "objects (cells h) ?b first (length ?ys)"
    using assms(3,4) e by (auto simp: range_is_def objects_def cell vec_cell_def)
  from move_range_ok [OF this lt] have one: "move_range (?e - until) (?b, until) (?b, first) h = Inr (set_cells ?m1 h)"
    unfolding l .
  have "objects (cells (set_cells ?m1 h)) ?b (first + (?e - until)) (until - first)"
    using assms(3,4) e by (auto simp: objects_def put_range_def cell vec_cell_def)
  from destruct_ok [OF this] have two: "destruct (until - first) (?b, first + (?e - until)) (set_cells ?m1 h) = Inr (set_cells ?m2 h)"
    by simp
  have len: "length (take first xs @ drop until xs) = ?e - (until - first)" using lt assms(4) e by simp
  have "becomes h v (set_cells ?m2 h) (v\<lparr>mpEnd := length (take first xs @ drop until xs)\<rparr>) (take first xs @ drop until xs)"
    using lt assms(4) e by (intro becomes_in_place [OF assms(1,2)]) (auto simp: cell vec_cell_def put_range_def nth_append)
  then show ?thesis unfolding len using False one two by (simp add: vec_erase_range_def)
qed

lemma vec_erase_ok:
  assumes "vector_in h v xs" "heap_ok h" "pos < length xs"
  shows "\<exists>h' v'. vec_erase pos v h = Inr (v', h') \<and> becomes h v h' v' (take pos xs @ drop (Suc pos) xs)"
proof -
  note e = vector_length [OF assms(1)]
  have "vec_erase pos v h = vec_erase_range pos (Suc pos) v h"
  proof (cases "pos + 1 < mpEnd v")
    case True
    then have "mpEnd v \<noteq> 0" "pos + (mpEnd v - Suc pos) = mpEnd v - 1" by auto
    moreover from this have "popBack v = (\<lambda>h :: 'a heap. and_then (destroy (mpBegin v, mpEnd v - 1) h) (\<lambda>h. Inr (v\<lparr>mpEnd := mpEnd v - 1\<rparr>, h)))"
      by (intro ext) (simp add: popBack_def)
    ultimately show ?thesis using True by (simp add: vec_erase_def vec_erase_range_def and_then_assoc)
  next
    case False
    with assms(3) e have "mpEnd v = Suc pos" by simp
    then show ?thesis by (simp add: vec_erase_def vec_erase_range_def popBack_def and_then_assoc)
  qed
  with vec_erase_range_ok [OF assms(1,2), of pos "Suc pos"] assms(3) show ?thesis by simp
qed

lemma vec_erase_unsorted_ok:
  assumes "vector_in h v xs" "heap_ok h" "pos < length xs"
  shows "\<exists>h' v'. vec_erase_unsorted pos v h = Inr (v', h') \<and> becomes h v h' v' (butlast (xs[pos := last xs]))"
proof -
  let ?b = "mpBegin v" and ?e = "mpEnd v"
  note e = vector_length [OF assms(1)] and cell = vector_cell [OF assms(1)]
  have n: "?e \<noteq> 0" "xs \<noteq> []" using assms(3) e by auto
  have last: "cells h (?b, ?e - 1) = Live (last xs)" using n e by (simp add: cell vec_cell_def last_conv_nth)
  let ?m1 = "if pos = ?e - 1 then (cells h)((?b, ?e - 1) := Moved) else (cells h)((?b, ?e - 1) := Moved, (?b, pos) := Live (last xs))"
  let ?m2 = "?m1((?b, ?e - 1) := Raw)"
  have o: "object (cells h (?b, pos))" using assms(3) by (simp add: cell vec_cell_def)
  have one: "move_assign (?b, ?e - 1) (?b, pos) h = Inr (set_cells ?m1 h)"
    using move_from_ok [OF last] move_assign_ok [OF last o] by (auto simp: move_assign_def put_cell_def)
  have "object (cells (set_cells ?m1 h) (?b, ?e - 1))" by auto
  from destroy_ok [OF this] have two: "destroy (?b, ?e - 1) (set_cells ?m1 h) = Inr (set_cells ?m2 h)"
    by (simp add: put_cell_def)
  have len: "length (butlast (xs[pos := last xs])) = ?e - 1" using e by simp
  have "becomes h v (set_cells ?m2 h) (v\<lparr>mpEnd := length (butlast (xs[pos := last xs]))\<rparr>) (butlast (xs[pos := last xs]))"
    using e assms(3) by (intro becomes_in_place [OF assms(1,2)]) (auto simp: cell vec_cell_def nth_butlast nth_list_update)
  then show ?thesis unfolding len using n one two by (auto simp: vec_erase_unsorted_def popBack_def simp del: fun_upd_apply)
qed

lemma vec_resize_ok:
  assumes "vector_in h v xs" "heap_ok h" "length xs < 2 ^ 63" "n < 2 ^ 63" "read_arg value h = Inr x"
    and "outside v value \<or> n \<le> mpCapacity v"
  shows "\<exists>h' v'. vec_resize n value v h = Inr (v', h') \<and> becomes h v h' v' (take n xs @ replicate (n - length xs) x)"
proof (cases "mpEnd v < n")
  case True
  then have "DoInsertValuesEnd (n - mpEnd v) value v h = vec_resize n value v h" by (simp add: vec_resize_def)
  with DoInsertValuesEnd_ok [OF assms(1,2) _ assms(5), of "n - mpEnd v"] assms(3,4,6) True vector_length [OF assms(1)]
  show ?thesis by auto
next
  case False
  with truncate_vec_ok [OF assms(1,2), of n] vector_length [OF assms(1)] show ?thesis by (auto simp: vec_resize_def)
qed

section \<open>New vectors and changes of capacity\<close>

lemma empty_vec_in: "heap_ok h \<Longrightarrow> vector_in h empty_vec []"
  by (auto simp: vector_in_def empty_vec_def heap_ok_def vec_cell_def)

lemma adopt_empty: "adopt empty_vec new h = Inr (new, h)"
  by (simp add: adopt_def empty_vec_def DoFree_def)

lemma new_vector:
  assumes "heap_ok h" "DoAllocate n h = (p, h1)" "length ys \<le> n" "\<And>i. m (p, i) = vec_cell ys n i"
    and "\<And>b i. b \<noteq> p \<Longrightarrow> m (b, i) = cells h (b, i)"
  shows "becomes h empty_vec (set_cells m h1) \<lparr>mpBegin = p, mpEnd = length ys, mpCapacity = n\<rparr> ys"
proof -
  let ?v = "\<lparr>mpBegin = p, mpEnd = length ys, mpCapacity = n\<rparr>"
  have "\<exists>h'. adopt empty_vec ?v (set_cells m h1) = Inr (?v, h') \<and> becomes h empty_vec h' ?v ys \<and> next_block h' = next_block h1"
    using assms(5) by (intro adopt_becomes [OF empty_vec_in [OF assms(1)] assms(1-4)]) (auto simp: empty_vec_def)
  then show ?thesis by (simp add: adopt_empty)
qed

lemma vec_fill_new:
  assumes "heap_ok h" "read_arg value h = Inr x" "DoAllocate n h = (p, h1)"
  shows "uninitializedFillNPtr n (p, 0) value h1 = Inr (set_cells (put_range p 0 (replicate n (Live x)) (cells h1)) h1)"
  using allocated(6) [OF assms(3,1)]
  by (intro uninitializedFill_ok fetch_outside [OF assms(2,1,3)]) (simp add: range_is_def)

lemma vec_fill_ok:
  assumes "heap_ok h" "read_arg value h = Inr x"
  shows "\<exists>h' v'. vec_fill n value h = Inr (v', h') \<and> becomes h empty_vec h' v' (replicate n x)"
proof -
  obtain p h1 where p: "DoAllocate n h = (p, h1)" by force
  have "becomes h empty_vec (set_cells (put_range p 0 (replicate n (Live x)) (cells h1)) h1)
      \<lparr>mpBegin = p, mpEnd = length (replicate n x), mpCapacity = n\<rparr> (replicate n x)"
    using allocated(6,7) [OF p assms(1)] by (intro new_vector [OF assms(1) p]) (auto simp: put_range_def vec_cell_def)
  then show ?thesis using vec_fill_new [OF assms p] by (simp add: vec_fill_def p)
qed

text \<open>Copying into a new block.\<close>

lemma copy_to_new:
  assumes "heap_ok h" "source_is h a zs" "DoAllocate n h = (p, h1)" "length zs \<le> n"
  shows "uninitializedCopyPtr (length zs) a (p, 0) h1 = Inr (set_cells (put_range p 0 (map Live zs) (cells h1)) h1)"
proof (cases "zs = []")
  case False
  have "range_is (cells h1) p 0 (replicate (length zs) Raw)"
    using allocated(6) [OF assms(3,1)] assms(4) by (simp add: range_is_def)
  from copy_source [OF source_allocated [OF assms(1,3,2) False] this] show ?thesis .
qed simp

lemma vec_copy_ok:
  assumes "heap_ok h" "vector_in h x zs"
  shows "\<exists>h' v'. vec_copy x h = Inr (v', h') \<and> becomes h empty_vec h' v' zs"
proof -
  obtain p h1 where p: "DoAllocate (length zs) h = (p, h1)" by force
  have "becomes h empty_vec (set_cells (put_range p 0 (map Live zs) (cells h1)) h1)
      \<lparr>mpBegin = p, mpEnd = length zs, mpCapacity = length zs\<rparr> zs"
    using allocated(6,7) [OF p assms(1)] by (intro new_vector [OF assms(1) p]) (auto simp: put_range_def vec_cell_def)
  then show ?thesis
    using copy_to_new [OF assms(1) source_vector [OF assms(2)] p] p
    by (simp add: vec_copy_def vector_length(1) [OF assms(2), symmetric])
qed

lemma vec_delete_ok:
  assumes "vector_in h v xs" "heap_ok h"
  shows "\<exists>h'. vec_delete v h = Inr h' \<and> becomes h v h' empty_vec []"
proof -
  have a: "DoAllocate 0 h = (0, h)" by (simp add: DoAllocate_def)
  let ?v = "\<lparr>mpBegin = 0, mpEnd = length ([] :: 'a list), mpCapacity = 0\<rparr>"
  have "\<exists>h'. adopt v ?v (set_cells (cells h) h) = Inr (?v, h') \<and> becomes h v h' ?v [] \<and> next_block h' = next_block h"
    using assms(2) vector_length [OF assms(1)]
    by (intro adopt_becomes [OF assms a]) (auto simp: vec_cell_def heap_ok_def vector_cell [OF assms(1)])
  then have "\<exists>h'. adopt v empty_vec h = Inr (empty_vec, h') \<and> becomes h v h' empty_vec []"
    by (auto simp: empty_vec_def)
  then show ?thesis
    by (auto simp: adopt_def vec_delete_def and_then_Inr_iff)
qed

text \<open>The objects move to a block of \<open>n\<close>, which may be none at all.\<close>

lemma move_to_block:
  assumes "vector_in h v xs" "heap_ok h" "length xs \<le> n"
  shows "\<exists>h'. (let (p, h) = DoAllocate n h in
      and_then (uninitializedMove_ptr (mpEnd v) (mpBegin v, 0) (p, 0) h) (adopt v \<lparr>mpBegin = p, mpEnd = mpEnd v, mpCapacity = n\<rparr>))
    = Inr (fst h', snd h') \<and> becomes h v (snd h') (fst h') xs \<and> mpCapacity (fst h') = n"
proof (cases "n = 0")
  case True
  then have xs: "xs = []" "mpEnd v = 0" using assms(3) vector_length [OF assms(1)] by auto
  have a: "DoAllocate 0 h = (0, h)" by (simp add: DoAllocate_def)
  have "\<exists>h'. adopt v \<lparr>mpBegin = 0, mpEnd = length xs, mpCapacity = 0\<rparr> (set_cells (cells h) h) = Inr (\<lparr>mpBegin = 0, mpEnd = length xs, mpCapacity = 0\<rparr>, h')
      \<and> becomes h v h' \<lparr>mpBegin = 0, mpEnd = length xs, mpCapacity = 0\<rparr> xs \<and> next_block h' = next_block h"
    using xs assms(2) by (intro adopt_becomes [OF assms(1,2) a]) (auto simp: vec_cell_def heap_ok_def)
  then show ?thesis using True xs by (auto simp: a)
next
  case False
  with DoGrow_ok [OF assms(1-3)] show ?thesis by (auto simp: DoGrow_def)
qed

lemma shrink_to_fit_ok:
  assumes "vector_in h v xs" "heap_ok h"
  shows "\<exists>h' v'. shrink_to_fit v h = Inr (v', h') \<and> becomes h v h' v' xs \<and> mpCapacity v' = length xs"
  using move_to_block [OF assms, of "mpEnd v"] vector_length [OF assms(1)] by (auto simp: shrink_to_fit_def)

lemma vec_reserve_ok:
  assumes "vector_in h v xs" "heap_ok h"
  shows "\<exists>h' v'. vec_reserve n v h = Inr (v', h') \<and> becomes h v h' v' xs \<and> n \<le> mpCapacity v'"
proof (cases "mpCapacity v < n")
  case True
  with DoGrow_ok [OF assms, of n] vector_length [OF assms(1)] show ?thesis by (auto simp: vec_reserve_def)
next
  case False
  have "becomes h v (set_cells (cells h) h) (v\<lparr>mpEnd := length xs\<rparr>) xs"
    using vector_length [OF assms(1)] by (intro becomes_in_place [OF assms]) (auto simp: vector_cell [OF assms(1)])
  with False show ?thesis by (simp add: vec_reserve_def vector_length [OF assms(1)])
qed

lemma setCapacity_ok:
  assumes "vector_in h v xs" "heap_ok h" "length xs < 2 ^ 63"
  shows "\<exists>h' v'. setCapacity d (Some n) v h = Inr (v', h') \<and> becomes h v h' v' (take n xs) \<and> mpCapacity v' = n"
proof (cases "n \<le> mpEnd v")
  case True
  note e = vector_length [OF assms(1)]
  have "(if n = 0 then vec_clear v h else if n < mpEnd v then vec_resize n (Temp d) v h else Inr (v, h)) = truncate_vec n v h"
    using True by (auto simp: vec_clear_def truncate_vec_def vec_resize_def)
  moreover from truncate_vec_ok [OF assms(1,2), of n] True e obtain h1 where
    one: "truncate_vec n v h = Inr (v\<lparr>mpEnd := n\<rparr>, h1)" "becomes h v h1 (v\<lparr>mpEnd := n\<rparr>) (take n xs)" by auto
  moreover from one(2) shrink_to_fit_ok [of h1 "v\<lparr>mpEnd := n\<rparr>" "take n xs"] obtain h2 v2 where
    two: "shrink_to_fit (v\<lparr>mpEnd := n\<rparr>) h1 = Inr (v2, h2)" "becomes h1 (v\<lparr>mpEnd := n\<rparr>) h2 v2 (take n xs)" "mpCapacity v2 = length (take n xs)"
    by (auto simp: becomes_def)
  ultimately show ?thesis
    using True e becomes_trans [OF assms(2) one(2) two(2)] by (auto simp: setCapacity_def)
next
  case False
  with move_to_block [OF assms(1,2), of n] vector_length [OF assms(1)] show ?thesis by (auto simp: setCapacity_def)
qed

text \<open>The new slot is raw; with an object constructed in it the vector is longer by that object.\<close>

lemma pushBackUninitialized_ok:
  assumes "vector_in h v xs" "heap_ok h" "length xs < 2 ^ 63"
  shows "\<exists>a v' h' h''. pushBackUninitialized v h = Inr (a, v', h') \<and> construct a x h' = Inr h'' \<and> becomes h v h'' v' (xs @ [x])"
proof -
  note e = vector_length [OF assms(1)]
  obtain h1 v1 where one: "(if mpEnd v = mpCapacity v then vec_reserve (wrap64 (mpEnd v + 1)) v h else Inr (v, h)) = Inr (v1, h1)"
    "becomes h v h1 v1 xs" "mpEnd v < mpCapacity v1"
  proof (cases "mpEnd v = mpCapacity v")
    case True
    with vec_reserve_ok [OF assms(1,2), of "mpEnd v + 1"] assms(3) e that show ?thesis by auto
  next
    case False
    with e have "mpEnd v < mpCapacity v" by simp
    moreover have "becomes h v (set_cells (cells h) h) (v\<lparr>mpEnd := length xs\<rparr>) xs"
      using e by (intro becomes_in_place [OF assms(1,2)]) (auto simp: vector_cell [OF assms(1)])
    ultimately show ?thesis using that [of v h] False e by simp
  qed
  then have v1: "vector_in h1 v1 xs" "heap_ok h1" by (auto simp: becomes_def)
  note e1 = vector_length [OF v1(1)]
  have raw: "cells h1 (mpBegin v1, mpEnd v1) = Raw" using one(3) e e1 by (simp add: vector_cell [OF v1(1)] vec_cell_def)
  have "becomes h1 v1 (set_cells ((cells h1)((mpBegin v1, mpEnd v1) := Live x)) h1) (v1\<lparr>mpEnd := length (xs @ [x])\<rparr>) (xs @ [x])"
    using one(3) e e1 by (intro becomes_in_place [OF v1]) (auto simp: vector_cell [OF v1(1)] vec_cell_def nth_append)
  from becomes_trans [OF assms(2) one(2) this] show ?thesis
    using e1 by (simp add: pushBackUninitialized_def one(1) construct_ok [OF raw] put_cell_def)
qed

section \<open>Assigning\<close>

lemma fetch_filled:
  "read_arg value h = Inr x \<Longrightarrow> (\<And>a. value = At a \<Longrightarrow> m a = cells h a \<or> m a = Live x) \<Longrightarrow> read_arg value (set_cells m h) = Inr x"
  by (cases "value") (auto simp: read_object_def)

text \<open>The value may be an object of the vector: it is read before anything else is written over it.\<close>

lemma DoAssignValues_ok_grow:
  assumes "vector_in h v xs" "heap_ok h" "read_arg value h = Inr x"
    and grow: "mpCapacity v < n"
  shows "\<exists>h' v'. DoAssignValues n value v h = Inr (v', h') \<and> becomes h v h' v' (replicate n x)"
proof -
  let ?b = "mpBegin v" and ?e = "mpEnd v"
  note e = vector_length [OF assms(1)] and cell = vector_cell [OF assms(1)]
  have obj: "k \<le> ?e \<Longrightarrow> objects (cells h) ?b 0 k" for k using e by (auto simp: objects_def cell vec_cell_def)
  obtain p h1 where p: "DoAllocate n h = (p, h1)" by force
  from grow have n: "0 < n" by simp
  note g = grown [OF assms(1,2) p n]
  let ?v = "\<lparr>mpBegin = p, mpEnd = n, mpCapacity = n\<rparr>" and ?m = "put_range p 0 (replicate n (Live x)) (cells h1)"
  have "\<exists>h'. adopt v \<lparr>mpBegin = p, mpEnd = length (replicate n x), mpCapacity = n\<rparr> (set_cells ?m h1)
      = Inr (\<lparr>mpBegin = p, mpEnd = length (replicate n x), mpCapacity = n\<rparr>, h')
    \<and> becomes h v h' \<lparr>mpBegin = p, mpEnd = length (replicate n x), mpCapacity = n\<rparr> (replicate n x) \<and> next_block h' = next_block h1"
    using g e by (intro adopt_becomes [OF assms(1,2) p]) (auto simp: put_range_def vec_cell_def cell)
  then show ?thesis using grow vec_fill_new [OF assms(2,3) p]
    by (auto simp: DoAssignValues_def vec_fill_def p vec_delete_def adopt_def and_then_assoc)
qed

lemma DoAssignValues_ok_more:
  assumes "vector_in h v xs" "heap_ok h" "read_arg value h = Inr x"
    and more: "\<not> mpCapacity v < n" "mpEnd v < n"
  shows "\<exists>h' v'. DoAssignValues n value v h = Inr (v', h') \<and> becomes h v h' v' (replicate n x)"
proof -
  let ?b = "mpBegin v" and ?e = "mpEnd v"
  note e = vector_length [OF assms(1)] and cell = vector_cell [OF assms(1)]
  have obj: "k \<le> ?e \<Longrightarrow> objects (cells h) ?b 0 k" for k using e by (auto simp: objects_def cell vec_cell_def)
  let ?m1 = "put_range ?b 0 (replicate ?e (Live x)) (cells h)"
  let ?m2 = "put_range ?b ?e (replicate (n - ?e) (Live x)) ?m1"
  have f: "read_arg value (set_cells ?m1 h) = Inr x" by (rule fetch_filled [OF assms(3)]) (auto simp: put_range_def)
  have "range_is (cells (set_cells ?m1 h)) ?b ?e (replicate (n - ?e) Raw)"
    using more e by (auto simp: range_is_def put_range_def cell vec_cell_def)
  note two = uninitializedFill_ok [OF f this]
  have "becomes h v (set_cells ?m2 h) (v\<lparr>mpEnd := length (replicate n x)\<rparr>) (replicate n x)"
    using more e by (intro becomes_in_place [OF assms(1,2)]) (auto simp: cell vec_cell_def put_range_def)
  then show ?thesis using more fillN_ok [OF assms(3) obj [of ?e]] two by (simp add: DoAssignValues_def)
qed

lemma DoAssignValues_ok_less:
  assumes "vector_in h v xs" "heap_ok h" "read_arg value h = Inr x"
    and less: "\<not> mpCapacity v < n" "n \<le> mpEnd v"
  shows "\<exists>h' v'. DoAssignValues n value v h = Inr (v', h') \<and> becomes h v h' v' (replicate n x)"
proof -
  let ?b = "mpBegin v" and ?e = "mpEnd v"
  note e = vector_length [OF assms(1)] and cell = vector_cell [OF assms(1)]
  have obj: "k \<le> ?e \<Longrightarrow> objects (cells h) ?b 0 k" for k using e by (auto simp: objects_def cell vec_cell_def)
  let ?m1 = "put_range ?b 0 (replicate n (Live x)) (cells h)"
  have "becomes h v (set_cells ?m1 h) (v\<lparr>mpEnd := length (replicate n x @ drop n xs)\<rparr>) (replicate n x @ drop n xs)"
    using less e by (intro becomes_in_place [OF assms(1,2)]) (auto simp: cell vec_cell_def put_range_def nth_append)
  then have one: "becomes h v (set_cells ?m1 h) v (replicate n x @ drop n xs)" using less e by simp
  then have "vector_in (set_cells ?m1 h) v (replicate n x @ drop n xs)" "heap_ok (set_cells ?m1 h)" by (auto simp: becomes_def)
  from vec_erase_range_ok [OF this, of n ?e] less e obtain h2 v2 where
    two: "vec_erase_range n ?e v (set_cells ?m1 h) = Inr (v2, h2)" "becomes (set_cells ?m1 h) v h2 v2 (replicate n x)" by auto
  from becomes_trans [OF assms(2) one two(2)] show ?thesis
    using less fillN_ok [OF assms(3) obj [of n]] two(1) by (simp add: DoAssignValues_def)
qed

lemma DoAssignValues_ok:
  assumes "vector_in h v xs" "heap_ok h" "read_arg value h = Inr x"
  shows "\<exists>h' v'. DoAssignValues n value v h = Inr (v', h') \<and> becomes h v h' v' (replicate n x)"
  using DoAssignValues_ok_grow [OF assms] DoAssignValues_ok_more [OF assms] DoAssignValues_ok_less [OF assms] by (meson not_less)

lemma copy_over:
  assumes "source_is h a zs" "objects (cells h) c j (length zs)" "fst a \<noteq> c"
  shows "copy_range (length zs) a (c, j) h = Inr (set_cells (put_range c j (map Live zs) (cells h)) h)"
  using copy_range_ok [of h "fst a" "snd a" zs c j] assms by (simp add: source_is_def)

lemma DoAssignFromIterator_ok_grow:
  assumes "vector_in h v xs" "heap_ok h" "source_is h a zs" "fst a \<noteq> mpBegin v \<or> zs = []"
    and grow: "mpCapacity v < length zs"
  shows "\<exists>h' v'. DoAssignFromIterator a (length zs) v h = Inr (v', h') \<and> becomes h v h' v' zs"
proof -
  let ?b = "mpBegin v" and ?e = "mpEnd v" and ?n = "length zs"
  note e = vector_length [OF assms(1)] and cell = vector_cell [OF assms(1)]
  have obj: "k \<le> ?e \<Longrightarrow> objects (cells h) ?b 0 k" for k using e by (auto simp: objects_def cell vec_cell_def)
  obtain p h1 where p: "DoAllocate ?n h = (p, h1)" by force
  have n: "0 < ?n" using grow by linarith
  note g = grown [OF assms(1,2) p n]
  let ?v = "\<lparr>mpBegin = p, mpEnd = ?n, mpCapacity = ?n\<rparr>" and ?m = "put_range p 0 (map Live zs) (cells h1)"
  have "\<exists>h'. adopt v ?v (set_cells ?m h1) = Inr (?v, h') \<and> becomes h v h' ?v zs \<and> next_block h' = next_block h1"
    using g e by (intro adopt_becomes [OF assms(1,2) p]) (auto simp: put_range_def vec_cell_def cell)
  then show ?thesis using grow copy_to_new [OF assms(2,3) p order_refl]
    by (auto simp: DoAssignFromIterator_def p)
qed

lemma DoAssignFromIterator_ok_more:
  assumes "vector_in h v xs" "heap_ok h" "source_is h a zs" "fst a \<noteq> mpBegin v \<or> zs = []"
    and more: "\<not> mpCapacity v < length zs" "mpEnd v < length zs"
  shows "\<exists>h' v'. DoAssignFromIterator a (length zs) v h = Inr (v', h') \<and> becomes h v h' v' zs"
proof -
  let ?b = "mpBegin v" and ?e = "mpEnd v" and ?n = "length zs"
  note e = vector_length [OF assms(1)] and cell = vector_cell [OF assms(1)]
  have obj: "k \<le> ?e \<Longrightarrow> objects (cells h) ?b 0 k" for k using e by (auto simp: objects_def cell vec_cell_def)
  have src: "fst a \<noteq> ?b" using more assms(4) by auto
  let ?us = "take ?e zs" and ?ws = "drop ?e zs"
  have l: "length ?us = ?e" "length ?ws = ?n - ?e" using more by auto
  have s: "source_is h a ?us" "source_is h (plus_addr a ?e) ?ws"
    using assms(3) source_split [of h a ?us ?ws] l(1) by simp_all
  let ?m1 = "put_range ?b 0 (map Live ?us) (cells h)"
  let ?m2 = "put_range ?b ?e (map Live ?ws) ?m1"
  have one: "copy_range ?e a (?b, 0) h = Inr (set_cells ?m1 h)"
    using copy_over [OF s(1) _ src] obj [of ?e] unfolding l by simp
  have "source_is (set_cells ?m1 h) (plus_addr a ?e) ?ws"
    using src by (intro source_agree [OF s(2)]) (simp add: put_range_def plus_addr_def)
  moreover have "range_is (cells (set_cells ?m1 h)) ?b ?e (replicate (length ?ws) Raw)"
    using more e by (auto simp: range_is_def put_range_def cell vec_cell_def)
  ultimately have two: "uninitializedCopyPtr (?n - ?e) (plus_addr a ?e) (?b, ?e) (set_cells ?m1 h) = Inr (set_cells ?m2 h)"
    using copy_source [of "set_cells ?m1 h" "plus_addr a ?e" ?ws ?b ?e] unfolding l by simp
  have "becomes h v (set_cells ?m2 h) (v\<lparr>mpEnd := length zs\<rparr>) zs"
    using more e by (intro becomes_in_place [OF assms(1,2)]) (auto simp: cell vec_cell_def put_range_def)
  then show ?thesis using more one two by (simp add: DoAssignFromIterator_def)
qed

lemma DoAssignFromIterator_ok_less:
  assumes "vector_in h v xs" "heap_ok h" "source_is h a zs" "fst a \<noteq> mpBegin v \<or> zs = []"
    and less: "\<not> mpCapacity v < length zs" "length zs \<le> mpEnd v"
  shows "\<exists>h' v'. DoAssignFromIterator a (length zs) v h = Inr (v', h') \<and> becomes h v h' v' zs"
proof -
  let ?b = "mpBegin v" and ?e = "mpEnd v" and ?n = "length zs"
  note e = vector_length [OF assms(1)] and cell = vector_cell [OF assms(1)]
  have obj: "k \<le> ?e \<Longrightarrow> objects (cells h) ?b 0 k" for k using e by (auto simp: objects_def cell vec_cell_def)
  let ?m1 = "put_range ?b 0 (map Live zs) (cells h)"
  have copy: "copy_range ?n a (?b, 0) h = Inr (set_cells ?m1 h)"
    using copy_over [OF assms(3) obj [OF less(2)]] assms(4) by (cases "zs = []") auto
  have "becomes h v (set_cells ?m1 h) (v\<lparr>mpEnd := length (zs @ drop ?n xs)\<rparr>) (zs @ drop ?n xs)"
    using less e by (intro becomes_in_place [OF assms(1,2)]) (auto simp: cell vec_cell_def put_range_def nth_append)
  then have one: "becomes h v (set_cells ?m1 h) v (zs @ drop ?n xs)" using less e by simp
  then have "vector_in (set_cells ?m1 h) v (zs @ drop ?n xs)" "heap_ok (set_cells ?m1 h)" by (auto simp: becomes_def)
  from truncate_vec_ok [OF this, of ?n] obtain h2 where
    two: "truncate_vec ?n v (set_cells ?m1 h) = Inr (v\<lparr>mpEnd := ?n\<rparr>, h2)" "becomes (set_cells ?m1 h) v h2 (v\<lparr>mpEnd := ?n\<rparr>) zs" by auto
  from becomes_trans [OF assms(2) one two(2)] show ?thesis
    using less copy two(1) by (simp add: DoAssignFromIterator_def)
qed

lemma DoAssignFromIterator_ok:
  assumes "vector_in h v xs" "heap_ok h" "source_is h a zs" "fst a \<noteq> mpBegin v \<or> zs = []"
  shows "\<exists>h' v'. DoAssignFromIterator a (length zs) v h = Inr (v', h') \<and> becomes h v h' v' zs"
  using DoAssignFromIterator_ok_grow [OF assms] DoAssignFromIterator_ok_more [OF assms] DoAssignFromIterator_ok_less [OF assms] by (meson not_less)

lemma vec_assign_ok:
  assumes "vector_in h v xs" "heap_ok h" "vector_in h x zs" "mpBegin x \<noteq> mpBegin v \<or> zs = []"
  shows "\<exists>h' v'. vec_assign x v h = Inr (v', h') \<and> becomes h v h' v' zs"
  using DoAssignFromIterator_ok [OF assms(1,2) source_vector [OF assms(3)]] assms(4) vector_length [OF assms(3)]
  by (auto simp: vec_assign_def)

section \<open>Elements of the vector as parameters\<close>

text \<open>When the block grows, the element is read after it has been moved away.\<close>

lemma moved_element:
  assumes "vector_in h v xs" "heap_ok h" "DoAllocate n h = (p, h1)" "length xs \<le> n" "0 < n" "i < length xs"
  shows "read_arg (At (mpBegin v, i)) (set_cells (put_range p 0 (map Live xs) (put_range (mpBegin v) 0 (replicate (mpEnd v) Moved) (cells h1))) h1)
    = Inl Moved_From"
  using assms(6) grown(1,5) [OF assms(1-3,5)] by (simp add: read_object_def put_range_def)

lemma pushBack_own_element:
  assumes "vector_in h v xs" "heap_ok h" "length xs < 2 ^ 63" "mpEnd v = mpCapacity v" "i < length xs"
  shows "pushBack (At (mpBegin v, i)) v h = Inl Moved_From"
proof -
  let ?n = "GetNewCapacity (mpEnd v)"
  obtain p h1 where p: "DoAllocate ?n h = (p, h1)" by force
  have n: "length xs \<le> ?n" "0 < ?n" using GetNewCapacity_small [OF assms(3)] vector_length [OF assms(1)] by simp_all
  have "DoInsertValueEnd (At (mpBegin v, i)) v h = Inl Moved_From"
    using moved_element [OF assms(1,2) p n assms(5)] move_all [OF assms(1,2) p n(2,1)] by (simp add: DoInsertValueEnd_def p)
  then show ?thesis using assms(4) by (simp add: pushBack_def)
qed

lemma resize_own_element:
  assumes "vector_in h v xs" "heap_ok h" "n < 2 ^ 63" "mpCapacity v < n" "i < length xs"
  shows "vec_resize n (At (mpBegin v, i)) v h = Inl Moved_From"
proof -
  note e = vector_length [OF assms(1)]
  let ?k = "n - mpEnd v" and ?n = "new_size v (n - mpEnd v)"
  have grow: "mpEnd v < n" "mpCapacity v - mpEnd v < ?k" using assms(4) e by auto
  obtain p h1 where p: "DoAllocate ?n h = (p, h1)" by force
  have n: "length xs \<le> ?n" "0 < ?n" using assms(3,4) e by (auto simp: new_size_def Let_def)
  obtain k where k: "?k = Suc k" using grow(1) by (cases ?k) auto
  have "DoInsertValuesEnd ?k (At (mpBegin v, i)) v h = Inl Moved_From"
    using grow(2) moved_element [OF assms(1,2) p n assms(5)] move_all [OF assms(1,2) p n(2,1)]
    by (simp add: DoInsertValuesEnd_def p) (simp add: k)
  then show ?thesis using grow(1) by (simp add: vec_resize_def)
qed

section \<open>Capacity\<close>

text \<open>\<^verbatim>\<open>DoClearCapacity\<close> keeps the capacity: the second exchange undoes the first. So the move
  assignment leaves the old block in the vector it moves from.\<close>

lemma clear_capacity_keeps: "DoClearCapacity v h = vec_clear v h"
proof -
  have "vec_delete empty_vec k = Inr k" for k :: "'a heap" by (simp add: vec_delete_def empty_vec_def DoFree_def)
  then show ?thesis by (cases "vec_clear v h") (auto simp: DoClearCapacity_def vec_swap_def)
qed

lemma move_assign_exchanges:
  assumes "vector_in h v xs" "heap_ok h" "vector_in h x zs" "mpBegin x \<noteq> mpBegin v \<or> mpBegin x = 0"
  shows "\<exists>h'. vec_move_assign x v h = Inr (x, v\<lparr>mpEnd := 0\<rparr>, h') \<and> vector_in h' x zs \<and> vector_in h' (v\<lparr>mpEnd := 0\<rparr>) [] \<and> heap_ok h'"
proof -
  obtain h' where c: "vec_clear v h = Inr (v\<lparr>mpEnd := 0\<rparr>, h')" "becomes h v h' (v\<lparr>mpEnd := 0\<rparr>) []"
    using vec_clear_ok [OF assms(1,2)] by blast
  with becomes_other [OF c(2) assms(3,4)] show ?thesis
    by (auto simp: vec_move_assign_def clear_capacity_keeps vec_swap_def becomes_def)
qed

text \<open>Pushing many objects: how often a new block is allocated.\<close>

lemma pushBack_capacity:
  assumes "vector_in h v xs" "heap_ok h" "length xs < 2 ^ 63"
  shows "\<exists>h' v'. pushBack (Temp x) v h = Inr (v', h') \<and> becomes h v h' v' (xs @ [x])
    \<and> mpCapacity v' = (if length xs < mpCapacity v then mpCapacity v else GetNewCapacity (length xs))
    \<and> next_block h' = (if length xs < mpCapacity v then next_block h else next_block h + 1)"
proof (cases "mpEnd v < mpCapacity v")
  case True
  from pushBack_ok [OF assms, of "Temp x" x] obtain h' v' where r: "pushBack (Temp x) v h = Inr (v', h')" "becomes h v h' v' (xs @ [x])"
    by (auto simp: outside_def)
  from r(1) True have "mpCapacity v' = mpCapacity v" "next_block h' = next_block h"
    by (auto simp: pushBack_def construct_def split: cell.splits)
  with r True show ?thesis by (simp add: vector_length [OF assms(1)])
next
  case False
  with DoInsertValueEnd_ok [OF assms, of "Temp x" x] show ?thesis
    by (simp add: pushBack_def outside_def vector_length(1) [OF assms(1)])
qed

text \<open>Each new block is twice as large as the last.\<close>

definition doubled :: "nat \<Rightarrow> nat \<Rightarrow> 'a list \<Rightarrow> bool" where
  "doubled blocks cap xs \<longleftrightarrow> (if blocks = 0 then cap = 0 else 2 * cap = 2 ^ blocks \<and> cap < 2 * length xs)"

lemma doubled_push:
  assumes "doubled k cap xs" "length xs \<le> cap" "length xs < 2 ^ 63"
  shows "if length xs < cap then doubled k cap (xs @ [x]) else doubled (k + 1) (GetNewCapacity (length xs)) (xs @ [x])"
proof (cases "length xs < cap")
  case False
  then have c: "length xs = cap" using assms(2) by simp
  with assms(3) have "GetNewCapacity cap = (if 0 < cap then 2 * cap else 1)" by (simp add: GetNewCapacity_def)
  moreover have "0 < k \<Longrightarrow> 0 < cap" using assms(1) by (auto simp: doubled_def intro: Nat.gr0I)
  ultimately show ?thesis using assms(1) c by (cases "k = 0") (auto simp: doubled_def)
qed (use assms in \<open>auto simp: doubled_def split: if_splits\<close>)

lemma push_all_ok:
  assumes "vector_in h v ys" "heap_ok h" "length ys + length xs < 2 ^ 63" "doubled k (mpCapacity v) ys"
  shows "\<exists>h' v'. push_all xs v h = Inr (v', h') \<and> becomes h v h' v' (ys @ xs)
    \<and> doubled (k + (next_block h' - next_block h)) (mpCapacity v') (ys @ xs)"
  using assms
proof (induction xs arbitrary: h v ys k)
  case Nil
  have "becomes h v (set_cells (cells h) h) (v\<lparr>mpEnd := length ys\<rparr>) ys"
    using vector_length [OF Nil(1)] by (intro becomes_in_place [OF Nil(1,2)]) (auto simp: vector_cell [OF Nil(1)])
  with Nil show ?case by (simp add: vector_length [OF Nil(1)])
next
  case (Cons x xs)
  note e = vector_length [OF Cons.prems(1)]
  have small: "length ys < 2 ^ 63" using Cons.prems(3) by simp
  obtain h1 v1 where one: "pushBack (Temp x) v h = Inr (v1, h1)" "becomes h v h1 v1 (ys @ [x])"
    "mpCapacity v1 = (if length ys < mpCapacity v then mpCapacity v else GetNewCapacity (length ys))"
    "next_block h1 = (if length ys < mpCapacity v then next_block h else next_block h + 1)"
    using pushBack_capacity [OF Cons.prems(1,2) small] by blast
  have v1: "vector_in h1 v1 (ys @ [x])" "heap_ok h1" using one(2) by (auto simp: becomes_def)
  have d: "doubled (k + (next_block h1 - next_block h)) (mpCapacity v1) (ys @ [x])"
    using doubled_push [OF Cons.prems(4) _ small, of x] e one(3,4) by (auto split: if_splits)
  have "length (ys @ [x]) + length xs < 2 ^ 63" using Cons.prems(3) by simp
  from Cons.IH [OF v1 this d] obtain h2 v2 where two: "push_all xs v1 h1 = Inr (v2, h2)" "becomes h1 v1 h2 v2 ((ys @ [x]) @ xs)"
    "doubled (k + (next_block h1 - next_block h) + (next_block h2 - next_block h1)) (mpCapacity v2) ((ys @ [x]) @ xs)" by blast
  have "next_block h \<le> next_block h1" "next_block h1 \<le> next_block h2" using one(2) two(2) by (auto simp: becomes_def)
  with becomes_trans [OF Cons.prems(2) one(2) two(2)] one(1) two show ?case by (auto simp: add.assoc)
qed

theorem push_all_blocks:
  assumes "heap_ok h" "length xs < 2 ^ 63"
  shows "\<exists>h' v'. push_all xs empty_vec h = Inr (v', h') \<and> becomes h empty_vec h' v' xs
    \<and> 2 ^ (next_block h' - next_block h) \<le> 4 * length xs + 1"
proof -
  from push_all_ok [OF empty_vec_in [OF assms(1)] assms(1), of xs 0] assms(2) obtain h' v' where
    r: "push_all xs empty_vec h = Inr (v', h')" "becomes h empty_vec h' v' xs" "doubled (next_block h' - next_block h) (mpCapacity v') xs"
    by (auto simp: doubled_def empty_vec_def)
  from r(3) have "2 ^ (next_block h' - next_block h) \<le> 4 * length xs + 1" by (auto simp: doubled_def split: if_splits)
  with r show ?thesis by blast
qed

end
