(* ===== verification/Eastl_Bitvector.thy ===== *)
theory Eastl_Bitvector
  imports Eastl_Bit_Iterator Eastl_Vector_List
begin

text \<open>
  \<^verbatim>\<open>eastl::bitvector\<close> (\<^verbatim>\<open>src/extlibs/eastl/bitvector.h\<close>): words of 64 bits and the number of
  unused bits in the last one. Sizes have 64 bits and wrap around. Every operation does on the list of the bits
  what its name says, as long as there are fewer than \<open>2 ^ 64 - 64\<close> of them.
\<close>

section \<open>Operations\<close>

record bitvector =
  mContainer :: bit_words
  mFreeBitCount :: nat

definition sub64 :: "nat \<Rightarrow> nat \<Rightarrow> nat" where
  "sub64 m n = wrap64 (m + (2 ^ 64 - n))"

text \<open>\<^verbatim>\<open>resize\<close> of the vector of words.\<close>

definition resize_words :: "nat \<Rightarrow> 64 word \<Rightarrow> bit_words \<Rightarrow> bit_words" where
  "resize_words n element ws =
     (if length ws < n then ws @ replicate (n - length ws) element else take n ws)"

definition bits_empty :: bitvector where
  "bits_empty = \<lparr>mContainer = [], mFreeBitCount = 0\<rparr>"

definition bits_begin :: "bitvector \<Rightarrow> bit_iterator" where
  "bits_begin b = \<lparr>mpBitWord = 0, mnBitIndex = 0\<rparr>"

definition bits_end :: "bitvector \<Rightarrow> bit_iterator" where
  "bits_end b = bit_minus \<lparr>mpBitWord = int (length (mContainer b)), mnBitIndex = 0\<rparr> (int (mFreeBitCount b))"

definition bits_size :: "bitvector \<Rightarrow> nat" where
  "bits_size b = sub64 (wrap64 (length (mContainer b) * kBitCount)) (mFreeBitCount b)"

definition bits_at :: "bitvector \<Rightarrow> nat \<Rightarrow> bit_iterator" where
  "bits_at b n = bit_add (bits_begin b) (int n)"

definition bits_get :: "bitvector \<Rightarrow> nat \<Rightarrow> bool result" where
  "bits_get b n = bit_read (mContainer b) (bits_at b n)"

definition assign_at :: "bitvector \<Rightarrow> bit_iterator \<Rightarrow> bool \<Rightarrow> bitvector result" where
  "assign_at b it v = and_then (bit_assign (mContainer b) it v) (\<lambda>ws. Inr (b\<lparr>mContainer := ws\<rparr>))"

definition bits_put :: "bitvector \<Rightarrow> nat \<Rightarrow> bool \<Rightarrow> bitvector result" where
  "bits_put b n v = assign_at b (bits_at b n) v"

definition push_bit_back :: "bitvector \<Rightarrow> bitvector" where
  "push_bit_back b =
     (let b = (if mFreeBitCount b = 0 then \<lparr>mContainer = mContainer b @ [0], mFreeBitCount = kBitCount\<rparr> else b)
      in b\<lparr>mFreeBitCount := mFreeBitCount b - 1\<rparr>)"

definition bits_push_back :: "bool \<Rightarrow> bitvector \<Rightarrow> bitvector result" where
  "bits_push_back v b = (let b = push_bit_back b in assign_at b (bit_prev (bits_end b)) v)"

definition bits_pop_back :: "bitvector \<Rightarrow> bitvector" where
  "bits_pop_back b =
     (let b = b\<lparr>mFreeBitCount := mFreeBitCount b + 1\<rparr>
      in if mFreeBitCount b = kBitCount then \<lparr>mContainer = butlast (mContainer b), mFreeBitCount = 0\<rparr> else b)"

definition word_count :: "nat \<Rightarrow> nat" where
  "word_count n = wrap64 (n + kBitCount - 1) div kBitCount"

definition bits_resize :: "nat \<Rightarrow> bitvector \<Rightarrow> bitvector" where
  "bits_resize n b =
     \<lparr>mContainer = resize_words (word_count n) 0 (mContainer b),
      mFreeBitCount = sub64 (wrap64 (word_count n * kBitCount)) n\<rparr>"

fun fill_word :: "bool \<Rightarrow> nat \<Rightarrow> bitvector \<Rightarrow> (bitvector \<times> nat) result" where
  "fill_word v newbits b =
     (if mFreeBitCount b \<noteq> 0 \<and> newbits \<noteq> 0
      then and_then (bits_push_back v b) (\<lambda>b. fill_word v (newbits - 1) b)
      else Inr (b, newbits))"

declare fill_word.simps [simp del]

definition bits_resize_value :: "nat \<Rightarrow> bool \<Rightarrow> bitvector \<Rightarrow> bitvector result" where
  "bits_resize_value n v b =
     (let s = bits_size b; b = (if n < s then bits_resize n b else b)
      in and_then (fill_word v (sub64 n s) b) (\<lambda>(b, newbits).
           if newbits \<noteq> 0
           then Inr \<lparr>mContainer = resize_words (word_count n) (if v then NOT 0 else 0) (mContainer b),
                     mFreeBitCount = sub64 (wrap64 (word_count n * kBitCount)) n\<rparr>
           else Inr b))"

definition bits_test :: "nat \<Rightarrow> bool \<Rightarrow> bitvector \<Rightarrow> bool result" where
  "bits_test n defaultValue b = (if n < bits_size b then bits_get b n else Inr defaultValue)"

definition bits_set :: "nat \<Rightarrow> bool \<Rightarrow> bitvector \<Rightarrow> bitvector result" where
  "bits_set n v b = bits_put (if bits_size b \<le> n then bits_resize (wrap64 (n + 1)) b else b) n v"

definition bits_insert :: "bit_iterator \<Rightarrow> bool \<Rightarrow> bitvector \<Rightarrow> (bitvector \<times> bit_iterator) result" where
  "bits_insert position v b =
     (let n = bit_distance position (bits_begin b); b = push_bit_back b; iPosition = bit_add (bits_begin b) n
      in and_then (MoveBits (mContainer b) iPosition (bit_prev (bits_end b)) (bit_next iPosition)) (\<lambda>ws.
         and_then (assign_at (b\<lparr>mContainer := ws\<rparr>) iPosition v) (\<lambda>b. Inr (b, iPosition))))"

function fill_range :: "bool \<Rightarrow> bit_words \<Rightarrow> bit_iterator \<Rightarrow> bit_iterator \<Rightarrow> bit_words result" where
  "fill_range v ws it close =
     (if it = close then Inr ws
      else (case bit_assign ws it v of Inl f \<Rightarrow> Inl f | Inr ws' \<Rightarrow> fill_range v ws' (bit_next it) close))"
  by pat_completeness auto
termination
proof (relation "measure (\<lambda>(v, ws, it, close). nat (64 * int (length ws) - pos it))", goal_cases)
  case (2 v ws it close ws')
  then have "in_words ws it" "length ws' = length ws" by (auto dest: bit_assign_ok)
  then show ?case by (auto simp: in_words_def pos_def bit_next_def)
qed simp

declare fill_range.simps [simp del]

definition bits_insert_n :: "bit_iterator \<Rightarrow> nat \<Rightarrow> bool \<Rightarrow> bitvector \<Rightarrow> bitvector result" where
  "bits_insert_n position n v b =
     (let p = bit_distance position (bits_begin b); b = bits_resize (wrap64 (bits_size b + n)) b;
          iPosition = bit_add (bits_begin b) p; insert_end = bit_add iPosition (int n)
      in and_then (MoveBits (mContainer b) iPosition (bit_minus (bits_end b) (int n)) insert_end) (\<lambda>ws.
         and_then (fill_range v ws iPosition insert_end) (\<lambda>ws. Inr (b\<lparr>mContainer := ws\<rparr>))))"

definition bits_erase :: "bit_iterator \<Rightarrow> bitvector \<Rightarrow> bitvector result" where
  "bits_erase position b =
     and_then (MoveBits (mContainer b) (bit_next position) (bits_end b) position) (\<lambda>ws.
       Inr (bits_resize (sub64 (bits_size b) 1) (b\<lparr>mContainer := ws\<rparr>)))"

definition bits_erase_range :: "bit_iterator \<Rightarrow> bit_iterator \<Rightarrow> bitvector \<Rightarrow> bitvector result" where
  "bits_erase_range first stop b =
     (if first = stop then Inr b
      else and_then (MoveBits (mContainer b) stop (bits_end b) first) (\<lambda>ws.
        Inr (bits_resize (sub64 (bits_size b) (nat (bit_distance stop first))) (b\<lparr>mContainer := ws\<rparr>))))"

definition bits_new :: "nat \<Rightarrow> bool \<Rightarrow> bitvector" where
  "bits_new n v =
     (let free = kBitCount - n mod kBitCount
      in \<lparr>mContainer = replicate (word_count n) (if v then NOT 0 else 0),
          mFreeBitCount = (if free = kBitCount then 0 else free)\<rparr>)"

fun bits_push_all :: "bool list \<Rightarrow> bitvector \<Rightarrow> bitvector result" where
  "bits_push_all [] b = Inr b"
| "bits_push_all (v # vs) b = and_then (bits_push_back v b) (bits_push_all vs)"

definition bits_clear :: "bitvector \<Rightarrow> bitvector" where
  "bits_clear b = \<lparr>mContainer = [], mFreeBitCount = 0\<rparr>"

definition bits_assign :: "bool list \<Rightarrow> bitvector \<Rightarrow> bitvector result" where
  "bits_assign vs b = bits_push_all vs (bits_clear b)"

section \<open>The list of the bits\<close>

definition bits :: "bitvector \<Rightarrow> bool list" where
  "bits b = take (64 * length (mContainer b) - mFreeBitCount b) (flags (mContainer b))"

definition bits_inv :: "bitvector \<Rightarrow> bool" where
  "bits_inv b \<longleftrightarrow> mFreeBitCount b < 64 \<and> (mContainer b = [] \<longrightarrow> mFreeBitCount b = 0) \<and> 64 * length (mContainer b) < 2 ^ 64"

text \<open>The largest number of bits that are addressed.\<close>

abbreviation most_bits :: nat where "most_bits \<equiv> 2 ^ 64 - 64"

lemma sub64: "n \<le> m \<Longrightarrow> m < 2 ^ 64 \<Longrightarrow> sub64 m n = m - n"
proof -
  assume "n \<le> m" "m < 2 ^ 64"
  then have "m + (2 ^ 64 - n) = (m - n) + 2 ^ 64" "m - n < 2 ^ 64" by linarith+
  then show ?thesis by (simp only: sub64_def mod_add_self2 mod_less)
qed

lemma words_multiple: "64 * k < (2 :: nat) ^ 64 \<Longrightarrow> 64 * k \<le> most_bits"
  by simp

lemma free_le: "bits_inv b \<Longrightarrow> mFreeBitCount b \<le> 64 * length (mContainer b)"
  by (cases "mContainer b") (auto simp: bits_inv_def)

lemma length_bits: "length (bits b) = 64 * length (mContainer b) - mFreeBitCount b"
  by (simp add: bits_def)

lemma length_bits_le: "bits_inv b \<Longrightarrow> length (bits b) \<le> most_bits"
  by (simp add: length_bits bits_inv_def) linarith

lemma bits_size: "bits_inv b \<Longrightarrow> bits_size b = length (bits b)"
  using free_le [of b] by (simp add: bits_size_def length_bits sub64 bits_inv_def mult.commute)

lemma nth_bits: "n < length (bits b) \<Longrightarrow> bits b ! n = flags (mContainer b) ! n"
  by (simp add: bits_def)

lemma bits_begin: "bits_begin b = at_bit 0"
  by (simp add: bits_begin_def at_bit_def)

lemma bits_at: "bits_at b n = at_bit (int n)"
  by (simp add: bits_at_def bits_begin)

lemma bits_end:
  assumes "bits_inv b"
  shows "bits_end b = at_bit (int (length (bits b)))"
proof -
  have "\<lparr>mpBitWord = int (length (mContainer b)), mnBitIndex = 0\<rparr> = at_bit (int (64 * length (mContainer b)))"
    by (simp add: at_bit_def)
  with free_le [OF assms] show ?thesis by (simp add: bits_end_def length_bits of_nat_diff)
qed

lemma bits_get:
  assumes "bits_inv b" "n < length (bits b)"
  shows "bits_get b n = Inr (bits b ! n)"
  using assms by (simp add: bits_get_def bits_at bit_read_nat nth_bits length_bits)

text \<open>A store to a position of the container, used or not.\<close>

lemma assign_at:
  assumes "n < 64 * length (mContainer b)"
  obtains b' where "assign_at b (at_bit (int n)) v = Inr b'" "flags (mContainer b') = (flags (mContainer b))[n := v]"
    "length (mContainer b') = length (mContainer b)" "mFreeBitCount b' = mFreeBitCount b"
    "bits b' = (bits b)[n := v]" "bits_inv b' \<longleftrightarrow> bits_inv b"
proof -
  from bit_assign_nat [OF assms] obtain ws' where
    ws': "bit_assign (mContainer b) (at_bit (int n)) v = Inr ws'" "flags ws' = (flags (mContainer b))[n := v]"
      "length ws' = length (mContainer b)" by blast
  then show ?thesis
    by (intro that [of "b\<lparr>mContainer := ws'\<rparr>"])
      (auto simp: assign_at_def bits_def bits_inv_def take_update_swap)
qed

lemma bits_put:
  assumes "bits_inv b" "n < length (bits b)"
  obtains b' where "bits_put b n v = Inr b'" "bits b' = (bits b)[n := v]" "bits_inv b'"
proof -
  have "n < 64 * length (mContainer b)" using assms(2) by (simp add: length_bits)
  from assign_at [OF this, of v] assms(1) that show ?thesis by (auto simp: bits_put_def bits_at)
qed

lemma one_more: "length xs = Suc n \<Longrightarrow> take n xs = ys \<Longrightarrow> \<exists>x. xs = ys @ [x]"
  by (metis take_Suc_conv_app_nth lessI take_all order_refl)

lemma push_bit_back:
  assumes "bits_inv b" "length (bits b) < most_bits"
  shows "bits_inv (push_bit_back b)" "\<exists>x. bits (push_bit_back b) = bits b @ [x]"
proof -
  show inv: "bits_inv (push_bit_back b)"
    using assms by (auto simp: push_bit_back_def bits_inv_def length_bits Let_def)
  have "length (bits (push_bit_back b)) = Suc (length (bits b))"
    using assms free_le [OF assms(1)] by (auto simp: push_bit_back_def length_bits bits_inv_def Let_def)
  moreover have "take (length (bits b)) (bits (push_bit_back b)) = bits b"
    using assms free_le [OF assms(1)] by (auto simp: push_bit_back_def bits_def bits_inv_def Let_def flags_append)
  ultimately show "\<exists>x. bits (push_bit_back b) = bits b @ [x]"
    by (rule one_more)
qed

lemma bits_push_back:
  assumes "bits_inv b" "length (bits b) < most_bits"
  obtains b' where "bits_push_back v b = Inr b'" "bits b' = bits b @ [v]" "bits_inv b'"
proof -
  let ?p = "push_bit_back b"
  note inv = push_bit_back(1) [OF assms]
  from push_bit_back(2) [OF assms] obtain x where x: "bits ?p = bits b @ [x]" by blast
  have "length (bits b) < 64 * length (mContainer ?p)"
    using length_bits [of ?p] x by simp
  from assign_at [OF this, of v] obtain b' where
    "assign_at ?p (at_bit (int (length (bits b)))) v = Inr b'" "bits b' = (bits ?p)[length (bits b) := v]" "bits_inv b'"
    using inv by blast
  then show ?thesis by (intro that [of b']) (simp_all add: bits_push_back_def bits_end [OF inv] x)
qed

lemma bits_push_all:
  "bits_inv b \<Longrightarrow> length (bits b) + length vs \<le> most_bits \<Longrightarrow>
   \<exists>b'. bits_push_all vs b = Inr b' \<and> bits b' = bits b @ vs \<and> bits_inv b'"
proof (induction vs arbitrary: b)
  case (Cons v vs)
  obtain b' where "bits_push_back v b = Inr b'" "bits b' = bits b @ [v]" "bits_inv b'"
    using bits_push_back [of b v] Cons.prems by auto
  with Cons.IH [of b'] Cons.prems show ?case by auto
qed simp

section \<open>Resizing\<close>

lemma bits_pop_back:
  assumes "bits_inv b" "bits b \<noteq> []"
  shows "bits (bits_pop_back b) = butlast (bits b) \<and> bits_inv (bits_pop_back b)"
proof (cases "mFreeBitCount b + 1 = kBitCount")
  case True
  then have "bits (bits_pop_back b) = flags (take (length (mContainer b) - 1) (mContainer b))"
    by (simp add: bits_pop_back_def bits_def butlast_conv_take)
  also have "\<dots> = take (64 * (length (mContainer b) - 1)) (flags (mContainer b))"
    by (rule flags_take)
  finally have "bits (bits_pop_back b) = butlast (bits b)"
    using True by (simp add: butlast_conv_take bits_def diff_mult_distrib2)
  moreover have "bits_inv (bits_pop_back b)"
    using True assms(1) by (auto simp: bits_pop_back_def bits_inv_def)
  ultimately show ?thesis ..
next
  case False
  with assms show ?thesis
    by (auto simp: butlast_conv_take bits_pop_back_def bits_inv_def bits_def Let_def)
qed

lemma word_count:
  assumes "n \<le> most_bits"
  shows "word_count n = (n + 63) div 64" "n \<le> 64 * word_count n" "64 * word_count n < n + 64" "64 * word_count n \<le> most_bits"
proof -
  show e: "word_count n = (n + 63) div 64" using assms by (simp add: word_count_def)
  show "n \<le> 64 * word_count n" "64 * word_count n < n + 64" unfolding e by linarith+
  then have "64 * word_count n < 2 ^ 64" using assms by simp
  then show "64 * word_count n \<le> most_bits" by (rule words_multiple)
qed

lemma resized:
  assumes "n \<le> most_bits"
  shows "sub64 (wrap64 (word_count n * kBitCount)) n = 64 * word_count n - n"
  using word_count [OF assms] by (simp add: sub64 mult.commute)

lemma flags_resize_words:
  "flags (resize_words k 0 ws) = take (64 * k) (flags ws @ replicate (64 * k - 64 * length ws) False)"
  "flags (resize_words k (- 1) ws) = take (64 * k) (flags ws @ replicate (64 * k - 64 * length ws) True)"
  by (simp_all add: resize_words_def flags_append flags_replicate flags_take diff_mult_distrib2)

lemma length_resize_words [simp]: "length (resize_words k e ws) = k"
  by (simp add: resize_words_def)

lemma resize_words_Nil [simp]: "resize_words k e ws = [] \<longleftrightarrow> k = 0"
  by (metis length_0_conv length_resize_words)

text \<open>The container after \<^verbatim>\<open>mContainer.resize\<close> and the assignment to \<^verbatim>\<open>mFreeBitCount\<close>.\<close>

lemma resized_bits:
  fixes ws :: bit_words
  assumes "n \<le> most_bits"
  defines "b' e \<equiv> \<lparr>mContainer = resize_words (word_count n) e ws, mFreeBitCount = 64 * word_count n - n\<rparr>"
  shows "bits_inv (b' e)" "length (bits (b' e)) = n"
    "bits (b' 0) = take n (flags ws @ replicate (64 * word_count n - 64 * length ws) False)"
    "bits (b' (- 1)) = take n (flags ws @ replicate (64 * word_count n - 64 * length ws) True)"
  using word_count(2-4) [OF assms(1)]
  by (auto simp: b'_def bits_inv_def bits_def flags_resize_words min_def)

text \<open>The new bits are those that are left in the last word and zeros.\<close>

lemma bits_resize:
  assumes "n \<le> most_bits" "bits_inv b"
  shows "bits_inv (bits_resize n b)" "length (bits (bits_resize n b)) = n"
    "take (min n (length (bits b))) (bits (bits_resize n b)) = take n (bits b)"
  using resized_bits [OF assms(1), where ws = "mContainer b"] free_le [OF assms(2)]
  unfolding bits_resize_def resized [OF assms(1)] by (auto simp: bits_def min_def)

lemma bits_resize_smaller:
  assumes "n \<le> length (bits b)" "bits_inv b"
  shows "bits (bits_resize n b) = take n (bits b)"
proof -
  have "n \<le> most_bits" using assms length_bits_le by (meson le_trans)
  from bits_resize [OF this assms(2)] assms(1) show ?thesis by (metis min.absorb1 take_all order_refl)
qed

lemma fill_word:
  "bits_inv b \<Longrightarrow>
   \<exists>b'. fill_word v m b = Inr (b', m - mFreeBitCount b) \<and> bits b' = bits b @ replicate (min m (mFreeBitCount b)) v
     \<and> bits_inv b' \<and> (mFreeBitCount b \<le> m \<longrightarrow> mFreeBitCount b' = 0) \<and> length (mContainer b') = length (mContainer b)"
proof (induction m arbitrary: b)
  case (Suc m)
  show ?case
  proof (cases "mFreeBitCount b")
    case 0
    with Suc.prems show ?thesis by (simp add: fill_word.simps)
  next
    case (Suc f)
    have "length (bits b) < most_bits"
      using Suc Suc.prems free_le [of b] by (auto simp: length_bits bits_inv_def)
    from bits_push_back [OF Suc.prems this, of v] obtain b' where
      b': "bits_push_back v b = Inr b'" "bits b' = bits b @ [v]" "bits_inv b'" .
    have c: "length (mContainer b') = length (mContainer b)" "mFreeBitCount b' = f"
      using b'(1) Suc by (auto simp: bits_push_back_def push_bit_back_def assign_at_def result_simps Let_def dest: bit_assign_ok)
    from Suc.IH [OF b'(3)] obtain b'' where
      "fill_word v m b' = Inr (b'', m - f)" "bits b'' = bits b' @ replicate (min m f) v" "bits_inv b''"
      "f \<le> m \<longrightarrow> mFreeBitCount b'' = 0" "length (mContainer b'') = length (mContainer b')" by (auto simp: c)
    with b' c show ?thesis
      by (subst fill_word.simps) (simp add: Suc)
  qed
qed (simp add: fill_word.simps)

theorem bits_resize_value:
  assumes inv: "bits_inv b" and n: "n \<le> most_bits"
  shows "\<exists>b'. bits_resize_value n v b = Inr b' \<and> bits_inv b'
    \<and> bits b' = (if n \<le> length (bits b) then take n (bits b) else bits b @ replicate (n - length (bits b)) v)"
proof -
  define s where "s = length (bits b)"
  define c where "c = (if n < s then bits_resize n b else b)"
  define m where "m = sub64 n s"
  have s: "s \<le> most_bits" using length_bits_le [OF inv] by (simp add: s_def)
  have c: "bits_inv c" "bits c = take n (bits b)"
    using bits_resize(1) [OF n inv] bits_resize_smaller [OF _ inv] inv by (auto simp: c_def s_def)
  from fill_word [OF c(1)] obtain d where
    d: "fill_word v m c = Inr (d, m - mFreeBitCount c)" "bits d = bits c @ replicate (min m (mFreeBitCount c)) v" "bits_inv d"
      "mFreeBitCount c \<le> m \<longrightarrow> mFreeBitCount d = 0" "length (mContainer d) = length (mContainer c)" by blast
  have run: "bits_resize_value n v b =
      (if m - mFreeBitCount c \<noteq> 0
       then Inr \<lparr>mContainer = resize_words (word_count n) (if v then - 1 else 0) (mContainer d),
                 mFreeBitCount = 64 * word_count n - n\<rparr>
       else Inr d)"
    unfolding bits_resize_value_def resized [OF n] bits_size [OF inv]
    using d(1) by (simp flip: s_def c_def m_def)
  show ?thesis
  proof (cases "m - mFreeBitCount c = 0")
    case True
    have "m = n - s" "s \<le> n"
    proof -
      have "s \<le> n"
      proof (rule ccontr)
        assume "\<not> s \<le> n"
        then have "m = n + (2 ^ 64 - s)" using s by (simp add: m_def sub64_def)
        then show False using True c(1) s by (simp add: bits_inv_def) linarith
      qed
      then show "m = n - s" "s \<le> n" using n by (simp_all add: m_def sub64)
    qed
    then show ?thesis using True run d(2,3) c(2) by (auto simp: s_def c_def min_def)
  next
    case False
    then have full: "mFreeBitCount d = 0" "bits d = bits c @ replicate (mFreeBitCount c) v" using d(2,4) by auto
    then have fl: "flags (mContainer d) = bits c @ replicate (mFreeBitCount c) v" by (simp add: bits_def)
    let ?r = "\<lambda>e. \<lparr>mContainer = resize_words (word_count n) e (mContainer d), mFreeBitCount = 64 * word_count n - n\<rparr>"
    have "bits (?r (if v then - 1 else 0))
        = take n (take n (bits b) @ replicate (mFreeBitCount c) v @ replicate (64 * word_count n - 64 * length (mContainer d)) v)"
      using resized_bits(3,4) [OF n, where ws = "mContainer d"] by (cases v) (simp_all add: fl c(2))
    also have "\<dots> = (if n \<le> s then take n (bits b) else bits b @ replicate (n - s) v)"
    proof (cases "n \<le> s")
      case False
      have "64 * length (mContainer d) = s + mFreeBitCount c"
        using arg_cong [OF fl, of length] c(2) False by (simp add: s_def)
      then have "n - s \<le> mFreeBitCount c + (64 * word_count n - 64 * length (mContainer d))"
        using word_count(2) [OF n] by linarith
      with False show ?thesis by (simp add: s_def min_def flip: replicate_add)
    qed (simp add: s_def)
    finally show ?thesis
      using run False resized_bits(1) [OF n, where ws = "mContainer d"] by (simp add: s_def)
  qed
qed

lemma bits_new:
  assumes "n \<le> most_bits"
  shows "bits (bits_new n v) = replicate n v \<and> bits_inv (bits_new n v)"
proof -
  have "(if kBitCount - n mod kBitCount = kBitCount then 0 else kBitCount - n mod kBitCount) = 64 * word_count n - n"
  proof -
    define q r where "q = n div 64" and "r = n mod 64"
    have n: "n = 64 * q + r" "r < 64" by (simp_all add: q_def r_def)
    have "word_count n = (if r = 0 then q else Suc q)"
    proof (cases "r = 0")
      case False
      then have "n + 63 = 64 * Suc q + (r - 1)" using n by simp
      with n(2) False show ?thesis unfolding word_count(1) [OF assms] by simp
    next
      case True
      then show ?thesis unfolding word_count(1) [OF assms] using n(1) by simp
    qed
    with n show ?thesis by auto
  qed
  then have "bits_new n v = \<lparr>mContainer = replicate (word_count n) (if v then - 1 else 0), mFreeBitCount = 64 * word_count n - n\<rparr>"
    by (simp add: bits_new_def Let_def)
  with word_count [OF assms] show ?thesis
    by (auto simp: bits_def bits_inv_def flags_replicate)
qed

section \<open>Inserting and erasing\<close>

lemma bits_MoveBits:
  assumes "bits_inv b" "s + k \<le> length (bits b)" "d + k \<le> length (bits b)"
  obtains ws where "MoveBits (mContainer b) (at_bit (int s)) (at_bit (int (s + k))) (at_bit (int d)) = Inr ws"
    "bits (b\<lparr>mContainer := ws\<rparr>) = moved s k d (bits b)" "bits_inv (b\<lparr>mContainer := ws\<rparr>)" "length ws = length (mContainer b)"
proof -
  from assms(2,3) have "s + k \<le> 64 * length (mContainer b)" "d + k \<le> 64 * length (mContainer b)"
    by (simp_all add: length_bits)
  from MoveBits_at [OF this] obtain ws where
    ws: "MoveBits (mContainer b) (at_bit (int s)) (at_bit (int (s + k))) (at_bit (int d)) = Inr ws"
      "flags ws = moved s k d (flags (mContainer b))" "length ws = length (mContainer b)" .
  have "bits (b\<lparr>mContainer := ws\<rparr>) = moved s k d (bits b)"
    using assms(2,3) by (intro nth_equalityI) (auto simp: bits_def ws(2,3) nth_moved)
  moreover have "bits_inv (b\<lparr>mContainer := ws\<rparr>)" using assms(1) ws(3) by (auto simp: bits_inv_def)
  ultimately show ?thesis using ws that by blast
qed

lemma moved_insert:
  "p \<le> length xs \<Longrightarrow> (moved p (length xs - p) (Suc p) (xs @ [x]))[p := v] = take p xs @ v # drop p xs"
  by (rule nth_equalityI) (auto simp: nth_moved nth_append nth_list_update nth_Cons' min_def)

lemma moved_insert_n:
  assumes "length ys = length xs + n" "take (length xs) ys = xs" "p \<le> length xs"
  shows "take p (moved p (length xs - p) (p + n) ys) @ replicate n v @ drop (p + n) (moved p (length xs - p) (p + n) ys)
    = take p xs @ replicate n v @ drop p xs"
proof -
  from assms(2) obtain zs where "ys = xs @ zs" by (metis append_take_drop_id)
  with assms(1,3) show ?thesis by (intro nth_equalityI) (auto simp: nth_append nth_moved)
qed

lemma moved_erase:
  "p + k \<le> length xs \<Longrightarrow> take (length xs - k) (moved (p + k) (length xs - (p + k)) p xs) = take p xs @ drop (p + k) xs"
  by (rule nth_equalityI) (auto simp: nth_moved nth_append intro!: arg_cong [of _ _ "(!) xs"])

theorem bits_insert:
  assumes inv: "bits_inv b" and room: "length (bits b) < most_bits" and p: "p \<le> length (bits b)"
  shows "\<exists>b'. bits_insert (at_bit (int p)) v b = Inr (b', at_bit (int p))
    \<and> bits b' = take p (bits b) @ v # drop p (bits b) \<and> bits_inv b'"
proof -
  let ?b = "push_bit_back b" and ?n = "length (bits b)"
  note inv' = push_bit_back(1) [OF inv room]
  from push_bit_back(2) [OF inv room] obtain x where x: "bits ?b = bits b @ [x]" by blast
  then have le: "p + (?n - p) \<le> length (bits ?b)" "Suc p + (?n - p) \<le> length (bits ?b)" using p by auto
  from bits_MoveBits [OF inv' le] obtain ws where
    ws: "MoveBits (mContainer ?b) (at_bit (int p)) (at_bit (int (p + (?n - p)))) (at_bit (int (Suc p))) = Inr ws"
      "bits (?b\<lparr>mContainer := ws\<rparr>) = moved p (?n - p) (Suc p) (bits ?b)" "bits_inv (?b\<lparr>mContainer := ws\<rparr>)"
      "length ws = length (mContainer ?b)" .
  have "p < 64 * length ws" using length_bits [of ?b] x p ws(4) by simp
  then have "p < 64 * length (mContainer (?b\<lparr>mContainer := ws\<rparr>))" by simp
  from assign_at [OF this, of v] ws(3) obtain b' where
    b': "assign_at (?b\<lparr>mContainer := ws\<rparr>) (at_bit (int p)) v = Inr b'"
      "bits b' = (bits (?b\<lparr>mContainer := ws\<rparr>))[p := v]" "bits_inv b'" by blast
  have "bits_insert (at_bit (int p)) v b = Inr (b', at_bit (int p))"
    using ws(1) b'(1) p by (simp add: bits_insert_def Let_def bits_begin bits_end [OF inv'] x add.commute)
  moreover have "bits b' = take p (bits b) @ v # drop p (bits b)"
    using moved_insert [OF p, of x v] by (simp add: b'(2) ws(2) x)
  ultimately show ?thesis using b'(3) by blast
qed

text \<open>Iterators that leave an ordinary position are moved bit by bit.\<close>

lemma fill_range_at:
  "p + k \<le> 64 * length ws \<Longrightarrow>
   \<exists>ws'. fill_range v ws (at_bit (int p)) (at_bit (int (p + k))) = Inr ws' \<and> length ws' = length ws
     \<and> flags ws' = take p (flags ws) @ replicate k v @ drop (p + k) (flags ws)"
proof (induction k arbitrary: ws p)
  case (Suc k)
  obtain ws' where ws': "bit_assign ws (at_bit (int p)) v = Inr ws'" "flags ws' = (flags ws)[p := v]" "length ws' = length ws"
    using Suc.prems bit_assign_nat [of p ws v] by fastforce
  have "fill_range v ws (at_bit (int p)) (at_bit (int (p + Suc k))) = fill_range v ws' (at_bit (int (Suc p))) (at_bit (int (Suc p + k)))"
    using ws'(1) by (simp add: fill_range.simps [of v ws] add.commute)
  moreover have "take (Suc p) ((flags ws)[p := v]) = take p (flags ws) @ [v]"
    using Suc.prems by (simp add: take_Suc_conv_app_nth)
  ultimately show ?case using Suc.IH [of "Suc p" ws'] Suc.prems ws'(2,3) by auto
qed (simp add: fill_range.simps)

lemma take_replaced:
  "p + n \<le> k \<Longrightarrow> k \<le> length xs \<Longrightarrow>
   take k (take p xs @ replicate n v @ drop (p + n) xs) = take p (take k xs) @ replicate n v @ drop (p + n) (take k xs)"
  by (rule nth_equalityI) (auto simp: nth_append)

theorem bits_insert_n:
  assumes inv: "bits_inv b" and room: "length (bits b) + n \<le> most_bits" and p: "p \<le> length (bits b)"
  shows "\<exists>b'. bits_insert_n (at_bit (int p)) n v b = Inr b'
    \<and> bits b' = take p (bits b) @ replicate n v @ drop p (bits b) \<and> bits_inv b'"
proof -
  let ?s = "length (bits b)"
  define c where "c = bits_resize (?s + n) b"
  have c: "bits_inv c" "length (bits c) = ?s + n" "take ?s (bits c) = bits b"
    using bits_resize [OF room inv] by (simp_all add: c_def)
  have "wrap64 (bits_size b + n) = ?s + n" using room by (simp add: bits_size [OF inv])
  then have e: "bits_resize (wrap64 (bits_size b + n)) b = c" by (simp add: c_def)
  have le: "p + (?s - p) \<le> length (bits c)" "p + n + (?s - p) \<le> length (bits c)" using c(2) p by auto
  from bits_MoveBits [OF c(1) le] obtain ws where
    ws: "MoveBits (mContainer c) (at_bit (int p)) (at_bit (int (p + (?s - p)))) (at_bit (int (p + n))) = Inr ws"
      "bits (c\<lparr>mContainer := ws\<rparr>) = moved p (?s - p) (p + n) (bits c)" "bits_inv (c\<lparr>mContainer := ws\<rparr>)"
      "length ws = length (mContainer c)" .
  have size: "?s + n = 64 * length ws - mFreeBitCount c" using c(2) ws(4) by (simp add: length_bits)
  then have "p + n \<le> 64 * length ws" using p by linarith
  from fill_range_at [OF this, of v] obtain us where
    us: "fill_range v ws (at_bit (int p)) (at_bit (int (p + n))) = Inr us" "length us = length ws"
      "flags us = take p (flags ws) @ replicate n v @ drop (p + n) (flags ws)" by blast
  have m: "take (?s + n) (flags ws) = moved p (?s - p) (p + n) (bits c)"
    using ws(2) size by (simp add: bits_def)
  have "bits (c\<lparr>mContainer := us\<rparr>) = take (?s + n) (flags us)"
    using size us(2) by (simp add: bits_def)
  also have "\<dots> = take p (take (?s + n) (flags ws)) @ replicate n v @ drop (p + n) (take (?s + n) (flags ws))"
    unfolding us(3) using size p by (intro take_replaced) simp_all
  also have "\<dots> = take p (bits b) @ replicate n v @ drop p (bits b)"
    unfolding m using c(2,3) p by (rule moved_insert_n)
  finally have "bits (c\<lparr>mContainer := us\<rparr>) = take p (bits b) @ replicate n v @ drop p (bits b)" .
  moreover have "bits_inv (c\<lparr>mContainer := us\<rparr>)"
    using ws(3) us(2) ws(4) c(1) by (auto simp: bits_inv_def)
  moreover have "bits_insert_n (at_bit (int p)) n v b = Inr (c\<lparr>mContainer := us\<rparr>)"
    unfolding bits_insert_n_def e Let_def using ws(1) us(1) p c(2) by (simp add: bits_begin bits_end [OF c(1)])
  ultimately show ?thesis by blast
qed

theorem bits_erase:
  assumes inv: "bits_inv b" and p: "p < length (bits b)"
  shows "\<exists>b'. bits_erase (at_bit (int p)) b = Inr b' \<and> bits b' = take p (bits b) @ drop (Suc p) (bits b) \<and> bits_inv b'"
proof -
  let ?n = "length (bits b)"
  have le: "Suc p + (?n - Suc p) \<le> ?n" "p + (?n - Suc p) \<le> ?n" using p by auto
  from bits_MoveBits [OF inv le] obtain ws where
    ws: "MoveBits (mContainer b) (at_bit (int (Suc p))) (at_bit (int (Suc p + (?n - Suc p)))) (at_bit (int p)) = Inr ws"
      "bits (b\<lparr>mContainer := ws\<rparr>) = moved (Suc p) (?n - Suc p) p (bits b)" "bits_inv (b\<lparr>mContainer := ws\<rparr>)" by blast
  have n: "sub64 (bits_size b) (Suc 0) = ?n - Suc 0" "?n - 1 \<le> most_bits"
    using length_bits_le [OF inv] p by (auto simp: bits_size [OF inv] sub64)
  have "bits_erase (at_bit (int p)) b = Inr (bits_resize (?n - 1) (b\<lparr>mContainer := ws\<rparr>))"
    using ws(1) p by (simp add: bits_erase_def bits_end [OF inv] n add.commute)
  moreover have "bits (bits_resize (?n - 1) (b\<lparr>mContainer := ws\<rparr>)) = take p (bits b) @ drop (Suc p) (bits b)"
    using bits_resize_smaller [OF _ ws(3), of "?n - 1"] moved_erase [of p 1 "bits b"] p by (simp add: ws(2))
  ultimately show ?thesis using bits_resize(1) [OF n(2) ws(3)] by blast
qed

theorem bits_erase_range:
  assumes inv: "bits_inv b" and p: "p \<le> q" "q \<le> length (bits b)"
  shows "\<exists>b'. bits_erase_range (at_bit (int p)) (at_bit (int q)) b = Inr b'
    \<and> bits b' = take p (bits b) @ drop q (bits b) \<and> bits_inv b'"
proof (cases "p = q")
  case True
  with inv show ?thesis by (auto simp: bits_erase_range_def)
next
  case False
  let ?n = "length (bits b)"
  have le: "q + (?n - q) \<le> ?n" "p + (?n - q) \<le> ?n" using p by auto
  from bits_MoveBits [OF inv le] obtain ws where
    ws: "MoveBits (mContainer b) (at_bit (int q)) (at_bit (int (q + (?n - q)))) (at_bit (int p)) = Inr ws"
      "bits (b\<lparr>mContainer := ws\<rparr>) = moved q (?n - q) p (bits b)" "bits_inv (b\<lparr>mContainer := ws\<rparr>)" by blast
  let ?k = "?n - (q - p)"
  have n: "sub64 (bits_size b) (nat (int q - int p)) = ?k" "?k \<le> most_bits"
    using length_bits_le [OF inv] p by (auto simp: bits_size [OF inv] sub64 nat_diff_distrib)
  have "bits_erase_range (at_bit (int p)) (at_bit (int q)) b = Inr (bits_resize ?k (b\<lparr>mContainer := ws\<rparr>))"
    using ws(1) p False by (simp add: bits_erase_range_def bits_end [OF inv] n)
  moreover have "bits (bits_resize ?k (b\<lparr>mContainer := ws\<rparr>)) = take p (bits b) @ drop q (bits b)"
    using bits_resize_smaller [OF _ ws(3), of ?k] moved_erase [of p "q - p" "bits b"] p by (simp add: ws(2))
  ultimately show ?thesis using bits_resize(1) [OF n(2) ws(3)] by blast
qed

lemma bits_test: "bits_inv b \<Longrightarrow> bits_test n d b = Inr (if n < length (bits b) then bits b ! n else d)"
  by (simp add: bits_test_def bits_size bits_get)

lemma bits_set:
  assumes "bits_inv b" "n < most_bits"
  shows "\<exists>b'. bits_set n v b = Inr b' \<and> bits_inv b' \<and> length (bits b') = max (length (bits b)) (Suc n) \<and> bits b' ! n = v
    \<and> (\<forall>i < length (bits b). i \<noteq> n \<longrightarrow> bits b' ! i = bits b ! i)"
proof -
  define c where "c = (if bits_size b \<le> n then bits_resize (wrap64 (n + 1)) b else b)"
  have c: "bits_inv c" "length (bits c) = max (length (bits b)) (Suc n)" "take (length (bits b)) (bits c) = bits b"
    using bits_resize [OF _ assms(1), of "Suc n"] assms by (auto simp: c_def bits_size)
  then have "n < length (bits c)" by simp
  from bits_put [OF c(1) this, of v] obtain b' where "bits_put c n v = Inr b'" "bits b' = (bits c)[n := v]" "bits_inv b'" .
  moreover have "bits c ! i = bits b ! i" if "i < length (bits b)" for i
    using that c(3) by (metis nth_take)
  ultimately show ?thesis using c(2) by (intro exI [of _ b']) (auto simp: bits_set_def simp flip: c_def)
qed

section \<open>The container in storage\<close>

text \<open>The list of words stands for an \<^verbatim>\<open>eastl::vector\<close> of words: what the operations do to the list,
  the vector does in its storage.\<close>

lemma container_in_storage:
  assumes "vector_in h v ws" "heap_ok h" "length ws < 2 ^ 63" "n < 2 ^ 63"
  shows "\<exists>h' v'. vec_resize n (Temp element) v h = Inr (v', h') \<and> becomes h v h' v' (resize_words n element ws)"
    and "\<exists>h' v'. pushBack (Temp element) v h = Inr (v', h') \<and> becomes h v h' v' (ws @ [element])"
    and "ws \<noteq> [] \<Longrightarrow> \<exists>h' v'. popBack v h = Inr (v', h') \<and> becomes h v h' v' (butlast ws)"
proof -
  have "take n ws @ replicate (n - length ws) element = resize_words n element ws"
    by (auto simp: resize_words_def)
  with vec_resize_ok [OF assms(1-4), of "Temp element" element]
  show "\<exists>h' v'. vec_resize n (Temp element) v h = Inr (v', h') \<and> becomes h v h' v' (resize_words n element ws)"
    by (simp add: outside_def)
  show "\<exists>h' v'. pushBack (Temp element) v h = Inr (v', h') \<and> becomes h v h' v' (ws @ [element])"
    using pushBack_ok [OF assms(1-3), of "Temp element" element] by (simp add: outside_def)
qed (rule popBack_ok [OF assms(1,2)])

end
