(* ===== verification/Command_Bits.thy ===== *)
theory Command_Bits
  imports Eastl_Bitvector Scan_Directories Command_Merge
begin

text \<open>
  The bit vectors of \<^verbatim>\<open>commands/scandirectories.cpp\<close> and \<^verbatim>\<open>commands/mergelist.cpp\<close>. The
  other theories compute the marks of the commands on lists; here the loops run on
  \<^verbatim>\<open>eastl::bitvector\<close>. What they need of it is the locale \<open>bit_sequence\<close>, which the bit vector and
  the list with checked access both satisfy.
\<close>

section \<open>The loops\<close>

fun mark_with ::
    "('b \<Rightarrow> nat \<Rightarrow> bool \<Rightarrow> 'b result) \<Rightarrow> string list \<Rightarrow> string list \<Rightarrow> nat \<Rightarrow> 'b \<times> 'b \<Rightarrow> ('b \<times> 'b) result" where
  "mark_with store [] new i (newBits, oldBits) = Inr (newBits, oldBits)"
| "mark_with store (r # rs) new i (newBits, oldBits) =
     (case first_match r new 0 of
        None \<Rightarrow> mark_with store rs new (Suc i) (newBits, oldBits)
      | Some j \<Rightarrow>
          and_then (store newBits j True) (\<lambda>newBits.
          and_then (store oldBits i True) (\<lambda>oldBits.
            mark_with store rs new (Suc i) (newBits, oldBits))))"

text \<open>The elements whose bit is \<open>v\<close>.\<close>

fun elements_with :: "('b \<Rightarrow> nat \<Rightarrow> bool result) \<Rightarrow> bool \<Rightarrow> 'a list \<Rightarrow> nat \<Rightarrow> 'b \<Rightarrow> 'a list result" where
  "elements_with fetch v [] i bs = Inr []"
| "elements_with fetch v (x # xs) i bs =
     and_then (fetch bs i) (\<lambda>b.
     and_then (elements_with fetch v xs (Suc i) bs) (\<lambda>ys. Inr (if b = v then x # ys else ys)))"

definition scan_marks :: "string list \<Rightarrow> string list \<Rightarrow> (string list \<times> string list) result" where
  "scan_marks newGitRepositories gitRepositories =
     and_then (bits_resize_value (length newGitRepositories) False bits_empty) (\<lambda>newRepoBits.
     and_then (bits_resize_value (length gitRepositories) False bits_empty) (\<lambda>oldRepoBits.
     and_then (mark_with bits_put gitRepositories newGitRepositories 0 (newRepoBits, oldRepoBits)) (\<lambda>(newRepoBits, oldRepoBits).
     and_then (elements_with bits_get False newGitRepositories 0 newRepoBits) (\<lambda>added.
     and_then (elements_with bits_get False gitRepositories 0 oldRepoBits) (\<lambda>deleted.
       Inr (added, deleted))))))"

fun unmark_known ::
    "('b \<Rightarrow> nat \<Rightarrow> bool \<Rightarrow> 'b result) \<Rightarrow> (string \<times> string) list \<Rightarrow> string list \<Rightarrow> nat \<Rightarrow> 'b \<Rightarrow> 'b result" where
  "unmark_known store [] repos i newRepoBits = Inr newRepoBits"
| "unmark_known store (x # xs) repos i newRepoBits =
     (if first_match (fst x) repos 0 = None then unmark_known store xs repos (Suc i) newRepoBits
      else and_then (store newRepoBits i False) (unmark_known store xs repos (Suc i)))"

definition merge_marks :: "(string \<times> string) list \<Rightarrow> string list \<Rightarrow> (string \<times> string) list result" where
  "merge_marks toMergeRepositories repos =
     and_then (bits_resize_value (length toMergeRepositories) True bits_empty) (\<lambda>newRepoBits.
     and_then (unmark_known bits_put toMergeRepositories repos 0 newRepoBits) (\<lambda>newRepoBits.
       elements_with bits_get True toMergeRepositories 0 newRepoBits))"

section \<open>What the loops need of a bit vector\<close>

locale bit_sequence =
  fixes fetch :: "'b \<Rightarrow> nat \<Rightarrow> bool result"
    and store :: "'b \<Rightarrow> nat \<Rightarrow> bool \<Rightarrow> 'b result"
    and list :: "'b \<Rightarrow> bool list"
    and invar :: "'b \<Rightarrow> bool"
  assumes fetch: "invar b \<Longrightarrow> n < length (list b) \<Longrightarrow> fetch b n = Inr (list b ! n)"
    and store: "invar b \<Longrightarrow> n < length (list b) \<Longrightarrow> \<exists>b'. store b n v = Inr b' \<and> list b' = (list b)[n := v] \<and> invar b'"
begin

lemma mark:
  "invar a \<Longrightarrow> invar b \<Longrightarrow> length new = length (list a) \<Longrightarrow> i + length old \<le> length (list b) \<Longrightarrow>
   \<exists>a' b'. mark_with store old new i (a, b) = Inr (a', b') \<and> invar a' \<and> invar b'
     \<and> mark_repos old new i (list a, list b) = (list a', list b')"
proof (induction old arbitrary: i a b)
  case (Cons r rs)
  show ?case
  proof (cases "first_match r new 0")
    case None
    with Cons.IH [of a b "Suc i"] Cons.prems show ?thesis by auto
  next
    case (Some j)
    then have "j < length (list a)" using Cons.prems(3) by (simp add: first_match_Some)
    from store [OF Cons.prems(1) this, of True] obtain a' where
      a': "store a j True = Inr a'" "list a' = (list a)[j := True]" "invar a'" by blast
    have "i < length (list b)" using Cons.prems(4) by simp
    from store [OF Cons.prems(2) this, of True] obtain b' where
      b': "store b i True = Inr b'" "list b' = (list b)[i := True]" "invar b'" by blast
    from Cons.IH [OF a'(3) b'(3), of "Suc i"] Cons.prems(3,4) a'(2) b'(2) obtain a'' b'' where
      "mark_with store rs new (Suc i) (a', b') = Inr (a'', b'')" "invar a''" "invar b''"
      "mark_repos rs new (Suc i) ((list a)[j := True], (list b)[i := True]) = (list a'', list b'')" by auto
    with Some a'(1) b'(1) show ?thesis by simp
  qed
qed simp

lemma elements:
  "invar b \<Longrightarrow> i + length xs \<le> length (list b) \<Longrightarrow>
   elements_with fetch v xs i b = Inr (map fst (filter (\<lambda>(x, w). w = v) (zip xs (drop i (list b)))))"
proof (induction xs arbitrary: i)
  case (Cons x xs)
  then have "i < length (list b)" by simp
  then have "drop i (list b) = list b ! i # drop (Suc i) (list b)" by (simp add: Cons_nth_drop_Suc)
  with Cons \<open>i < length (list b)\<close> show ?case by (simp add: fetch)
qed simp

lemma unmark:
  "invar b \<Longrightarrow> i + length xs \<le> length (list b) \<Longrightarrow>
   \<exists>b'. unmark_known store xs repos i b = Inr b' \<and> invar b' \<and> length (list b') = length (list b)
     \<and> take i (list b') = take i (list b)
     \<and> (\<forall>k < length xs. list b' ! (i + k) = (if fst (xs ! k) \<in> set repos then False else list b ! (i + k)))"
proof (induction xs arbitrary: i b)
  case (Cons x xs)
  define keep where "keep = (first_match (fst x) repos 0 = None)"
  have i: "i < length (list b)" using Cons.prems(2) by simp
  from store [OF Cons.prems(1) i, of False] obtain c where
    c: "store b i False = Inr c" "list c = (list b)[i := False]" "invar c" by blast
  define d where "d = (if keep then b else c)"
  have d: "invar d" "length (list d) = length (list b)" "take i (list d) = take i (list b)"
      "list d ! i = (if fst x \<in> set repos then False else list b ! i)" "\<And>k. i < k \<Longrightarrow> list d ! k = list b ! k"
    using Cons.prems(1) c i by (auto simp: d_def keep_def first_match_None)
  have run: "unmark_known store (x # xs) repos i b = unmark_known store xs repos (Suc i) d"
    using c(1) by (simp add: d_def keep_def)
  from Cons.IH [OF d(1), of "Suc i"] Cons.prems(2) d(2) obtain b' where
    b': "unmark_known store xs repos (Suc i) d = Inr b'" "invar b'" "length (list b') = length (list d)"
      "take (Suc i) (list b') = take (Suc i) (list d)"
      "\<forall>k < length xs. list b' ! (Suc i + k) = (if fst (xs ! k) \<in> set repos then False else list d ! (Suc i + k))" by auto
  have "list b' ! i = list d ! i" "take i (list b') = take i (list d)"
    using arg_cong [OF b'(4), of "\<lambda>l. l ! i"] arg_cong [OF b'(4), of "take i"] i d(2) b'(3) by simp_all
  with b' d show ?case unfolding run by (auto simp: nth_Cons split: nat.split)
qed simp

end

interpretation bitvector: bit_sequence bits_get bits_put bits bits_inv
  by unfold_locales (auto simp: bits_get elim: bits_put)

interpretation checked_list: bit_sequence array_get array_set "\<lambda>xs. xs" "\<lambda>xs. True"
  by unfold_locales auto

section \<open>The marks of the commands\<close>

lemma bits_empty: "bits_inv bits_empty" "bits bits_empty = []"
  by (simp_all add: bits_empty_def bits_inv_def bits_def)

lemma bits_filled:
  assumes "n \<le> most_bits"
  obtains b where "bits_resize_value n v bits_empty = Inr b" "bits b = replicate n v" "bits_inv b"
  using bits_resize_value [OF bits_empty(1) assms, of v] by (auto simp: bits_empty(2))

theorem scan_marks_lists:
  assumes "length new \<le> most_bits" "length old \<le> most_bits"
    "mark_repos old new 0 (replicate (length new) False, replicate (length old) False) = (a, b)"
  shows "scan_marks new old = Inr (unmarked new a, unmarked old b)"
proof -
  obtain u where u: "bits_resize_value (length new) False bits_empty = Inr u" "bits u = replicate (length new) False" "bits_inv u"
    using bits_filled [OF assms(1)] .
  obtain w where w: "bits_resize_value (length old) False bits_empty = Inr w" "bits w = replicate (length old) False" "bits_inv w"
    using bits_filled [OF assms(2)] .
  from bitvector.mark [OF u(3) w(3), of new 0 old] u(2) w(2) assms(3) obtain u' w' where
    m: "mark_with bits_put old new 0 (u, w) = Inr (u', w')" "bits_inv u'" "bits_inv w'" "bits u' = a" "bits w' = b" by auto
  have "length a = length new" "length b = length old" using mark_repos_length [OF assms(3)] by simp_all
  with bitvector.elements [OF m(2), of 0 new False] bitvector.elements [OF m(3), of 0 old False] m(4,5) show ?thesis
    by (simp add: scan_marks_def u(1) w(1) m(1) unmarked_def)
qed

theorem merge_marks_lists:
  assumes "length items \<le> most_bits"
  shows "merge_marks items repos = Inr (selected items (new_repo_bits items repos))"
proof -
  obtain u where u: "bits_resize_value (length items) True bits_empty = Inr u" "bits u = replicate (length items) True" "bits_inv u"
    using bits_filled [OF assms] .
  from bitvector.unmark [OF u(3), of 0 items repos] u(2) obtain u' where
    m: "unmark_known bits_put items repos 0 u = Inr u'" "bits_inv u'" "length (bits u') = length items"
      "\<forall>k < length items. bits u' ! k = (fst (items ! k) \<notin> set repos)" by auto
  have "bits u' = new_repo_bits items repos"
  proof -
    have "new_repo_bits items repos = map (\<lambda>x. fst x \<notin> set repos) items"
      by (induction items) (simp_all add: first_match_None)
    with m(3,4) show ?thesis by (intro nth_equalityI) simp_all
  qed
  with bitvector.elements [OF m(2), of 0 items True] m(3) show ?thesis
    by (simp add: merge_marks_def u(1) m(1) selected_def case_prod_unfold)
qed

end
