(* ===== verification/Any_Option_File.thy ===== *)
theory Any_Option_File
  imports Any_Option_Spec
begin

text \<open>
  The option files of \<^verbatim>\<open>src/extlibs/anyoption/anyoption.cpp\<close>: a file is split into lines, a line
  into a name and a value, and blanks are removed in place. The buffer of a line is a list of characters;
  what is read in front of it is a fault. The lemmas give the assignments a file makes, and what is lost on
  the way.
\<close>

section \<open>Settings\<close>

definition setFileCommentChar :: "char \<Rightarrow> any_option \<Rightarrow> any_option" where
  "setFileCommentChar c opt = opt\<lparr>file_delimiter_char := c\<rparr>"

definition setFileDelimiterChar :: "char \<Rightarrow> any_option \<Rightarrow> any_option" where
  "setFileDelimiterChar c opt = opt\<lparr>file_comment_char := c\<rparr>"

definition setCommandPrefixChar :: "char \<Rightarrow> any_option \<Rightarrow> any_option" where
  "setCommandPrefixChar c opt = opt\<lparr>opt_prefix_char := c\<rparr>"

definition setCommandLongPrefix :: "string \<Rightarrow> any_option \<Rightarrow> any_option" where
  "setCommandLongPrefix s opt = opt\<lparr>long_opt_prefix := (if 2 < length s then take 2 s else s)\<rparr>"

definition noPOSIX :: "any_option \<Rightarrow> any_option" where
  "noPOSIX opt = opt\<lparr>posix_style := False\<rparr>"

definition setVerbose :: "any_option \<Rightarrow> any_option" where
  "setVerbose opt = opt\<lparr>verbose := True\<rparr>"

definition autoUsagePrint :: "bool \<Rightarrow> any_option \<Rightarrow> any_option" where
  "autoUsagePrint b opt = opt\<lparr>autousage := b\<rparr>"

definition useFiileName :: "string \<Rightarrow> any_option \<Rightarrow> any_option" where
  "useFiileName f opt = opt\<lparr>option_filename := Some f, file_set := True\<rparr>"

section \<open>Lines\<close>

definition rstrip :: "char \<Rightarrow> string \<Rightarrow> string" where
  "rstrip w s = rev (dropWhile (\<lambda>c. c = w) (rev s))"

text \<open>
  \<^verbatim>\<open>chomp\<close> on the string \<open>s\<close> that has \<open>before\<close> in front of it in its buffer: the string it returns, and
  what the pointer it was given points to afterwards. On a string of blanks the search for the last other
  character goes on in front of the string.
\<close>

definition chomp :: "char \<Rightarrow> string \<Rightarrow> string \<Rightarrow> (string \<times> string) result" where
  "chomp w before s =
     (let str = dropWhile (\<lambda>c. c = w) s
      in if str \<noteq> [] then Inr (rstrip w str, rstrip w s)
         else if list_all (\<lambda>c. c = w) before then Inl Out_Of_Bounds
         else Inr ([], if last before = w then s else []))"

definition file_option_type :: "nat \<Rightarrow> bool" where
  "file_option_type t \<longleftrightarrow> t = COMMON_OPT \<or> t = FILE_OPT"

definition file_flag_type :: "nat \<Rightarrow> bool" where
  "file_flag_type t \<longleftrightarrow> t = COMMON_FLAG \<or> t = FILE_FLAG"

text \<open>The two loops over the tables: the first entry with the name and a type that counts.\<close>

definition has_char :: "(nat \<Rightarrow> bool) \<Rightarrow> char \<Rightarrow> any_option \<Rightarrow> bool result" where
  "has_char p c opt =
     and_then (search (\<lambda>i. and_then (char_is opt c i) (\<lambda>b.
                 if b then and_then (array_get (optchartype opt) i) (\<lambda>t. Inr (p t)) else Inr False))
               [0..<optchar_counter opt]) (\<lambda>r. Inr (r \<noteq> None))"

definition has_name :: "(nat \<Rightarrow> bool) \<Rightarrow> string \<Rightarrow> any_option \<Rightarrow> bool result" where
  "has_name p name opt =
     and_then (search (\<lambda>i. and_then (name_is opt name i) (\<lambda>b.
                 if b then and_then (array_get (optiontype opt) i) (\<lambda>t. Inr (p t)) else Inr False))
               [0..<option_counter opt]) (\<lambda>r. Inr (r \<noteq> None))"

definition unknown_in_file :: "string \<Rightarrow> any_option \<Rightarrow> any_option" where
  "unknown_in_file type opt = print_verbose (''Unknown option in resource file : '' @ type @ [CHR 0x0A]) opt"

definition valuePairs :: "string \<Rightarrow> string \<Rightarrow> string \<Rightarrow> any_option \<Rightarrow> any_option result" where
  "valuePairs type before value_text opt =
     and_then (chomp (whitespace opt) [] type) (\<lambda>(chomped, type).
     and_then (if length chomped = 1 then has_char file_option_type (hd type) opt else Inr False) (\<lambda>m.
       if m then
         and_then (chomp (whitespace opt) before value_text) (\<lambda>(v, _).
         and_then (setValueChar (hd type) v opt) (\<lambda>(b, opt). Inr opt))
       else
         and_then (has_name file_option_type type opt) (\<lambda>m.
           if m then
             and_then (chomp (whitespace opt) before value_text) (\<lambda>(v, _).
             and_then (setValue type v opt) (\<lambda>(b, opt). Inr opt))
           else Inr (unknown_in_file type opt))))"

definition justValue :: "string \<Rightarrow> any_option \<Rightarrow> any_option result" where
  "justValue type opt =
     and_then (chomp (whitespace opt) [] type) (\<lambda>(chomped, type).
     and_then (if length chomped = 1 then has_char file_flag_type (hd type) opt else Inr False) (\<lambda>m.
       if m then and_then (setFlagOnChar (hd type) opt) (\<lambda>(b, opt). Inr opt)
       else
         and_then (has_name file_flag_type type opt) (\<lambda>m.
           if m then and_then (setFlagOn type opt) (\<lambda>(b, opt). Inr opt)
           else Inr (unknown_in_file type opt))))"

text \<open>
  The search for the delimiter stops two characters before the end of the line, and the character in
  front of the delimiter is overwritten with a zero.
\<close>

definition delimiter_at :: "char \<Rightarrow> string \<Rightarrow> nat option" where
  "delimiter_at d line = find (\<lambda>i. line ! i = d) [0..<length line - 2]"

definition processLine :: "string \<Rightarrow> any_option \<Rightarrow> any_option result" where
  "processLine line opt =
     (if line = [] then Inl Out_Of_Bounds
      else if hd line = delimiter_char opt \<or> last line = delimiter_char opt then justValue line opt
      else
        (case delimiter_at (delimiter_char opt) line of
           None \<Rightarrow> justValue line opt
         | Some k \<Rightarrow>
             valuePairs (take (k - 1) line) (take (k - 1) line @ [NUL, delimiter_char opt]) (drop (k + 1) line) opt))"

section \<open>Files\<close>

text \<open>
  The scan of the buffer: whether the next character starts a line, and the characters of the line so far
  (\<open>None\<close> in a comment or between lines).
\<close>

fun consume_from :: "bool \<Rightarrow> string option \<Rightarrow> string \<Rightarrow> any_option \<Rightarrow> any_option result" where
  "consume_from newline pline [] opt = Inr opt"
| "consume_from newline pline (c # cs) opt =
     (if c = endofline opt then
        and_then (case pline of None \<Rightarrow> Inr opt | Some line \<Rightarrow> processLine line opt) (consume_from True None cs)
      else if newline then consume_from False (if c = comment_char opt then None else Some [c]) cs opt
      else consume_from False (map_option (\<lambda>line. line @ [c]) pline) cs opt)"

definition consumeFile :: "string option \<Rightarrow> any_option \<Rightarrow> (bool \<times> any_option) result" where
  "consumeFile buffer opt =
     (case buffer of
        None \<Rightarrow> Inr (False, opt)
      | Some text \<Rightarrow> and_then (consume_from True None (c_str text) opt) (\<lambda>opt. Inr (True, opt)))"

definition processFile :: "(string \<Rightarrow> string option) \<Rightarrow> any_option \<Rightarrow> (bool \<times> any_option) result" where
  "processFile fs opt =
     (let (ok, opt) = valueStoreOK opt in
      if \<not> (ok \<and> file_set opt) then Inr (False, opt)
      else
        (case option_filename opt of
           None \<Rightarrow> Inl Null_Pointer
         | Some f \<Rightarrow> consumeFile (fs f) opt))"

definition processFile_name :: "(string \<Rightarrow> string option) \<Rightarrow> string \<Rightarrow> any_option \<Rightarrow> (bool \<times> any_option) result" where
  "processFile_name fs f opt = processFile fs (useFiileName f opt)"

section \<open>The assignments of a file\<close>

abbreviation (input) blank :: char where "blank \<equiv> CHR '' ''"

definition strip :: "string \<Rightarrow> string" where
  "strip s = rstrip blank (dropWhile (\<lambda>c. c = blank) s)"

definition has_entry :: "(nat \<Rightarrow> bool) \<Rightarrow> 'n \<Rightarrow> 'n entry list \<Rightarrow> bool" where
  "has_entry p n es \<longleftrightarrow> list_ex (\<lambda>(m, t, k). m = n \<and> p t) es"

text \<open>The name is not stripped in front, except to tell whether it is a single character.\<close>

definition spec_entry :: "(nat \<Rightarrow> bool) \<Rightarrow> string entry list \<Rightarrow> char entry list \<Rightarrow> string \<Rightarrow> string \<Rightarrow> assigns" where
  "spec_entry p L C name v =
     (let name' = rstrip blank name
      in if length (strip name) = 1 \<and> has_entry p (hd name') C then assign_slot (lookup_slot (hd name') C) v
         else if has_entry p name' L then assign_slot (lookup_slot name' L) v
         else [])"

definition name_part :: "string \<Rightarrow> string" where
  "name_part line =
     (if hd line = CHR '':'' \<or> last line = CHR '':'' then line
      else (case delimiter_at (CHR '':'') line of None \<Rightarrow> line | Some k \<Rightarrow> take (k - 1) line))"

definition spec_file_line :: "string entry list \<Rightarrow> char entry list \<Rightarrow> string \<Rightarrow> assigns" where
  "spec_file_line L C line =
     (if hd line = CHR '':'' \<or> last line = CHR '':'' then spec_entry file_flag_type L C line TRUE_FLAG
      else
        (case delimiter_at (CHR '':'') line of
           None \<Rightarrow> spec_entry file_flag_type L C line TRUE_FLAG
         | Some k \<Rightarrow> spec_entry file_option_type L C (take (k - 1) line) (strip (drop (k + 1) line))))"

definition file_line :: "string \<Rightarrow> bool" where
  "file_line line \<longleftrightarrow> line \<noteq> [] \<and> hd line \<noteq> CHR ''#''"

definition line_ok :: "string \<Rightarrow> bool" where
  "line_ok line \<longleftrightarrow> line \<noteq> [] \<and> list_ex (\<lambda>c. c \<noteq> blank) (name_part line)"

definition file_ready :: "any_option \<Rightarrow> bool" where
  "file_ready opt \<longleftrightarrow>
     ready opt \<and> comment_char opt = CHR ''#'' \<and> delimiter_char opt = CHR '':'' \<and> endofline opt = CHR 0x0A
   \<and> whitespace opt = blank"

lemma file_ready_assigning [simp]: "file_ready opt \<Longrightarrow> file_ready (assigning as opt)"
  by (simp add: file_ready_def) (simp add: assigning_def)

lemma list_ex_find: "list_ex P xs \<longleftrightarrow> find P xs \<noteq> None"
  by (induction xs) auto

lemma has_char_ok:
  assumes "ready opt"
  shows "has_char p c opt = Inr (has_entry p c (char_entries opt))"
proof -
  let ?q = "\<lambda>i. optionchars opt ! i = c \<and> p (optchartype opt ! i)"
  have "search (\<lambda>i. and_then (char_is opt c i) (\<lambda>b.
         if b then and_then (array_get (optchartype opt) i) (\<lambda>t. Inr (p t)) else Inr False))
       [0..<optchar_counter opt] = Inr (find ?q [0..<optchar_counter opt])"
    by (rule search_find) (use ready_storage [OF assms] in \<open>auto simp: char_is_ok storage_ok_def\<close>)
  moreover have "has_entry p c (char_entries opt) \<longleftrightarrow> find ?q [0..<optchar_counter opt] \<noteq> None"
    by (simp add: has_entry_def list_ex_find char_entries_def find_map)
  ultimately show ?thesis by (simp add: has_char_def)
qed

lemma has_name_ok:
  assumes "ready opt"
  shows "has_name p name opt = Inr (has_entry p name (long_entries opt))"
proof -
  let ?q = "\<lambda>i. the (options opt ! i) = name \<and> p (optiontype opt ! i)"
  have "search (\<lambda>i. and_then (name_is opt name i) (\<lambda>b.
         if b then and_then (array_get (optiontype opt) i) (\<lambda>t. Inr (p t)) else Inr False))
       [0..<option_counter opt] = Inr (find ?q [0..<option_counter opt])"
    by (rule search_find) (use ready_storage [OF assms] in \<open>auto simp: name_is_ok storage_ok_def\<close>)
  moreover have "has_entry p name (long_entries opt) \<longleftrightarrow> find ?q [0..<option_counter opt] \<noteq> None"
    by (simp add: has_entry_def list_ex_find long_entries_def find_map)
  ultimately show ?thesis by (simp add: has_name_def)
qed

lemma unknown_in_file_ready: "ready opt \<Longrightarrow> unknown_in_file s opt = opt"
  by (simp add: unknown_in_file_def print_verbose_def ready_def)

lemma chomp_name: "list_ex (\<lambda>c. c \<noteq> blank) s \<Longrightarrow> chomp blank b s = Inr (strip s, rstrip blank s)"
  by (auto simp: chomp_def strip_def Let_def list_ex_iff)

lemma chomp_value: "chomp blank (b @ [CHR '':'']) s = Inr (strip s, snd (projr (chomp blank (b @ [CHR '':'']) s)))"
  by (auto simp: chomp_def strip_def rstrip_def Let_def dest: set_dropWhileD)

lemma justValue_ok:
  assumes "file_ready opt" "list_ex (\<lambda>c. c \<noteq> blank) s"
  shows "justValue s opt = Inr (assigning (spec_entry file_flag_type (long_entries opt) (char_entries opt) s TRUE_FLAG) opt)"
  using assms(1)
  by (auto simp: justValue_def file_ready_def chomp_name [OF assms(2)] has_char_ok has_name_ok setValue_ok spec_entry_def
      unknown_in_file_ready Let_def)

lemma valuePairs_ok:
  assumes "file_ready opt" "list_ex (\<lambda>c. c \<noteq> blank) s"
  shows "valuePairs s (b @ [CHR '':'']) v opt
    = Inr (assigning (spec_entry file_option_type (long_entries opt) (char_entries opt) s (strip v)) opt)"
proof -
  obtain u where "chomp blank (b @ [CHR '':'']) v = Inr (strip v, u)" using chomp_value by blast
  with assms(1) show ?thesis
    by (auto simp: valuePairs_def file_ready_def chomp_name [OF assms(2)] has_char_ok has_name_ok setValue_ok spec_entry_def
        unknown_in_file_ready Let_def)
qed

lemma processLine_ok:
  assumes "file_ready opt" "line_ok line"
  shows "processLine line opt = Inr (assigning (spec_file_line (long_entries opt) (char_entries opt) line) opt)"
  using assms valuePairs_ok [OF assms(1), where b = "u @ [NUL]" for u]
  by (auto simp: processLine_def spec_file_line_def line_ok_def name_part_def justValue_ok file_ready_def
      split: option.splits if_splits)

text \<open>The characters of a line, up to its end.\<close>

lemma consume_line:
  "CHR 0x0A \<notin> set cs \<Longrightarrow> file_ready opt \<Longrightarrow>
   consume_from False pline (cs @ CHR 0x0A # ds) opt
     = and_then (case pline of None \<Rightarrow> Inr opt | Some line \<Rightarrow> processLine (line @ cs) opt) (consume_from True None ds)"
  by (induction cs arbitrary: pline) (auto simp: file_ready_def split: option.splits)

lemma consume_rest: "CHR 0x0A \<notin> set cs \<Longrightarrow> file_ready opt \<Longrightarrow> consume_from b pline cs opt = Inr opt"
  by (induction cs arbitrary: b pline) (auto simp: file_ready_def)

lemma consume_lines:
  assumes "CHR 0x0A \<notin> set rest"
  shows "file_ready opt \<Longrightarrow> \<forall>l \<in> set ls. CHR 0x0A \<notin> set l \<Longrightarrow> \<forall>l \<in> set ls. file_line l \<longrightarrow> line_ok l \<Longrightarrow>
   consume_from True None (concat (map (\<lambda>l. l @ [CHR 0x0A]) ls) @ rest) opt
     = Inr (assigning (concat (map (spec_file_line (long_entries opt) (char_entries opt)) (filter file_line ls))) opt)"
proof (induction ls arbitrary: opt)
  case Nil
  then show ?case using assms by (simp add: consume_rest file_ready_def)
next
  case (Cons l ls)
  let ?ds = "concat (map (\<lambda>l. l @ [CHR 0x0A]) ls) @ rest"
  have "consume_from True None (l @ CHR 0x0A # ?ds) opt
      = consume_from True None ?ds (if file_line l then assigning (spec_file_line (long_entries opt) (char_entries opt) l) opt else opt)"
  proof (cases l)
    case Nil
    with Cons.prems(1) show ?thesis by (simp add: file_line_def file_ready_def)
  next
    case (Cons c cs)
    with Cons.prems consume_line [of cs opt "if c = CHR ''#'' then None else Some [c]" ?ds] show ?thesis
      by (auto simp: file_line_def file_ready_def processLine_ok)
  qed
  with Cons show ?case by (auto simp: comp_def)
qed

theorem processFile_ok:
  assumes ready: "file_ready opt" and source: "file_set opt" "option_filename opt = Some f" "fs f = Some content"
    and lines: "c_str content = concat (map (\<lambda>l. l @ [CHR 0x0A]) ls) @ rest" "CHR 0x0A \<notin> set rest"
      "\<forall>l \<in> set ls. CHR 0x0A \<notin> set l"
    and ok: "\<forall>l \<in> set ls. file_line l \<longrightarrow> line_ok l"
  shows "processFile fs opt = Inr (True,
    assigning (concat (map (spec_file_line (long_entries opt) (char_entries opt)) (filter file_line ls))) opt)"
  using ready source consume_lines [OF lines(2) ready lines(3) ok]
  by (simp add: processFile_def consumeFile_def lines(1) file_ready_def)

text \<open>From registered options to the values a caller reads.\<close>

definition file_syntax :: "any_option \<Rightarrow> bool" where
  "file_syntax opt \<longleftrightarrow>
     comment_char opt = CHR ''#'' \<and> delimiter_char opt = CHR '':'' \<and> endofline opt = CHR 0x0A \<and> whitespace opt = blank"

lemma file_syntax_AnyOption: "file_syntax AnyOption"
  by (simp add: file_syntax_def AnyOption_def init_option_def)

lemma file_syntax_addOption: "addOption s t opt = Inr opt' \<Longrightarrow> file_syntax opt \<Longrightarrow> file_syntax opt'"
  by (auto simp: addOption_def file_syntax_def doubleOptStorage_def Let_def result_simps split: if_splits)

lemma file_syntax_addCharOption: "addCharOption c t opt = Inr opt' \<Longrightarrow> file_syntax opt \<Longrightarrow> file_syntax opt'"
  by (auto simp: addCharOption_def file_syntax_def doubleCharStorage_def print_verbose_def Let_def result_simps split: if_splits)

lemma file_syntax_set_entry: "set_entry t name c opt = Inr opt' \<Longrightarrow> file_syntax opt \<Longrightarrow> file_syntax opt'"
proof -
  assume "file_syntax opt" "set_entry t name c opt = Inr opt'"
  then obtain a b where "(case name of Some s \<Rightarrow> addOption s t opt | None \<Rightarrow> Inr opt) = Inr a"
    "(case c of Some ch \<Rightarrow> addCharOption ch t a | None \<Rightarrow> Inr a) = Inr b" "opt' = count_value b"
    by (auto simp: set_entry_def result_simps)
  with \<open>file_syntax opt\<close> show "file_syntax opt'"
    using file_syntax_addOption file_syntax_addCharOption
    by (auto simp: file_syntax_def count_value_def split: option.splits)
qed

theorem processFile_values:
  assumes fresh: "fresh opt" "file_syntax opt" "0 < g_value_counter opt" and source: "fs f = Some content"
    and lines: "c_str content = concat (map (\<lambda>l. l @ [CHR 0x0A]) ls) @ rest" "CHR 0x0A \<notin> set rest"
      "\<forall>l \<in> set ls. CHR 0x0A \<notin> set l"
    and ok: "\<forall>l \<in> set ls. file_line l \<longrightarrow> line_ok l"
  shows "\<exists>opt'. processFile_name fs f opt = Inr (True, opt')
    \<and> (\<forall>name. getValue name opt' = Inr (case lookup_slot name (long_entries opt) of None \<Rightarrow> None
        | Some k \<Rightarrow> apply_assigns (concat (map (spec_file_line (long_entries opt) (char_entries opt)) (filter file_line ls)))
            (replicate (g_value_counter opt) None) ! k, opt'))"
proof -
  define opt1 where "opt1 = opt\<lparr>option_filename := Some f, file_set := True,
      opt_values := Some (replicate (g_value_counter opt) None), value_set := True\<rparr>"
  have r: "ready opt1" "file_ready opt1"
    using fresh by (auto simp: opt1_def file_ready_def file_syntax_def ready_def fresh_def storage_ok_def slots_ok_def)
  have e: "long_entries opt1 = long_entries opt" "char_entries opt1 = char_entries opt"
    by (simp_all add: opt1_def long_entries_def char_entries_def)
  let ?as = "concat (map (spec_file_line (long_entries opt) (char_entries opt)) (filter file_line ls))"
  have "processFile_name fs f opt = processFile fs opt1"
    using fresh by (simp add: processFile_name_def processFile_def useFiileName_def valueStoreOK_def opt1_def fresh_def Let_def)
  also have "\<dots> = Inr (True, assigning ?as opt1)"
    using processFile_ok [where f = f and fs = fs and opt = opt1 and content = content and ls = ls and rest = rest] r(2) source lines ok
    unfolding e by (simp add: opt1_def)
  finally have run: "processFile_name fs f opt = Inr (True, assigning ?as opt1)" .
  have "getValue name (assigning ?as opt1) = Inr (case lookup_slot name (long_entries opt) of None \<Rightarrow> None
        | Some k \<Rightarrow> apply_assigns ?as (replicate (g_value_counter opt) None) ! k, assigning ?as opt1)" for name
  proof -
    have "long_entries (assigning ?as opt1) = long_entries opt" by (simp add: e)
    moreover have "the_values (assigning ?as opt1) = apply_assigns ?as (replicate (g_value_counter opt) None)"
      by (simp add: assigning_def the_values_def opt1_def)
    ultimately show ?thesis using getValue_ok(1) [OF ready_assigning [OF r(1)], of name ?as] by (simp only:)
  qed
  with run show ?thesis by blast
qed

section \<open>What is lost\<close>

text \<open>The first delimiter of a line, when it is not among the last two characters.\<close>

lemma delimiter_at_first:
  assumes "d \<notin> set n" "2 \<le> length v"
  shows "delimiter_at d (n @ d # v) = Some (length n)"
  unfolding delimiter_at_def find_Some_iff
  using assms by (intro exI [of _ "length n"]) (auto simp: nth_append)

text \<open>
  The character in front of the delimiter is overwritten: the name of \<open>width:10\<close> is \<open>widt\<close>, and a
  name of one character is empty, so that the search for its last character leaves the buffer.
\<close>

lemma processLine_pair:
  assumes "delimiter_char opt = CHR '':''" "CHR '':'' \<notin> set n" "c \<noteq> CHR '':''" "2 \<le> length v" "last v \<noteq> CHR '':''"
  shows "processLine (n @ c # CHR '':'' # v) opt = valuePairs n (n @ [NUL, CHR '':'']) v opt"
proof -
  have "delimiter_at (CHR '':'') ((n @ [c]) @ CHR '':'' # v) = Some (length (n @ [c]))"
    by (rule delimiter_at_first) (use assms in auto)
  then show ?thesis using assms by (cases n) (auto simp: processLine_def)
qed

theorem pair_loses_character:
  assumes "delimiter_char opt = CHR '':''" "CHR '':'' \<notin> set n" "c \<noteq> CHR '':''" "c' \<noteq> CHR '':''" "2 \<le> length v" "last v \<noteq> CHR '':''"
  shows "processLine (n @ c # CHR '':'' # v) opt = processLine (n @ c' # CHR '':'' # v) opt"
  using assms by (simp add: processLine_pair)

theorem short_name_faults:
  assumes "delimiter_char opt = CHR '':''" "c \<noteq> CHR '':''" "2 \<le> length v" "last v \<noteq> CHR '':''"
  shows "processLine (c # CHR '':'' # v) opt = Inl Out_Of_Bounds"
  using processLine_pair [OF assms(1), of "[]" c v] assms by (simp add: valuePairs_def chomp_def)

theorem blank_line_faults:
  assumes "file_ready opt" "line \<noteq> []" "list_all (\<lambda>c. c = blank) line"
  shows "processLine line opt = Inl Out_Of_Bounds"
proof -
  have "hd line = blank" "last line = blank" using assms(2,3) by (cases line; simp add: list_all_iff)+
  moreover have "line ! i = blank" if "i < length line" for i using assms(3) that by (simp add: list_all_length)
  ultimately have "processLine line opt = justValue line opt"
    using assms(1,2) by (auto simp: processLine_def file_ready_def delimiter_at_def find_None_iff split: option.splits
        dest!: find_Some_mem)
  moreover have "dropWhile (\<lambda>c. c = blank) line = []" using assms(3) by (simp add: list_all_iff)
  ultimately show ?thesis using assms(1) by (simp add: justValue_def chomp_def file_ready_def)
qed

text \<open>The two setters of the file syntax change fields that nothing reads.\<close>

lemma settings_without_effect:
  "comment_char (setFileCommentChar c opt) = comment_char opt" "delimiter_char (setFileDelimiterChar c opt) = delimiter_char opt"
  by (simp_all add: setFileCommentChar_def setFileDelimiterChar_def)

end
