(* ===== verification/Reproc_Stop.thy ===== *)
theory Reproc_Stop
  imports Reproc_Posix
begin

unbundle bit_operations_syntax

text \<open>
  The rest of the child-process library (\<^verbatim>\<open>src/extlibs/reproc/src/c/posix\<close>): writing and closing a
  stream, and \<^verbatim>\<open>reproc_stop\<close> with every flag and timeout. A wait with a timeout starts a second
  child that sleeps, and waits for whichever of the two ends first. The answers of the operating system are
  taken from lists, one for each call; the signals sent are recorded.
\<close>

section \<open>Writing and closing\<close>

text \<open>The answer of \<^verbatim>\<open>write\<close> is the number of bytes written, or it fails; \<open>EPIPE\<close> is the flag.\<close>

datatype write_result = Wrote "32 word" | Write_Broken_Pipe | Write_Fails errno

definition pipe_write :: "write_result \<Rightarrow> 32 word \<Rightarrow> reproc_error \<times> 32 word" where
  "pipe_write r to_write = (case r of
     Write_Broken_Pipe \<Rightarrow> (REPROC_STREAM_CLOSED, 0)
   | Write_Fails EINTR \<Rightarrow> (REPROC_INTERRUPTED, 0)
   | Write_Fails _ \<Rightarrow> (REPROC_UNKNOWN_ERROR, 0)
   | Wrote n \<Rightarrow> (if n \<noteq> to_write then REPROC_PARTIAL_WRITE else REPROC_SUCCESS, n))"

datatype reproc_stream = REPROC_IN | REPROC_OUT | REPROC_ERR

definition reproc_write :: "write_result \<Rightarrow> reproc_type \<Rightarrow> string \<Rightarrow> (reproc_error \<times> 32 word) result" where
  "reproc_write r p buffer =
     (case parent_stdin p of
        None \<Rightarrow> Inl Uninitialised
      | Some fd \<Rightarrow> if fd = 0 then Inl Assertion_Failed else Inr (pipe_write r (word_of_nat (length buffer))))"

definition reproc_close :: "reproc_stream \<Rightarrow> reproc_type \<Rightarrow> reproc_type result" where
  "reproc_close stream p =
     (case stream of
        REPROC_IN \<Rightarrow> and_then (pipe_close (parent_stdin p)) (\<lambda>fd. Inr (p\<lparr>parent_stdin := fd\<rparr>))
      | REPROC_OUT \<Rightarrow> and_then (pipe_close (parent_stdout p)) (\<lambda>fd. Inr (p\<lparr>parent_stdout := fd\<rparr>))
      | REPROC_ERR \<Rightarrow> and_then (pipe_close (parent_stderr p)) (\<lambda>fd. Inr (p\<lparr>parent_stderr := fd\<rparr>)))"

section \<open>System calls\<close>

datatype signal = SIGTERM | SIGKILL

text \<open>What the start of one timer meets: its pipe, the fork, the read of the error pipe and its own calls.\<close>

record timer_trace =
  timer_pipe :: "errno + nat \<times> nat"
  timer_fork :: "errno + int"
  timer_error_read :: read_result
  timer_setpgid :: "errno option"
  timer_reap_ok :: bool

text \<open>
  \<^verbatim>\<open>waitpid\<close> returns the process and its status, 0 when nothing has ended yet, or fails.
  \<open>errno_now\<close> is the error number, \<open>None\<close> after it was set to zero.
\<close>

record stop_os =
  wait_answers :: "(errno + int \<times> wait_status) list"
  kill_answers :: "errno option list"
  timers :: "timer_trace list"
  errno_now :: "errno option"
  signals :: "(int \<times> signal) list"

definition clear_errno :: "stop_os \<Rightarrow> stop_os" where
  "clear_errno os = os\<lparr>errno_now := None\<rparr>"

text \<open>A call without a recorded answer fails.\<close>

definition waitpid :: "stop_os \<Rightarrow> (int \<times> wait_status) option \<times> stop_os" where
  "waitpid os =
     (case wait_answers os of
        [] \<Rightarrow> (None, os\<lparr>errno_now := Some EOTHER\<rparr>)
      | Inl e # as \<Rightarrow> (None, os\<lparr>wait_answers := as, errno_now := Some e\<rparr>)
      | Inr r # as \<Rightarrow> (Some r, os\<lparr>wait_answers := as\<rparr>))"

definition kill :: "int \<Rightarrow> signal \<Rightarrow> stop_os \<Rightarrow> bool \<times> stop_os" where
  "kill pid sig os =
     (let os = os\<lparr>signals := signals os @ [(pid, sig)]\<rparr>
      in case kill_answers os of
           [] \<Rightarrow> (False, os\<lparr>errno_now := Some EOTHER\<rparr>)
         | Some e # as \<Rightarrow> (False, os\<lparr>kill_answers := as, errno_now := Some e\<rparr>)
         | None # as \<Rightarrow> (True, os\<lparr>kill_answers := as\<rparr>))"

definition next_timer :: "stop_os \<Rightarrow> timer_trace \<times> stop_os" where
  "next_timer os =
     (case timers os of
        [] \<Rightarrow> (\<lparr>timer_pipe = Inl EOTHER, timer_fork = Inl EOTHER, timer_error_read = Read_Bytes [],
               timer_setpgid = None, timer_reap_ok = True\<rparr>, os)
      | t # ts \<Rightarrow> (t, os\<lparr>timers := ts\<rparr>))"

section \<open>Starting a timer\<close>

definition timer_error :: "errno \<Rightarrow> reproc_error" where
  "timer_error e = (case e of
     EINTR \<Rightarrow> REPROC_INTERRUPTED | ENOMEM \<Rightarrow> REPROC_NOT_ENOUGH_MEMORY | _ \<Rightarrow> REPROC_UNKNOWN_ERROR)"

definition timer_parent_error :: "timer_trace \<Rightarrow> reproc_error" where
  "timer_parent_error t =
     (case pipe_read (timer_error_read t) of (error, bytes) \<Rightarrow>
        if error = REPROC_INTERRUPTED then REPROC_UNKNOWN_ERROR
        else if error \<noteq> REPROC_SUCCESS \<and> error \<noteq> REPROC_STREAM_CLOSED then error
        else if error = REPROC_SUCCESS \<and> length bytes \<noteq> 4 then REPROC_UNKNOWN_ERROR
        else (case timer_setpgid t of Some e \<Rightarrow> timer_error e | None \<Rightarrow> error))"

text \<open>
  \<^verbatim>\<open>fork_timeout\<close> with its \<^verbatim>\<open>cleanup\<close> label: an error is returned only when there is
  a timer; without one the result is a success and the id is 0 or -1.
\<close>

definition fork_timeout :: "timer_trace \<Rightarrow> reproc_error \<times> int" where
  "fork_timeout t =
     (let (error, timeout_pid) =
        (if pipe_init (timer_pipe t) \<noteq> REPROC_SUCCESS then (pipe_init (timer_pipe t), 0)
         else case timer_fork t of
           Inl e \<Rightarrow> (fork_error e, - 1)
         | Inr pid \<Rightarrow> (timer_parent_error t, pid))
      in if error \<noteq> REPROC_SUCCESS \<and> error \<noteq> REPROC_STREAM_CLOSED \<and> timeout_pid > 0
         then (if timer_reap_ok t then error else REPROC_UNKNOWN_ERROR, 0)
         else (REPROC_SUCCESS, timeout_pid))"

section \<open>Waiting\<close>

type_synonym wait_outcome = "reproc_error \<times> 32 word option"

definition wait_error :: "stop_os \<Rightarrow> reproc_error" where
  "wait_error os = (case errno_now os of Some EINTR \<Rightarrow> REPROC_INTERRUPTED | _ \<Rightarrow> REPROC_UNKNOWN_ERROR)"

definition wait_no_hang :: "stop_os \<Rightarrow> wait_outcome \<times> stop_os" where
  "wait_no_hang os =
     (case waitpid (clear_errno os) of
        (None, os) \<Rightarrow> ((REPROC_UNKNOWN_ERROR, None), os)
      | (Some (pid, status), os) \<Rightarrow>
          if pid = 0 then ((REPROC_WAIT_TIMEOUT, None), os)
          else ((REPROC_SUCCESS, Some (parse_exit_status status)), os))"

definition wait_forever :: "stop_os \<Rightarrow> wait_outcome \<times> stop_os" where
  "wait_forever os =
     (case waitpid (clear_errno os) of
        (None, os) \<Rightarrow> ((wait_error os, None), os)
      | (Some (pid, status), os) \<Rightarrow> ((REPROC_SUCCESS, Some (parse_exit_status status)), os))"

text \<open>A failing \<^verbatim>\<open>waitpid\<close> returns -1.\<close>

definition wait_timeout :: "stop_os \<Rightarrow> wait_outcome \<times> stop_os" where
  "wait_timeout os =
     (case wait_no_hang os of (r, os) \<Rightarrow>
        if fst r \<noteq> REPROC_WAIT_TIMEOUT then (r, os)
        else
          (case next_timer os of (t, os) \<Rightarrow>
           case fork_timeout t of (error, timeout_pid) \<Rightarrow>
             if error \<noteq> REPROC_SUCCESS then ((error, None), os)
             else
               (case waitpid (clear_errno os) of (w, os) \<Rightarrow>
                let exit_pid = (case w of None \<Rightarrow> - 1 | Some (pid, status) \<Rightarrow> pid)
                in if exit_pid = timeout_pid then ((REPROC_WAIT_TIMEOUT, None), os)
                   else
                     (case kill timeout_pid SIGTERM (clear_errno os) of (ok, os) \<Rightarrow>
                        if \<not> ok then ((REPROC_UNKNOWN_ERROR, None), os)
                        else
                          (case waitpid (clear_errno os) of
                             (None, os) \<Rightarrow> ((wait_error os, None), os)
                           | (Some _, os) \<Rightarrow>
                               (case w of
                                  None \<Rightarrow> ((wait_error os, None), os)
                                | Some (pid, status) \<Rightarrow> ((REPROC_SUCCESS, Some (parse_exit_status status)), os)))))))"

definition process_wait :: "32 word \<Rightarrow> stop_os \<Rightarrow> wait_outcome \<times> stop_os" where
  "process_wait timeout os =
     (if timeout = 0 then wait_no_hang os
      else if timeout = 0xFFFFFFFF then wait_forever os
      else wait_timeout os)"

definition process_signal :: "signal \<Rightarrow> int \<Rightarrow> 32 word \<Rightarrow> stop_os \<Rightarrow> wait_outcome \<times> stop_os" where
  "process_signal sig pid timeout os =
     (case kill pid sig (clear_errno os) of (ok, os) \<Rightarrow>
        if \<not> ok then ((REPROC_UNKNOWN_ERROR, None), os) else process_wait timeout os)"

definition process_terminate :: "int \<Rightarrow> 32 word \<Rightarrow> stop_os \<Rightarrow> wait_outcome \<times> stop_os" where
  "process_terminate = process_signal SIGTERM"

definition process_kill :: "int \<Rightarrow> 32 word \<Rightarrow> stop_os \<Rightarrow> wait_outcome \<times> stop_os" where
  "process_kill = process_signal SIGKILL"

section \<open>Stopping\<close>

abbreviation (input) REPROC_WAIT :: "32 word" where "REPROC_WAIT \<equiv> 1"
abbreviation (input) REPROC_TERMINATE :: "32 word" where "REPROC_TERMINATE \<equiv> 2"
abbreviation (input) REPROC_KILL :: "32 word" where "REPROC_KILL \<equiv> 4"
abbreviation (input) REPROC_INFINITE :: "32 word" where "REPROC_INFINITE \<equiv> 0xFFFFFFFF"

text \<open>A step runs when its flag is set and what went before timed out.\<close>

definition stop_step ::
    "32 word \<Rightarrow> 32 word \<Rightarrow> (stop_os \<Rightarrow> wait_outcome \<times> stop_os) \<Rightarrow> wait_outcome \<times> stop_os \<Rightarrow> wait_outcome \<times> stop_os" where
  "stop_step cleanup_flags flag step r =
     (if fst (fst r) = REPROC_WAIT_TIMEOUT \<and> cleanup_flags AND flag \<noteq> 0 then step (snd r) else r)"

definition stop_steps :: "int \<Rightarrow> 32 word \<Rightarrow> 32 word \<Rightarrow> stop_os \<Rightarrow> wait_outcome \<times> stop_os" where
  "stop_steps pid cleanup_flags timeout os =
     stop_step cleanup_flags REPROC_KILL (process_kill pid timeout)
       (stop_step cleanup_flags REPROC_TERMINATE (process_terminate pid timeout)
         (stop_step cleanup_flags REPROC_WAIT (process_wait timeout) ((REPROC_WAIT_TIMEOUT, None), os)))"

definition reproc_stop_with ::
    "32 word \<Rightarrow> 32 word \<Rightarrow> reproc_type \<Rightarrow> stop_os \<Rightarrow> (wait_outcome \<times> reproc_type \<times> stop_os) result" where
  "reproc_stop_with cleanup_flags timeout p os =
     (case child_pid p of
        None \<Rightarrow> Inl Uninitialised
      | Some pid \<Rightarrow>
          (case stop_steps pid cleanup_flags timeout os of (r, os) \<Rightarrow>
             and_then (reproc_destroy p) (\<lambda>q. Inr (r, q, os))))"

section \<open>Lemmas\<close>

lemma clear_errno_simps [simp]:
  "wait_answers (clear_errno os) = wait_answers os" "kill_answers (clear_errno os) = kill_answers os"
  "timers (clear_errno os) = timers os" "signals (clear_errno os) = signals os" "errno_now (clear_errno os) = None"
  by (simp_all add: clear_errno_def)

text \<open>What the callers of the tool rely on: with an infinite wait this is \<^verbatim>\<open>reproc_stop\<close> of the other model.\<close>

theorem stop_infinite:
  assumes "child_pid p = Some pid" "wait_answers os = map_sum id (Pair pid) (waitpid_call tr) # ws" "reproc_stop tr p = Inr (r, q)"
  shows "\<exists>os'. reproc_stop_with REPROC_WAIT REPROC_INFINITE p os = Inr (r, q, os') \<and> signals os' = signals os"
proof -
  have d: "reproc_destroy p = Inr q" and r: "r = wait_infinite tr"
    using assms(3) by (auto simp: reproc_stop_def result_simps)
  have "\<exists>os'. wait_forever os = (r, os') \<and> signals os' = signals os"
  proof (cases "waitpid_call tr")
    case (Inl e)
    with assms(2) show ?thesis
      by (cases e) (simp_all add: r wait_forever_def waitpid_def wait_infinite_def wait_error_def)
  qed (use assms(2) in \<open>simp add: r wait_forever_def waitpid_def wait_infinite_def\<close>)
  then obtain os' where w: "wait_forever os = (r, os')" "signals os' = signals os" by blast
  moreover have "fst r \<noteq> REPROC_WAIT_TIMEOUT"
  proof (cases "waitpid_call tr")
    case (Inl e)
    then show ?thesis by (cases e) (simp_all add: r wait_infinite_def)
  qed (simp add: r wait_infinite_def)
  ultimately have "stop_steps pid REPROC_WAIT REPROC_INFINITE os = (r, os')"
    by (simp add: stop_steps_def stop_step_def process_wait_def)
  with assms(1) d w(2) show ?thesis by (simp add: reproc_stop_with_def)
qed

text \<open>The ids of the timers that are started; 0 stands for one that has no recorded start.\<close>

definition timer_ids :: "stop_os \<Rightarrow> int set" where
  "timer_ids os = insert 0 (snd ` fork_timeout ` set (timers os))"

definition sent :: "(int \<times> signal) set \<Rightarrow> stop_os \<Rightarrow> stop_os \<Rightarrow> bool" where
  "sent S os os' \<longleftrightarrow> (\<exists>xs. signals os' = signals os @ xs \<and> set xs \<subseteq> S) \<and> set (timers os') \<subseteq> set (timers os)"

lemma sent_refl [simp]: "sent S os os"
  by (simp add: sent_def)

lemma sent_trans: "sent S a b \<Longrightarrow> sent S b c \<Longrightarrow> sent S a c"
  by (auto simp: sent_def)

lemma sent_clear [simp]: "sent S (clear_errno os) os' \<longleftrightarrow> sent S os os'" "sent S os (clear_errno os') \<longleftrightarrow> sent S os os'"
  by (simp_all add: sent_def)

lemma sent_waitpid: "waitpid os = (w, os') \<Longrightarrow> sent S os os'"
  by (auto simp: waitpid_def sent_def split: list.splits sum.splits)

lemma sent_kill: "kill pid sig os = (b, os') \<Longrightarrow> (pid, sig) \<in> S \<Longrightarrow> sent S os os'"
  by (auto simp: kill_def sent_def Let_def split: list.splits option.splits)

lemma sent_next_timer:
  "next_timer os = (t, os') \<Longrightarrow> sent S os os' \<and> snd (fork_timeout t) \<in> timer_ids os"
  by (auto simp: next_timer_def sent_def timer_ids_def fork_timeout_def pipe_init_def split: list.splits)

lemma sent_no_hang: "wait_no_hang os = (r, os') \<Longrightarrow> sent S os os'"
  by (auto simp: wait_no_hang_def split: prod.splits option.splits if_splits dest: sent_waitpid [where S = S])

lemma sent_forever: "wait_forever os = (r, os') \<Longrightarrow> sent S os os'"
  by (auto simp: wait_forever_def split: prod.splits option.splits dest: sent_waitpid [where S = S])

lemma timer_ids_sent: "sent S os os' \<Longrightarrow> timer_ids os' \<subseteq> timer_ids os"
  by (auto simp: sent_def timer_ids_def)

lemma sent_timeout:
  assumes "wait_timeout os = (r, os')" "\<forall>i \<in> timer_ids os. (i, SIGTERM) \<in> S"
  shows "sent S os os'"
proof -
  obtain r1 os1 where 1: "wait_no_hang os = (r1, os1)" by (meson surj_pair)
  obtain t os2 where 2: "next_timer os1 = (t, os2)" by (meson surj_pair)
  obtain e i where t: "fork_timeout t = (e, i)" by (meson surj_pair)
  obtain w os3 where 3: "waitpid (clear_errno os2) = (w, os3)" by (meson surj_pair)
  obtain b os4 where 4: "kill i SIGTERM (clear_errno os3) = (b, os4)" by (meson surj_pair)
  obtain v os5 where 5: "waitpid (clear_errno os4) = (v, os5)" by (meson surj_pair)
  have s1: "sent S os os1" using sent_no_hang [OF 1] .
  then have "i \<in> timer_ids os" using sent_next_timer [OF 2, of S] timer_ids_sent [OF s1] t by auto
  then have S: "(i, SIGTERM) \<in> S" using assms(2) by blast
  have s2: "sent S os os2" using s1 sent_next_timer [OF 2, of S] sent_trans by blast
  then have s3: "sent S os os3" using sent_waitpid [OF 3, of S] sent_trans by auto
  then have s4: "sent S os os4" using sent_kill [OF 4 S] sent_trans by auto
  then have s5: "sent S os os5" using sent_waitpid [OF 5, of S] sent_trans by auto
  have "os' \<in> {os1, os2, os3, os4, os5}"
    using assms(1) by (auto simp: wait_timeout_def 1 2 t 3 4 5 Let_def split: if_splits option.splits)
  with s1 s2 s3 s4 s5 show ?thesis by auto
qed

lemma sent_wait:
  "process_wait timeout os = (r, os') \<Longrightarrow> \<forall>i \<in> timer_ids os. (i, SIGTERM) \<in> S \<Longrightarrow> sent S os os'"
  by (auto simp: process_wait_def split: if_splits intro: sent_no_hang sent_forever sent_timeout)

lemma sent_signal:
  assumes "process_signal sig pid timeout os = (r, os')" "(pid, sig) \<in> S" "\<forall>i \<in> timer_ids os. (i, SIGTERM) \<in> S"
  shows "sent S os os'"
proof -
  obtain b os1 where k: "kill pid sig (clear_errno os) = (b, os1)" by force
  then have s: "sent S os os1" using sent_kill [OF k assms(2)] by simp
  show ?thesis
  proof (cases b)
    case True
    with assms(1) k have "process_wait timeout os1 = (r, os')" by (simp add: process_signal_def)
    with assms(3) timer_ids_sent [OF s] have "sent S os1 os'" by (blast intro: sent_wait)
    with s show ?thesis by (rule sent_trans)
  qed (use assms(1) k s in \<open>auto simp: process_signal_def\<close>)
qed

lemma sent_step:
  assumes "stop_step flags flag step (r, os) = (r', os')"
    "\<And>r' os'. flags AND flag \<noteq> 0 \<Longrightarrow> step os = (r', os') \<Longrightarrow> sent S os os'"
  shows "sent S os os'"
  using assms by (auto simp: stop_step_def split: if_splits)

text \<open>Nobody else is signalled than the flags say, except the timers.\<close>

definition allowed_signals :: "int \<Rightarrow> 32 word \<Rightarrow> stop_os \<Rightarrow> (int \<times> signal) set" where
  "allowed_signals pid flags os =
     (if flags AND REPROC_TERMINATE \<noteq> 0 then {(pid, SIGTERM)} else {})
   \<union> (if flags AND REPROC_KILL \<noteq> 0 then {(pid, SIGKILL)} else {})
   \<union> (\<lambda>i. (i, SIGTERM)) ` timer_ids os"

theorem stop_sent:
  assumes "reproc_stop_with flags timeout p os = Inr (r, q, os')" "child_pid p = Some pid"
  shows "sent (allowed_signals pid flags os) os os' \<and> pipes_closed q"
proof -
  let ?S = "allowed_signals pid flags os"
  have T: "\<forall>i \<in> timer_ids os. (i, SIGTERM) \<in> ?S" by (simp add: allowed_signals_def)
  obtain r1 os1 where 1: "stop_step flags REPROC_WAIT (process_wait timeout) ((REPROC_WAIT_TIMEOUT, None), os) = (r1, os1)" by (meson surj_pair)
  obtain r2 os2 where 2: "stop_step flags REPROC_TERMINATE (process_terminate pid timeout) (r1, os1) = (r2, os2)" by (meson surj_pair)
  obtain r3 os3 where 3: "stop_step flags REPROC_KILL (process_kill pid timeout) (r2, os2) = (r3, os3)" by (meson surj_pair)
  have s1: "sent ?S os os1"
    using 1 by (rule sent_step) (rule sent_wait [OF _ T])
  have s12: "sent ?S os1 os2"
    using 2 by (rule sent_step)
      (use timer_ids_sent [OF s1] T in \<open>auto simp: process_terminate_def allowed_signals_def intro!: sent_signal\<close>)
  have s2: "sent ?S os os2" using s1 s12 by (rule sent_trans)
  have "sent ?S os2 os3"
    using 3 by (rule sent_step)
      (use timer_ids_sent [OF s2] T in \<open>auto simp: process_kill_def allowed_signals_def intro!: sent_signal\<close>)
  with s2 have "sent ?S os os3" by (rule sent_trans)
  moreover have "os' = os3 \<and> reproc_destroy p = Inr q"
    using assms by (auto simp: reproc_stop_with_def stop_steps_def 1 2 3 result_simps)
  ultimately show ?thesis using reproc_destroy_Inr by blast
qed

text \<open>A timer that could not be forked has the id -1, which is every process.\<close>

theorem lost_timer_signals_everyone:
  assumes "child_pid p = Some pid" "pipes_open p" "timeout \<noteq> 0" "timeout \<noteq> REPROC_INFINITE"
    and "wait_answers os = Inr (0, s0) # Inr (pid, s) # ws" "0 < pid"
    and "timers os = t # ts" "timer_pipe t = Inr fds" "timer_fork t = Inl e"
  shows "\<exists>r q os'. reproc_stop_with REPROC_WAIT timeout p os = Inr (r, q, os') \<and> signals os' = signals os @ [(- 1, SIGTERM)]"
proof -
  have "signals (snd (wait_timeout os)) = signals os @ [(- 1, SIGTERM)]"
    using assms(5-)
    by (auto simp: wait_timeout_def wait_no_hang_def waitpid_def next_timer_def fork_timeout_def pipe_init_def kill_def Let_def
        split: prod.splits option.splits list.splits sum.splits if_splits)
  moreover from reproc_destroy_ok [OF assms(2)] obtain q where "reproc_destroy p = Inr q" by blast
  ultimately show ?thesis
    using assms(1,3,4)
    by (auto simp: reproc_stop_with_def stop_steps_def stop_step_def process_wait_def split: prod.splits)
qed

text \<open>An interrupted wait has lost its error number when it is reported.\<close>

theorem interrupted_wait_is_unknown:
  assumes "timeout \<noteq> 0" "timeout \<noteq> REPROC_INFINITE"
    and "wait_answers os = Inr (0, s0) # Inl EINTR # Inr (i, s) # ws" "kill_answers os = None # ks"
    and "timers os = t # ts" "fork_timeout t = (REPROC_SUCCESS, i)" "0 < i"
  shows "fst (process_wait timeout os) = (REPROC_UNKNOWN_ERROR, None)"
  using assms
  by (simp add: process_wait_def wait_timeout_def wait_no_hang_def waitpid_def next_timer_def kill_def wait_error_def Let_def)

section \<open>Concrete runs\<close>

definition sample_process :: reproc_type where
  "sample_process = \<lparr>parent_stdin = Some 4, parent_stdout = Some 5, parent_stderr = Some 7, child_pid = Some 9\<rparr>"

text \<open>A child that ends only when it is killed, and a timer that cannot be forked.\<close>

definition stubborn_child :: stop_os where
  "stubborn_child = \<lparr>wait_answers = [Inr (0, Exited 0), Inr (0, Exited 0), Inr (9, Signaled 9)], kill_answers = [None, None],
     timers = [], errno_now = None, signals = []\<rparr>"

definition lost_timer :: "errno \<Rightarrow> stop_os" where
  "lost_timer e = \<lparr>wait_answers = [Inr (0, Exited 0), Inr (9, Exited 0)], kill_answers = [None],
     timers = [\<lparr>timer_pipe = Inr (10, 11), timer_fork = Inl e, timer_error_read = Read_Bytes [], timer_setpgid = None,
       timer_reap_ok = True\<rparr>], errno_now = None, signals = []\<rparr>"

lemma stubborn_child_stopped:
  "reproc_stop_with 7 0 sample_process stubborn_child = Inr ((REPROC_SUCCESS, Some 9),
     sample_process\<lparr>parent_stdin := Some 0, parent_stdout := Some 0, parent_stderr := Some 0\<rparr>,
     stubborn_child\<lparr>wait_answers := [], kill_answers := [], signals := [(9, SIGTERM), (9, SIGKILL)]\<rparr>)"
  by (simp add: reproc_stop_with_def stop_steps_def stop_step_def process_wait_def wait_no_hang_def waitpid_def kill_def
      process_terminate_def process_kill_def process_signal_def clear_errno_def sample_process_def stubborn_child_def
      reproc_destroy_def pipe_close_def parse_exit_status_def Let_def)

end
