(* ===== verification/Samples.thy ===== *)
theory Samples
  imports Tool_Reports Inja_Safety Inja_Faults Json_Layout Command_Bits Any_Option_File Reproc_Stop
begin

text \<open>
  One concrete environment: answers of the operating system to a call of git that succeeds, a
  working directory with one repository in its cached list, and jobs that finish in the order
  they were added. The witnesses of the properties are evaluated on it.
\<close>

definition sample_os :: "string \<Rightarrow> os_trace" where
  "sample_os out =
     \<lparr>pipe_calls = [Inr (3, 4), Inr (5, 6), Inr (7, 8), Inr (9, 10)], fork_call = Inr 100,
      error_pipe_read = Read_Bytes [], child_calls = [None, None, None, None, None, None],
      reap_ok = True, stdout_reads = [Read_Bytes (out @ [CHR 0x0A])], waitpid_call = Inr (Exited 0)\<rparr>"

definition sample_spawn :: "string \<Rightarrow> string \<Rightarrow> string list \<Rightarrow> os_trace" where
  "sample_spawn answer dir args = sample_os answer"

definition sample_engine :: "string engine" where
  "sample_engine =
     \<lparr>parse_template = (\<lambda>fs name. case fs name of None \<Rightarrow> Inr [] | Some t \<Rightarrow> Inr t),
      template_empty = (\<lambda>t. t = []), render = (\<lambda>t j. Inr t)\<rparr>"

definition in_order :: "('j \<Rightarrow> 'r) \<Rightarrow> 'j list \<Rightarrow> 'r list" where
  "in_order run js = drain (\<lambda>_. 0) (map run js)"

lemma fair_in_order: "fair_batch in_order run js"
  unfolding fair_batch_def in_order_def by (rule drained.complete)

definition sample_env_with :: "'t engine \<Rightarrow> string \<Rightarrow> 't tool_env" where
  "sample_env_with eng answer =
     \<lparr>hardware_threads = 4, walk_fuel = 10, listing = (\<lambda>_. Some []), is_directory = (\<lambda>_. False),
      spawn = sample_spawn answer, template_engine = eng, finite_text = (\<lambda>_. True),
      float_text = id, ndebug = False, check_sched = in_order, save_sched = in_order,
      pull_sched = in_order, export_sched = in_order, update_sched = in_order, merge_sched = in_order\<rparr>"

abbreviation sample_env :: "string \<Rightarrow> string tool_env" where
  "sample_env \<equiv> sample_env_with sample_engine"

definition sample_repos :: "string list" where
  "sample_repos = [''/r/a/'']"

definition sample_cache :: string where
  "sample_cache = ''{\"repos\":[\"/r/a/\"]}''"

definition sample_world :: world where
  "sample_world =
     \<lparr>files = (\<lambda>n. if n = cache_file then Some sample_cache else None), writable = (\<lambda>_. True), console = []\<rparr>"

definition empty_world :: world where
  "empty_world = \<lparr>files = (\<lambda>_. None), writable = (\<lambda>_. True), console = []\<rparr>"

lemma sample_load:
  "loadGitRepositoriesFromFile (finite_text (sample_env_with eng a)) cache_file sample_world = (Inr sample_repos, sample_world)"
proof -
  have "and_then (json_parse_c (\<lambda>_. True) sample_cache) (\<lambda>j. and_then (json_at ''repos'' j) (\<lambda>(arr, j).
     map_result load_entry (json_elements arr))) = Inr sample_repos"
    by code_simp
  then show ?thesis
    by (simp add: loadGitRepositoriesFromFile_def io_bind_def fopen_read_def sample_world_def sample_env_with_def)
qed

lemma sample_start:
  "reproc_start (sample_os out) uninitialised = Inr (REPROC_SUCCESS,
     \<lparr>parent_stdin = Some 4, parent_stdout = Some 5, parent_stderr = Some 7, child_pid = Some 100\<rparr>)"
  by (simp add: reproc_start_def pipe_at_def sample_os_def uninitialised_def fork_exec_redirect_def
      parent_error_def pipe_init_def pipe_read_def exec_error_def numeral_eq_Suc)

lemma sample_git:
  "git_ok (sample_spawn ''abc'') dir args" "git_text (sample_spawn ''abc'') dir args = ''abc''"
proof -
  have b: "stream_bytes (stdout_reads (sample_os ''abc'')) = ''abc'' @ [CHR 0x0A]"
    by (simp add: sample_os_def)
  have r: "fst (read_loop (stdout_reads (sample_os ''abc'')) []) = REPROC_STREAM_CLOSED"
    by (simp add: sample_os_def pipe_read_def)
  have s: "starts (sample_os ''abc'')" by (simp add: starts_def sample_start)
  show "git_ok (sample_spawn ''abc'') dir args"
    by (simp add: git_ok_def sample_spawn_def sample_start b r fits_def)
  have t: "trim (c_str (''abc'' @ [CHR 0x0A])) = ''abc''" by code_simp
  show "git_text (sample_spawn ''abc'') dir args = ''abc''"
    by (simp add: git_text_def sample_spawn_def s b t [simplified])
qed

lemma sample_env_simps [simp]:
  "spawn (sample_env_with eng a) = sample_spawn a" "save_sched (sample_env_with eng a) = in_order"
  "merge_sched (sample_env_with eng a) = in_order" "pull_sched (sample_env_with eng a) = in_order"
  "check_sched (sample_env_with eng a) = in_order" "export_sched (sample_env_with eng a) = in_order" "update_sched (sample_env_with eng a) = in_order"
  "hardware_threads (sample_env_with eng a) = 4" "finite_text (sample_env_with eng a) = (\<lambda>_. True)"
  "listing (sample_env_with eng a) = (\<lambda>_. Some [])" "is_directory (sample_env_with eng a) = (\<lambda>_. False)"
  "walk_fuel (sample_env_with eng a) = 10" "writable sample_world = (\<lambda>_. True)"
  by (simp_all add: sample_env_with_def sample_world_def)

section \<open>Command lines\<close>

lemma sample_two_args:
  "two_args [''repotools'', ''saveState'', ''s.json''] ''saveState'' ''s.json''"
  by code_simp

lemma sample_two_args2:
  "two_args [''repotools'', ''SAVESTATE'', ''t.json''] ''SAVESTATE'' ''t.json''"
  by code_simp

lemma sample_upper: "strcaseeq ''saveState'' ''SAVESTATE''"
  by code_simp

lemma sample_report_one:
  "two_args [''repotools'', ''genUpdateReport'', ''s.json''] ''genUpdateReport'' ''s.json''"
  by code_simp

lemma sample_report_args:
  "report_args [''repotools'', ''genUpdateReport'', ''s.json'', ''t.json''] ''genUpdateReport'' ''s.json'' ''t.json''"
  by code_simp

lemma sample_export_args:
  "two_args [''repotools'', ''exportList'', ''l.json''] ''exportList'' ''l.json''"
  "two_args [''repotools'', ''mergeList'', ''l.json''] ''mergeList'' ''l.json''"
  "strcaseeq ''exportlist'' ''exportList''" "strcaseeq ''mergelist'' ''mergeList''"
  by code_simp+

lemma sample_plain_scan: "plain_line [''scan'']"
  by code_simp

lemma sample_pair_utf8: "pair_utf8 (''/r/a/'', ''abc'')"
  by code_simp

lemma sample_listing:
  "posix_listing (listing (sample_env_with eng a))" "names_without_backslash (listing (sample_env_with eng a))"
  by (simp_all add: posix_listing_def names_without_backslash_def)

lemma sample_path: "path_set ''./'' = Some (Inr (path_of ''./''))"
  by (simp add: path_set_ok fits_def)

lemma sample_walk:
  "scan_loop (walk_fuel (sample_env_with eng a)) (listing (sample_env_with eng a)) (is_directory (sample_env_with eng a)) [''.''] []
     = Some (Inr [])"
proof -
  have "scan_loop (Suc n) (\<lambda>_. Some []) (\<lambda>_. False) [''.''] [] = Some (Inr [])" for n
    by (simp add: scan_one_def with_slash_def str_back_def directory_entries_def sample_path)
  from this [of 9] show ?thesis by simp
qed

section \<open>Reports\<close>

text \<open>The same directory with the shipped templates, and the engine that reads them.\<close>

definition sample_doubles :: double_ops where
  "sample_doubles =
     \<lparr>d_eq = (=), d_less = key_less, d_of_int = (\<lambda>i. show_int i), d_to_int = (\<lambda>s. 0), d_round = (\<lambda>s n. s), d_stod = Inr\<rparr>"

abbreviation inja_env :: "string \<Rightarrow> (inja_template \<times> template_storage) tool_env" where
  "inja_env \<equiv> sample_env_with (inja_engine 1 0 sample_doubles id (\<lambda>_. True))"

definition template_world :: world where
  "template_world = sample_world\<lparr>files := (files sample_world)(
     ''./reporttemplates/pullrepositories.txt'' \<mapsto> pullrepositories_txt,
     ''./reporttemplates/checkforupdatesonserver.txt'' \<mapsto> checkforupdatesonserver_txt,
     ''./reporttemplates/updatereport.txt'' \<mapsto> updatereport_txt)\<rparr>"

lemma template_load:
  "loadGitRepositoriesFromFile (finite_text (sample_env_with eng a)) cache_file template_world = (Inr sample_repos, template_world)"
  by (rule load_repos_other [OF sample_load]) (simp add: template_world_def cache_file_def)

lemma sample_command:
  assumes "plain_line [c]"
  shows "one_command [prog, c] c" "tool_value 4 [prog, c] = None" "template_file [prog, c] name = ''./reporttemplates/'' @ name @ ''.txt''"
  using plain_args_plain [OF assms] tool_value_plain [OF assms]
  by (simp_all add: one_command_def template_file_def)

lemma sample_plain_commands: "plain_line [''pull'']" "plain_line [''checkForUpdates'']"
  by code_simp+

lemma template_world_files:
  "files template_world (c_str (''./reporttemplates/'' @ ''pullrepositories'' @ ''.txt'')) = Some pullrepositories_txt"
  "files template_world (c_str (''./reporttemplates/'' @ ''checkforupdatesonserver'' @ ''.txt'')) = Some checkforupdatesonserver_txt"
  "files template_world updatereport_file = Some updatereport_txt"
  by (simp_all add: template_world_def updatereport_file_def)

lemma template_world_writable: "writable template_world = (\<lambda>_. True)"
  by (simp add: template_world_def)

lemma sample_status: "status_of (sample_spawn ''abc'') r = CHR ''f''"
proof -
  have "fst (sscanf_d_d ''abc'' (- 1) (- 1)) = 0" by code_simp
  then show ?thesis
    by (cases "sscanf_d_d ''abc'' (- 1) (- 1)") (simp add: status_of_def sample_git)
qed

text \<open>A template with a condition and a loop over two elements.\<close>

definition sample_nodes :: "node list" where
  "sample_nodes =
     [Text ''names:'',
      For [] ''x'' (Lookup ''xs'')
        [If_Else (Lookup ''loop/is_first'') [Text '' ''] [Text '', ''], Print (Unary Op_Upper (Lookup ''x''))]]"

definition sample_data :: json where
  "sample_data = JObject [(''xs'', JArray [JString ''a'', JString ''b''])]"

definition sample_rendered :: string where
  "sample_rendered = ''names: A, B''"

lemma sample_nodes_facts:
  "wf_nodes sample_nodes" "nodes_ok sample_nodes" "checked_nodes 0 sample_nodes"
  "length (compile_template sample_nodes) < 2 ^ 30" "length (compile_template sample_nodes) < no_jump"
proof -
  show "wf_nodes sample_nodes" "nodes_ok sample_nodes" "checked_nodes 0 sample_nodes" by code_simp+
  have "length (compile_template sample_nodes) < 32" by code_simp
  then show "length (compile_template sample_nodes) < 2 ^ 30" "length (compile_template sample_nodes) < no_jump"
    by (simp_all add: no_jump_def)
qed

lemma sample_meaning:
  "meanings (render_default sample_doubles id []) sample_data 0 sample_data sample_nodes = Inr sample_rendered"
  by code_simp

lemma sample_sound: "sound_env (render_default sample_doubles id [])"
  by (simp add: sound_env_def render_default_def sample_doubles_def sound_Inr)

lemma sample_nested_short: "length (compile_template (nested 17 [Text ''a''])) < 2 ^ 30"
proof -
  have "length (compile_template (nested 17 [Text ''a''])) < 64" by code_simp
  then show ?thesis by simp
qed

text \<open>A vector of two objects in a block that holds no more.\<close>

definition full_vec :: vec where "full_vec = \<lparr>mpBegin = 1, mpEnd = 2, mpCapacity = 2\<rparr>"

definition full_heap :: "'a list \<Rightarrow> 'a heap" where
  "full_heap xs = \<lparr>cells = (\<lambda>(b, i). if b = 1 \<and> i < length xs then Live (xs ! i) else Unowned), next_block = 2\<rparr>"

lemma full_heap_ok: "heap_ok (full_heap xs)"
  by (simp add: heap_ok_def full_heap_def)

lemma full_heap_in: "length xs = 2 \<Longrightarrow> vector_in (full_heap xs) full_vec xs"
  by (simp add: vector_in_def full_heap_def full_vec_def vec_cell_def)

end
