(* ===== verification/Spec2Isabelle.thy ===== *)
theory Spec2Isabelle
  imports Samples
begin

text \<open>
  A model of \<^verbatim>\<open>repotools\<close>, a command-line tool that keeps a list of git repositories and
  runs git in all of them at once, together with the parts of its bundled libraries it runs on.

  \<^bold>\<open>How the parts interact.\<close> \<^verbatim>\<open>main\<close> (\<^verbatim>\<open>src/main.cpp\<close>) registers its
  options, processes the command line, starts the job system, reads the cached list and calls the commands
  whose names match the last arguments. A command adds one job per repository, waits, drains the result
  queue and writes a JSON file or renders a report. A job runs git through \<^verbatim>\<open>callExecutable\<close>
  and trims its output.

  \<^bold>\<open>Theories.\<close> All paths are below \<^verbatim>\<open>src/\<close>.
  \<^item> \<open>Repo_Prelude\<close>: faults, sequencing of fallible steps, checked array access, C strings.
    \<open>Repo_World\<close>: files and console, the monad the commands run in. \<open>C_Scan\<close>:
    \<^verbatim>\<open>sscanf("%d")\<close> and \<^verbatim>\<open>strtol\<close>.
  \<^item> \<open>Eastl_String\<close> (\<^verbatim>\<open>extlibs/eastl/string.h\<close>): positions are 64-bit words, so that
    \<^verbatim>\<open>npos\<close> and subtractions wrap around as in the code. \<open>File_Path\<close>
    (\<^verbatim>\<open>extlibs/eastl/extra/path.h\<close>).
  \<^item> \<open>Any_Option\<close> (\<^verbatim>\<open>extlibs/anyoption\<close>): the parallel arrays and every access to
    them, out-of-bounds access being a fault. \<open>Any_Option_Spec\<close>: the specification on two tables of
    entries and the proof that the arrays implement it. \<open>Any_Option_File\<close>: the reader of option files and
    its specification on the same tables. \<open>Loguru_Args\<close>: the verbosity arguments.
  \<^item> \<open>Eastl_Memory\<close>, \<open>Eastl_Vector\<close> (\<^verbatim>\<open>extlibs/eastl/vector.h\<close> and the loops
    it calls): storage whose cells know which object lives in them, and the vector's block in it. Constructing,
    moving and destroying one object are the rules of the language. \<open>Eastl_Vector_List\<close>: every operation as an
    operation on lists (\<open>vector_in\<close>, \<open>becomes\<close>), the lost aliases, the growth of the block.
  \<^item> \<open>Eastl_Bit_Iterator\<close>, \<open>Eastl_Bitvector\<close>
    (\<^verbatim>\<open>extlibs/eastl/bitvector.h\<close>): bits in 64-bit words, iterators as a word and a bit index, and the
    operations as list operations on \<open>bits\<close>. \<open>Command_Bits\<close>: the loops of the scan and of mergeList that
    mark repositories, over the locale \<open>bit_sequence\<close>, which bit vectors and checked lists interpret.
  \<^item> \<open>Worker_System\<close> (\<^verbatim>\<open>workersystem.cpp\<close>): every thread has a program counter, every
    step is one access to shared state, \<open>reachable\<close> contains all interleavings. The queue is the locale
    \<open>job_queue\<close>, interpreted on lists from which any element can be taken.
  \<^item> \<open>Reproc_Posix\<close> (\<^verbatim>\<open>extlibs/reproc/src/c/posix\<close>) and \<open>Call_Executable\<close>
    (\<^verbatim>\<open>callexecutable.cpp\<close>): one call of a program, over the record \<open>os_trace\<close> of what the
    system calls answer. \<open>Reproc_Stop\<close>: writing, and stopping with clean-up flags and timeouts; its record
    \<open>stop_os\<close> also collects the signals sent.
  \<^item> \<open>Json_Value\<close>, \<open>Json_Utf8\<close>, \<open>Json_Lexer\<close>, \<open>Json_Parser\<close>, \<open>Json_Number\<close>,
    \<open>Json_Serializer\<close>, \<open>Json_Dump\<close> (\<^verbatim>\<open>extlibs/json/json.hpp\<close>) and the round trip
    in \<open>Json_Roundtrip\<close>, proved in the locale \<open>readable\<close> for every layout whose strings are
    read back. \<open>Json_Ascii\<close> shows this of the ASCII escapes, \<open>Json_Layout\<close> models
    \<^verbatim>\<open>dump\<close> with all its arguments and interprets the locale for them.
  \<^item> \<open>Repo_Files\<close> (\<^verbatim>\<open>cachedrepositoryio.cpp\<close>, \<^verbatim>\<open>repostateio.cpp\<close>),
    \<open>Report\<close> (\<^verbatim>\<open>report.cpp\<close>), \<open>Command_Batch\<close> (what all commands share),
    \<open>Scan_Directories\<close>, \<open>Command_Save_Export\<close>, \<open>Command_Pull_Check\<close>,
    \<open>Command_Update_Report\<close>, \<open>Command_Merge\<close> (\<^verbatim>\<open>commands/\<close>).
  \<^item> \<open>Inja_Lexer\<close>, \<open>Inja_Bytecode\<close>, \<open>Inja_Parser\<close>, \<open>Inja_Renderer\<close>
    (\<^verbatim>\<open>extlibs/inja/src/inja.hpp\<close>) and \<open>Json_Query\<close>: the template engine as a lexer with
    states, a parser that emits instructions and patches jumps, and a virtual machine with a value stack and a
    loop stack. \<open>Inja_Spec\<close> gives statements a meaning and code without positions;
    \<open>Inja_Machine\<close> shows that the machine computes the meaning, \<open>Inja_Syntax\<close>, \<open>Inja_Reads\<close>,
    \<open>Inja_Parse_Print\<close> and \<open>Inja_Parse_Nodes\<close> that the parser reads printed statements back as that
    code, \<open>Inja_Safety\<close> which templates cannot go wrong, \<open>Inja_Loops\<close> and \<open>Inja_Faults\<close> two
    ways in which they do. \<open>Inja_Engine\<close> is the engine as \<^verbatim>\<open>report.cpp\<close> sets it up,
    \<open>Report_Texts\<close> the shipped templates (\<^verbatim>\<open>reporttemplates/\<close>) and their texts.
  \<^item> \<open>Tool_Main\<close> (\<^verbatim>\<open>main.cpp\<close>), \<open>Tool_Runs\<close>, \<open>Tool_Pipelines\<close> and
    \<open>Tool_Reports\<close> (lemmas on whole runs, on several runs after each other, and on the reports they
    print), \<open>Samples\<close> (a concrete environment).

  \<^bold>\<open>Errors.\<close> Every operation that can throw, abort or leave the memory it owns returns a
  \<open>fault + 'a\<close>; a theorem that gives \<open>Inr\<close> excludes all of them.

  \<^bold>\<open>Parameters.\<close> What is not source of the repository or is reached only through a documented
  interface is a parameter: the answers of the operating system (\<open>spawn\<close>, \<open>listing\<close>,
  \<open>is_directory\<close>), arithmetic on doubles, the text of a double and whether a number text is a finite
  double, callbacks of templates (the tool registers none), and the order in which jobs finish (\<open>fair_batch\<close>, which every run of the job system satisfies:
  \<open>fair_job_system\<close>).

  \<^bold>\<open>Bounds.\<close> \<open>fits s\<close>: shorter than the largest 64-bit size. The job counter has 32 bits,
  the invariant is stated modulo \<open>2 ^ 32\<close> and exact below it. The walk of a scan takes fuel;
  \<open>walk_terminates\<close> gives an amount that is enough on every finite tree. Parsing a template takes the fuel
  \<open>parse_fuel\<close>, eight for each character and sixteen more, which \<open>fuel_bound\<close> shows to be enough for
  every printed template; running one takes fuel for its instructions, and each theorem on a run says that some
  amount is enough and any larger one gives the same. The depth of includes is bounded by a number because a
  template that includes itself is parsed without end. All other recursions are total.

  \<^bold>\<open>Lemmas.\<close> The properties below go from whole runs to the components: what each command leaves in
  the files and prints, the template engine from text to text, the refinement of the option tables, the invariant and the liveness of the job system, one call
  of git, the signals of a stop, round trips and bounds of the JSON code, the reports, and the containers in storage.

  \<^bold>\<open>Not modelled.\<close> The lock-free queue (its contract is the locale), the parts of the template engine that
  write files or change delimiters, memory allocation, log output, the Windows branches, and those parts of the bundled
  libraries the tool does not call.
\<close>

section \<open>Whole runs of the tool\<close>



text \<open>
  C2: The way from two saved states to the report between them: two runs of
  \<^verbatim>\<open>saveState\<close> at different revisions and a run of \<^verbatim>\<open>genUpdateReport\<close>
  on both files print, with the shipped template, the exact text that has, for every repository whose
  log is not empty, the log from its first to its second revision, each repository once. The template
  is lexed, parsed and run on its virtual machine.
\<close>

theorem tool_reports_between_states:
  assumes "two_args args1 c1 f" "strcaseeq ''saveState'' c1"
    and "two_args args2 c2 g" "strcaseeq ''saveState'' c2"
    and "report_args args3 c3 f g"
    and "finite_text env2 = finite_text env1" "finite_text env3 = finite_text env1"
    and "loadGitRepositoriesFromFile (finite_text env1) cache_file w = (Inr repos, w)" and "repos \<noteq> []"
    and "f \<noteq> g" "f \<noteq> cache_file" "g \<noteq> cache_file" and "writable w f" "writable w g"
    and "\<forall>r\<in>set repos. nul_free r"
    and "fair_batch (save_sched env1) (saveStateSingleRepo (spawn env1)) repos"
      "\<forall>r\<in>set repos. git_ok (spawn env1) r rev_parse \<and> pair_utf8 (repo_state (spawn env1) r)"
    and "fair_batch (save_sched env2) (saveStateSingleRepo (spawn env2)) repos"
      "\<forall>r\<in>set repos. git_ok (spawn env2) r rev_parse \<and> pair_utf8 (repo_state (spawn env2) r)"
    and "\<And>js. fair_batch (update_sched env3) (updateReportSingleRepo (spawn env3)) js"
      "\<forall>r\<in>set repos. git_ok (spawn env3) r [''log'', ''--oneline'',
         git_text (spawn env1) r rev_parse @ ''..'' @ git_text (spawn env2) r rev_parse]"
    and "files w updatereport_file = Some updatereport_txt" "f \<noteq> updatereport_file" "g \<noteq> updatereport_file"
  shows "\<exists>w1 w2 perm m. tool_main env1 args1 w = Some (Inr 0, w1) \<and> tool_main env2 args2 w1 = Some (Inr 0, w2)
    \<and> mset perm = mset repos
    \<and> (\<forall>fuel \<ge> m. tool_main (with_inja depth fuel d env3) args3 w2 = Some (Inr 0,
        w2\<lparr>console := console w @ update_report_text (spawn env1) (spawn env2) (spawn env3) perm\<rparr>))"
  by (rule update_prints [OF assms])

theorem tool_reports_between_states_witness:
  "\<exists>w1 w2 m. tool_main (inja_env ''abc'') [''repotools'', ''saveState'', ''s.json''] template_world = Some (Inr 0, w1)
    \<and> tool_main (inja_env ''abc'') [''repotools'', ''SAVESTATE'', ''t.json''] w1 = Some (Inr 0, w2)
    \<and> (\<forall>fuel \<ge> m. tool_main (with_inja 0 fuel sample_doubles (inja_env ''abc''))
          [''repotools'', ''genUpdateReport'', ''s.json'', ''t.json''] w2 = Some (Inr 0,
        w2\<lparr>console := in_lines [[], [], [], ''/r/a/:'', ''abc'', ''=========='', [], []]\<rparr>))"
proof -
  have t: "update_report_text (sample_spawn ''abc'') (sample_spawn ''abc'') (sample_spawn ''abc'') [''/r/a/'']
      = in_lines [[], [], [], ''/r/a/:'', ''abc'', ''=========='', [], []]"
    by (simp add: update_report_text_def update_text_def sample_git in_lines_def)
  have c: "console template_world = []" by (simp add: template_world_def sample_world_def)
  have "\<exists>w1 w2 perm m. tool_main (inja_env ''abc'') [''repotools'', ''saveState'', ''s.json''] template_world = Some (Inr 0, w1)
    \<and> tool_main (inja_env ''abc'') [''repotools'', ''SAVESTATE'', ''t.json''] w1 = Some (Inr 0, w2)
    \<and> mset perm = mset sample_repos
    \<and> (\<forall>fuel \<ge> m. tool_main (with_inja 0 fuel sample_doubles (inja_env ''abc''))
          [''repotools'', ''genUpdateReport'', ''s.json'', ''t.json''] w2 = Some (Inr 0,
        w2\<lparr>console := console template_world @ update_report_text (spawn (inja_env ''abc'')) (spawn (inja_env ''abc''))
            (spawn (inja_env ''abc'')) perm\<rparr>))"
    by (rule tool_reports_between_states [OF sample_two_args strcaseeq_refl sample_two_args2 sample_upper sample_report_args
        refl refl template_load _ _ _ _ _ _ _ _ _ _ _ _ _ template_world_files(3)])
      (simp_all add: sample_repos_def sample_git fair_in_order sample_pair_utf8 repo_state_def cache_file_def
        template_world_writable updatereport_file_def)
  then show ?thesis by (auto simp: sample_repos_def t c)
qed





text \<open>
  C5: An exported list and the cached list agree: \<^verbatim>\<open>exportList f\<close> followed by
  \<^verbatim>\<open>mergeList f\<close> on the same repositories clones nothing and changes no file.
\<close>

theorem tool_merge_after_export:
  assumes "two_args args1 c1 f" "strcaseeq ''exportlist'' c1"
    and "two_args args2 c2 f" "strcaseeq ''mergelist'' c2"
    and "finite_text env2 = finite_text env1"
    and "loadGitRepositoriesFromFile (finite_text env1) cache_file w = (Inr repos, w)" and "repos \<noteq> []"
    and "f \<noteq> cache_file" "writable w f" and "\<forall>r\<in>set repos. nul_free r"
    and "fair_batch (export_sched env1) (exportSingleRepo (spawn env1)) repos"
    and "\<forall>r\<in>set repos. git_ok (spawn env1) r get_origin \<and> pair_utf8 (repo_origin (spawn env1) r)"
    and "fair_batch (merge_sched env2) (createRepo (spawn env2)) []"
  shows "\<exists>w1. tool_main env1 args1 w = Some (Inr 0, w1) \<and> tool_main env2 args2 w1 = Some (Inr 0, w1)"
  by (rule merge_after_export [OF assms])

theorem tool_merge_after_export_witness:
  "\<exists>w1. tool_main (sample_env ''abc'') [''repotools'', ''exportList'', ''l.json''] sample_world = Some (Inr 0, w1)
    \<and> tool_main (sample_env ''abc'') [''repotools'', ''mergeList'', ''l.json''] w1 = Some (Inr 0, w1)"
  by (rule tool_merge_after_export [of _ "''exportList''" "''l.json''" _ "''mergeList''" _ _ _ sample_repos,
        OF sample_export_args(1,3,2,4) refl sample_load])
    (auto simp: sample_repos_def sample_git fair_in_order sample_pair_utf8 repo_origin_def cache_file_def)



text \<open>
  C7: \<^verbatim>\<open>genUpdateReport\<close> with the old state only, as the help text documents it,
  passes a null pointer to \<^verbatim>\<open>strcasecmp\<close> before anything is read.
\<close>

theorem tool_report_one_state:
  assumes "two_args args c f" "strcaseeq ''genUpdateReport'' c"
    and "loadGitRepositoriesFromFile (finite_text env) cache_file w = (Inr repos, w)" and "repos \<noteq> []"
  shows "tool_main env args w = Some (Inl Null_Pointer, w)"
  by (rule run_update_report_one_state [OF assms])

theorem tool_report_one_state_witness:
  "tool_main (sample_env ''abc'') [''repotools'', ''genUpdateReport'', ''s.json''] sample_world
     = Some (Inl Null_Pointer, sample_world)"
  by (rule tool_report_one_state [OF sample_report_one strcaseeq_refl sample_load]) (simp add: sample_repos_def)

text \<open>
  C8: Without a cached list a command with an argument other than \<^verbatim>\<open>mergelist\<close> prints
  the message and returns -1, which destroys threads that are still running: with at least one
  hardware thread the process is terminated.
\<close>

theorem tool_no_list:
  assumes "two_args args c a" "\<not> strcaseeq ''mergelist'' c" "files w cache_file = None"
  shows "tool_main env args w =
    Some (if hardware_threads env = 0 then Inr (- 1) else Inl Std_Terminate,
          w\<lparr>console := console w @ no_list_message\<rparr>)"
  by (rule run_refused [OF assms])

theorem tool_no_list_witness:
  "tool_main (sample_env ''abc'') [''repotools'', ''saveState'', ''s.json''] empty_world
     = Some (Inl Std_Terminate, empty_world\<lparr>console := no_list_message\<rparr>)"
  using tool_no_list [OF sample_two_args tool_words_distinct(10), of empty_world "sample_env ''abc''"]
  by (simp add: empty_world_def)

text \<open>
  C9: Without arguments, and whenever the help flag is among the assignments of the command
  line, the tool prints the registered usage lines, touches no file and returns 0.
\<close>

theorem tool_help:
  assumes "args \<noteq> []" "length args = 1 \<or> tool_value 0 args \<noteq> None"
  shows "tool_main env args w = Some (Inr 0, w\<lparr>console := console w @ help_output\<rparr>)"
  by (rule tool_main_help [OF assms])

theorem tool_help_witness:
  "tool_main (sample_env ''abc'') [''repotools'', ''scan'', ''-h''] empty_world
     = Some (Inr 0, empty_world\<lparr>console := help_output\<rparr>)"
proof -
  have "tool_value 0 [''repotools'', ''scan'', ''-h''] \<noteq> None" by code_simp
  then show ?thesis
    using tool_help [of "[''repotools'', ''scan'', ''-h'']" "sample_env ''abc''" empty_world]
    by (simp add: empty_world_def)
qed





section \<open>The template engine\<close>

text \<open>
  C12: The virtual machine computes the meaning of a template: compiled code, run with enough fuel on
  any document, gives exactly the text the statements denote, or exactly the fault.
\<close>

theorem machine_computes_meaning:
  assumes "wf_nodes ts" "length (compile_template ts) < 2 ^ 30" "bytecodes tmpl = compile_template ts"
  shows "\<exists>m. \<forall>n \<ge> m. render_template n env tmpl data = meanings env data 0 data ts"
  by (rule render_compiled [OF assms])

theorem machine_computes_meaning_witness:
  "\<exists>m. \<forall>n \<ge> m. render_template n (render_default sample_doubles id []) (template_of sample_nodes) sample_data
     = Inr sample_rendered"
  using machine_computes_meaning [of sample_nodes "template_of sample_nodes" "render_default sample_doubles id []" sample_data]
  by (simp add: sample_nodes_facts sample_nodes_facts(4) [simplified] sample_meaning template_of_def)





text \<open>
  C15: The seventeenth loop inside another reads the data of the enclosing loop after it was moved: any
  statements in more than sixteen loops over an array that is not empty are undefined behaviour.
\<close>

theorem too_many_loops_fault:
  assumes "wf_nodes b" "16 < k" "length (compile_template (nested k b)) < 2 ^ 30"
    and "bytecodes tmpl = compile_template (nested k b)"
    and "obj_lookup kvs ''xs'' = Some (JArray (v # vs))" "obj_lookup kvs ''loop'' = None"
  shows "\<exists>m. \<forall>n \<ge> m. render_template n env tmpl (JObject kvs) = Inl Use_After_Free"
  by (rule nested_render [OF assms])

theorem too_many_loops_fault_witness:
  "\<exists>m. \<forall>n \<ge> m. render_template n (render_default sample_doubles id []) (template_of (nested 17 [Text ''a'']))
     (JObject [(''xs'', JArray [JBool True])]) = Inl Use_After_Free"
  by (rule too_many_loops_fault [of "[Text ''a'']" 17]) (simp_all add: template_of_def sample_nested_short [simplified])

text \<open>
  C16: A second \<^verbatim>\<open>else\<close> of one condition writes outside the instructions while the
  template is parsed, before anything after it is looked at.
\<close>

theorem second_else_is_out_of_bounds:
  assumes "expr_ok e" "nodes_ok b" "nodes_ok c" "length (compile_template [If_Else e b c]) < no_jump"
    and "fs filename = Some (two_elses e b c rest)"
  shows "inja_parse_template (Suc depth) fs (default_env fin) filename included = Inl Out_Of_Bounds"
  using assms(5) by (simp add: second_else_faults [OF assms(1-4)])

theorem second_else_is_out_of_bounds_witness:
  "inja_parse_template 1 (\<lambda>_. Some (two_elses (Literal (JBool True)) [Text ''a''] [Text ''b''] []))
     (default_env (\<lambda>_. True)) ''t.txt'' [] = Inl Out_Of_Bounds"
  using second_else_is_out_of_bounds [of "Literal (JBool True)" "[Text ''a'']" "[Text ''b'']"
      "\<lambda>_. Some (two_elses (Literal (JBool True)) [Text ''a''] [Text ''b''] [])" "''t.txt''" "[]" 0 "\<lambda>_. True" "[]"]
  by (simp add: literal_ok_def text_ok_def compile_template_def no_jump_def Let_def)

section \<open>The command line\<close>

text \<open>
  C17: Processing a command line on the parallel arrays of \<^verbatim>\<open>AnyOption\<close> implements the
  specification on tables: with every option registered beforehand it never leaves the bounds of an
  array, the values are the assignments of \<open>spec_line\<close> applied in order, and the plain arguments
  are found at the positions it gives.
\<close>

theorem option_line_refines_tables:
  assumes "fresh opt" "0 < g_value_counter opt" "args \<noteq> []"
    and "spec_line (long_entries opt) (char_entries opt) 1 (tl args) = (as, ps)"
  shows "\<exists>opt'. processCommandArgs_argv args opt = Inr opt'
    \<and> (\<forall>name. getValue name opt' = Inr (case lookup_slot name (long_entries opt) of None \<Rightarrow> None
         | Some k \<Rightarrow> apply_assigns as (replicate (g_value_counter opt) None) ! k, opt'))
    \<and> (\<forall>ch. getValueChar ch opt' = Inr (case lookup_slot ch (char_entries opt) of None \<Rightarrow> None
         | Some k \<Rightarrow> apply_assigns as (replicate (g_value_counter opt) None) ! k, opt'))
    \<and> getArgc opt' = length ps
    \<and> (\<forall>i. getArgv i opt' = Inr (if 0 \<le> i \<and> i < int (length ps) then Some (args ! (ps ! nat i)) else None))"
proof -
  from processCommandArgs_ok [OF assms] obtain opt' where
    o: "processCommandArgs_argv args opt = Inr opt'" "processed opt' args as ps"
      "long_entries opt' = long_entries opt" "char_entries opt' = char_entries opt" by blast
  have "ready opt'" "the_values opt' = apply_assigns as (replicate (g_value_counter opt) None)"
    using o(2) processCommandArgs_ok [OF assms] o(1) by (auto simp: processed_def)
  then show ?thesis
    using o getValue_ok [of opt'] getArgv_processed [OF o(2)] getArgc_processed [OF o(2)]
    by (intro exI [of _ opt']) (simp split: option.split)
qed

theorem option_line_refines_tables_witness:
  "\<exists>opt opt'. tool_options = Inr opt \<and> processCommandArgs_argv [''repotools'', ''-dw'', ''/src'', ''scan''] opt = Inr opt'
    \<and> getValue ''work'' opt' = Inr (Some ''/src'', opt') \<and> getArgc opt' = 1 \<and> getArgv 0 opt' = Inr (Some ''scan'')"
proof -
  from tool_options_ok obtain opt where o: "tool_options = Inr opt" "fresh opt" "g_value_counter opt = 7"
    "long_entries opt = tool_long" "char_entries opt = tool_chars" by blast
  have l: "spec_line tool_long tool_chars 1 [''-dw'', ''/src'', ''scan''] = ([(3, ''true''), (6, ''/src'')], [3])"
    by code_simp
  have k: "lookup_slot ''work'' tool_long = Some 6" by code_simp
  have v: "apply_assigns [(3, ''true''), (6, ''/src'')] (replicate 7 None) ! 6 = Some ''/src''" by code_simp
  from option_line_refines_tables [OF o(2), of "[''repotools'', ''-dw'', ''/src'', ''scan'']"
      "[(3, ''true''), (6, ''/src'')]" "[3]"]
  obtain opt' where p: "processCommandArgs_argv [''repotools'', ''-dw'', ''/src'', ''scan''] opt = Inr opt'"
    "getArgc opt' = 1" and n: "\<forall>name. getValue name opt' = Inr (case lookup_slot name tool_long of None \<Rightarrow> None
      | Some k \<Rightarrow> apply_assigns [(3, ''true''), (6, ''/src'')] (replicate 7 None) ! k, opt')"
    and a: "\<forall>i. getArgv i opt' = Inr (if 0 \<le> i \<and> i < 1
      then Some ([''repotools'', ''-dw'', ''/src'', ''scan''] ! ([3] ! nat i)) else None)"
    unfolding o(3-5) list.sel l by auto
  from n have "getValue ''work'' opt' = Inr (Some ''/src'', opt')" by (simp only: k v option.case)
  moreover from a have "getArgv 0 opt' = Inr (Some ''scan'')" by (auto dest: spec [of _ 0])
  ultimately show ?thesis using o(1) p by blast
qed



text \<open>
  C19: In a line \<^verbatim>\<open>name:value\<close> without a blank the last character of the name is overwritten, so that two
  names that differ only there are the same option; and for a name of one character the search for its last
  character leaves the buffer.
\<close>

theorem option_file_loses_character:
  assumes "delimiter_char opt = CHR '':''" "CHR '':'' \<notin> set n" "c \<noteq> CHR '':''" "c' \<noteq> CHR '':''" "2 \<le> length v" "last v \<noteq> CHR '':''"
  shows "processLine (n @ c # CHR '':'' # v) opt = processLine (n @ c' # CHR '':'' # v) opt
    \<and> processLine (c # CHR '':'' # v) opt = Inl Out_Of_Bounds"
  using pair_loses_character [OF assms] short_name_faults [OF assms(1,3,5,6)] by blast

theorem option_file_loses_character_witness:
  "processLine ''width:10'' AnyOption = processLine ''widts:10'' AnyOption \<and> processLine ''h:10'' AnyOption = Inl Out_Of_Bounds"
  using option_file_loses_character [of AnyOption "''widt''" "CHR ''h''" "CHR ''s''" "''10''"]
  by (simp add: AnyOption_def init_option_def)

section \<open>The job system\<close>

text \<open>
  C20: Under every interleaving the counter is the number of jobs queued, taken or not yet
  subtracted, modulo \<open>2 ^ 32\<close>; no job is lost or run twice; and once the shutdown has returned
  every worker has left its loop.
\<close>

theorem job_counter_invariant:
  assumes "reachable n s"
  shows "pendingJobs s = word_of_nat (open_jobs s)
    \<and> mset (submitted s) = mset (workerJobQueue s) + in_flight s + mset (executed s)
    \<and> (main_pc s = M_Down \<longrightarrow> (\<forall>pc\<in>set (threadPool s). pc = W_Exit))"
  using reachable_job_inv [OF assms] shutdown_joins_all [OF assms] by (simp add: job_inv_def)

theorem job_counter_invariant_witness:
  "pendingJobs (initJobSystem 4 :: nat jobsys) = word_of_nat (open_jobs (initJobSystem 4 :: nat jobsys))"
proof -
  have "reachable 4 (initJobSystem 4 :: nat jobsys)" by (rule reachable_init)
  from job_counter_invariant [OF this] show ?thesis by blast
qed

text \<open>
  C21: With fewer than \<open>2 ^ 32\<close> jobs the counter does not wrap around: it is zero exactly when
  no job is queued, running or still to be subtracted, which is what the wait tests.
\<close>

theorem wait_test_is_exact:
  assumes "reachable n s" "length (submitted s) < 2 ^ 32"
  shows "pendingJobs s = 0 \<longleftrightarrow> open_jobs s = 0"
  by (rule pending_zero_iff [OF reachable_job_inv [OF assms(1)] assms(2)])

theorem wait_test_is_exact_witness:
  "pendingJobs (initJobSystem 4 :: nat jobsys) = 0 \<longleftrightarrow> open_jobs (initJobSystem 4 :: nat jobsys) = 0"
  by (rule wait_test_is_exact [OF reachable_init]) (simp add: initJobSystem_def)

text \<open>
  C22: After \<^verbatim>\<open>addJob\<close> for each job and \<^verbatim>\<open>waitForAllJobsFinished\<close> the results
  a command drains are the results of its jobs, each once, whatever the workers did in between.
\<close>

theorem batch_runs_every_job_once:
  assumes "reachable n s" "open_jobs s = 0" "is_batch js es s t"
    and "length (submitted s) + length js < 2 ^ 32"
  shows "mset (batch_results choice run s t) = mset (map run js)"
  by (rule batch_results_mset [OF assms])

theorem batch_runs_every_job_once_witness:
  "\<exists>es t. is_batch [2, 3 :: nat] es (initJobSystem 4) t
    \<and> mset (batch_results (\<lambda>_. 1) Suc (initJobSystem 4) t) = {#3, 4#}"
proof -
  have m: "main_pc (initJobSystem 4 :: nat jobsys) = M_Idle" by (simp add: initJobSystem_def)
  have r: "reachable 4 (initJobSystem 4 :: nat jobsys)" by (rule reachable_init)
  from batch_exists [OF r m, of "[2, 3]"] obtain es t where
    b: "is_batch [2, 3 :: nat] es (initJobSystem 4) t" by blast
  have "open_jobs (initJobSystem 4 :: nat jobsys) = 0" "submitted (initJobSystem 4 :: nat jobsys) = []"
    by (simp_all add: initJobSystem_def open_jobs_def in_flight_def undecremented_def)
  with batch_runs_every_job_once [OF r _ b, of "\<lambda>_. 1" Suc] b show ?thesis by auto
qed

text \<open>
  C23: A wait and a shutdown can always be completed: from every reachable state in the middle of
  a wait there is a run, without another call from outside, in which it returns, and likewise for
  the joins of the shutdown.
\<close>

theorem waits_and_joins_can_finish:
  assumes "reachable n s" "in_wait s \<or> joining s"
  shows "\<exists>es t. exec_events es s = Some t \<and> main_pc t = (if in_wait s then M_Idle else M_Down)
    \<and> (in_wait s \<longrightarrow> (\<forall>e\<in>set es. \<not> is_call e))"
proof (cases "in_wait s")
  case True
  with wait_completes [OF assms(1)] show ?thesis by auto
next
  case False
  with assms join_completes [OF assms(1)] show ?thesis by auto
qed

theorem waits_and_joins_can_finish_witness:
  "\<exists>s es t. shutdownJobSystem (initJobSystem 4 :: nat jobsys) = Some s
    \<and> exec_events es s = Some t \<and> main_pc t = M_Down"
proof -
  let ?s = "(initJobSystem 4 :: nat jobsys)\<lparr>quit := True, main_pc := M_Join 0\<rparr>"
  have c: "shutdownJobSystem (initJobSystem 4 :: nat jobsys) = Some ?s"
    by (simp add: shutdownJobSystem_def initJobSystem_def)
  then have r: "reachable 4 ?s"
    using reachable_step [OF reachable_init, of Call_Shutdown] by simp
  have j: "\<not> in_wait ?s" "joining ?s" by (simp_all add: in_wait_def joining_def)
  from waits_and_joins_can_finish [OF r] j c show ?thesis by auto
qed

section \<open>Calls of git\<close>

text \<open>
  C24: A call whose child starts and whose output ends with end of file returns exactly the bytes
  of the output up to its first zero byte; the returned flag says that the exit status is not zero,
  the opposite of what its name suggests.
\<close>

theorem call_returns_output:
  assumes "os = spawned launch p" "starts os" "fst (read_loop (stdout_reads os) []) = REPROC_STREAM_CLOSED"
  shows "callExecutable launch p
     = Inr (p\<lparr>call_output := c_str (stream_bytes (stdout_reads os))\<rparr>,
            (case waitpid_call os of Inr s \<Rightarrow> parse_exit_status s \<noteq> 0 | Inl _ \<Rightarrow> False))"
  by (rule call_ok [OF assms])

theorem call_returns_output_witness:
  "callExecutable (sample_spawn ''abc'') (git_params ''/r/'' [''pull''])
     = Inr ((git_params ''/r/'' [''pull''])\<lparr>call_output := ''abc'' @ [CHR 0x0A]\<rparr>, False)"
proof -
  have s: "starts (sample_os ''abc'')" by (simp add: starts_def sample_start)
  have o: "sample_os ''abc'' = spawned (sample_spawn ''abc'') (git_params ''/r/'' [''pull''])"
    by (simp add: spawned_eq sample_spawn_def)
  have r: "fst (read_loop (stdout_reads (sample_os ''abc'')) []) = REPROC_STREAM_CLOSED"
    by (simp add: sample_os_def pipe_read_def)
  have b: "stdout_reads (sample_os ''abc'') = [Read_Bytes (''abc'' @ [CHR 0x0A])]"
    "waitpid_call (sample_os ''abc'') = Inr (Exited 0)"
    by (simp_all add: sample_os_def)
  have e: "c_str (stream_bytes [Read_Bytes (''abc'' @ [CHR 0x0A])]) = ''abc'' @ [CHR 0x0A]"
    "parse_exit_status (Exited 0) = 0"
    by code_simp+
  show ?thesis using call_returns_output [OF o s r] unfolding b e by (simp add: e(2))
qed

text \<open>
  C25: When reading the output of a started child fails with anything but the end of the stream,
  the buffer is freed and then read: the call has no defined result.
\<close>

theorem call_read_error_uses_freed_buffer:
  assumes "os = spawned launch p" "starts os" "fst (read_loop (stdout_reads os) []) \<noteq> REPROC_STREAM_CLOSED"
  shows "callExecutable launch p = Inl Use_After_Free"
  by (rule call_read_error [OF assms])

theorem call_read_error_uses_freed_buffer_witness:
  "callExecutable (\<lambda>d as. (sample_os [])\<lparr>stdout_reads := [Read_Fails EINTR]\<rparr>) (git_params ''/r/'' [''pull''])
     = Inl Use_After_Free"
proof (rule call_read_error_uses_freed_buffer)
  let ?os = "(sample_os [])\<lparr>stdout_reads := [Read_Fails EINTR]\<rparr>"
  show "?os = spawned (\<lambda>d as. ?os) (git_params ''/r/'' [''pull''])" by (simp add: spawned_eq)
  show "starts ?os" by code_simp
  show "fst (read_loop (stdout_reads ?os) []) \<noteq> REPROC_STREAM_CLOSED" by (simp add: pipe_read_def)
qed





text \<open>
  C28: When the timer of a wait cannot be forked, the wait goes on without one and, once the child has ended,
  sends \<^verbatim>\<open>SIGTERM\<close> to the id -1, which is every process the user may signal.
\<close>

theorem lost_timer_signals_all_processes:
  assumes "child_pid p = Some pid" "pipes_open p" "timeout \<noteq> 0" "timeout \<noteq> 0xFFFFFFFF"
    and "wait_answers os = Inr (0, s0) # Inr (pid, s) # ws" "0 < pid"
    and "timers os = t # ts" "timer_pipe t = Inr fds" "timer_fork t = Inl e"
  shows "\<exists>r q os'. reproc_stop_with 1 timeout p os = Inr (r, q, os') \<and> signals os' = signals os @ [(- 1, SIGTERM)]"
  by (rule lost_timer_signals_everyone [OF assms])

theorem lost_timer_signals_all_processes_witness:
  "\<exists>r q os'. reproc_stop_with 1 500 sample_process (lost_timer EAGAIN) = Inr (r, q, os') \<and> signals os' = [(- 1, SIGTERM)]"
  using lost_timer_signals_all_processes [of sample_process 9 500 "lost_timer EAGAIN" "Exited 0" "Exited 0" "[]"]
  by (simp add: sample_process_def lost_timer_def pipes_open_def)

section \<open>JSON texts\<close>

text \<open>
  C29: A document without floats, with sorted keys, UTF-8 strings and each integer in the
  representation the parser picks is read back exactly from its serialization, compact or indented by
  at most 1024 columns, with or without ASCII escaping.
\<close>

theorem parse_inverts_dump:
  assumes "json_plain v" "0 \<le> sint indent \<Longrightarrow> unat indent \<le> 1024 \<and> json_depth v * unat indent < 2 ^ 32"
  shows "\<exists>doc. json_dump indent (CHR '' '') ascii Strict df v = Inr doc \<and> json_parse_c fin doc = Inr v"
  using json_parse_layout assms .

theorem parse_inverts_dump_witness:
  "\<exists>doc. json_dump 4 (CHR '' '') True Strict id (JObject [(''a'', JArray [JUnsigned 3, JString [CHR 0xC3, CHR 0xA4]])]) = Inr doc
    \<and> json_parse_c (\<lambda>_. True) doc = Inr (JObject [(''a'', JArray [JUnsigned 3, JString [CHR 0xC3, CHR 0xA4]])])"
  by (rule parse_inverts_dump) (code_simp, simp)





section \<open>The cache file and the reports\<close>

text \<open>
  C33: The cached list is read back as it was written, each path up to its first zero byte, and no
  other file changes.
\<close>

theorem cache_roundtrip:
  assumes "list_all (\<lambda>s. valid_utf8 (c_str s)) rs" "writable w cache_file"
  shows "\<exists>w'. saveGitRepositoriesToFile df rs w = (Inr (), w') \<and> console w' = console w
    \<and> (\<forall>n. n \<noteq> cache_file \<longrightarrow> files w' n = files w n)
    \<and> loadGitRepositoriesFromFile fin cache_file w' = (Inr (map c_str rs), w')"
  by (rule save_load [OF assms])

theorem cache_roundtrip_witness:
  "\<exists>w'. saveGitRepositoriesToFile id [''/r/a/'', ''/r/b/''] empty_world = (Inr (), w')
    \<and> loadGitRepositoriesFromFile (\<lambda>_. True) cache_file w' = (Inr [''/r/a/'', ''/r/b/''], w')"
proof -
  have c: "list_all (\<lambda>s. valid_utf8 (c_str s)) [''/r/a/'', ''/r/b/'']"
    "map c_str [''/r/a/'', ''/r/b/''] = [''/r/a/'', ''/r/b/'']" by code_simp+
  have "writable empty_world cache_file" by (simp add: empty_world_def)
  from cache_roundtrip [OF c(1) this, of id "\<lambda>_. True"] show ?thesis unfolding c(2) by blast
qed

text \<open>
  C34: \<^verbatim>\<open>removeNewlines\<close> removes the blanks, tabs, carriage returns and line feeds at both
  ends and nothing else, on every string shorter than the largest size.
\<close>

theorem newlines_are_trimmed:
  assumes "fits s"
  shows "removeNewlines s = Inr (trim s)"
  by (rule removeNewlines_trim [OF assms])

theorem newlines_are_trimmed_witness:
  "removeNewlines ([CHR 0x0A] @ ''a b'' @ [CHR 0x0D, CHR 0x0A]) = Inr ''a b''"
proof -
  have t: "trim ([CHR 0x0A] @ ''a b'' @ [CHR 0x0D, CHR 0x0A]) = ''a b''" by code_simp
  have "fits ([CHR 0x0A] @ ''a b'' @ [CHR 0x0D, CHR 0x0A])" by (simp add: fits_def)
  from newlines_are_trimmed [OF this] show ?thesis unfolding t .
qed


section \<open>Scanning directories\<close>



section \<open>Bit vectors\<close>

text \<open>
  C36: A bit vector is the list of its bits: appending, resizing to any size (where the count of new bits wraps
  around when the vector shrinks), inserting and erasing a range do on the words what they do on the list, and
  never touch a word outside the container.
\<close>

theorem bit_vector_is_a_list:
  assumes "bits_inv b" "length (bits b) < most_bits" "n \<le> most_bits" "p \<le> q" "q \<le> length (bits b)"
  shows "(\<exists>b'. bits_push_back v b = Inr b' \<and> bits b' = bits b @ [v] \<and> bits_inv b')
    \<and> (\<exists>b'. bits_resize_value n v b = Inr b' \<and> bits b' = take n (bits b) @ replicate (n - length (bits b)) v \<and> bits_inv b')
    \<and> (\<exists>b'. bits_insert (at_bit (int p)) v b = Inr (b', at_bit (int p)) \<and> bits b' = take p (bits b) @ v # drop p (bits b) \<and> bits_inv b')
    \<and> (\<exists>b'. bits_erase_range (at_bit (int p)) (at_bit (int q)) b = Inr b' \<and> bits b' = take p (bits b) @ drop q (bits b) \<and> bits_inv b')"
proof (intro conjI)
  show "\<exists>b'. bits_push_back v b = Inr b' \<and> bits b' = bits b @ [v] \<and> bits_inv b'"
    using bits_push_back [OF assms(1,2), of v] by blast
  show "\<exists>b'. bits_resize_value n v b = Inr b' \<and> bits b' = take n (bits b) @ replicate (n - length (bits b)) v \<and> bits_inv b'"
    using bits_resize_value [OF assms(1,3), of v] by (auto split: if_splits)
  show "\<exists>b'. bits_insert (at_bit (int p)) v b = Inr (b', at_bit (int p)) \<and> bits b' = take p (bits b) @ v # drop p (bits b) \<and> bits_inv b'"
    using bits_insert [OF assms(1,2) le_trans [OF assms(4,5)], of v] by blast
  show "\<exists>b'. bits_erase_range (at_bit (int p)) (at_bit (int q)) b = Inr b' \<and> bits b' = take p (bits b) @ drop q (bits b) \<and> bits_inv b'"
    using bits_erase_range [OF assms(1,4,5)] by blast
qed

theorem bit_vector_is_a_list_witness:
  "\<exists>b b'. bits b = replicate 70 True \<and> bits_erase_range (at_bit 3) (at_bit 66) b = Inr b' \<and> bits b' = replicate 7 True"
proof -
  have b: "bits (bits_new 70 True) = replicate 70 True" "bits_inv (bits_new 70 True)" using bits_new [of 70 True] by simp_all
  from bit_vector_is_a_list [OF b(2), of 80 3 66 False] obtain b' where
    "bits_erase_range (at_bit (int 3)) (at_bit (int 66)) (bits_new 70 True) = Inr b'"
    "bits b' = take 3 (bits (bits_new 70 True)) @ drop 66 (bits (bits_new 70 True))" unfolding b(1) by auto
  moreover have "take 3 (replicate 70 True) @ drop 66 (replicate 70 True) = replicate 7 True" by (simp flip: replicate_add)
  ultimately show ?thesis using b(1) by (intro exI [of _ "bits_new 70 True"] exI [of _ b']) simp
qed



section \<open>Vectors in storage\<close>

text \<open>
  C38: A vector in storage is the list of its objects: inserting one value (even one of its own), inserting copies of
  a range, assigning a value, erasing a range, shrinking the block and, for values from elsewhere, appending and resizing
  give the list the operation names. No object is lost, built over, used after its value moved away or left in
  released storage, and no other block changes.
\<close>

theorem vector_is_a_list:
  assumes "vector_in h v xs" "heap_ok h" "length xs < 2 ^ 62" "read_arg val h = Inr x" "p \<le> q" "q \<le> length xs"
    and "source_is h a zs" "fst a \<noteq> mpBegin v" "length zs < 2 ^ 62" "n < 2 ^ 62"
  shows "(\<exists>h' v'. vec_insert p val v h = Inr (p, v', h') \<and> becomes h v h' v' (take p xs @ x # drop p xs))
    \<and> (\<exists>h' v'. DoInsertFromIterator p a (length zs) v h = Inr (v', h') \<and> becomes h v h' v' (take p xs @ zs @ drop p xs))
    \<and> (\<exists>h' v'. DoAssignValues n val v h = Inr (v', h') \<and> becomes h v h' v' (replicate n x))
    \<and> (\<exists>h' v'. vec_erase_range p q v h = Inr (v', h') \<and> becomes h v h' v' (take p xs @ drop q xs))
    \<and> (\<exists>h' v'. shrink_to_fit v h = Inr (v', h') \<and> becomes h v h' v' xs \<and> mpCapacity v' = length xs)
    \<and> (outside v val \<longrightarrow> (\<exists>h' v'. pushBack val v h = Inr (v', h') \<and> becomes h v h' v' (xs @ [x]))
        \<and> (\<exists>h' v'. vec_resize n val v h = Inr (v', h') \<and> becomes h v h' v' (take n xs @ replicate (n - length xs) x)))"
proof -
  have p: "p \<le> length xs" and small: "length xs < 2 ^ 63" "n < 2 ^ 63" "length xs + length zs < 2 ^ 63"
    using assms by simp_all
  show ?thesis
    using vec_insert_ok [OF assms(1,2) small(1) assms(4) p] DoInsertFromIterator_ok [OF assms(1,2) small(3) assms(7,8) p]
      DoAssignValues_ok [OF assms(1,2,4), of n] vec_erase_range_ok [OF assms(1,2,5,6)] shrink_to_fit_ok [OF assms(1,2)]
      pushBack_ok [OF assms(1,2) small(1) assms(4)] vec_resize_ok [OF assms(1,2) small(1,2) assms(4)]
    by simp
qed

theorem vector_is_a_list_witness:
  "\<exists>h' v'. vec_insert 0 (At (1, 1)) full_vec (full_heap ''ab'') = Inr (0, v', h') \<and> vector_in h' v' ''bab''"
proof -
  have v: "vector_in (full_heap ''ab'') full_vec ''ab''" by (rule full_heap_in) simp
  have "read_arg (At (1, 1)) (full_heap ''ab'') = Inr (CHR ''b'')" by code_simp
  moreover have "source_is (full_heap ''ab'') (0, 0) []" by (simp add: source_is_def)
  ultimately have "\<exists>h' v'. vec_insert 0 (At (1, 1)) full_vec (full_heap ''ab'') = Inr (0, v', h')
      \<and> becomes (full_heap ''ab'') full_vec h' v' ''bab''"
    using vector_is_a_list [OF v full_heap_ok, where val = "At (1, 1)" and x = "CHR ''b''" and p = 0 and q = 0
        and a = "(0, 0)" and zs = "[]" and n = 0] by (simp add: full_vec_def)
  then show ?thesis by (auto simp: becomes_def)
qed

text \<open>
  C39: When a vector is full, \<^verbatim>\<open>pushBack\<close> of one of its own elements moves all elements to the new block
  first and then copies the element that was moved away; \<^verbatim>\<open>resize\<close> beyond the capacity does the same.
\<close>

theorem own_element_is_moved_first:
  assumes "vector_in h v xs" "heap_ok h" "i < length xs" "length xs = mpCapacity v" "mpCapacity v < n" "n < 2 ^ 63"
  shows "pushBack (At (mpBegin v, i)) v h = Inl Moved_From \<and> vec_resize n (At (mpBegin v, i)) v h = Inl Moved_From"
proof -
  have "mpEnd v = mpCapacity v" "length xs < 2 ^ 63" using assms(4-6) vector_length [OF assms(1)] by simp_all
  then show ?thesis
    using pushBack_own_element [OF assms(1,2) _ _ assms(3)] resize_own_element [OF assms(1,2,6,5,3)] by blast
qed

theorem own_element_is_moved_first_witness:
  "pushBack (At (1, 0)) full_vec (full_heap ''ab'') = Inl Moved_From"
proof -
  have v: "vector_in (full_heap ''ab'') full_vec ''ab''" by (rule full_heap_in) simp
  show ?thesis using own_element_is_moved_first [OF v full_heap_ok, of 0 3] by (simp add: full_vec_def)
qed

text \<open>
  C40: Appending values one after the other to an empty vector doubles the block each time it is full: for
  \<open>n\<close> values it allocates at most as many blocks as \<open>4 * n + 1\<close> has binary digits, less one.
\<close>

theorem appending_allocates_logarithmically:
  assumes "heap_ok h" "length xs < 2 ^ 63"
  shows "\<exists>h' v'. push_all xs empty_vec h = Inr (v', h') \<and> vector_in h' v' xs \<and> 2 ^ (next_block h' - next_block h) \<le> 4 * length xs + 1"
  using push_all_blocks [OF assms] by (auto simp: becomes_def)

theorem appending_allocates_logarithmically_witness:
  "\<exists>h' v'. push_all ''abcdef'' empty_vec (full_heap ''ab'') = Inr (v', h') \<and> vector_in h' v' ''abcdef'' \<and> 2 ^ (next_block h' - 2) \<le> (25 :: nat)"
  using appending_allocates_logarithmically [OF full_heap_ok [of "''ab''"], of "''abcdef''"] by (simp add: full_heap_def)

end
